(* ===== verification/Prelude.thy ===== *)
theory Prelude
  imports Main "HOL-Library.Char_ord" "HOL-Library.List_Lexorder" "HOL-Library.Product_Lexorder"
begin

text \<open>
  What the component theories share: the automation collections of the development, the
  pieces of the JavaScript standard library that the sources use (strings, insertion-ordered
  sets and objects, stable sorting), and the interface of a three-way comparison.

  A string is a list of characters, each character one UTF-16 code unit below 256; this covers
  every literal of the sources but for the em dash U+2014 and the apostrophe U+2019 in messages and
  descriptions, which are written with their Windows-1252 codes, \<open>dash\<close> and \<open>apos\<close>. Objects
  and \<open>Map\<close>s whose insertion order the code observes are association lists with distinct keys.
\<close>

section \<open>Automation collections\<close>

named_theorems js_simps \<open>evaluation rules for the JavaScript library functions\<close>
named_theorems cmp_simps \<open>facts about three-way comparisons\<close>
named_theorems inv_intros \<open>preservation of component invariants\<close>

section \<open>Fallible code\<close>

text \<open>A function that may throw returns a sum: \<open>Inl\<close> the thrown error, \<open>Inr\<close> the value.\<close>

type_synonym 'a result = "string + 'a"

definition bindE :: "'e + 'a \<Rightarrow> ('a \<Rightarrow> 'e + 'b) \<Rightarrow> 'e + 'b" where
  "bindE m k = (case m of Inl e \<Rightarrow> Inl e | Inr a \<Rightarrow> k a)"

lemma bindE_Inl [simp]: "bindE (Inl e) k = Inl e"
  by (simp add: bindE_def)

lemma bindE_Inr [simp]: "bindE (Inr a) k = k a"
  by (simp add: bindE_def)

lemma bindE_eq_Inr: "bindE m k = Inr b \<longleftrightarrow> (\<exists>a. m = Inr a \<and> k a = Inr b)"
  by (cases m) auto

lemma bindE_eq_Inl: "bindE m k = Inl e \<longleftrightarrow> m = Inl e \<or> (\<exists>a. m = Inr a \<and> k a = Inl e)"
  by (cases m) auto

section \<open>Characters and strings\<close>

abbreviation code :: "char \<Rightarrow> nat" where
  "code c \<equiv> of_char c"

definition is_digit :: "char \<Rightarrow> bool" where
  "is_digit c \<longleftrightarrow> 48 \<le> code c \<and> code c \<le> 57"

definition is_upper :: "char \<Rightarrow> bool" where
  "is_upper c \<longleftrightarrow> 65 \<le> code c \<and> code c \<le> 90"

definition is_lower :: "char \<Rightarrow> bool" where
  "is_lower c \<longleftrightarrow> 97 \<le> code c \<and> code c \<le> 122"

definition is_alnum :: "char \<Rightarrow> bool" where
  "is_alnum c \<longleftrightarrow> is_digit c \<or> is_upper c \<or> is_lower c"

text \<open>The class \<open>\s\<close>, which is also what \<open>trim\<close> removes, on code units below 256.\<close>

definition is_space :: "char \<Rightarrow> bool" where
  "is_space c \<longleftrightarrow> (9 \<le> code c \<and> code c \<le> 13) \<or> code c = 32 \<or> code c = 160"

text \<open>ASCII case folding, as the \<open>i\<close> flag of a regular expression does it.\<close>

definition ascii_lower :: "char \<Rightarrow> char" where
  "ascii_lower c = (if is_upper c then char_of (code c + 32) else c)"

definition ascii_upper :: "char \<Rightarrow> char" where
  "ascii_upper c = (if is_lower c then char_of (code c - 32) else c)"

lemmas char_class_defs [js_simps] =
  is_digit_def is_upper_def is_lower_def is_alnum_def is_space_def

definition trim :: "string \<Rightarrow> string" where
  "trim s = rev (dropWhile is_space (rev (dropWhile is_space s)))"

lemma trim_Nil [simp]: "trim [] = []"
  by (simp add: trim_def)

lemma trim_id:
  assumes "s = [] \<or> (\<not> is_space (hd s) \<and> \<not> is_space (last s))"
  shows "trim s = s"
proof (cases "s = []")
  case False
  with assms have h: "\<not> is_space (hd s)" and l: "\<not> is_space (last s)" by auto
  from False h have 1: "dropWhile is_space s = s" by (cases s) auto
  from False have "rev s = last s # rev (butlast s)"
    by (metis append_butlast_last_id rev_eq_Cons_iff rev_rev_ident)
  then have 2: "dropWhile is_space (rev s) = rev s" using l
    by (metis dropWhile.simps(2))
  with 1 2 show ?thesis by (simp add: trim_def)
qed simp

text \<open>\<open>s.startsWith(p)\<close>, \<open>s.endsWith(p)\<close>.\<close>

fun starts_with :: "string \<Rightarrow> string \<Rightarrow> bool" where
  "starts_with [] s = True"
| "starts_with (p # ps) [] = False"
| "starts_with (p # ps) (c # s) = (p = c \<and> starts_with ps s)"

definition ends_with :: "string \<Rightarrow> string \<Rightarrow> bool" where
  "ends_with p s = starts_with (rev p) (rev s)"

lemma starts_with_append [simp]: "starts_with p (p @ s)"
  by (induction p) auto

lemma starts_with_iff: "starts_with p s \<longleftrightarrow> (\<exists>t. s = p @ t)"
  by (induction p s rule: starts_with.induct) auto

lemma ends_with_iff: "ends_with p s \<longleftrightarrow> (\<exists>t. s = t @ p)"
proof
  assume "ends_with p s"
  then obtain t where "rev s = rev p @ t" by (auto simp: ends_with_def starts_with_iff)
  then have "s = rev t @ p" by (metis rev_append rev_rev_ident)
  then show "\<exists>t. s = t @ p" ..
qed (auto simp: ends_with_def starts_with_iff)

text \<open>\<open>s.split(sep)\<close> for a non-empty separator string; \<open>acc\<close> holds the current field reversed.\<close>

function split_sub :: "string \<Rightarrow> string \<Rightarrow> string \<Rightarrow> string list" where
  "split_sub sep acc [] = [rev acc]"
| "split_sub sep acc (c # s) =
     (if sep \<noteq> [] \<and> starts_with sep (c # s)
      then rev acc # split_sub sep [] (drop (length sep) (c # s))
      else split_sub sep (c # acc) s)"
  by pat_completeness auto
termination
  by (relation "measure (\<lambda>(sep, acc, s). length s)") auto

definition split_str :: "string \<Rightarrow> string \<Rightarrow> string list" where
  "split_str sep s = split_sub sep [] s"

text \<open>\<open>s.split(/[\<dots>]+/).filter(Boolean)\<close>: the maximal runs free of separator characters.\<close>

function tokens :: "(char \<Rightarrow> bool) \<Rightarrow> string \<Rightarrow> string list" where
  "tokens p s =
     (case dropWhile p s of
        [] \<Rightarrow> []
      | c # cs \<Rightarrow> (c # takeWhile (\<lambda>x. \<not> p x) cs) # tokens p (dropWhile (\<lambda>x. \<not> p x) cs))"
  by pat_completeness auto
termination
proof (relation "measure (\<lambda>(p, s). length s)")
  fix p :: "char \<Rightarrow> bool" and s c cs
  assume "dropWhile p s = c # cs"
  then have "length (c # cs) \<le> length s" by (metis length_dropWhile_le)
  moreover have "length (dropWhile (\<lambda>x. \<not> p x) cs) \<le> length cs" by (rule length_dropWhile_le)
  ultimately show "((p, dropWhile (\<lambda>x. \<not> p x) cs), p, s) \<in> measure (\<lambda>(p, s). length s)" by simp
qed simp

declare tokens.simps [simp del]

lemma tokens_single:
  assumes "s \<noteq> []" and "\<forall>c \<in> set s. \<not> p c"
  shows "tokens p s = [s]"
proof -
  from assms obtain c cs where s: "s = c # cs" and c: "\<not> p c" and cs: "\<forall>x \<in> set cs. \<not> p x"
    by (cases s) auto
  have "takeWhile (\<lambda>x. \<not> p x) cs = cs" using cs by (simp add: takeWhile_eq_all_conv)
  moreover have "dropWhile (\<lambda>x. \<not> p x) cs = []" using cs by (simp add: dropWhile_eq_Nil_conv)
  moreover have "tokens p [] = []" by (simp add: tokens.simps [of p "[]"])
  moreover have "tokens p (c # cs) = (c # takeWhile (\<lambda>x. \<not> p x) cs) # tokens p (dropWhile (\<lambda>x. \<not> p x) cs)"
    using c by (simp add: tokens.simps [of p "c # cs"])
  ultimately show ?thesis unfolding s by metis
qed

abbreviation dash :: string where "dash \<equiv> [CHR 0x97]"
abbreviation apos :: string where "apos \<equiv> [CHR 0x92]"

text \<open>A string between double quotes, as the message templates print it.\<close>

definition quoted :: "string \<Rightarrow> string" where
  "quoted s = [CHR 0x22] @ s @ [CHR 0x22]"

text \<open>\<open>arr.join(sep)\<close>.\<close>

fun join :: "string \<Rightarrow> string list \<Rightarrow> string" where
  "join sep [] = []"
| "join sep [s] = s"
| "join sep (s # t # ss) = s @ sep @ join sep (t # ss)"

section \<open>Insertion-ordered sets and objects\<close>

text \<open>\<open>[...new Set(xs)]\<close>: first occurrences, in order.\<close>

fun dedup_from :: "'a list \<Rightarrow> 'a list \<Rightarrow> 'a list" where
  "dedup_from seen [] = []"
| "dedup_from seen (x # xs) =
     (if x \<in> set seen then dedup_from seen xs else x # dedup_from (x # seen) xs)"

definition dedup :: "'a list \<Rightarrow> 'a list" where
  "dedup xs = dedup_from [] xs"

lemma set_dedup_from: "set (dedup_from seen xs) = set xs - set seen"
  by (induction xs arbitrary: seen) auto

lemma distinct_dedup_from: "distinct (dedup_from seen xs)"
  by (induction xs arbitrary: seen) (auto simp: set_dedup_from)

lemma set_dedup [simp]: "set (dedup xs) = set xs"
  by (simp add: dedup_def set_dedup_from)

lemma distinct_dedup [simp]: "distinct (dedup xs)"
  by (simp add: dedup_def distinct_dedup_from)

lemma dedup_from_id: "distinct xs \<Longrightarrow> set xs \<inter> set seen = {} \<Longrightarrow> dedup_from seen xs = xs"
  by (induction xs arbitrary: seen) auto

lemma dedup_id: "distinct xs \<Longrightarrow> dedup xs = xs"
  by (simp add: dedup_def dedup_from_id)

text \<open>
  \<open>m.set(k, v)\<close> on a \<open>Map\<close> and \<open>o[k] = v\<close> on an object: an existing key keeps its place, a new
  one goes last. \<open>m.delete(k)\<close> drops the entry.
\<close>

fun put :: "'k \<Rightarrow> 'v \<Rightarrow> ('k \<times> 'v) list \<Rightarrow> ('k \<times> 'v) list" where
  "put k v [] = [(k, v)]"
| "put k v ((k', v') # m) = (if k = k' then (k, v) # m else (k', v') # put k v m)"

definition del :: "'k \<Rightarrow> ('k \<times> 'v) list \<Rightarrow> ('k \<times> 'v) list" where
  "del k m = filter (\<lambda>e. fst e \<noteq> k) m"

abbreviation keys :: "('k \<times> 'v) list \<Rightarrow> 'k list" where
  "keys m \<equiv> map fst m"

abbreviation wf_obj :: "('k \<times> 'v) list \<Rightarrow> bool" where
  "wf_obj m \<equiv> distinct (keys m)"

lemma map_of_put [simp]: "map_of (put k v m) = (map_of m)(k \<mapsto> v)"
  by (induction m) (auto simp: fun_eq_iff)

lemma set_keys_put [simp]: "fst ` set (put k v m) = insert k (fst ` set m)"
proof (induction m)
  case (Cons e m)
  then show ?case by (cases e) (simp add: insert_commute)
qed simp

lemma wf_put [inv_intros]: "wf_obj m \<Longrightarrow> wf_obj (put k v m)"
proof (induction m)
  case (Cons e m)
  then show ?case by (cases e) simp
qed simp

lemma map_of_del [simp]: "map_of (del k m) = (map_of m)(k := None)"
proof (induction m)
  case (Cons e m)
  then show ?case by (cases e) (simp add: del_def fun_eq_iff)
qed (simp add: del_def)

lemma keys_del [simp]: "keys (del k m) = filter (\<lambda>x. x \<noteq> k) (keys m)"
  by (simp add: del_def filter_map comp_def)

lemma wf_del [inv_intros]: "wf_obj m \<Longrightarrow> wf_obj (del k m)"
  by simp

lemma put_new: "k \<notin> set (keys m) \<Longrightarrow> put k v m = m @ [(k, v)]"
  by (induction m) auto

section \<open>Three-way comparison\<close>

text \<open>
  The contract of a comparator \<open>(a, b) => number\<close> that \<open>sort\<close> and \<open>reduce\<close> rely on: the
  sign flips when the arguments are exchanged and "not greater" is transitive.
\<close>

locale comparator =
  fixes cmp :: "'a \<Rightarrow> 'a \<Rightarrow> int"
  assumes cmp_swap: "cmp b a = - cmp a b"
    and cmp_trans: "cmp a b \<le> 0 \<Longrightarrow> cmp b c \<le> 0 \<Longrightarrow> cmp a c \<le> 0"
begin

lemma cmp_refl: "cmp a a = 0"
  using cmp_swap [of a a] by simp

lemma cmp_total: "cmp a b \<le> 0 \<or> cmp b a \<le> 0"
  using cmp_swap [of a b] by linarith

lemma cmp_eq_trans: "cmp a b = 0 \<Longrightarrow> cmp b c = 0 \<Longrightarrow> cmp a c = 0"
  using cmp_trans [of a b c] cmp_trans [of c b a] cmp_swap [of a b] cmp_swap [of b c]
    cmp_swap [of a c] by simp

lemma cmp_less_trans: "cmp a b < 0 \<Longrightarrow> cmp b c \<le> 0 \<Longrightarrow> cmp a c < 0"
  using cmp_trans [of a b c] cmp_trans [of b c a] cmp_swap [of a b] cmp_swap [of a c]
  by (metis (no_types, lifting) linorder_not_less minus_less_iff neg_0_le_iff_le neg_le_0_iff_le
      order_less_le)

text \<open>\<open>xs.reduce((best, next) => gt(next, best) ? next : best)\<close> returns a maximum.\<close>

lemma fold_max_in:
  "fold (\<lambda>nxt best. if cmp nxt best > 0 then nxt else best) xs x \<in> insert x (set xs)"
  by (induction xs arbitrary: x) auto

lemma fold_max_ge_start:
  "cmp x (fold (\<lambda>nxt best. if cmp nxt best > 0 then nxt else best) xs x) \<le> 0"
proof (induction xs arbitrary: x)
  case Nil
  then show ?case by (simp add: cmp_refl)
next
  case (Cons y ys)
  show ?case
  proof (cases "cmp y x > 0")
    case True
    then have "cmp x y \<le> 0" using cmp_swap [of x y] by simp
    with Cons [of y] True show ?thesis by (auto intro: cmp_trans)
  next
    case False
    with Cons [of x] show ?thesis by simp
  qed
qed

lemma fold_max_ge:
  "y \<in> set xs \<Longrightarrow>
   cmp y (fold (\<lambda>nxt best. if cmp nxt best > 0 then nxt else best) xs x) \<le> 0"
proof (induction xs arbitrary: x)
  case (Cons z zs)
  show ?case
  proof (cases "y = z")
    case True
    have "cmp z (if cmp z x > 0 then z else x) \<le> 0" by (simp add: cmp_refl)
    from cmp_trans [OF this fold_max_ge_start] True show ?thesis by simp
  next
    case False
    with Cons show ?thesis by simp
  qed
qed simp

end

text \<open>The comparator of a linear order.\<close>

definition ord3 :: "'a::linorder \<Rightarrow> 'a \<Rightarrow> int" where
  "ord3 x y = (if x < y then -1 else if x = y then 0 else 1)"

lemma ord3_iff [cmp_simps]:
  "ord3 x y < 0 \<longleftrightarrow> x < y" "ord3 x y = 0 \<longleftrightarrow> x = y" "ord3 x y > 0 \<longleftrightarrow> y < x"
  "ord3 x y \<le> 0 \<longleftrightarrow> x \<le> y" "ord3 x y \<ge> 0 \<longleftrightarrow> y \<le> x"
  by (auto simp: ord3_def)

interpretation ord3: comparator "\<lambda>x y. ord3 (f x) (f y)" for f :: "'b \<Rightarrow> 'a::linorder"
  by unfold_locales (auto simp: ord3_def split: if_splits)

section \<open>Stable sorting\<close>

text \<open>
  \<open>xs.sort(cmp)\<close>: stable, and with a consistent comparator determined by that. Insertion keeps
  an element behind the earlier ones it does not precede.
\<close>

fun insert_by :: "('a \<Rightarrow> 'a \<Rightarrow> int) \<Rightarrow> 'a \<Rightarrow> 'a list \<Rightarrow> 'a list" where
  "insert_by cmp x [] = [x]"
| "insert_by cmp x (y # ys) = (if cmp x y \<le> 0 then x # y # ys else y # insert_by cmp x ys)"

definition sort_by :: "('a \<Rightarrow> 'a \<Rightarrow> int) \<Rightarrow> 'a list \<Rightarrow> 'a list" where
  "sort_by cmp xs = foldr (insert_by cmp) xs []"

text \<open>\<open>xs.sort()\<close> on strings: by code units.\<close>

definition sort_str :: "string list \<Rightarrow> string list" where
  "sort_str xs = sort_by ord3 xs"

lemma set_insert_by [simp]: "set (insert_by cmp x xs) = insert x (set xs)"
  by (induction xs) auto

lemma length_insert_by [simp]: "length (insert_by cmp x xs) = Suc (length xs)"
  by (induction xs) auto

lemma distinct_insert_by: "distinct (x # xs) \<Longrightarrow> distinct (insert_by cmp x xs)"
  by (induction xs) auto

lemma set_sort_by [simp]: "set (sort_by cmp xs) = set xs"
  by (induction xs) (auto simp: sort_by_def)

lemma length_sort_by [simp]: "length (sort_by cmp xs) = length xs"
  by (induction xs) (auto simp: sort_by_def)

lemma distinct_sort_by: "distinct xs \<Longrightarrow> distinct (sort_by cmp xs)"
proof (induction xs)
  case (Cons x xs)
  then have "distinct (x # sort_by cmp xs)" by simp
  from distinct_insert_by [OF this] show ?case by (simp add: sort_by_def)
qed (simp add: sort_by_def)

lemma set_sort_str [simp]: "set (sort_str xs) = set xs"
  by (simp add: sort_str_def)

context comparator
begin

lemma sorted_insert_by:
  "sorted_wrt (\<lambda>a b. cmp a b \<le> 0) xs \<Longrightarrow> sorted_wrt (\<lambda>a b. cmp a b \<le> 0) (insert_by cmp x xs)"
proof (induction xs)
  case (Cons y ys)
  show ?case
  proof (cases "cmp x y \<le> 0")
    case True
    with Cons.prems show ?thesis by (auto intro: cmp_trans)
  next
    case False
    then have "cmp y x \<le> 0" using cmp_swap [of x y] by simp
    with Cons False show ?thesis by auto
  qed
qed simp

lemma sorted_sort_by: "sorted_wrt (\<lambda>a b. cmp a b \<le> 0) (sort_by cmp xs)"
  by (induction xs) (auto simp: sort_by_def intro: sorted_insert_by)

end

end
