(* ===== verification/JsNum.thy ===== *)
theory JsNum
  imports Prelude "HOL-Library.Extended_Nat"
begin

text \<open>
  The non-negative integers of JavaScript's \<open>number\<close>, as the sources get them: \<open>Number(s)\<close> of a
  string of decimal digits, addition of one, comparison and printing.

  A \<open>number\<close> is an IEEE double. \<open>round53\<close> is its rounding of an integer (53 significant bits,
  ties to even), a value of 2^1024 or more is \<open>Infinity\<close>. Printing uses the shortest decimal that
  reads back as the same double, and the exponent form from 10^21 on.
\<close>

section \<open>Rounding to a double\<close>

fun nat_bits :: "nat \<Rightarrow> nat" where
  "nat_bits n = (if n = 0 then 0 else Suc (nat_bits (n div 2)))"

declare nat_bits.simps [simp del]

definition round53 :: "nat \<Rightarrow> nat" where
  "round53 n =
     (if n < 2 ^ 53 then n
      else let k = nat_bits n - 53; q = n div 2 ^ k; r = n mod 2 ^ k; half = 2 ^ (k - 1) in
        if r > half \<or> (r = half \<and> odd q) then (q + 1) * 2 ^ k else q * 2 ^ k)"

definition to_number :: "nat \<Rightarrow> enat" where
  "to_number n = (let r = round53 n in if r < 2 ^ 1024 then enat r else \<infinity>)"

text \<open>A natural number that is exactly a double.\<close>

definition is_double :: "nat \<Rightarrow> bool" where
  "is_double n \<longleftrightarrow> round53 n = n"

lemma nat_bits_le: "nat_bits n \<le> b \<longleftrightarrow> n < 2 ^ b"
proof (induction n arbitrary: b rule: nat_bits.induct)
  case (1 n)
  show ?case
  proof (cases "n = 0")
    case True
    then show ?thesis by (simp add: nat_bits.simps [of 0])
  next
    case False
    then have e: "nat_bits n = Suc (nat_bits (n div 2))" by (simp add: nat_bits.simps [of n])
    show ?thesis
    proof (cases b)
      case 0
      with e False show ?thesis by simp
    next
      case (Suc c)
      with e "1" [OF False, of c] show ?thesis by (simp add: div_less_iff_less_mult mult.commute)
    qed
  qed
qed

lemma round53_small: "n < 2 ^ 53 \<Longrightarrow> round53 n = n"
  by (simp add: round53_def)

lemma round53_scaled:
  assumes "m \<le> 2 ^ 53"
  shows "round53 (m * 2 ^ k) = m * 2 ^ k"
proof (cases "m * 2 ^ k < 2 ^ 53")
  case True
  then show ?thesis by (rule round53_small)
next
  case False
  define n where "n = m * 2 ^ k"
  define j where "j = nat_bits n - 53"
  have "2 ^ j dvd n"
  proof (cases "m = 2 ^ 53")
    case True
    have "n < 2 ^ (54 + k)" using True by (simp add: n_def power_add)
    then have "j \<le> Suc k" using nat_bits_le [of n "54 + k"] by (simp add: j_def)
    moreover have "n = 2 ^ (53 + k)" using True by (simp add: n_def power_add)
    then have "(2::nat) ^ Suc k dvd n" using le_imp_power_dvd [of "Suc k" "53 + k" "2::nat"] by simp
    ultimately show ?thesis by (metis dvd_trans le_imp_power_dvd)
  next
    case False
    with assms have "m < 2 ^ 53" by simp
    then have "n < 2 ^ (53 + k)" by (simp add: n_def power_add)
    then have "j \<le> k" using nat_bits_le [of n "53 + k"] by (simp add: j_def)
    then have "(2::nat) ^ j dvd 2 ^ k" by (rule le_imp_power_dvd)
    then show ?thesis by (simp add: n_def)
  qed
  then have "n mod 2 ^ j = 0" and "n div 2 ^ j * 2 ^ j = n" by auto
  then have "round53 n = n"
    by (simp add: round53_def Let_def flip: j_def)
  then show ?thesis by (simp add: n_def)
qed

lemma round53_form: "\<exists>m k. round53 n = m * 2 ^ k \<and> m \<le> 2 ^ 53"
proof (cases "n < 2 ^ 53")
  case True
  then show ?thesis by (intro exI [of _ n] exI [of _ 0]) (simp add: round53_small)
next
  case False
  define j where "j = nat_bits n - 53"
  have "nat_bits n > 53" using False nat_bits_le [of n 53] by (meson not_le)
  then have "nat_bits n = 53 + j" by (simp add: j_def)
  then have "n < 2 ^ (53 + j)" using nat_bits_le [of n "53 + j"] by simp
  then have "n div 2 ^ j < 2 ^ 53" by (simp add: div_less_iff_less_mult power_add)
  then have q: "n div 2 ^ j + 1 \<le> 2 ^ 53" and q': "n div 2 ^ j \<le> 2 ^ 53" by simp_all
  show ?thesis
  proof (cases "n mod 2 ^ j > 2 ^ (j - 1) \<or> (n mod 2 ^ j = 2 ^ (j - 1) \<and> odd (n div 2 ^ j))")
    case True
    then have "round53 n = (n div 2 ^ j + 1) * 2 ^ j"
      using False unfolding round53_def Let_def j_def [symmetric] by (simp only: if_True if_False)
    with q show ?thesis by blast
  next
    case nr: False
    then have "round53 n = n div 2 ^ j * 2 ^ j"
      using False unfolding round53_def Let_def j_def [symmetric] by (simp only: if_True if_False)
    with q' show ?thesis by blast
  qed
qed

lemma is_double_round53 [simp]: "is_double (round53 n)"
  using round53_form [of n] round53_scaled by (metis is_double_def)

lemma is_double_small: "n < 2 ^ 53 \<Longrightarrow> is_double n"
  by (simp add: is_double_def round53_small)

lemma to_number_small: "n < 2 ^ 53 \<Longrightarrow> to_number n = enat n"
proof -
  assume n: "n < 2 ^ 53"
  have "(2::nat) ^ 53 \<le> 2 ^ 1024" by (rule power_increasing) simp_all
  with n show ?thesis by (simp add: to_number_def round53_small Let_def)
qed

section \<open>Decimal digits\<close>

definition dec_val :: "string \<Rightarrow> nat" where
  "dec_val s = foldl (\<lambda>a c. 10 * a + (code c - 48)) 0 s"

definition digit_char :: "nat \<Rightarrow> char" where
  "digit_char d = char_of (48 + d)"

fun show_nat :: "nat \<Rightarrow> string" where
  "show_nat n = (if n < 10 then [digit_char n] else show_nat (n div 10) @ [digit_char (n mod 10)])"

declare show_nat.simps [simp del]

lemma code_digit_char [simp]: "d < 10 \<Longrightarrow> code (digit_char d) = 48 + d"
  by (simp add: digit_char_def of_char_of take_bit_eq_mod)

lemma is_digit_digit_char [simp]: "d < 10 \<Longrightarrow> is_digit (digit_char d)"
  by (simp add: is_digit_def)

definition show_int :: "int \<Rightarrow> string" where
  "show_int i = (if i < 0 then ''-'' @ show_nat (nat (- i)) else show_nat (nat i))"

lemma digit_char_eval [js_simps]:
  "digit_char 0 = CHR ''0''" "digit_char (Suc 0) = CHR ''1''" "digit_char 1 = CHR ''1''"
  "digit_char 2 = CHR ''2''" "digit_char 3 = CHR ''3''" "digit_char 4 = CHR ''4''"
  "digit_char 5 = CHR ''5''" "digit_char 6 = CHR ''6''" "digit_char 7 = CHR ''7''"
  "digit_char 8 = CHR ''8''" "digit_char 9 = CHR ''9''"
  by code_simp+

lemma show_nat_eval [js_simps]:
  "show_nat 0 = ''0''" "show_nat (Suc 0) = ''1''"
  "show_nat (numeral k) = (if numeral k < (10::nat) then [digit_char (numeral k)]
     else show_nat (numeral k div 10) @ [digit_char (numeral k mod 10)])"
  by (simp_all add: show_nat.simps [of "numeral k"] show_nat.simps [of 0] show_nat.simps [of "Suc 0"]
      digit_char_eval)

lemma nat_bits_eval [js_simps]:
  "nat_bits 0 = 0" "nat_bits (Suc 0) = 1"
  "nat_bits (numeral k) = Suc (nat_bits (numeral k div 2))"
  by (simp_all add: nat_bits.simps [of "numeral k"] nat_bits.simps [of 0] nat_bits.simps [of "Suc 0"])

lemma show_nat_digits: "\<forall>c \<in> set (show_nat n). is_digit c"
proof (induction n rule: show_nat.induct)
  case (1 n)
  then show ?case by (cases "n < 10") (simp_all add: show_nat.simps [of n])
qed

lemma show_nat_nonempty [simp]: "show_nat n \<noteq> []"
  by (cases "n < 10") (simp_all add: show_nat.simps [of n])

lemma dec_val_show_nat [simp]: "dec_val (show_nat n) = n"
proof (induction n rule: show_nat.induct)
  case (1 n)
  show ?case
  proof (cases "n < 10")
    case True
    then show ?thesis by (simp add: show_nat.simps [of n] dec_val_def)
  next
    case False
    with "1" have "dec_val (show_nat (n div 10)) = n div 10" by simp
    then have "foldl (\<lambda>a c. 10 * a + (code c - 48)) 0 (show_nat (n div 10)) = n div 10"
      by (simp add: dec_val_def)
    with False show ?thesis
      by (simp add: show_nat.simps [of n] dec_val_def)
  qed
qed

text \<open>\<open>Number(s)\<close> for a string of digits (the sources only convert what \<open>\d+\<close> matched).\<close>

definition number_of_digits :: "string \<Rightarrow> enat" where
  "number_of_digits s = to_number (dec_val s)"

text \<open>\<open>n + 1\<close> on doubles.\<close>

definition num_succ :: "enat \<Rightarrow> enat" where
  "num_succ x = (case x of enat n \<Rightarrow> to_number (n + 1) | \<infinity> \<Rightarrow> \<infinity>)"

section \<open>Printing\<close>

text \<open>
  The shortest decimal that rounds to \<open>n\<close>: multiples of the largest power of ten that has one,
  the nearer of the two neighbours where both do.
\<close>

fun shortest_from :: "nat \<Rightarrow> nat \<Rightarrow> nat" where
  "shortest_from 0 n = n"
| "shortest_from (Suc k) n =
     (let lo = n div 10 ^ Suc k * 10 ^ Suc k; hi = lo + 10 ^ Suc k in
      if round53 lo = n \<and> (round53 hi \<noteq> n \<or> n - lo \<le> hi - n) then lo
      else if round53 hi = n then hi
      else shortest_from k n)"

definition shortest :: "nat \<Rightarrow> nat" where
  "shortest n = shortest_from (length (show_nat n)) n"

lemma round53_shortest_from: "is_double n \<Longrightarrow> round53 (shortest_from k n) = n"
  by (induction k) (auto simp: is_double_def Let_def)

lemma round53_shortest: "is_double n \<Longrightarrow> round53 (shortest n) = n"
  by (simp add: shortest_def round53_shortest_from)

fun drop_zeros :: "string \<Rightarrow> string" where
  "drop_zeros s = rev (dropWhile (\<lambda>c. c = CHR ''0'') (rev s))"

definition exp_form :: "nat \<Rightarrow> string" where
  "exp_form m =
     (let ds = show_nat m; e = length ds - 1 in
      case drop_zeros ds of
        [] \<Rightarrow> ''0''
      | [d] \<Rightarrow> d # ''e+'' @ show_nat e
      | d # fs \<Rightarrow> d # CHR ''.'' # fs @ ''e+'' @ show_nat e)"

definition num_to_string :: "enat \<Rightarrow> string" where
  "num_to_string x =
     (case x of
        \<infinity> \<Rightarrow> ''Infinity''
      | enat n \<Rightarrow> if n < 10 ^ 21 then show_nat (shortest n) else exp_form (shortest n))"

lemma shortest_small:
  assumes "n < 2 ^ 53"
  shows "shortest n = n"
proof -
  have "shortest_from k n = n" for k
  proof (induction k)
    case (Suc k)
    let ?lo = "n div 10 ^ Suc k * 10 ^ Suc k"
    have lo: "?lo \<le> n" by (rule div_times_less_eq_dividend)
    then have "?lo < 2 ^ 53" using assms by (rule le_less_trans)
    then have rlo: "round53 ?lo = ?lo" by (rule round53_small)
    have hi: "n < ?lo + 10 ^ Suc k"
      by (metis div_mult_mod_eq add_less_cancel_left mod_less_divisor zero_less_numeral zero_less_power)
    have rhi: "round53 (?lo + 10 ^ Suc k) \<noteq> n"
    proof (cases "?lo + 10 ^ Suc k < 2 ^ 53")
      case True
      with hi show ?thesis by (simp add: round53_small)
    next
      case big: False
      show ?thesis
      proof
        assume "round53 (?lo + 10 ^ Suc k) = n"
        moreover have "2 ^ 53 \<le> round53 x" if "\<not> x < 2 ^ 53" for x
        proof -
          define j where "j = nat_bits x - 53"
          have "nat_bits x > 53" using that nat_bits_le [of x 53] by (meson not_le)
          then have "\<not> nat_bits x \<le> 52 + j" unfolding j_def by linarith
          then have "\<not> x < 2 ^ (52 + j)" unfolding nat_bits_le .
          then have "2 ^ 52 \<le> x div 2 ^ j"
            by (simp add: less_eq_div_iff_mult_less_eq power_add)
          then have "2 ^ 52 * 2 ^ j \<le> x div 2 ^ j * 2 ^ j" by (rule mult_right_mono) simp
          moreover have "(2::nat) ^ 53 \<le> 2 ^ 52 * 2 ^ j"
          proof -
            obtain i where "j = Suc i" using \<open>nat_bits x > 53\<close> by (cases j) (auto simp: j_def)
            then show ?thesis by simp
          qed
          moreover have "x div 2 ^ j * 2 ^ j \<le> round53 x"
            using that unfolding round53_def Let_def j_def [symmetric] by auto
          ultimately show ?thesis by (meson le_trans)
        qed
        ultimately show False using big assms by (metis not_less)
      qed
    qed
    show ?case using Suc rlo rhi by (auto simp: Let_def)
  qed simp
  then show ?thesis by (simp add: shortest_def)
qed

lemma num_to_string_small: "n < 2 ^ 53 \<Longrightarrow> num_to_string (enat n) = show_nat n"
  by (simp add: num_to_string_def shortest_small)

text \<open>Below 10^21 the printed form is a digit string that reads back as the same number.\<close>

lemma number_of_digits_num_to_string:
  assumes "is_double n" and "n < 10 ^ 21"
  shows "number_of_digits (num_to_string (enat n)) = enat n"
proof -
  have "(10::nat) ^ 21 \<le> 2 ^ 1024"
  proof -
    have "(10::nat) ^ 21 \<le> 2 ^ 70" by simp
    also have "(2::nat) ^ 70 \<le> 2 ^ 1024" by (rule power_increasing) simp_all
    finally show ?thesis .
  qed
  with assms(2) have "n < 2 ^ 1024" by (rule less_le_trans)
  with assms show ?thesis
    by (simp add: num_to_string_def number_of_digits_def to_number_def round53_shortest Let_def)
qed

end
