(* ===== verification/SemVer.thy ===== *)
theory SemVer
  imports JsNum
begin

text \<open>
  \<open>backend/src/platform/semver.ts\<close>: parsing, precedence, classification and ranges of semantic
  versions. \<open>parseOrThrow\<close> throws, so whatever calls it returns a \<open>result\<close>; \<open>compareV\<close> is the
  body of \<open>compare\<close> on two parsed versions, where nothing throws.
\<close>

section \<open>Parsing\<close>

record semver =
  major :: enat
  minor :: enat
  patch :: enat
  prerelease :: "string list"
  raw :: string

definition pre_char :: "char \<Rightarrow> bool" where
  "pre_char c \<longleftrightarrow> is_alnum c \<or> c = CHR ''.'' \<or> c = CHR ''-''"

text \<open>\<open>(\d+)\<close>, and a run of the prerelease class after a marker character.\<close>

definition digits_then :: "string \<Rightarrow> (string \<times> string) option" where
  "digits_then s =
     (let ds = takeWhile is_digit s in if ds = [] then None else Some (ds, dropWhile is_digit s))"

definition dot_then :: "string \<Rightarrow> string option" where
  "dot_then s = (case s of [] \<Rightarrow> None | c # r \<Rightarrow> if c = CHR ''.'' then Some r else None)"

text \<open>\<open>(?:-([0-9A-Za-z.-]+))?\<close>: a marker without a following class character does not match.\<close>

definition tagged :: "char \<Rightarrow> string \<Rightarrow> string option \<times> string" where
  "tagged m s =
     (case s of
        [] \<Rightarrow> (None, s)
      | c # r \<Rightarrow>
          let p = takeWhile pre_char r in
          if c = m \<and> p \<noteq> [] then (Some p, dropWhile pre_char r) else (None, s))"

text \<open>\<open>PATTERN.exec\<close>: the three numbers and the optional prerelease text.\<close>

definition match_version :: "string \<Rightarrow> (string \<times> string \<times> string \<times> string option) option" where
  "match_version s =
     (case digits_then s of None \<Rightarrow> None
      | Some (a, s1) \<Rightarrow> (case Option.bind (dot_then s1) digits_then of None \<Rightarrow> None
      | Some (b, s2) \<Rightarrow> (case Option.bind (dot_then s2) digits_then of None \<Rightarrow> None
      | Some (c, s3) \<Rightarrow>
          let (pre, s4) = tagged (CHR ''-'') s3; (build, s5) = tagged (CHR ''+'') s4 in
          if s5 = [] then Some (a, b, c, pre) else None)))"

definition parse :: "string \<Rightarrow> semver option" where
  "parse version =
     (let t = trim version in
      case match_version t of
        None \<Rightarrow> None
      | Some (a, b, c, pre) \<Rightarrow> Some
          \<lparr>major = number_of_digits a, minor = number_of_digits b, patch = number_of_digits c,
           prerelease = (case pre of None \<Rightarrow> [] | Some p \<Rightarrow> split_str ''.'' p),
           raw = t\<rparr>)"

definition isValid :: "string \<Rightarrow> bool" where
  "isValid version \<longleftrightarrow> parse version \<noteq> None"

definition parseOrThrow :: "string \<Rightarrow> semver result" where
  "parseOrThrow version =
     (case parse version of
        None \<Rightarrow> Inl ([CHR 0x22] @ version @ [CHR 0x22] @ '' is not a valid semantic version'')
      | Some v \<Rightarrow> Inr v)"

section \<open>Precedence\<close>

definition numeric :: "string \<Rightarrow> bool" where
  "numeric s \<longleftrightarrow> s \<noteq> [] \<and> list_all is_digit s"

text \<open>One round of the loop over prerelease identifiers; 0 means "go on".\<close>

definition compare_id :: "string \<Rightarrow> string \<Rightarrow> int" where
  "compare_id l r =
     (if numeric l \<and> numeric r then
        (if number_of_digits l \<noteq> number_of_digits r
         then (if number_of_digits l < number_of_digits r then -1 else 1) else 0)
      else if numeric l \<noteq> numeric r then (if numeric l then -1 else 1)
      else if l \<noteq> r then (if l < r then -1 else 1) else 0)"

fun compare_ids :: "string list \<Rightarrow> string list \<Rightarrow> int" where
  "compare_ids [] [] = 0"
| "compare_ids [] (r # rs) = -1"
| "compare_ids (l # ls) [] = 1"
| "compare_ids (l # ls) (r # rs) =
     (if compare_id l r \<noteq> 0 then compare_id l r else compare_ids ls rs)"

definition compareV :: "semver \<Rightarrow> semver \<Rightarrow> int" where
  "compareV left right =
     (if major left \<noteq> major right then (if major left < major right then -1 else 1)
      else if minor left \<noteq> minor right then (if minor left < minor right then -1 else 1)
      else if patch left \<noteq> patch right then (if patch left < patch right then -1 else 1)
      else if prerelease left = [] \<and> prerelease right = [] then 0
      else if prerelease left = [] then 1
      else if prerelease right = [] then -1
      else compare_ids (prerelease left) (prerelease right))"

definition compare :: "string \<Rightarrow> string \<Rightarrow> int result" where
  "compare a b =
     bindE (parseOrThrow a) (\<lambda>l. bindE (parseOrThrow b) (\<lambda>r. Inr (compareV l r)))"

definition gt :: "string \<Rightarrow> string \<Rightarrow> bool result" where
  "gt a b = bindE (compare a b) (\<lambda>c. Inr (c > 0))"

definition gte :: "string \<Rightarrow> string \<Rightarrow> bool result" where
  "gte a b = bindE (compare a b) (\<lambda>c. Inr (c \<ge> 0))"

definition lt :: "string \<Rightarrow> string \<Rightarrow> bool result" where
  "lt a b = bindE (compare a b) (\<lambda>c. Inr (c < 0))"

definition eq :: "string \<Rightarrow> string \<Rightarrow> bool result" where
  "eq a b = bindE (compare a b) (\<lambda>c. Inr (c = 0))"

text \<open>The reduction of \<open>highest\<close>; \<open>gt\<close> throws on a string that does not parse.\<close>

fun highest_from :: "string \<Rightarrow> string list \<Rightarrow> string result" where
  "highest_from best [] = Inr best"
| "highest_from best (x # xs) = bindE (gt x best) (\<lambda>g. highest_from (if g then x else best) xs)"

definition highest :: "string list \<Rightarrow> string option result" where
  "highest versions =
     (case filter isValid versions of
        [] \<Rightarrow> Inr None
      | x # xs \<Rightarrow> bindE (highest_from x xs) (\<lambda>v. Inr (Some v)))"

section \<open>Classification\<close>

datatype release_kind = MAJOR | MINOR | PATCH | PRERELEASE | NONE

definition classifyV :: "semver \<Rightarrow> semver \<Rightarrow> release_kind" where
  "classifyV a b =
     (if major a \<noteq> major b then MAJOR
      else if minor a \<noteq> minor b then MINOR
      else if patch a \<noteq> patch b then PATCH
      else if join ''.'' (prerelease a) \<noteq> join ''.'' (prerelease b) then PRERELEASE
      else NONE)"

definition classify :: "string \<Rightarrow> string \<Rightarrow> release_kind result" where
  "classify from to =
     bindE (parseOrThrow from) (\<lambda>a. bindE (parseOrThrow to) (\<lambda>b. Inr (classifyV a b)))"

definition breakingV :: "semver \<Rightarrow> semver \<Rightarrow> bool" where
  "breakingV a b =
     (if major a \<noteq> major b then True
      else if major a = 0 \<and> minor a \<noteq> minor b then True
      else False)"

definition isBreakingUpgrade :: "string \<Rightarrow> string \<Rightarrow> bool result" where
  "isBreakingUpgrade from to =
     bindE (parseOrThrow from) (\<lambda>a. bindE (parseOrThrow to) (\<lambda>b. Inr (breakingV a b)))"

definition version_string :: "enat \<Rightarrow> enat \<Rightarrow> enat \<Rightarrow> string" where
  "version_string a b c = num_to_string a @ ''.'' @ num_to_string b @ ''.'' @ num_to_string c"

datatype bump = BumpMajor | BumpMinor | BumpPatch

definition next_version :: "string \<Rightarrow> bump \<Rightarrow> string result" where
  "next_version version kind =
     bindE (parseOrThrow version) (\<lambda>v. Inr
       (case kind of
          BumpMajor \<Rightarrow> version_string (num_succ (major v)) 0 0
        | BumpMinor \<Rightarrow> version_string (major v) (num_succ (minor v)) 0
        | BumpPatch \<Rightarrow> version_string (major v) (minor v) (num_succ (patch v))))"

section \<open>Ranges\<close>

datatype operator = OpLt | OpLe | OpGt | OpGe | OpEq

type_synonym comparator_t = "operator \<times> semver"

text \<open>
  The upper bound of a caret or tilde range: printed and parsed again. \<open>parseOrThrow\<close> throws
  when a component prints in exponent form, and so does \<open>expand\<close>.
\<close>

definition bounds :: "semver \<Rightarrow> enat \<Rightarrow> enat \<Rightarrow> enat \<Rightarrow> comparator_t list option result" where
  "bounds v a b c =
     bindE (parseOrThrow (version_string a b c)) (\<lambda>u. Inr (Some [(OpGe, v), (OpLt, u)]))"

definition caret :: "string \<Rightarrow> comparator_t list option result" where
  "caret s =
     (case parse s of
        None \<Rightarrow> Inr None
      | Some v \<Rightarrow>
          if major v > 0 then bounds v (num_succ (major v)) 0 0
          else if minor v > 0 then bounds v 0 (num_succ (minor v)) 0
          else bounds v 0 0 (num_succ (patch v)))"

definition tilde :: "string \<Rightarrow> comparator_t list option result" where
  "tilde s =
     (case parse s of
        None \<Rightarrow> Inr None
      | Some v \<Rightarrow> bounds v (major v) (num_succ (minor v)) 0)"

text \<open>\<open>COMPARATOR.exec\<close>: the operator and what follows it, leading white space skipped.\<close>

definition split_operator :: "string \<Rightarrow> operator \<times> string" where
  "split_operator s =
     (let (opr, rest) =
        (if starts_with ''>='' s then (OpGe, drop 2 s)
         else if starts_with ''<='' s then (OpLe, drop 2 s)
         else if starts_with ''>'' s then (OpGt, drop 1 s)
         else if starts_with ''<'' s then (OpLt, drop 1 s)
         else if starts_with ''='' s then (OpEq, drop 1 s)
         else (OpEq, s))
      in (opr, dropWhile is_space rest))"

text \<open>
  The pattern needs one character after the operator. Where there is none it backtracks to a
  shorter operator, and the remainder then holds an operator character and does not parse;
  so does an empty remainder, and either way the result is \<open>null\<close>.
\<close>

definition expand :: "string \<Rightarrow> comparator_t list option result" where
  "expand token =
     (let trimmed = trim token in
      if trimmed = [] \<or> trimmed = ''*'' \<or> trimmed = ''x'' then Inr (Some [])
      else if starts_with ''^'' trimmed then caret (drop 1 trimmed)
      else if starts_with ''~'' trimmed then tilde (drop 1 trimmed)
      else case split_operator trimmed of (opr, rest) \<Rightarrow>
        (case parse rest of
           None \<Rightarrow> Inr None
         | Some version \<Rightarrow> Inr (Some [(opr, version)])))"

definition test :: "semver \<Rightarrow> comparator_t \<Rightarrow> bool" where
  "test version c =
     (let order = compareV version (snd c) in
      case fst c of
        OpGt \<Rightarrow> order > 0
      | OpGe \<Rightarrow> order \<ge> 0
      | OpLt \<Rightarrow> order < 0
      | OpLe \<Rightarrow> order \<le> 0
      | OpEq \<Rightarrow> order = 0)"

definition range_sep :: "char \<Rightarrow> bool" where
  "range_sep c \<longleftrightarrow> c = CHR '','' \<or> is_space c"

text \<open>\<open>every\<close> with a callback that may throw stops at the first false or thrown result.\<close>

fun every_r :: "('a \<Rightarrow> bool result) \<Rightarrow> 'a list \<Rightarrow> bool result" where
  "every_r f [] = Inr True"
| "every_r f (x # xs) = bindE (f x) (\<lambda>b. if b then every_r f xs else Inr False)"

fun some_r :: "('a \<Rightarrow> bool result) \<Rightarrow> 'a list \<Rightarrow> bool result" where
  "some_r f [] = Inr False"
| "some_r f (x # xs) = bindE (f x) (\<lambda>b. if b then Inr True else some_r f xs)"

definition isValidRange :: "string \<Rightarrow> bool result" where
  "isValidRange rng =
     every_r (\<lambda>alt. every_r (\<lambda>token. bindE (expand token) (\<lambda>e. Inr (e \<noteq> None)))
                      (tokens range_sep alt))
       (split_str ''||'' rng)"

text \<open>The token loop of \<open>satisfies\<close>: \<open>None\<close> is its early \<open>return false\<close>.\<close>

fun expand_all :: "string list \<Rightarrow> comparator_t list option result" where
  "expand_all [] = Inr (Some [])"
| "expand_all (t # ts) =
     bindE (expand t) (\<lambda>e. case e of
         None \<Rightarrow> Inr None
       | Some cs \<Rightarrow> bindE (expand_all ts) (\<lambda>r. Inr (map_option (\<lambda>ds. cs @ ds) r)))"

definition satisfies :: "string \<Rightarrow> string \<Rightarrow> bool result" where
  "satisfies version rng =
     (case parse version of
        None \<Rightarrow> Inr False
      | Some parsed \<Rightarrow>
          if trim rng = [] \<or> trim rng = ''*'' then Inr True
          else some_r (\<lambda>alt.
                 let ts = tokens range_sep alt in
                 if ts = [] then Inr True
                 else bindE (expand_all ts) (\<lambda>r. Inr
                   (case r of None \<Rightarrow> False | Some cs \<Rightarrow> list_all (test parsed) cs)))
               (split_str ''||'' rng))"


section \<open>Precedence is the order of a sort key\<close>

definition id_key :: "string \<Rightarrow> nat \<times> enat \<times> string" where
  "id_key s = (if numeric s then (0, number_of_digits s, []) else (1, 0, s))"

definition sort_key :: "semver \<Rightarrow> enat \<times> enat \<times> enat \<times> nat \<times> (nat \<times> enat \<times> string) list" where
  "sort_key v = (major v, minor v, patch v, (if prerelease v = [] then 1 else 0),
                 map id_key (prerelease v))"

lemma compare_id_key: "compare_id l r = ord3 (id_key l) (id_key r)"
  by (auto simp: compare_id_def id_key_def ord3_def)

lemma compare_ids_key: "compare_ids ls rs = ord3 (map id_key ls) (map id_key rs)"
  by (induction ls rs rule: compare_ids.induct) (auto simp: compare_id_key ord3_def split: if_splits)

lemma compareV_key: "compareV a b = ord3 (sort_key a) (sort_key b)"
  by (auto simp: compareV_def sort_key_def compare_ids_key ord3_def)

interpretation prec: comparator compareV
  unfolding compareV_key by (rule ord3.comparator_axioms)

lemma gt_valid: "parse a = Some v \<Longrightarrow> parse b = Some w \<Longrightarrow> gt a b = Inr (compareV v w > 0)"
  by (simp add: gt_def compare_def parseOrThrow_def)

lemma highest_from_valid:
  assumes "isValid x" and "\<forall>y \<in> set xs. isValid y"
  shows "\<exists>m. highest_from x xs = Inr m \<and> m \<in> insert x (set xs) \<and>
           the (parse m) = fold (\<lambda>nxt best. if compareV nxt best > 0 then nxt else best)
                             (map (the \<circ> parse) xs) (the (parse x))"
  using assms
proof (induction xs arbitrary: x)
  case (Cons y ys)
  then obtain v w where vw: "parse x = Some v" "parse y = Some w" by (auto simp: isValid_def)
  with Cons.prems Cons.IH [of "if compareV w v > 0 then y else x"] show ?case
    by (auto simp: gt_valid)
qed simp

section \<open>Versions made of numbers\<close>

definition vstr :: "nat \<Rightarrow> nat \<Rightarrow> nat \<Rightarrow> string" where
  "vstr a b c = show_nat a @ ''.'' @ show_nat b @ ''.'' @ show_nat c"

lemma digits_then_append:
  assumes "ds \<noteq> []" and "\<forall>c \<in> set ds. is_digit c" and "r = [] \<or> \<not> is_digit (hd r)"
  shows "digits_then (ds @ r) = Some (ds, r)"
proof -
  have "takeWhile is_digit (ds @ r) = ds @ takeWhile is_digit r"
    using assms(2) by simp
  moreover have "takeWhile is_digit r = []" using assms(3) by (cases r) auto
  moreover have "dropWhile is_digit (ds @ r) = dropWhile is_digit r"
    using assms(2) by (simp add: dropWhile_append2)
  moreover have "dropWhile is_digit r = r" using assms(3) by (cases r) auto
  ultimately show ?thesis using assms(1) by (simp add: digits_then_def)
qed

lemma not_digit_dot [simp]: "\<not> is_digit (CHR ''.'')"
  by (simp add: is_digit_def)

lemma is_digit_not_space: "is_digit c \<Longrightarrow> \<not> is_space c"
  by (auto simp: is_digit_def is_space_def)

lemma match_version_digits:
  assumes "ds \<noteq> []" "\<forall>c \<in> set ds. is_digit c" "es \<noteq> []" "\<forall>c \<in> set es. is_digit c"
    "fs \<noteq> []" "\<forall>c \<in> set fs. is_digit c"
  shows "match_version (ds @ ''.'' @ es @ ''.'' @ fs) = Some (ds, es, fs, None)"
proof -
  have 1: "digits_then (ds @ CHR ''.'' # es @ CHR ''.'' # fs) = Some (ds, CHR ''.'' # es @ CHR ''.'' # fs)"
    by (rule digits_then_append) (use assms in auto)
  have 2: "digits_then (es @ CHR ''.'' # fs) = Some (es, CHR ''.'' # fs)"
    by (rule digits_then_append) (use assms in auto)
  have 3: "digits_then fs = Some (fs, [])"
    using digits_then_append [of fs "[]"] assms by simp
  show ?thesis by (simp add: match_version_def 1 2 3 dot_then_def tagged_def)
qed

lemma trim_digit_ends:
  assumes "s \<noteq> []" "is_digit (hd s)" "is_digit (last s)"
  shows "trim s = s"
  using assms by (intro trim_id) (auto dest: is_digit_not_space)

lemma parse_digits:
  assumes "ds \<noteq> []" "\<forall>c \<in> set ds. is_digit c" "es \<noteq> []" "\<forall>c \<in> set es. is_digit c"
    "fs \<noteq> []" "\<forall>c \<in> set fs. is_digit c"
  shows "parse (ds @ ''.'' @ es @ ''.'' @ fs) =
    Some \<lparr>major = number_of_digits ds, minor = number_of_digits es, patch = number_of_digits fs,
          prerelease = [], raw = ds @ ''.'' @ es @ ''.'' @ fs\<rparr>"
proof -
  have "trim (ds @ ''.'' @ es @ ''.'' @ fs) = ds @ ''.'' @ es @ ''.'' @ fs"
    by (rule trim_digit_ends) (use assms in \<open>auto simp: hd_append last_append\<close>)
  then show ?thesis
    using match_version_digits [OF assms] by (simp add: parse_def)
qed

definition ver :: "nat \<Rightarrow> nat \<Rightarrow> nat \<Rightarrow> semver" where
  "ver a b c = \<lparr>major = enat a, minor = enat b, patch = enat c, prerelease = [], raw = vstr a b c\<rparr>"

lemma ver_sel [simp]:
  "major (ver a b c) = enat a" "minor (ver a b c) = enat b" "patch (ver a b c) = enat c"
  "prerelease (ver a b c) = []"
  by (simp_all add: ver_def)

lemma number_of_digits_show: "n < 2 ^ 53 \<Longrightarrow> number_of_digits (show_nat n) = enat n"
  by (simp add: number_of_digits_def to_number_small)

lemma parse_vstr:
  "a < 2 ^ 53 \<Longrightarrow> b < 2 ^ 53 \<Longrightarrow> c < 2 ^ 53 \<Longrightarrow> parse (vstr a b c) = Some (ver a b c)"
  using parse_digits [of "show_nat a" "show_nat b" "show_nat c"]
  by (simp add: vstr_def ver_def number_of_digits_show show_nat_digits)

lemma version_string_small:
  "a < 2 ^ 53 \<Longrightarrow> b < 2 ^ 53 \<Longrightarrow> c < 2 ^ 53 \<Longrightarrow>
   version_string (enat a) (enat b) (enat c) = vstr a b c"
  by (simp add: version_string_def vstr_def num_to_string_small)

lemma vstr_chars: "c \<in> set (vstr a b d) \<Longrightarrow> is_digit c \<or> c = CHR ''.''"
  using show_nat_digits by (auto simp: vstr_def)

lemma num_succ_small: "n + 1 < 2 ^ 53 \<Longrightarrow> num_succ (enat n) = enat (n + 1)"
  by (simp add: num_succ_def to_number_small)

lemma bounds_small:
  assumes "a < 2 ^ 53" "b < 2 ^ 53" "c < 2 ^ 53"
  shows "bounds v (enat a) (enat b) (enat c) = Inr (Some [(OpGe, v), (OpLt, ver a b c)])"
  using assms by (simp add: bounds_def parseOrThrow_def version_string_small parse_vstr)

text \<open>The exclusive upper end of \<open>^a.b.c\<close>.\<close>

definition caret_upper :: "nat \<Rightarrow> nat \<Rightarrow> nat \<Rightarrow> semver" where
  "caret_upper a b c =
     (if a > 0 then ver (a + 1) 0 0 else if b > 0 then ver 0 (b + 1) 0 else ver 0 0 (c + 1))"

lemma caret_vstr:
  assumes "a + 1 < 2 ^ 53" "b + 1 < 2 ^ 53" "c + 1 < 2 ^ 53"
  shows "caret (vstr a b c) = Inr (Some [(OpGe, ver a b c), (OpLt, caret_upper a b c)])"
proof -
  have "parse (vstr a b c) = Some (ver a b c)" using assms by (simp add: parse_vstr)
  then show ?thesis
    using assms bounds_small [of "a + 1" 0 0 "ver a b c"] bounds_small [of 0 "b + 1" 0 "ver a b c"]
      bounds_small [of 0 0 "c + 1" "ver a b c"]
    by (auto simp: caret_def caret_upper_def num_succ_small zero_enat_def)
qed

lemma split_sub_plain:
  "(\<And>c. c \<in> set s \<Longrightarrow> c \<noteq> x) \<Longrightarrow> split_sub (x # xs) acc s = [rev acc @ s]"
  by (induction s arbitrary: acc) auto

lemma satisfies_single:
  assumes p: "parse version = Some v" and s: "s \<noteq> []" "trim s = s" "s \<noteq> ''*''"
    and c: "\<And>c. c \<in> set s \<Longrightarrow> c \<noteq> CHR ''|'' \<and> \<not> range_sep c"
    and e: "expand s = Inr (Some cs)"
  shows "satisfies version s = Inr (list_all (test v) cs)"
proof -
  have "split_str ''||'' s = [s]" using c by (simp add: split_str_def split_sub_plain)
  moreover have "tokens range_sep s = [s]" using c s by (intro tokens_single) auto
  ultimately show ?thesis using p s e by (simp add: satisfies_def)
qed

lemma digit_or_dot_plain:
  "is_digit c \<or> c = CHR ''.'' \<or> c = CHR ''^'' \<Longrightarrow>
   c \<noteq> CHR ''|'' \<and> \<not> range_sep c \<and> \<not> is_space c"
  by (auto simp: range_sep_def is_space_def is_digit_def)

lemma vstr_last: "is_digit (last (vstr a b c))"
  using show_nat_digits [of c] by (simp add: vstr_def)

lemma vstr_nonempty [simp]: "vstr a b c \<noteq> []"
  by (simp add: vstr_def)

lemma caret_plain:
  "c \<in> set (CHR ''^'' # vstr i j k) \<Longrightarrow> c \<noteq> CHR ''|'' \<and> \<not> range_sep c \<and> \<not> is_space c"
  using vstr_chars [of c i j k] by (intro digit_or_dot_plain) auto

lemma trim_caret: "trim (CHR ''^'' # vstr a b c) = CHR ''^'' # vstr a b c"
  using vstr_last [of a b c] by (intro trim_id) (auto simp: is_space_def is_digit_def)

lemma expand_caret:
  assumes "a + 1 < 2 ^ 53" "b + 1 < 2 ^ 53" "c + 1 < 2 ^ 53"
  shows "expand (CHR ''^'' # vstr a b c) = Inr (Some [(OpGe, ver a b c), (OpLt, caret_upper a b c)])"
  using caret_vstr [OF assms] by (simp add: expand_def trim_caret Let_def)

lemma not_less_enat_0 [simp]: "\<not> x < enat 0"
  by (simp flip: zero_enat_def)

lemma release_between:
  assumes "prerelease v = []"
    and "compareV v (ver a b c) \<ge> 0" and "compareV v (caret_upper a b c) < 0"
  shows "major v = enat a \<and> (a = 0 \<longrightarrow> minor v = enat b)"
proof -
  have enat_between: "m = enat k" if "enat k \<le> m" "m < enat (Suc k)" for m k
    using that by (cases m) auto
  have lo: "enat a \<le> major v" "major v = enat a \<Longrightarrow> enat b \<le> minor v"
    using assms(1,2) by (auto simp: compareV_def split: if_splits)
  have up: "major v < major u \<or> (major v = major u \<and> minor v < minor u) \<or>
            (major v = major u \<and> minor v = minor u \<and> patch v < patch u)"
    if "compareV v u < 0" "prerelease u = []" for u
    using that assms(1) by (auto simp: compareV_def split: if_splits)
  show ?thesis
  proof (cases "a > 0")
    case True
    then have "major v < enat (Suc a)" using up [OF assms(3)] by (auto simp: caret_upper_def zero_enat_def)
    with True lo enat_between show ?thesis by blast
  next
    case False
    then have "major v = enat 0 \<and> minor v < enat (Suc b)"
      using up [OF assms(3)] lo(2) by (cases "b > 0") (auto simp: caret_upper_def zero_enat_def)
    with False lo enat_between show ?thesis by auto
  qed
qed

section \<open>Properties\<close>

text \<open>Precedence, as \<open>compare\<close> computes it on parsed versions, is the comparison of a sort key
  in a linear order: the three numbers, then releases above prereleases, then the identifiers
  one by one with numeric ones below alphanumeric ones. So it is antisymmetric and transitive.\<close>

theorem compare_total_preorder:
  "compareV a b = ord3 (sort_key a) (sort_key b) \<and> compareV b a = - compareV a b \<and>
   (compareV a b \<le> 0 \<longrightarrow> compareV b c \<le> 0 \<longrightarrow> compareV a c \<le> 0)"
  using prec.cmp_swap [of b a] prec.cmp_trans [of a b c] compareV_key [of a b] by blast

theorem compare_total_preorder_witness:
  "compareV (ver 1 2 3) (ver 1 10 0) \<le> 0 \<and> compareV (ver 1 2 3) (ver 2 0 0) \<le> 0"
proof -
  have 1: "compareV (ver 1 2 3) (ver 1 10 0) \<le> 0" and 2: "compareV (ver 1 10 0) (ver 2 0 0) \<le> 0"
    by (simp_all add: compareV_def ver_def)
  then show ?thesis
    using compare_total_preorder [of "ver 1 2 3" "ver 1 10 0" "ver 2 0 0"] by blast
qed

text \<open>A caret range on a version whose numbers are below 2^53 - 1 admits exactly the versions
  from it up to, and excluding, the next version that may break: the next major, the next minor
  below 1.0.0, the next patch below 0.1.0.\<close>

theorem satisfies_caret:
  assumes "parse version = Some v"
    and "a + 1 < 2 ^ 53" "b + 1 < 2 ^ 53" "c + 1 < 2 ^ 53"
  shows "satisfies version (CHR ''^'' # vstr a b c) =
    Inr (compareV v (ver a b c) \<ge> 0 \<and> compareV v (caret_upper a b c) < 0)"
  using satisfies_single [OF assms(1) _ trim_caret _ _ expand_caret [OF assms(2-4)]] caret_plain
  by (auto simp: test_def)

text \<open>A release admitted by \<open>^from\<close> is never a breaking upgrade of \<open>from\<close>.\<close>

theorem caret_release_not_breaking:
  assumes "parse version = Some v" and "prerelease v = []"
    and "a + 1 < 2 ^ 53" "b + 1 < 2 ^ 53" "c + 1 < 2 ^ 53"
    and "satisfies version (CHR ''^'' # vstr a b c) = Inr True"
  shows "isBreakingUpgrade (vstr a b c) version = Inr False"
proof -
  have sat: "satisfies version (CHR ''^'' # vstr a b c) =
    Inr (compareV v (ver a b c) \<ge> 0 \<and> compareV v (caret_upper a b c) < 0)"
    using satisfies_single [OF assms(1) _ trim_caret _ _ expand_caret [OF assms(3-5)]] caret_plain
    by (auto simp: test_def)
  have "parse (vstr a b c) = Some (ver a b c)" using assms(3-5) by (simp add: parse_vstr)
  with release_between [OF assms(2), of a b c] sat assms(1,6) show ?thesis
    by (auto simp: isBreakingUpgrade_def parseOrThrow_def breakingV_def ver_def zero_enat_def)
qed

text \<open>Evaluation of the definitions on concrete strings, by the simplifier.\<close>

lemmas parse_eval [js_simps] = parse_def match_version_def digits_then_def dot_then_def tagged_def
  pre_char_def trim_def number_of_digits_def dec_val_def to_number_small split_str_def
  zero_enat_def one_enat_def numeral_eq_enat Let_def

lemma vstr_eval:
  "''2.0.0'' = vstr 2 0 0" "''1.3.0'' = vstr 1 3 0" "''1.2.3'' = vstr 1 2 3"
  "''^1.2.3'' = CHR ''^'' # vstr 1 2 3" "''1.0.0'' = vstr 1 0 0"
  by (simp_all add: vstr_def js_simps)

lemma parse_alpha: "parse ''2.0.0-alpha'' =
    Some \<lparr>major = 2, minor = 0, patch = 0, prerelease = [''alpha''], raw = ''2.0.0-alpha''\<rparr>"
  by (simp add: js_simps)

lemma satisfies_single_throws:
  assumes p: "parse version = Some v" and s: "s \<noteq> []" "trim s = s" "s \<noteq> ''*''"
    and c: "\<And>c. c \<in> set s \<Longrightarrow> c \<noteq> CHR ''|'' \<and> \<not> range_sep c"
    and e: "expand s = Inl x"
  shows "satisfies version s = Inl x"
proof -
  have "split_str ''||'' s = [s]" using c by (simp add: split_str_def split_sub_plain)
  moreover have "tokens range_sep s = [s]" using c s by (intro tokens_single) auto
  ultimately show ?thesis using p s e by (simp add: satisfies_def)
qed

lemma huge_major:
  "number_of_digits ''999999999999999999999999'' = enat 999999999999999983222784"
  "num_succ (enat 999999999999999983222784) = enat 999999999999999983222784"
  "num_to_string (enat 999999999999999983222784) = ''1e+24''"
proof -
  have b: "nat_bits 999999999999999983222784 = 80" "nat_bits 999999999999999999999999 = 80"
    "nat_bits 999999999999999983222785 = 80" "nat_bits 1000000000000000000000000 = 80"
    by (simp_all add: nat_bits_eval)
  have r: "round53 999999999999999999999999 = 999999999999999983222784"
    "round53 999999999999999983222784 = 999999999999999983222784"
    "round53 999999999999999983222785 = 999999999999999983222784"
    "round53 1000000000000000000000000 = 999999999999999983222784"
    by (simp_all add: round53_def b Let_def)
  show "number_of_digits ''999999999999999999999999'' = enat 999999999999999983222784"
    by (simp add: number_of_digits_def dec_val_def to_number_def r Let_def)
  show "num_succ (enat 999999999999999983222784) = enat 999999999999999983222784"
    by (simp add: num_succ_def to_number_def r Let_def)
  have "shortest 999999999999999983222784 = 1000000000000000000000000"
    by (simp add: shortest_def show_nat_eval r Let_def)
  moreover have "exp_form 1000000000000000000000000 = ''1e+24''"
  proof -
    have d: "show_nat 1000000000000000000000000 = ''1000000000000000000000000''"
      by (simp add: js_simps)
    have l: "length ''1000000000000000000000000'' - 1 = 24" by simp
    show ?thesis unfolding exp_form_def d Let_def l by (simp add: js_simps)
  qed
  ultimately show "num_to_string (enat 999999999999999983222784) = ''1e+24''"
    by (simp add: num_to_string_def)
qed

text \<open>A prerelease of the next major version is admitted by a caret range although it is a
  breaking upgrade: the range comparison looks at precedence only.\<close>

theorem caret_admits_breaking_prerelease:
  "satisfies ''2.0.0-alpha'' ''^1.2.3'' = Inr True \<and>
   isBreakingUpgrade ''1.2.3'' ''2.0.0-alpha'' = Inr True"
proof
  show "satisfies ''2.0.0-alpha'' ''^1.2.3'' = Inr True"
    using satisfies_single [OF parse_alpha _ trim_caret _ _ expand_caret [of 1 2 3]] caret_plain
    by (auto simp: vstr_eval test_def compareV_def caret_upper_def numeral_eq_enat zero_enat_def)
  show "isBreakingUpgrade ''1.2.3'' ''2.0.0-alpha'' = Inr True"
    using parse_vstr [of 1 2 3] parse_alpha
    by (simp add: vstr_eval isBreakingUpgrade_def parseOrThrow_def breakingV_def numeral_eq_enat)
qed

text \<open>\<open>satisfies\<close> throws on a caret range whose bound prints in exponent form.\<close>

theorem satisfies_throws_on_huge_caret:
  "\<exists>e. satisfies ''1.0.0'' ''^999999999999999999999999.0.0'' = Inl e"
proof -
  let ?r = "''^999999999999999999999999.0.0''"
  have p: "parse ''1.0.0'' = Some (ver 1 0 0)" using parse_vstr [of 1 0 0] by (simp add: vstr_eval)
  have "parse ''999999999999999999999999.0.0'' = Some
    \<lparr>major = enat 999999999999999983222784, minor = 0, patch = 0, prerelease = [],
     raw = ''999999999999999999999999.0.0''\<rparr>"
    using parse_digits [of "''999999999999999999999999''" "''0''" "''0''"]
    by (simp add: huge_major is_digit_def) (simp add: js_simps)
  moreover have "version_string (enat 999999999999999983222784) 0 0 = ''1e+24.0.0''"
    using num_to_string_small [of 0]
    by (simp add: version_string_def huge_major zero_enat_def show_nat_eval)
  moreover have "parse ''1e+24.0.0'' = None" by (simp add: js_simps)
  ultimately obtain e where "caret ''999999999999999999999999.0.0'' = Inl e"
    by (simp add: caret_def bounds_def parseOrThrow_def huge_major zero_enat_def)
  then have e: "expand ?r = Inl e"
    by (simp add: expand_def trim_def is_space_def)
  have "satisfies ''1.0.0'' ?r = Inl e"
    by (rule satisfies_single_throws [OF p _ _ _ _ e])
      (auto simp: trim_def is_space_def range_sep_def)
  then show ?thesis by blast
qed

text \<open>\<open>highest\<close> returns null exactly when no version parses, and otherwise one of the given
  versions that parses and that no parsing one exceeds.\<close>

theorem highest_correct:
  "highest vs = Inr None \<and> (\<forall>x \<in> set vs. parse x = None) \<or>
   (\<exists>m v. highest vs = Inr (Some m) \<and> m \<in> set vs \<and> parse m = Some v \<and>
          (\<forall>x \<in> set vs. \<forall>w. parse x = Some w \<longrightarrow> compareV w v \<le> 0))"
proof (cases "filter isValid vs")
  case Nil
  then show ?thesis by (auto simp: highest_def filter_empty_conv isValid_def)
next
  case (Cons x xs)
  let ?f = "\<lambda>nxt best. if compareV nxt best > 0 then nxt else best"
  have mem: "y \<in> set (x # xs) \<longleftrightarrow> y \<in> set vs \<and> isValid y" for y
    using arg_cong [OF Cons, of set] by auto
  from highest_from_valid [of x xs] mem obtain m where
    m: "highest_from x xs = Inr m" "m \<in> set (x # xs)"
       "the (parse m) = fold ?f (map (the \<circ> parse) xs) (the (parse x))" by auto
  with mem obtain v where v: "parse m = Some v" "m \<in> set vs" by (auto simp: isValid_def)
  have "compareV w v \<le> 0" if "y \<in> set vs" "parse y = Some w" for y w
  proof -
    have "y = x \<or> y \<in> set xs" using mem [of y] that by (simp add: isValid_def)
    then have "w = the (parse x) \<or> w \<in> set (map (the \<circ> parse) xs)"
      using that(2) by (auto simp: image_iff intro!: bexI [of _ y])
    then show ?thesis
      using prec.fold_max_ge [of w] prec.fold_max_ge_start [of w] m(3) v(1) by auto
  qed
  with m v Cons show ?thesis by (auto simp: highest_def)
qed

text \<open>\<open>next_version\<close> on a release with numbers below 2^53 - 1 yields a parsable release that is
  greater and whose classification is the requested one.\<close>

theorem next_is_upgrade:
  assumes "a + 1 < 2 ^ 53" "b + 1 < 2 ^ 53" "c + 1 < 2 ^ 53"
  shows "\<exists>n. next_version (vstr a b c) kind = Inr n \<and> gt n (vstr a b c) = Inr True \<and>
    classify (vstr a b c) n =
      Inr (case kind of BumpMajor \<Rightarrow> MAJOR | BumpMinor \<Rightarrow> MINOR | BumpPatch \<Rightarrow> PATCH)"
proof -
  define n where "n = (case kind of BumpMajor \<Rightarrow> vstr (a + 1) 0 0 | BumpMinor \<Rightarrow> vstr a (b + 1) 0
    | BumpPatch \<Rightarrow> vstr a b (c + 1))"
  define u where "u = (case kind of BumpMajor \<Rightarrow> ver (a + 1) 0 0 | BumpMinor \<Rightarrow> ver a (b + 1) 0
    | BumpPatch \<Rightarrow> ver a b (c + 1))"
  have p: "parse (vstr a b c) = Some (ver a b c)" using assms by (simp add: parse_vstr)
  have pn: "parse n = Some u" using assms by (cases kind) (simp_all add: n_def u_def parse_vstr)
  have "next_version (vstr a b c) kind = Inr n"
    using assms p version_string_small [of "a + 1" 0 0] version_string_small [of a "b + 1" 0]
      version_string_small [of a b "c + 1"]
    by (cases kind) (simp_all add: next_version_def parseOrThrow_def n_def num_succ_small zero_enat_def)
  moreover have "gt n (vstr a b c) = Inr True"
    using p pn by (cases kind) (auto simp: gt_valid u_def compareV_def)
  moreover have "classify (vstr a b c) n =
      Inr (case kind of BumpMajor \<Rightarrow> MAJOR | BumpMinor \<Rightarrow> MINOR | BumpPatch \<Rightarrow> PATCH)"
    using p pn by (cases kind) (auto simp: classify_def parseOrThrow_def classifyV_def u_def)
  ultimately show ?thesis by blast
qed

theorem satisfies_caret_witness:
  "satisfies (vstr 2 0 0) (CHR ''^'' # vstr 1 2 3) = Inr False"
  using satisfies_caret [OF parse_vstr [of 2 0 0], of 1 2 3] by (simp add: caret_upper_def compareV_def)

lemma satisfies_130: "satisfies (vstr 1 3 0) (CHR ''^'' # vstr 1 2 3) = Inr True"
  using satisfies_single [OF parse_vstr [of 1 3 0] _ trim_caret _ _ expand_caret [of 1 2 3]] caret_plain
  by (auto simp: test_def compareV_def caret_upper_def)

theorem caret_release_not_breaking_witness: "isBreakingUpgrade (vstr 1 2 3) (vstr 1 3 0) = Inr False"
  using caret_release_not_breaking [OF parse_vstr [of 1 3 0] _ _ _ _ satisfies_130] by simp

theorem next_is_upgrade_witness:
  "\<exists>n. next_version (vstr 1 2 3) BumpMinor = Inr n \<and> gt n (vstr 1 2 3) = Inr True"
  using next_is_upgrade [of 1 2 3 BumpMinor] by auto

theorem highest_correct_witness:
  "\<exists>m. highest [vstr 1 0 0, vstr 2 0 0] = Inr (Some m) \<and> m \<in> {vstr 1 0 0, vstr 2 0 0}"
proof -
  have "parse (vstr 1 0 0) \<noteq> None" by (simp add: parse_vstr)
  then show ?thesis using highest_correct [of "[vstr 1 0 0, vstr 2 0 0]"] by auto
qed

end
