(* ===== verification/Permissions.thy ===== *)
theory Permissions
  imports Prelude
begin

text \<open>
  \<open>backend/src/auth/permissions.ts\<close>: the permission catalogue and the role bundles, and the check
  of \<open>backend/src/auth/guards/permissions.guard.ts\<close> that every controller method passes through.
\<close>

section \<open>The catalogue and the role bundles\<close>

definition Permissions :: "(string \<times> string) list" where
  "Permissions =
    [(''OrganizationRead'', ''organization:read''),
     (''OrganizationUpdate'', ''organization:update''),
     (''OrganizationDelete'', ''organization:delete''),
     (''MemberRead'', ''member:read''),
     (''MemberInvite'', ''member:invite''),
     (''MemberUpdate'', ''member:update''),
     (''MemberRemove'', ''member:remove''),
     (''WorkerRead'', ''worker:read''),
     (''WorkerCreate'', ''worker:create''),
     (''WorkerUpdate'', ''worker:update''),
     (''WorkerDelete'', ''worker:delete''),
     (''MissionRead'', ''mission:read''),
     (''MissionCreate'', ''mission:create''),
     (''MissionUpdate'', ''mission:update''),
     (''MissionDelete'', ''mission:delete''),
     (''MissionExecute'', ''mission:execute''),
     (''KnowledgeRead'', ''knowledge:read''),
     (''KnowledgeCreate'', ''knowledge:create''),
     (''KnowledgeUpdate'', ''knowledge:update''),
     (''KnowledgeDelete'', ''knowledge:delete''),
     (''ProviderRead'', ''provider:read''),
     (''ProviderCreate'', ''provider:create''),
     (''ProviderUpdate'', ''provider:update''),
     (''ProviderDelete'', ''provider:delete''),
     (''IntegrationRead'', ''integration:read''),
     (''IntegrationCreate'', ''integration:create''),
     (''IntegrationUpdate'', ''integration:update''),
     (''IntegrationDelete'', ''integration:delete''),
     (''ExtensionRead'', ''extension:read''),
     (''ExtensionInstall'', ''extension:install''),
     (''ExtensionUpdate'', ''extension:update''),
     (''ExtensionDelete'', ''extension:delete''),
     (''EventRead'', ''event:read''),
     (''AuditRead'', ''audit:read''),
     (''AnalyticsRead'', ''analytics:read''),
     (''StorageRead'', ''storage:read''),
     (''StorageWrite'', ''storage:write''),
     (''StorageDelete'', ''storage:delete''),
     (''NodeRead'', ''node:read''),
     (''NodeRegister'', ''node:register''),
     (''NodeUpdate'', ''node:update''),
     (''NodeDelete'', ''node:delete''),
     (''NodeExecute'', ''node:execute''),
     (''FederationRead'', ''federation:read''),
     (''FederationGrant'', ''federation:grant''),
     (''FederationRevoke'', ''federation:revoke''),
     (''LearningRead'', ''learning:read''),
     (''LearningRun'', ''learning:run''),
     (''LearningApprove'', ''learning:approve''),
     (''LearningApply'', ''learning:apply''),
     (''EvolutionRead'', ''evolution:read''),
     (''EvolutionRun'', ''evolution:run''),
     (''EvolutionApprove'', ''evolution:approve''),
     (''EvolutionDeploy'', ''evolution:deploy''),
     (''EvolutionPolicyManage'', ''evolution:policy''),
     (''MarketplaceRead'', ''marketplace:read''),
     (''MarketplacePublish'', ''marketplace:publish''),
     (''MarketplaceModerate'', ''marketplace:moderate''),
     (''DeveloperRead'', ''developer:read''),
     (''DeveloperManage'', ''developer:manage'')]"

definition ALL_PERMISSIONS :: "string list" where
  "ALL_PERMISSIONS = map snd Permissions"

datatype system_role = Owner | Admin | Operator | Viewer

definition readOnly :: "string list" where
  "readOnly = filter (ends_with '':read'') ALL_PERMISSIONS"

fun ROLE_PERMISSIONS :: "system_role \<Rightarrow> string list" where
  "ROLE_PERMISSIONS Owner = ALL_PERMISSIONS"
| "ROLE_PERMISSIONS Admin = filter (\<lambda>p. p \<noteq> ''organization:delete'') ALL_PERMISSIONS"
| "ROLE_PERMISSIONS Operator =
       [''organization:read'', ''member:read'', ''worker:read'',
        ''worker:create'', ''worker:update'', ''worker:delete'',
        ''mission:read'', ''mission:create'', ''mission:update'',
        ''mission:delete'', ''mission:execute'', ''knowledge:read'',
        ''knowledge:create'', ''knowledge:update'', ''knowledge:delete'',
        ''provider:read'', ''integration:read'', ''extension:read'',
        ''event:read'', ''analytics:read'', ''storage:read'',
        ''storage:write'', ''node:read'', ''node:execute'',
        ''federation:read'', ''learning:read'', ''learning:run'',
        ''evolution:read'', ''evolution:run'', ''marketplace:read'',
        ''developer:read'']"
| "ROLE_PERMISSIONS Viewer = readOnly"

section \<open>The guard\<close>

text \<open>
  \<open>isPublic\<close> and \<open>required\<close> are what the reflector reads off the handler (\<open>None\<close> where the
  decorator is absent); \<open>user\<close> is the principal the authentication guard attached, if any.
\<close>

record principal =
  roleKey :: string
  permissions :: "string list"

definition permissions_canActivate :: "bool \<Rightarrow> string list option \<Rightarrow> principal option \<Rightarrow> bool result" where
  "permissions_canActivate isPublic required user =
     (if isPublic then Inr True
      else case required of
        None \<Rightarrow> Inr True
      | Some rs \<Rightarrow>
          if rs = [] then Inr True
          else case user of
            None \<Rightarrow> Inl ''Not authenticated''
          | Some u \<Rightarrow>
              if ''*'' \<in> set (permissions u) then Inr True
              else let missing = filter (\<lambda>p. p \<notin> set (permissions u)) rs in
                if missing \<noteq> []
                then Inl (''Your role ('' @ roleKey u @ '') is missing: '' @ join '', '' missing)
                else Inr True)"

section \<open>Lemmas\<close>

text \<open>Every catalogue entry is \<open>resource:action\<close>, so none of them is the internal wildcard.\<close>

lemma catalogue_distinct: "distinct ALL_PERMISSIONS"
  by code_simp

lemma no_wildcard: "''*'' \<notin> set ALL_PERMISSIONS"
  by code_simp

lemma operator_catalogued: "set (ROLE_PERMISSIONS Operator) \<subseteq> set ALL_PERMISSIONS"
  by code_simp

lemma role_catalogued: "set (ROLE_PERMISSIONS r) \<subseteq> set ALL_PERMISSIONS"
  using operator_catalogued by (cases r) (auto simp: readOnly_def)

lemma role_no_wildcard: "''*'' \<notin> set (ROLE_PERMISSIONS r)"
  using role_catalogued no_wildcard by blast

lemma operator_no_org_delete: "''organization:delete'' \<notin> set (ROLE_PERMISSIONS Operator)"
  by code_simp

lemma guard_allows_iff:
  "permissions_canActivate isPublic required user = Inr True \<longleftrightarrow>
   isPublic \<or> required = None \<or> required = Some [] \<or>
   (\<exists>rs u. required = Some rs \<and> user = Some u \<and>
      (''*'' \<in> set (permissions u) \<or> set rs \<subseteq> set (permissions u)))"
  by (auto simp: permissions_canActivate_def Let_def filter_empty_conv split: option.splits)

lemma guard_never_false: "permissions_canActivate isPublic required user \<noteq> Inr False"
  by (auto simp: permissions_canActivate_def Let_def split: option.splits)

text \<open>The bundles are ordered: an administrator holds everything but the deletion of the
  organization, an operator and a viewer hold only permissions an administrator holds, a viewer
  exactly the \<open>:read\<close> permissions, and no bundle holds the internal wildcard.\<close>

theorem role_bundles:
  "set (ROLE_PERMISSIONS Owner) = insert ''organization:delete'' (set (ROLE_PERMISSIONS Admin)) \<and>
   ''organization:delete'' \<notin> set (ROLE_PERMISSIONS Admin) \<and>
   set (ROLE_PERMISSIONS Operator) \<subseteq> set (ROLE_PERMISSIONS Admin) \<and>
   set (ROLE_PERMISSIONS Viewer) \<subseteq> set (ROLE_PERMISSIONS Admin) \<and>
   set (ROLE_PERMISSIONS Viewer) = {p \<in> set ALL_PERMISSIONS. ends_with '':read'' p} \<and>
   ''*'' \<notin> set (ROLE_PERMISSIONS r)"
proof -
  have "''organization:delete'' \<in> set ALL_PERMISSIONS" by code_simp
  moreover have "\<not> ends_with '':read'' ''organization:delete''" by code_simp
  ultimately show ?thesis
    using operator_catalogued operator_no_org_delete role_no_wildcard [of r]
    by (auto simp: readOnly_def)
qed

text \<open>A handler that demands permissions is reachable by a principal with a role's bundle
  exactly when the bundle holds every one of them; otherwise the guard throws.\<close>

theorem guard_requires_all:
  assumes "rs \<noteq> []"
  shows "(permissions_canActivate False (Some rs)
        (Some \<lparr>roleKey = k, permissions = ROLE_PERMISSIONS r\<rparr>) = Inr True \<longleftrightarrow>
      set rs \<subseteq> set (ROLE_PERMISSIONS r)) \<and>
    permissions_canActivate False (Some rs) None = Inl ''Not authenticated''"
proof
  show "permissions_canActivate False (Some rs)
        (Some \<lparr>roleKey = k, permissions = ROLE_PERMISSIONS r\<rparr>) = Inr True \<longleftrightarrow>
      set rs \<subseteq> set (ROLE_PERMISSIONS r)"
    using assms role_no_wildcard [of r] by (simp add: guard_allows_iff)
  show "permissions_canActivate False (Some rs) None = Inl ''Not authenticated''"
    using assms by (simp add: permissions_canActivate_def)
qed

theorem guard_requires_all_witness:
  "permissions_canActivate False (Some [''node:delete''])
     (Some \<lparr>roleKey = ''OPERATOR'', permissions = ROLE_PERMISSIONS Operator\<rparr>) \<noteq> Inr True"
proof -
  have "''node:delete'' \<notin> set (ROLE_PERMISSIONS Operator)" by code_simp
  then show ?thesis
    using guard_requires_all [of "[''node:delete'']" "''OPERATOR''" Operator] by simp
qed

end
