(* ===== verification/Capabilities.thy ===== *)
theory Capabilities
  imports Permissions
begin

text \<open>
  \<open>backend/src/platform/capabilities.ts\<close>: the capability catalogue, the grant computed when an
  extension is installed, the check of a host call against a grant, and attenuation.

  Two things are parameters: \<open>lcmp\<close> is \<open>localeCompare\<close>, whose order is the host's collation data,
  and \<open>version\<close> is the catalogue hash, a SHA-256 the source takes from \<open>node:crypto\<close>.
\<close>

section \<open>The catalogue\<close>

datatype capability_risk = LOW | MEDIUM | HIGH | CRITICAL

fun RISK_ORDER :: "capability_risk \<Rightarrow> nat" where
  "RISK_ORDER LOW = 0"
| "RISK_ORDER MEDIUM = 1"
| "RISK_ORDER HIGH = 2"
| "RISK_ORDER CRITICAL = 3"

definition REVIEW_THRESHOLD :: capability_risk where
  "REVIEW_THRESHOLD = HIGH"

record capability_def =
  capId :: string
  title :: string
  description :: string
  risk :: capability_risk
  implies :: "string list"
  surface :: "string list"

definition can_read_organization :: capability_def where
  "can_read_organization =
     \<lparr>capId = ''can_read_organization'', title = ''Read organization profile'',
      description = ''See the organization name, plan and settings.'',
      risk = LOW,
      implies = [''organization:read''],
      surface = [''org.describe'']\<rparr>"

definition can_read_missions :: capability_def where
  "can_read_missions =
     \<lparr>capId = ''can_read_missions'', title = ''Read missions'',
      description = ''See missions, their tasks and their outcomes.'',
      risk = LOW,
      implies = [''mission:read''],
      surface = [''missions.get'', ''missions.list'']\<rparr>"

definition can_read_analytics :: capability_def where
  "can_read_analytics =
     \<lparr>capId = ''can_read_analytics'', title = ''Read analytics'',
      description = ''See aggregate performance and usage figures.'',
      risk = LOW,
      implies = [''analytics:read''],
      surface = [''analytics.summary'']\<rparr>"

definition can_read_events :: capability_def where
  "can_read_events =
     \<lparr>capId = ''can_read_events'', title = ''Observe platform events'',
      description = ''Receive domain events as they happen. Event payloads can contain the names and contents of your work.'',
      risk = MEDIUM,
      implies = [''event:read''],
      surface = [''events.subscribe'', ''events.recent'']\<rparr>"

definition can_access_knowledge :: capability_def where
  "can_access_knowledge =
     \<lparr>capId = ''can_access_knowledge'', title = ''Read knowledge'',
      description = ''Search and read everything in your knowledge base, including anything workers have remembered.'',
      risk = MEDIUM,
      implies = [''knowledge:read''],
      surface = [''knowledge.search'', ''knowledge.get'']\<rparr>"

definition can_write_knowledge :: capability_def where
  "can_write_knowledge =
     \<lparr>capId = ''can_write_knowledge'', title = ''Write knowledge'',
      description = ''Add and edit knowledge entries.'',
      risk = MEDIUM,
      implies = [''knowledge:create'', ''knowledge:update''],
      surface = [''knowledge.store'', ''knowledge.update'']\<rparr>"

definition can_persist_state :: capability_def where
  "can_persist_state =
     \<lparr>capId = ''can_persist_state'', title = ''Keep private state'',
      description = ''Store its own settings and progress. This storage is private to the extension and readable by nothing else.'',
      risk = LOW,
      implies = [],
      surface = [''state.get'', ''state.set'', ''state.delete'',
                 ''state.keys'']\<rparr>"

definition can_manage_storage :: capability_def where
  "can_manage_storage =
     \<lparr>capId = ''can_manage_storage'', title = ''Read and write files'',
      description = ''Read and write files in your organization storage.'',
      risk = MEDIUM,
      implies = [''storage:read'', ''storage:write''],
      surface = [''storage.get'', ''storage.put'', ''storage.list'']\<rparr>"

definition can_execute_missions :: capability_def where
  "can_execute_missions =
     \<lparr>capId = ''can_execute_missions'', title = ''Run missions'',
      description = ''Create missions and set them running. Missions consume provider credit and can act on your behalf.'',
      risk = HIGH,
      implies = [''mission:read'', ''mission:create'', ''mission:execute''],
      surface = [''missions.create'', ''missions.start'', ''missions.plan'']\<rparr>"

definition can_manage_workers :: capability_def where
  "can_manage_workers =
     \<lparr>capId = ''can_manage_workers'', title = ''Manage workers'',
      description = ''Create, reconfigure and delete workers '' @ dash @ '' including changing which tools an existing worker may use.'',
      risk = HIGH,
      implies = [''worker:read'', ''worker:create'', ''worker:update'',
                 ''worker:delete''],
      surface = [''workers.create'', ''workers.update'', ''workers.delete'',
                 ''workers.list'']\<rparr>"

definition can_register_workers :: capability_def where
  "can_register_workers =
     \<lparr>capId = ''can_register_workers'', title = ''Contribute worker types'',
      description = ''Install new kinds of worker that you can then run. Contributed workers execute under this extension'' @ apos @ ''s capabilities, never more.'',
      risk = HIGH,
      implies = [''worker:read'', ''worker:create''],
      surface = [''workers.register'', ''workers.unregister'']\<rparr>"

definition can_register_tools :: capability_def where
  "can_register_tools =
     \<lparr>capId = ''can_register_tools'', title = ''Contribute tools'',
      description = ''Add tools that your workers can call during a mission. A tool runs inside worker execution and sees whatever the worker passes it.'',
      risk = CRITICAL,
      implies = [''extension:install'', ''worker:update''],
      surface = [''tools.register'', ''tools.unregister'']\<rparr>"

definition can_register_triggers :: capability_def where
  "can_register_triggers =
     \<lparr>capId = ''can_register_triggers'', title = ''Register triggers'',
      description = ''Start work automatically '' @ dash @ '' on a schedule, on an event, or when an external system calls in.'',
      risk = HIGH,
      implies = [''integration:read'', ''integration:create''],
      surface = [''triggers.register'', ''triggers.unregister'', ''triggers.list'']\<rparr>"

definition can_send_notifications :: capability_def where
  "can_send_notifications =
     \<lparr>capId = ''can_send_notifications'', title = ''Send notifications'',
      description = ''Send you notifications through your configured channels.'',
      risk = MEDIUM,
      implies = [''integration:read''],
      surface = [''notify.send'']\<rparr>"

definition can_invoke_external_apis :: capability_def where
  "can_invoke_external_apis =
     \<lparr>capId = ''can_invoke_external_apis'', title = ''Call external services'',
      description = ''Make network requests to services outside PRISM-X. Anything it can read, it can send.'',
      risk = HIGH,
      implies = [''integration:read''],
      surface = [''http.fetch'']\<rparr>"

definition can_use_credentials :: capability_def where
  "can_use_credentials =
     \<lparr>capId = ''can_use_credentials'', title = ''Use stored credentials'',
      description = ''Authenticate outbound calls with credentials you have already stored. The credential value itself is never handed to the extension.'',
      risk = CRITICAL,
      implies = [''integration:read'', ''provider:read''],
      surface = [''http.fetchAs'', ''credentials.list'']\<rparr>"

definition CAPABILITIES :: "capability_def list" where
  "CAPABILITIES =
    [can_read_organization, can_read_missions, can_read_analytics,
     can_read_events, can_access_knowledge, can_write_knowledge,
     can_persist_state, can_manage_storage, can_execute_missions,
     can_manage_workers, can_register_workers, can_register_tools,
     can_register_triggers, can_send_notifications, can_invoke_external_apis,
     can_use_credentials]"

definition CAPABILITY_IDS :: "string list" where
  "CAPABILITY_IDS = map capId CAPABILITIES"

definition BY_ID :: "(string \<times> capability_def) list" where
  "BY_ID = map (\<lambda>c. (capId c, c)) CAPABILITIES"

text \<open>The module-level loop that builds \<open>BY_SURFACE\<close> and throws on a method claimed twice.\<close>

fun claim_surface :: "capability_def \<Rightarrow> string list \<Rightarrow> (string \<times> capability_def) list \<Rightarrow>
    (string \<times> capability_def) list result" where
  "claim_surface c [] m = Inr m"
| "claim_surface c (s # ss) m =
     (case map_of m s of
        Some e \<Rightarrow> Inl (''Host method '' @ quoted s @ '' is claimed by both '' @ quoted (capId e) @
                       '' and '' @ quoted (capId c))
      | None \<Rightarrow> claim_surface c ss (put s c m))"

fun load_surface :: "capability_def list \<Rightarrow> (string \<times> capability_def) list \<Rightarrow>
    (string \<times> capability_def) list result" where
  "load_surface [] m = Inr m"
| "load_surface (c # cs) m = bindE (claim_surface c (surface c) m) (load_surface cs)"

definition BY_SURFACE :: "(string \<times> capability_def) list" where
  "BY_SURFACE = (case load_surface CAPABILITIES [] of Inl e \<Rightarrow> [] | Inr m \<Rightarrow> m)"

definition isCapability :: "string \<Rightarrow> bool" where
  "isCapability value \<longleftrightarrow> map_of BY_ID value \<noteq> None"

definition describe :: "string \<Rightarrow> capability_def option" where
  "describe i = map_of BY_ID i"

definition capabilityForSurface :: "string \<Rightarrow> capability_def option" where
  "capabilityForSurface meth = map_of BY_SURFACE meth"

definition guardedSurface :: "string list" where
  "guardedSurface = sort_str (keys BY_SURFACE)"

definition permissionsFor :: "string list \<Rightarrow> string list" where
  "permissionsFor ids = sort_str (dedup (concat (map (\<lambda>id.
     case map_of BY_ID id of None \<Rightarrow> [] | Some c \<Rightarrow> implies c) ids)))"

definition highestRisk :: "string list \<Rightarrow> capability_risk" where
  "highestRisk ids = foldl (\<lambda>highest id.
     case map_of BY_ID id of
       None \<Rightarrow> highest
     | Some c \<Rightarrow> if RISK_ORDER (risk c) > RISK_ORDER highest then risk c else highest) LOW ids"

definition atLeast_risk :: "capability_risk \<Rightarrow> capability_risk \<Rightarrow> bool" where
  "atLeast_risk r floor \<longleftrightarrow> RISK_ORDER r \<ge> RISK_ORDER floor"

definition requiresHumanReview :: "string list \<Rightarrow> bool" where
  "requiresHumanReview ids = list_ex (\<lambda>id.
     case map_of BY_ID id of None \<Rightarrow> False | Some c \<Rightarrow> atLeast_risk (risk c) REVIEW_THRESHOLD) ids"

section \<open>Granting, authorizing, attenuating\<close>

record capability_grant =
  granted :: "string list"
  withheld :: "(string \<times> string list) list"
  unknown :: "string list"
  grant_risk :: capability_risk
  reviewRequired :: bool
  catalogueVersion :: string

text \<open>The loop of \<open>grant\<close> over the deduplicated request: granted, withheld and unknown so far.\<close>

definition grant_step :: "string list \<Rightarrow> string list \<times> (string \<times> string list) list \<times> string list \<Rightarrow>
    string \<Rightarrow> string list \<times> (string \<times> string list) list \<times> string list" where
  "grant_step holder acc i =
     (case acc of (g, w, u) \<Rightarrow>
        (case map_of BY_ID i of
           None \<Rightarrow> (g, w, u @ [i])
         | Some c \<Rightarrow>
             let missing = (if ''*'' \<in> set holder then []
                            else filter (\<lambda>p. p \<notin> set holder) (implies c)) in
             if missing \<noteq> [] then (g, w @ [(i, missing)], u) else (g @ [capId c], w, u)))"

definition grant :: "(string \<Rightarrow> string \<Rightarrow> int) \<Rightarrow> string \<Rightarrow> string list \<Rightarrow> string list \<Rightarrow>
    capability_grant" where
  "grant lcmp version requested holder =
     (let (g, w, u) = foldl (grant_step holder) ([], [], []) (dedup requested);
          ordered = filter (\<lambda>id. id \<in> set g) CAPABILITY_IDS in
      \<lparr>granted = ordered,
       withheld = sort_by (\<lambda>a b. lcmp (fst a) (fst b)) w,
       unknown = sort_str u,
       grant_risk = highestRisk ordered,
       reviewRequired = requiresHumanReview ordered,
       catalogueVersion = version\<rparr>)"

text \<open>\<open>None\<close> when the call is permitted.\<close>

definition authorize :: "string list \<Rightarrow> string \<Rightarrow> string option" where
  "authorize granted_ids meth =
     (case map_of BY_SURFACE meth of
        None \<Rightarrow> Some (quoted meth @ '' is not part of the extension API'')
      | Some c \<Rightarrow>
          if capId c \<notin> set granted_ids
          then Some (quoted meth @ '' requires the '' @ quoted (capId c) @
                     '' capability, which this extension was not granted'')
          else None)"

definition attenuate :: "string list \<Rightarrow> string list \<Rightarrow> string list" where
  "attenuate granted_ids subset_ids =
     filter (\<lambda>id. id \<in> set granted_ids \<and> id \<in> set subset_ids) CAPABILITY_IDS"

definition catalogue :: "(capability_def \<times> bool) list" where
  "catalogue = map (\<lambda>c. (c, atLeast_risk (risk c) REVIEW_THRESHOLD)) CAPABILITIES"

section \<open>The catalogue as loaded\<close>

lemma catalogue_ids_distinct: "distinct CAPABILITY_IDS"
  by code_simp

lemma keys_BY_ID: "keys BY_ID = CAPABILITY_IDS"
  by (simp add: BY_ID_def CAPABILITY_IDS_def)

lemma BY_ID_Some: "map_of BY_ID i = Some c \<longleftrightarrow> c \<in> set CAPABILITIES \<and> capId c = i"
proof -
  have "distinct (keys BY_ID)" using catalogue_ids_distinct by (simp add: keys_BY_ID)
  then show ?thesis by (auto simp: map_of_eq_Some_iff BY_ID_def)
qed

lemma BY_ID_None: "map_of BY_ID i = None \<longleftrightarrow> i \<notin> set CAPABILITY_IDS"
  by (simp add: map_of_eq_None_iff flip: keys_BY_ID)

lemma isCapability_iff: "isCapability i \<longleftrightarrow> i \<in> set CAPABILITY_IDS"
  by (simp add: isCapability_def BY_ID_None)

lemma surfaces_distinct: "distinct (concat (map surface CAPABILITIES))"
  by code_simp

lemma claim_surface_ok:
  "distinct ss \<Longrightarrow> set ss \<inter> set (keys m) = {} \<Longrightarrow>
   claim_surface c ss m = Inr (m @ map (\<lambda>s. (s, c)) ss)"
proof (induction ss arbitrary: m)
  case (Cons s ss)
  then have "map_of m s = None" by (simp add: map_of_eq_None_iff)
  moreover have "put s c m = m @ [(s, c)]" using Cons.prems by (intro put_new) auto
  moreover have "set ss \<inter> set (keys (m @ [(s, c)])) = {}" using Cons.prems by auto
  ultimately show ?case using Cons.IH [of "m @ [(s, c)]"] Cons.prems(1) by simp
qed simp

lemma load_surface_ok:
  "distinct (concat (map surface cs)) \<Longrightarrow> set (concat (map surface cs)) \<inter> set (keys m) = {} \<Longrightarrow>
   load_surface cs m = Inr (m @ concat (map (\<lambda>c. map (\<lambda>s. (s, c)) (surface c)) cs))"
proof (induction cs arbitrary: m)
  case (Cons c cs)
  then have "claim_surface c (surface c) m = Inr (m @ map (\<lambda>s. (s, c)) (surface c))"
    by (intro claim_surface_ok) auto
  moreover have "set (concat (map surface cs)) \<inter>
      set (keys (m @ map (\<lambda>s. (s, c)) (surface c))) = {}"
    using Cons.prems by (auto simp: image_Un)
  ultimately show ?case
    using Cons.IH [of "m @ map (\<lambda>s. (s, c)) (surface c)"] Cons.prems(1) by simp
qed simp

lemma load_CAPABILITIES:
  "load_surface CAPABILITIES [] = Inr (concat (map (\<lambda>c. map (\<lambda>s. (s, c)) (surface c)) CAPABILITIES))"
  using load_surface_ok [OF surfaces_distinct, of "[]"] by simp

lemma BY_SURFACE_eq:
  "BY_SURFACE = concat (map (\<lambda>c. map (\<lambda>s. (s, c)) (surface c)) CAPABILITIES)"
  by (simp add: BY_SURFACE_def load_CAPABILITIES)

lemma keys_BY_SURFACE: "keys BY_SURFACE = concat (map surface CAPABILITIES)"
  by (simp add: BY_SURFACE_eq map_concat comp_def)

lemma BY_SURFACE_Some:
  "map_of BY_SURFACE m = Some c \<longleftrightarrow> c \<in> set CAPABILITIES \<and> m \<in> set (surface c)"
proof -
  have "distinct (keys BY_SURFACE)" using surfaces_distinct by (simp add: keys_BY_SURFACE)
  then have "map_of BY_SURFACE m = Some c \<longleftrightarrow> (m, c) \<in> set BY_SURFACE"
    by (rule map_of_eq_Some_iff)
  also have "\<dots> \<longleftrightarrow> c \<in> set CAPABILITIES \<and> m \<in> set (surface c)" by (auto simp: BY_SURFACE_eq)
  finally show ?thesis .
qed

lemma implied_catalogued: "list_all (\<lambda>c. set (implies c) \<subseteq> set ALL_PERMISSIONS) CAPABILITIES"
  by code_simp

section \<open>Risk\<close>

lemma RISK_ORDER_inject [simp]: "RISK_ORDER a = RISK_ORDER b \<longleftrightarrow> a = b"
  by (cases a; cases b) auto

definition risk_of :: "string \<Rightarrow> nat" where
  "risk_of i = (case map_of BY_ID i of None \<Rightarrow> 0 | Some c \<Rightarrow> RISK_ORDER (risk c))"

lemma highest_foldl:
  "RISK_ORDER (foldl (\<lambda>highest id. case map_of BY_ID id of None \<Rightarrow> highest
     | Some c \<Rightarrow> if RISK_ORDER (risk c) > RISK_ORDER highest then risk c else highest) r ids) =
   Max (insert (RISK_ORDER r) (risk_of ` set ids))"
proof (induction ids arbitrary: r)
  case (Cons i ids)
  let ?r = "case map_of BY_ID i of None \<Rightarrow> r
     | Some c \<Rightarrow> if RISK_ORDER (risk c) > RISK_ORDER r then risk c else r"
  have "RISK_ORDER ?r = max (RISK_ORDER r) (risk_of i)"
    by (auto simp: risk_of_def split: option.splits)
  then have "Max (insert (RISK_ORDER ?r) (risk_of ` set ids)) =
      Max (insert (RISK_ORDER r) (risk_of ` set (i # ids)))"
    by (cases "ids = []") (simp_all add: max.assoc)
  with Cons.IH [of ?r] show ?case by simp
qed simp

lemma highestRisk_Max: "RISK_ORDER (highestRisk ids) = Max (insert 0 (risk_of ` set ids))"
  by (simp add: highestRisk_def highest_foldl)

lemma requiresHumanReview_iff: "requiresHumanReview ids \<longleftrightarrow> (\<exists>i \<in> set ids. risk_of i \<ge> 2)"
  by (auto simp: requiresHumanReview_def list_ex_iff risk_of_def atLeast_risk_def
      REVIEW_THRESHOLD_def split: option.splits)

section \<open>The grant\<close>

definition missing_for :: "string list \<Rightarrow> capability_def \<Rightarrow> string list" where
  "missing_for holder c =
     (if ''*'' \<in> set holder then [] else filter (\<lambda>p. p \<notin> set holder) (implies c))"

definition grantable :: "string list \<Rightarrow> string \<Rightarrow> bool" where
  "grantable holder i = (case map_of BY_ID i of None \<Rightarrow> False | Some c \<Rightarrow> missing_for holder c = [])"

definition withheld_entry :: "string list \<Rightarrow> string \<Rightarrow> (string \<times> string list) list" where
  "withheld_entry holder i = (case map_of BY_ID i of None \<Rightarrow> []
     | Some c \<Rightarrow> if missing_for holder c = [] then [] else [(i, missing_for holder c)])"

lemma grant_step_eq:
  "grant_step holder (g, w, u) i =
     (g @ (if grantable holder i then [i] else []), w @ withheld_entry holder i,
      u @ (if isCapability i then [] else [i]))"
proof (cases "map_of BY_ID i")
  case None
  then show ?thesis by (simp add: grant_step_def grantable_def withheld_entry_def isCapability_def)
next
  case (Some c)
  then have "capId c = i" by (simp add: BY_ID_Some)
  with Some show ?thesis
    by (auto simp: grant_step_def grantable_def withheld_entry_def isCapability_def missing_for_def Let_def)
qed

lemma grant_foldl:
  "foldl (grant_step holder) (g, w, u) ids =
     (g @ filter (grantable holder) ids, w @ concat (map (withheld_entry holder) ids),
      u @ filter (\<lambda>i. \<not> isCapability i) ids)"
  by (induction ids arbitrary: g w u) (auto simp: grant_step_eq)

lemma granted_grant:
  "granted (grant lcmp ver req holder) =
     filter (\<lambda>i. i \<in> set req \<and> grantable holder i) CAPABILITY_IDS"
  by (simp add: grant_def grant_foldl Let_def)

lemma set_withheld_grant:
  "set (withheld (grant lcmp ver req holder)) = (\<Union>i \<in> set req. set (withheld_entry holder i))"
  by (simp add: grant_def grant_foldl Let_def)

lemma set_unknown_grant:
  "set (unknown (grant lcmp ver req holder)) = {i \<in> set req. \<not> isCapability i}"
  by (auto simp: grant_def grant_foldl Let_def)

lemma withheld_entry_iff:
  "(i, ms) \<in> set (withheld_entry holder j) \<longleftrightarrow> i = j \<and> ms \<noteq> [] \<and>
     (\<exists>c. map_of BY_ID i = Some c \<and> ms = missing_for holder c)"
proof (cases "i = j")
  case True
  then show ?thesis by (cases "map_of BY_ID j") (auto simp: withheld_entry_def)
next
  case False
  then show ?thesis by (simp add: withheld_entry_def split: option.splits)
qed

lemma missing_for_ex:
  assumes "ms \<noteq> []"
  shows "(\<exists>c. map_of BY_ID i = Some c \<and> ms = missing_for holder c) \<longleftrightarrow>
    (\<exists>c \<in> set CAPABILITIES. capId c = i \<and> ''*'' \<notin> set holder \<and>
       ms = filter (\<lambda>p. p \<notin> set holder) (implies c))"
  unfolding BY_ID_Some missing_for_def using assms by (cases "''*'' \<in> set holder") auto

lemma capId_inj: "c \<in> set CAPABILITIES \<Longrightarrow> d \<in> set CAPABILITIES \<Longrightarrow> capId c = capId d \<Longrightarrow> c = d"
  using BY_ID_Some [of "capId c" c] BY_ID_Some [of "capId c" d] by simp

lemma grantable_iff:
  "grantable holder i \<longleftrightarrow>
     (\<exists>c \<in> set CAPABILITIES. capId c = i \<and> (''*'' \<in> set holder \<or> set (implies c) \<subseteq> set holder))"
proof (cases "map_of BY_ID i")
  case None
  then have "i \<notin> capId ` set CAPABILITIES" by (simp add: BY_ID_None CAPABILITY_IDS_def)
  with None show ?thesis by (auto simp: grantable_def)
next
  case (Some c)
  then have c: "c \<in> set CAPABILITIES" "capId c = i" by (simp_all add: BY_ID_Some)
  have "missing_for holder c = [] \<longleftrightarrow> ''*'' \<in> set holder \<or> set (implies c) \<subseteq> set holder"
    by (auto simp: missing_for_def filter_empty_conv)
  moreover have "grantable holder i \<longleftrightarrow> missing_for holder c = []" using Some by (simp add: grantable_def)
  moreover have "d \<in> set CAPABILITIES \<and> capId d = i \<longleftrightarrow> d = c" for d
    using c capId_inj by metis
  ultimately show ?thesis by metis
qed

lemma authorize_None:
  "authorize ids m = None \<longleftrightarrow>
     (\<exists>c \<in> set CAPABILITIES. m \<in> set (surface c) \<and> capId c \<in> set ids)"
proof (cases "map_of BY_SURFACE m")
  case None
  then have "m \<notin> set (concat (map surface CAPABILITIES))"
    by (simp add: map_of_eq_None_iff flip: keys_BY_SURFACE)
  with None show ?thesis by (auto simp: authorize_def)
next
  case (Some c)
  have "d \<in> set CAPABILITIES \<and> m \<in> set (surface d) \<longleftrightarrow> d = c" for d
    using Some BY_SURFACE_Some [of m d] BY_SURFACE_Some [of m c] by auto
  moreover have "authorize ids m = None \<longleftrightarrow> capId c \<in> set ids" using Some by (simp add: authorize_def)
  ultimately show ?thesis by metis
qed

section \<open>Properties\<close>

text \<open>C28: A grant is the intersection rule. Every requested identifier ends up in exactly one of
  three places: granted when it is in the catalogue and the installer holds every permission it
  draws on (or the internal wildcard), withheld together with exactly the missing permissions,
  or unknown when the catalogue does not have it. Nothing unrequested is granted.\<close>

theorem grant_partition:
  "(i \<in> set (granted (grant lcmp ver req holder)) \<longleftrightarrow> i \<in> set req \<and>
      (\<exists>c \<in> set CAPABILITIES. capId c = i \<and> (''*'' \<in> set holder \<or> set (implies c) \<subseteq> set holder))) \<and>
   ((i, ms) \<in> set (withheld (grant lcmp ver req holder)) \<longleftrightarrow> i \<in> set req \<and> ms \<noteq> [] \<and>
      (\<exists>c \<in> set CAPABILITIES. capId c = i \<and> ''*'' \<notin> set holder \<and>
         ms = filter (\<lambda>p. p \<notin> set holder) (implies c))) \<and>
   (i \<in> set (unknown (grant lcmp ver req holder)) \<longleftrightarrow> i \<in> set req \<and> i \<notin> set CAPABILITY_IDS)"
proof (intro conjI)
  have "i \<in> set CAPABILITY_IDS" if "grantable holder i"
    using that unfolding grantable_iff CAPABILITY_IDS_def by force
  then show "i \<in> set (granted (grant lcmp ver req holder)) \<longleftrightarrow> i \<in> set req \<and>
      (\<exists>c \<in> set CAPABILITIES. capId c = i \<and> (''*'' \<in> set holder \<or> set (implies c) \<subseteq> set holder))"
    unfolding granted_grant set_filter grantable_iff [symmetric] by blast
  show "(i, ms) \<in> set (withheld (grant lcmp ver req holder)) \<longleftrightarrow> i \<in> set req \<and> ms \<noteq> [] \<and>
      (\<exists>c \<in> set CAPABILITIES. capId c = i \<and> ''*'' \<notin> set holder \<and>
         ms = filter (\<lambda>p. p \<notin> set holder) (implies c))"
    by (cases "ms = []") (simp_all add: set_withheld_grant withheld_entry_iff missing_for_ex)
  show "i \<in> set (unknown (grant lcmp ver req holder)) \<longleftrightarrow> i \<in> set req \<and> i \<notin> set CAPABILITY_IDS"
    by (simp add: set_unknown_grant isCapability_iff)
qed

text \<open>No laundering of authority through an install: a host method that a grant authorizes is
  guarded by a catalogue capability that was requested and all of whose permissions the
  installer held. The same is so under any attenuation of the grant.\<close>

theorem authorized_within_installer:
  assumes "authorize (granted (grant lcmp ver req holder)) meth = None \<or>
      authorize (attenuate (granted (grant lcmp ver req holder)) sub) meth = None"
  shows "\<exists>c \<in> set CAPABILITIES. meth \<in> set (surface c) \<and> capId c \<in> set req \<and>
      (''*'' \<in> set holder \<or> set (implies c) \<subseteq> set holder)"
proof -
  from assms obtain c where c: "c \<in> set CAPABILITIES" "meth \<in> set (surface c)"
    "capId c \<in> set (granted (grant lcmp ver req holder))"
    by (auto simp: authorize_None attenuate_def)
  then obtain d where d: "d \<in> set CAPABILITIES" "capId d = capId c" "capId c \<in> set req"
    "''*'' \<in> set holder \<or> set (implies d) \<subseteq> set holder"
    by (auto simp: granted_grant grantable_iff)
  have "d = c" by (rule capId_inj [OF d(1) c(1) d(2)])
  with c d show ?thesis by auto
qed

text \<open>The catalogue loads: no host method is claimed by two capabilities, so each guarded method
  is unlocked by exactly one capability, and a method no capability names is always refused.\<close>

theorem surface_guarded_once:
  "(\<exists>m. load_surface CAPABILITIES [] = Inr m) \<and>
   (authorize ids meth = None \<longleftrightarrow>
      (\<exists>!c. c \<in> set CAPABILITIES \<and> meth \<in> set (surface c)) \<and>
      (\<exists>c \<in> set CAPABILITIES. meth \<in> set (surface c) \<and> capId c \<in> set ids))"
proof
  show "\<exists>m. load_surface CAPABILITIES [] = Inr m" using load_CAPABILITIES by blast
  have "c = d" if "c \<in> set CAPABILITIES" "meth \<in> set (surface c)"
      "d \<in> set CAPABILITIES" "meth \<in> set (surface d)" for c d
    using that BY_SURFACE_Some [of meth c] BY_SURFACE_Some [of meth d] by simp
  then show "authorize ids meth = None \<longleftrightarrow>
      (\<exists>!c. c \<in> set CAPABILITIES \<and> meth \<in> set (surface c)) \<and>
      (\<exists>c \<in> set CAPABILITIES. meth \<in> set (surface c) \<and> capId c \<in> set ids)"
    unfolding authorize_None by blast
qed

text \<open>Human review is demanded exactly when the highest risk of the set is at least HIGH.\<close>

theorem review_iff_high_risk:
  "requiresHumanReview ids \<longleftrightarrow> atLeast_risk (highestRisk ids) REVIEW_THRESHOLD"
proof -
  have "Max (insert 0 (risk_of ` set ids)) \<ge> 2 \<longleftrightarrow> (\<exists>i \<in> set ids. risk_of i \<ge> 2)"
    by (subst Max_ge_iff) auto
  then show ?thesis
    by (simp add: requiresHumanReview_iff atLeast_risk_def REVIEW_THRESHOLD_def highestRisk_Max)
qed

lemma authorized_example:
  "authorize (granted (grant lcmp ver [''can_read_missions'']
     (ROLE_PERMISSIONS Viewer))) ''missions.get'' = None"
proof -
  have "can_read_missions \<in> set CAPABILITIES" by (simp add: CAPABILITIES_def)
  moreover have "''mission:read'' \<in> set (ROLE_PERMISSIONS Viewer)" by code_simp
  ultimately have "grantable (ROLE_PERMISSIONS Viewer) ''can_read_missions''"
    by (auto simp: grantable_iff can_read_missions_def intro!: bexI [of _ can_read_missions])
  then have "''can_read_missions'' \<in> set (granted (grant lcmp ver [''can_read_missions'']
     (ROLE_PERMISSIONS Viewer)))"
    by (auto simp: granted_grant CAPABILITY_IDS_def CAPABILITIES_def can_read_missions_def)
  then show ?thesis
    using \<open>can_read_missions \<in> set CAPABILITIES\<close>
    by (auto simp: authorize_None can_read_missions_def intro!: bexI [of _ can_read_missions])
qed

theorem authorized_within_installer_witness:
  "\<exists>c \<in> set CAPABILITIES. ''missions.get'' \<in> set (surface c) \<and> capId c \<in> set [''can_read_missions''] \<and>
      (''*'' \<in> set (ROLE_PERMISSIONS Viewer) \<or> set (implies c) \<subseteq> set (ROLE_PERMISSIONS Viewer))"
  by (rule authorized_within_installer [of ord3 "[]", OF disjI1 [OF authorized_example]])

end
