(* ===== verification/JsValue.thy ===== *)
theory JsValue
  imports Complex_Main JsNum
begin

text \<open>
  JavaScript values as the sources see them after \<open>JSON.parse\<close> or a database read, with
  \<open>undefined\<close> for an absent property. A finite \<open>number\<close> is the rational it denotes; comparisons,
  \<open>Math.min\<close>, \<open>Math.max\<close> and \<open>Math.floor\<close> are exact on it, and what rounds goes through
  \<open>round_double\<close>. An object is the list that \<open>Object.entries\<close> yields; its keys are distinct.
\<close>

section \<open>Values\<close>

datatype number = Fin rat | PosInf | NegInf | NaN

datatype json =
    Undef
  | Null
  | JBool bool
  | JNum number
  | JStr string
  | JArr "json list"
  | JObj "(string \<times> json) list"

type_synonym obj = "(string \<times> json) list"

text \<open>Comparison: false as soon as one side is \<open>NaN\<close>.\<close>

fun num_le :: "number \<Rightarrow> number \<Rightarrow> bool" where
  "num_le (Fin a) (Fin b) = (a \<le> b)"
| "num_le NegInf NaN = False"
| "num_le NegInf _ = True"
| "num_le NaN _ = False"
| "num_le _ PosInf = True"
| "num_le _ _ = False"

definition num_lt :: "number \<Rightarrow> number \<Rightarrow> bool" where
  "num_lt a b \<longleftrightarrow> num_le a b \<and> \<not> num_le b a"

text \<open>A property read \<open>o.k\<close>, and \<open>Object.keys(o)\<close>.\<close>

definition getp :: "string \<Rightarrow> obj \<Rightarrow> json" where
  "getp k m = (case map_of m k of None \<Rightarrow> Undef | Some v \<Rightarrow> v)"

text \<open>\<open>k in o\<close> also finds what every object inherits from \<open>Object.prototype\<close>.\<close>

definition OBJECT_PROTOTYPE :: "string list" where
  "OBJECT_PROTOTYPE =
     [''constructor'', ''__defineGetter__'', ''__defineSetter__'', ''hasOwnProperty'',
      ''__lookupGetter__'', ''__lookupSetter__'', ''isPrototypeOf'', ''propertyIsEnumerable'',
      ''toString'', ''valueOf'', ''__proto__'', ''toLocaleString'']"

definition in_obj :: "string \<Rightarrow> obj \<Rightarrow> bool" where
  "in_obj k m \<longleftrightarrow> k \<in> set (keys m) \<or> k \<in> set OBJECT_PROTOTYPE"

text \<open>\<open>arr.includes(v)\<close> for an element of another structure: objects differ by identity.\<close>

fun same_value :: "json \<Rightarrow> json \<Rightarrow> bool" where
  "same_value (JArr _) _ = False"
| "same_value (JObj _) _ = False"
| "same_value a b = (a = b)"

definition arr_includes :: "json list \<Rightarrow> json \<Rightarrow> bool" where
  "arr_includes xs v \<longleftrightarrow> list_ex (same_value v) xs"

text \<open>
  What \<open>join\<close> makes of an element; \<open>str\<close> is the conversion of the values that are not strings,
  which only appears in messages.
\<close>

fun join_elem :: "(json \<Rightarrow> string) \<Rightarrow> json \<Rightarrow> string" where
  "join_elem str (JStr s) = s"
| "join_elem str Null = []"
| "join_elem str Undef = []"
| "join_elem str v = str v"

text \<open>A \<open>string | null | undefined\<close> in a condition.\<close>

fun truthy :: "string option \<Rightarrow> bool" where
  "truthy None = False"
| "truthy (Some s) = (s \<noteq> [])"

section \<open>Rounding and conversion of strings\<close>

text \<open>
  The double nearest to a rational, ties to even; from the scale of the first excess bit on it is
  an infinity. Integers up to 2^53 are doubles.
\<close>

definition two_powi :: "int \<Rightarrow> rat" where
  "two_powi e = (if e \<ge> 0 then 2 ^ nat e else 1 / 2 ^ nat (- e))"

definition round_pos :: "rat \<Rightarrow> number" where
  "round_pos x =
     (let (n, d) = quotient_of x;
          b = int (nat_bits (nat n)) - int (nat_bits (nat d));
          e = max (if x \<ge> two_powi b then b - 52 else b - 53) (-1074);
          m = x / two_powi e;
          q = floor m;
          f = m - of_int q;
          r = (if f > 1/2 \<or> (f = 1/2 \<and> odd q) then q + 1 else q);
          y = of_int r * two_powi e
      in if y \<ge> 2 ^ 1024 then PosInf else Fin y)"

fun num_neg :: "number \<Rightarrow> number" where
  "num_neg (Fin x) = Fin (- x)"
| "num_neg PosInf = NegInf"
| "num_neg NegInf = PosInf"
| "num_neg NaN = NaN"

definition round_double :: "rat \<Rightarrow> number" where
  "round_double x =
     (if of_int (floor x) = x \<and> \<bar>x\<bar> \<le> 2 ^ 53 then Fin x
      else if x < 0 then num_neg (round_pos (- x)) else round_pos x)"

definition is_hex :: "char \<Rightarrow> bool" where
  "is_hex c \<longleftrightarrow> is_digit c \<or> (65 \<le> code c \<and> code c \<le> 70) \<or> (97 \<le> code c \<and> code c \<le> 102)"

definition hex_digit :: "char \<Rightarrow> nat" where
  "hex_digit c = (if is_digit c then code c - 48 else if is_upper c then code c - 55 else code c - 87)"

definition hex_val :: "string \<Rightarrow> nat" where
  "hex_val s = foldl (\<lambda>a c. 16 * a + hex_digit c) 0 s"

text \<open>The unsigned decimal literals of \<open>Number(s)\<close>: digits, fraction, exponent.\<close>

definition decimal_exponent :: "string \<Rightarrow> int option" where
  "decimal_exponent s =
     (case s of
        [] \<Rightarrow> Some 0
      | c # r \<Rightarrow>
          if c = CHR ''e'' \<or> c = CHR ''E'' then
            (case r of
               [] \<Rightarrow> None
             | sg # ds \<Rightarrow>
                 if sg = CHR ''-'' \<and> ds \<noteq> [] \<and> list_all is_digit ds then Some (- int (dec_val ds))
                 else if sg = CHR ''+'' \<and> ds \<noteq> [] \<and> list_all is_digit ds then Some (int (dec_val ds))
                 else if list_all is_digit r then Some (int (dec_val r)) else None)
          else None)"

definition ten_powi :: "int \<Rightarrow> rat" where
  "ten_powi e = (if e \<ge> 0 then 10 ^ nat e else 1 / 10 ^ nat (- e))"

definition unsigned_decimal :: "string \<Rightarrow> number" where
  "unsigned_decimal s =
     (if s = ''Infinity'' then PosInf
      else
        let ip = takeWhile is_digit s; r = dropWhile is_digit s;
            (fp, r') = (if starts_with ''.'' r
                        then (takeWhile is_digit (drop 1 r), dropWhile is_digit (drop 1 r)) else ([], r))
        in if ip = [] \<and> fp = [] then NaN
           else case decimal_exponent r' of
               None \<Rightarrow> NaN
             | Some e \<Rightarrow> round_double (of_nat (dec_val (ip @ fp)) * ten_powi (e - int (length fp))))"

fun radix_val :: "nat \<Rightarrow> string \<Rightarrow> number" where
  "radix_val b s =
     (if s \<noteq> [] \<and> list_all (\<lambda>c. is_hex c \<and> hex_digit c < b) s
      then round_double (of_nat (foldl (\<lambda>a c. b * a + hex_digit c) 0 s)) else NaN)"

text \<open>\<open>Number(s)\<close> for any string.\<close>

definition js_number :: "string \<Rightarrow> number" where
  "js_number s =
     (let t = trim s in
      if t = [] then Fin 0
      else if starts_with ''0x'' t \<or> starts_with ''0X'' t then radix_val 16 (drop 2 t)
      else if starts_with ''0o'' t \<or> starts_with ''0O'' t then radix_val 8 (drop 2 t)
      else if starts_with ''0b'' t \<or> starts_with ''0B'' t then radix_val 2 (drop 2 t)
      else if starts_with ''-'' t then num_neg (unsigned_decimal (drop 1 t))
      else if starts_with ''+'' t then unsigned_decimal (drop 1 t)
      else unsigned_decimal t)"

text \<open>\<open>Number.isInteger\<close> with the integer itself.\<close>

definition as_integer :: "number \<Rightarrow> int option" where
  "as_integer x = (case x of Fin r \<Rightarrow> if of_int (floor r) = r then Some (floor r) else None | _ \<Rightarrow> None)"

lemma round_double_nat: "n \<le> 2 ^ 53 \<Longrightarrow> round_double (of_nat n) = Fin (of_nat n)"
proof -
  assume n: "n \<le> 2 ^ 53"
  then have "(of_nat n :: rat) \<le> of_nat (2 ^ 53)" by (simp only: of_nat_le_iff)
  moreover have "of_int (floor (of_nat n :: rat)) = (of_nat n :: rat)" by simp
  ultimately show ?thesis by (simp add: round_double_def)
qed

lemma js_number_empty [simp]: "js_number [] = Fin 0"
  by (simp add: js_number_def)

lemma js_number_digits:
  assumes "ds \<noteq> []" "\<forall>c \<in> set ds. is_digit c" "dec_val ds \<le> 2 ^ 53"
  shows "js_number ds = Fin (of_nat (dec_val ds))"
proof -
  have sp: "\<not> is_space c" if "is_digit c" for c using that by (auto simp: is_digit_def is_space_def)
  have t: "trim ds = ds" using assms sp by (intro trim_id) auto
  have nd: "\<not> is_digit (CHR ''x'')" "\<not> is_digit (CHR ''X'')" "\<not> is_digit (CHR ''o'')"
    "\<not> is_digit (CHR ''O'')" "\<not> is_digit (CHR ''b'')" "\<not> is_digit (CHR ''B'')"
    "\<not> is_digit (CHR ''-'')" "\<not> is_digit (CHR ''+'')" "\<not> is_digit (CHR ''I'')"
    by (simp_all add: is_digit_def)
  have sw: "\<not> starts_with p ds" if "\<exists>c \<in> set p. \<not> is_digit c" for p
    using that assms(2) by (auto simp: starts_with_iff)
  have "ds \<noteq> ''Infinity''" using assms(2) nd by auto
  then have "unsigned_decimal ds = Fin (of_nat (dec_val ds))"
    using assms round_double_nat [OF assms(3)]
    by (simp add: unsigned_decimal_def decimal_exponent_def ten_powi_def Let_def
        takeWhile_eq_all_conv [THEN iffD2] dropWhile_eq_Nil_conv [THEN iffD2])
  with t assms(1) nd show ?thesis by (simp add: js_number_def sw)
qed

end
