(* ===== verification/Constitution.thy ===== *)
theory Constitution
  imports JsValue Permissions
begin

text \<open>
  \<open>backend/src/evolution/constitution.ts\<close>: the nine laws every deployment intent is submitted to,
  and \<open>review\<close>. Parameters: \<open>str\<close>, the string conversion of values that are not strings (it
  appears in one message), and \<open>sha256hex\<close>, the digest of \<open>node:crypto\<close>.
\<close>

section \<open>The intent and the verdicts\<close>

datatype subject = WORKER | WORKFLOW | PROVIDER | PLANNING | ORGANIZATION

datatype benchmark_verdict = BETTER | WORSE | INCONCLUSIVE | INSUFFICIENT_DATA

record deployment_intent =
  organizationId :: string
  actorId :: string
  actorPermissions :: "string list"
  subject :: subject
  subjectId :: string
  subjectOrganizationId :: string
  kind :: string
  change :: obj
  rollback :: obj
  approvedById :: "string option"
  approvedAt :: "nat option"
  policyRequiresApproval :: bool
  policySatisfied :: bool
  policyReason :: "string option"
  confidence :: number
  benchmarkVerdict :: "benchmark_verdict option"
  auditable :: bool

record law_verdict =
  lawId :: string
  passed :: bool
  reason :: "string option"

record constitution_verdict =
  permitted :: bool
  violations :: "law_verdict list"
  checked :: "law_verdict list"
  version :: string

record law =
  law_id :: string
  statement :: string
  rationale :: string
  check :: "deployment_intent \<Rightarrow> string option"

section \<open>Tables\<close>

definition AUTHORITY_FIELDS :: "string list" where
  "AUTHORITY_FIELDS = [''permissions'', ''roleKey'', ''role'', ''scopes'', ''organizationId'']"

definition DESTRUCTIVE_FIELDS :: "string list" where
  "DESTRUCTIVE_FIELDS = [''delete'', ''purge'', ''truncate'', ''archivedAt'', ''destroy'']"

fun REQUIRED_PERMISSION :: "subject \<Rightarrow> string" where
  "REQUIRED_PERMISSION WORKER = ''worker:update''"
| "REQUIRED_PERMISSION WORKFLOW = ''workflow:update''"
| "REQUIRED_PERMISSION PROVIDER = ''provider:update''"
| "REQUIRED_PERMISSION PLANNING = ''evolution:deploy''"
| "REQUIRED_PERMISSION ORGANIZATION = ''organization:update''"

fun subject_name :: "subject \<Rightarrow> string" where
  "subject_name WORKER = ''WORKER''"
| "subject_name WORKFLOW = ''WORKFLOW''"
| "subject_name PROVIDER = ''PROVIDER''"
| "subject_name PLANNING = ''PLANNING''"
| "subject_name ORGANIZATION = ''ORGANIZATION''"

text \<open>\<open>benchmarkVerdict.toLowerCase().replace(/_/g, ' ')\<close>.\<close>

fun verdict_words :: "benchmark_verdict \<Rightarrow> string" where
  "verdict_words BETTER = ''better''"
| "verdict_words WORSE = ''worse''"
| "verdict_words INCONCLUSIVE = ''inconclusive''"
| "verdict_words INSUFFICIENT_DATA = ''insufficient data''"

section \<open>Foreign organization ids\<close>

text \<open>\<open>/organizationid$/i.test(key)\<close>.\<close>

definition names_organization :: "string \<Rightarrow> bool" where
  "names_organization key \<longleftrightarrow> ends_with ''organizationid'' (map ascii_lower key)"

definition foreign_entry :: "string \<Rightarrow> string \<Rightarrow> json \<Rightarrow> bool" where
  "foreign_entry org key entry \<longleftrightarrow>
     names_organization key \<and> (case entry of JStr s \<Rightarrow> s \<noteq> [] \<and> s \<noteq> org | _ \<Rightarrow> False)"

fun findForeign :: "json \<Rightarrow> string \<Rightarrow> nat \<Rightarrow> string option"
  and findForeign_list :: "json list \<Rightarrow> string \<Rightarrow> nat \<Rightarrow> string option"
  and findForeign_entries :: "obj \<Rightarrow> string \<Rightarrow> nat \<Rightarrow> string option" where
  "findForeign value org depth =
     (if depth > 8 then None
      else case value of
        JArr xs \<Rightarrow> findForeign_list xs org depth
      | JObj es \<Rightarrow> findForeign_entries es org depth
      | _ \<Rightarrow> None)"
| "findForeign_list [] org depth = None"
| "findForeign_list (x # xs) org depth =
     (case findForeign x org (depth + 1) of
        Some found \<Rightarrow> Some found
      | None \<Rightarrow> findForeign_list xs org depth)"
| "findForeign_entries [] org depth = None"
| "findForeign_entries ((key, entry) # es) org depth =
     (if foreign_entry org key entry
      then (case entry of JStr s \<Rightarrow> Some s | _ \<Rightarrow> None)
      else case findForeign entry org (depth + 1) of
          Some found \<Rightarrow> Some found
        | None \<Rightarrow> findForeign_entries es org depth)"

definition findForeignOrganizationId :: "obj \<Rightarrow> string \<Rightarrow> string option" where
  "findForeignOrganizationId value org = findForeign (JObj value) org 0"

section \<open>The laws\<close>

definition check_org_permissions :: "deployment_intent \<Rightarrow> string option" where
  "check_org_permissions i =
     (if actorId i = ''system'' then
        (if policyRequiresApproval i \<and> \<not> truthy (approvedById i)
         then Some ''the unattended actor cannot make a change this organization requires approval for''
         else None)
      else
        let required = REQUIRED_PERMISSION (subject i);
            held = ''*'' \<in> set (actorPermissions i) \<or> required \<in> set (actorPermissions i) \<or>
                   ''evolution:deploy'' \<in> set (actorPermissions i) in
        if held then None
        else Some (''actor lacks '' @ quoted required @ '' for a '' @ subject_name (subject i) @
                   '' change''))"

definition check_no_privilege_escalation :: "(json \<Rightarrow> string) \<Rightarrow> deployment_intent \<Rightarrow> string option" where
  "check_no_privilege_escalation str i =
     (let touched = filter (\<lambda>field. field \<in> set AUTHORITY_FIELDS) (keys (change i)) in
      if touched \<noteq> [] then Some (''change touches authority field(s): '' @ join '', '' touched)
      else case (getp ''toolPermissions'' (change i), getp ''toolPermissions'' (rollback i)) of
          (JArr proposed, JArr current) \<Rightarrow>
            let added = filter (\<lambda>tool. \<not> arr_includes current tool) proposed in
            if added \<noteq> [] \<and> \<not> truthy (approvedById i)
            then Some (''grants tool access ('' @ join '', '' (map (join_elem str) added) @
                       '') without human approval'')
            else None
        | _ \<Rightarrow> None)"

definition check_tenant_isolation :: "deployment_intent \<Rightarrow> string option" where
  "check_tenant_isolation i =
     (if subjectOrganizationId i \<noteq> organizationId i
      then Some (''subject belongs to a different organization ('' @ subjectOrganizationId i @ '')'')
      else case findForeignOrganizationId (change i) (organizationId i) of
          Some foreign \<Rightarrow> Some (''change references organization '' @ quoted foreign)
        | None \<Rightarrow> None)"

definition check_no_automatic_deletion :: "deployment_intent \<Rightarrow> string option" where
  "check_no_automatic_deletion i =
     (let destructive = filter (\<lambda>(field, value).
            field \<in> set DESTRUCTIVE_FIELDS \<or> (ends_with ''deletedAt'' field \<and> value \<noteq> Null))
            (change i) in
      if destructive \<noteq> []
      then Some (''change would delete or archive records via '' @ join '', '' (map fst destructive))
      else None)"

definition check_policy_compliance :: "deployment_intent \<Rightarrow> string option" where
  "check_policy_compliance i =
     (if policySatisfied i then None
      else case policyReason i of
          Some r \<Rightarrow> Some r
        | None \<Rightarrow> Some (''the organization'' @ apos @ ''s evolution policy refused this change''))"

definition check_human_consent :: "deployment_intent \<Rightarrow> string option" where
  "check_human_consent i =
     (if \<not> policyRequiresApproval i then None
      else if \<not> truthy (approvedById i) then Some ''this change requires human approval and has none''
      else if approvedById i = Some ''system''
        then Some ''approval was recorded by the system rather than by a person''
      else None)"

definition check_reversibility :: "deployment_intent \<Rightarrow> string option" where
  "check_reversibility i =
     (if rollback i = []
      then Some ''no rollback state was captured, so the change could not be undone''
      else
        let uncovered = filter (\<lambda>field. \<not> in_obj field (rollback i)) (keys (change i)) in
        if uncovered \<noteq> [] then Some (''rollback does not cover '' @ join '', '' uncovered) else None)"

definition check_auditability :: "deployment_intent \<Rightarrow> string option" where
  "check_auditability i =
     (if auditable i then None
      else Some ''the deployment would not be written to the evolution archive'')"

definition check_evidence_required :: "deployment_intent \<Rightarrow> string option" where
  "check_evidence_required i =
     (if benchmarkVerdict i = Some WORSE
      then Some ''the benchmark found this change performs worse than what it replaces''
      else case benchmarkVerdict i of
        Some v \<Rightarrow>
          if (v = INSUFFICIENT_DATA \<or> v = INCONCLUSIVE) \<and> \<not> truthy (approvedById i)
          then Some (''the experiment was '' @ verdict_words v @ '' and nobody approved it anyway'')
          else if num_le (confidence i) (Fin 0) \<and> \<not> truthy (approvedById i)
          then Some ''no supporting evidence and no human decision''
          else None
      | None \<Rightarrow>
          if num_le (confidence i) (Fin 0) \<and> \<not> truthy (approvedById i)
          then Some ''no supporting evidence and no human decision''
          else None)"

definition LAW_ORG_PERMISSIONS :: law where
  "LAW_ORG_PERMISSIONS =
     \<lparr>law_id = ''ORG_PERMISSIONS'',
      statement = ''Never act beyond the permissions of the actor requesting the change.'',
      rationale =
        ''Evolution runs on behalf of someone. If it could exceed their '' @
        ''authority, the permission model would describe what people can do '' @
        ''rather than what the system can do on their behalf '' @ dash @
        '' which is not a permission model.'',
      check = check_org_permissions\<rparr>"

definition LAW_NO_PRIVILEGE_ESCALATION :: "(json \<Rightarrow> string) \<Rightarrow> law" where
  "LAW_NO_PRIVILEGE_ESCALATION str =
     \<lparr>law_id = ''NO_PRIVILEGE_ESCALATION'',
      statement = ''Never widen its own authority or anyone else'' @ apos @ ''s.'',
      rationale =
        ''A system that can grant permissions can grant itself permissions. '' @
        ''This is the one change class where being wrong does not merely '' @
        ''produce a bad outcome '' @ dash @
        '' it produces a system that can no longer be constrained.'',
      check = check_no_privilege_escalation str\<rparr>"

definition LAW_TENANT_ISOLATION :: law where
  "LAW_TENANT_ISOLATION =
     \<lparr>law_id = ''TENANT_ISOLATION'',
      statement = ''Never touch, reference or expose another organization'' @ apos @ ''s data.'',
      rationale =
        ''Every other guarantee in PRISM-X is scoped to an organization. A '' @
        ''single cross-tenant write would make all of them conditional.'',
      check = check_tenant_isolation\<rparr>"

definition LAW_NO_AUTOMATIC_DELETION :: law where
  "LAW_NO_AUTOMATIC_DELETION =
     \<lparr>law_id = ''NO_AUTOMATIC_DELETION'',
      statement = ''Never delete historical records automatically.'',
      rationale =
        ''History is what makes evolution auditable. A system that can prune '' @
        ''its own record can quietly erase the evidence that it made things '' @ ''worse.'',
      check = check_no_automatic_deletion\<rparr>"

definition LAW_POLICY_COMPLIANCE :: law where
  "LAW_POLICY_COMPLIANCE =
     \<lparr>law_id = ''POLICY_COMPLIANCE'',
      statement = ''Never deploy without satisfying the organization'' @ apos @ ''s Evolution Policy.'',
      rationale =
        ''The Constitution sets the floor; the policy sets each organization'' @ apos @
        ''s own ceiling. A system that could ignore the policy would make the '' @
        ''policy advisory, and an advisory safety control is not one.'',
      check = check_policy_compliance\<rparr>"

definition LAW_HUMAN_CONSENT :: law where
  "LAW_HUMAN_CONSENT =
     \<lparr>law_id = ''HUMAN_CONSENT'',
      statement = ''Never bypass human approval where it is required.'',
      rationale =
        ''Confidence is a measure of evidence, not of authority. However strong '' @
        ''the numbers, a change an organization said needs a person needs a '' @ ''person.'',
      check = check_human_consent\<rparr>"

definition LAW_REVERSIBILITY :: law where
  "LAW_REVERSIBILITY =
     \<lparr>law_id = ''REVERSIBILITY'',
      statement = ''Never deploy a change that cannot be undone.'',
      rationale =
        ''Every evolution is a bet. Bets are acceptable when losing them is '' @
        ''recoverable; an irreversible bet on an automated inference is not.'',
      check = check_reversibility\<rparr>"

definition LAW_AUDITABILITY :: law where
  "LAW_AUDITABILITY =
     \<lparr>law_id = ''AUDITABILITY'',
      statement = ''Always leave a record of what changed, why, and on whose authority.'',
      rationale =
        ''An unrecorded change cannot be reviewed, explained or learned from. '' @
        ''The archive is the difference between a system that evolves and one '' @
        ''that merely drifts.'',
      check = check_auditability\<rparr>"

definition LAW_EVIDENCE_REQUIRED :: law where
  "LAW_EVIDENCE_REQUIRED =
     \<lparr>law_id = ''EVIDENCE_REQUIRED'',
      statement = ''Never evolve on no evidence.'',
      rationale =
        ''PRISM-X evolves through measurement, not variation. A change with no '' @
        ''benchmark and no confidence behind it is a guess, and a system that '' @
        ''deploys guesses is evolving randomly however carefully it is governed.'',
      check = check_evidence_required\<rparr>"

definition CONSTITUTION :: "(json \<Rightarrow> string) \<Rightarrow> law list" where
  "CONSTITUTION str =
     [LAW_ORG_PERMISSIONS,
      LAW_NO_PRIVILEGE_ESCALATION str,
      LAW_TENANT_ISOLATION,
      LAW_NO_AUTOMATIC_DELETION,
      LAW_POLICY_COMPLIANCE,
      LAW_HUMAN_CONSENT,
      LAW_REVERSIBILITY,
      LAW_AUDITABILITY,
      LAW_EVIDENCE_REQUIRED]"

definition CONSTITUTION_VERSION :: "(string \<Rightarrow> string) \<Rightarrow> (json \<Rightarrow> string) \<Rightarrow> string" where
  "CONSTITUTION_VERSION sha256hex str =
     take 16 (sha256hex (join ''|''
       (map (\<lambda>l. law_id l @ '':'' @ statement l) (CONSTITUTION str))))"

section \<open>Review\<close>

definition law_verdict_of :: "deployment_intent \<Rightarrow> law \<Rightarrow> law_verdict" where
  "law_verdict_of i l =
     (let r = check l i in
      if truthy r then \<lparr>lawId = law_id l, passed = False, reason = r\<rparr>
      else \<lparr>lawId = law_id l, passed = True, reason = None\<rparr>)"

definition review :: "(string \<Rightarrow> string) \<Rightarrow> (json \<Rightarrow> string) \<Rightarrow> deployment_intent \<Rightarrow>
    constitution_verdict" where
  "review sha256hex str i =
     (let chk = map (law_verdict_of i) (CONSTITUTION str);
          vio = filter (\<lambda>v. \<not> passed v) chk in
      \<lparr>permitted = (vio = []), violations = vio, checked = chk,
       version = CONSTITUTION_VERSION sha256hex str\<rparr>)"

definition describe_constitution :: "(json \<Rightarrow> string) \<Rightarrow> (string \<times> string \<times> string) list" where
  "describe_constitution str =
     map (\<lambda>l. (law_id l, statement l, rationale l)) (CONSTITUTION str)"

section \<open>What the search for foreign ids finds\<close>

text \<open>\<open>nested v d w\<close>: \<open>w\<close> occurs in \<open>v\<close>, \<open>d\<close> levels of arrays and objects down.\<close>

inductive nested :: "json \<Rightarrow> nat \<Rightarrow> json \<Rightarrow> bool" where
  nested_here: "nested v 0 v"
| nested_arr: "x \<in> set xs \<Longrightarrow> nested x d w \<Longrightarrow> nested (JArr xs) (Suc d) w"
| nested_obj: "(k, x) \<in> set es \<Longrightarrow> nested x d w \<Longrightarrow> nested (JObj es) (Suc d) w"

inductive_simps nested_simps:
  "nested v 0 w" "nested (JArr xs) (Suc d) w" "nested (JObj es) (Suc d) w"
  "nested (JStr s) (Suc d) w" "nested Undef (Suc d) w" "nested Null (Suc d) w"
  "nested (JBool b) (Suc d) w" "nested (JNum n) (Suc d) w"

definition exposes :: "string \<Rightarrow> json \<Rightarrow> nat \<Rightarrow> bool" where
  "exposes org v n \<longleftrightarrow>
     (\<exists>d \<le> n. \<exists>es k e. nested v d (JObj es) \<and> (k, e) \<in> set es \<and> foreign_entry org k e)"

lemma findForeign_shapes:
  "findForeign (JArr xs) org depth = (if depth > 8 then None else findForeign_list xs org depth)"
  "findForeign (JObj es) org depth = (if depth > 8 then None else findForeign_entries es org depth)"
  "findForeign Undef org depth = None" "findForeign Null org depth = None"
  "findForeign (JBool b) org depth = None" "findForeign (JNum n) org depth = None"
  "findForeign (JStr t) org depth = None"
  by simp_all

declare findForeign.simps [simp del]
declare findForeign_shapes [simp]

lemma findForeign_list_None:
  "findForeign_list xs org depth = None \<longleftrightarrow> (\<forall>x \<in> set xs. findForeign x org (Suc depth) = None)"
  by (induction xs) (auto split: option.splits)

lemma findForeign_entries_None:
  "findForeign_entries es org depth = None \<longleftrightarrow>
     (\<forall>(k, e) \<in> set es. \<not> foreign_entry org k e \<and> findForeign e org (Suc depth) = None)"
proof (induction es)
  case (Cons a es)
  obtain k e where a: "a = (k, e)" by (cases a)
  show ?case
  proof (cases "foreign_entry org k e")
    case True
    then have "\<exists>s. e = JStr s" by (auto simp: foreign_entry_def split: json.splits)
    with True a show ?thesis by auto
  next
    case False
    with a Cons show ?thesis by (cases "findForeign e org (Suc depth)") auto
  qed
qed simp

lemma exposes_Arr:
  "exposes org (JArr xs) n \<longleftrightarrow> (\<exists>m. n = Suc m \<and> (\<exists>x \<in> set xs. exposes org x m))"
proof
  assume "exposes org (JArr xs) n"
  then obtain d es k e where d: "d \<le> n" "nested (JArr xs) d (JObj es)"
    and f: "(k, e) \<in> set es" "foreign_entry org k e" by (auto simp: exposes_def)
  from d(2) obtain d' x where d': "d = Suc d'" and x: "x \<in> set xs" "nested x d' (JObj es)"
    by (cases d) (auto simp: nested_simps)
  from d' d(1) obtain m where m: "n = Suc m" "d' \<le> m" by (cases n) auto
  with x f have "exposes org x m" by (auto simp: exposes_def)
  with m x(1) show "\<exists>m. n = Suc m \<and> (\<exists>x \<in> set xs. exposes org x m)" by blast
next
  assume "\<exists>m. n = Suc m \<and> (\<exists>x \<in> set xs. exposes org x m)"
  then show "exposes org (JArr xs) n"
    unfolding exposes_def by (metis Suc_le_mono nested_arr)
qed

lemma exposes_Obj:
  "exposes org (JObj es) n \<longleftrightarrow> (\<exists>(k, e) \<in> set es. foreign_entry org k e) \<or>
     (\<exists>m. n = Suc m \<and> (\<exists>(k, e) \<in> set es. exposes org e m))"
proof
  assume "exposes org (JObj es) n"
  then obtain d fs k e where d: "d \<le> n" "nested (JObj es) d (JObj fs)"
    and f: "(k, e) \<in> set fs" "foreign_entry org k e" by (auto simp: exposes_def)
  show "(\<exists>(k, e) \<in> set es. foreign_entry org k e) \<or>
     (\<exists>m. n = Suc m \<and> (\<exists>(k, e) \<in> set es. exposes org e m))"
  proof (cases d)
    case 0
    with d(2) f show ?thesis by (auto simp: nested_simps)
  next
    case (Suc d')
    with d(2) obtain j x where x: "(j, x) \<in> set es" "nested x d' (JObj fs)"
      by (auto simp: nested_simps)
    from Suc d(1) obtain m where m: "n = Suc m" "d' \<le> m" by (cases n) auto
    with x f have "exposes org x m" by (auto simp: exposes_def)
    with m x(1) show ?thesis by blast
  qed
next
  assume "(\<exists>(k, e) \<in> set es. foreign_entry org k e) \<or>
     (\<exists>m. n = Suc m \<and> (\<exists>(k, e) \<in> set es. exposes org e m))"
  then show "exposes org (JObj es) n"
  proof
    assume "\<exists>(k, e) \<in> set es. foreign_entry org k e"
    then show ?thesis unfolding exposes_def using nested_here [of "JObj es"] by blast
  next
    assume "\<exists>m. n = Suc m \<and> (\<exists>(k, e) \<in> set es. exposes org e m)"
    then show ?thesis unfolding exposes_def using nested_obj [of _ _ es] Suc_le_mono by blast
  qed
qed

lemma exposes_leaf:
  "\<not> exposes org (JStr s) n" "\<not> exposes org Undef n" "\<not> exposes org Null n"
  "\<not> exposes org (JBool b) n" "\<not> exposes org (JNum q) n"
  by (auto simp: exposes_def) (metis not0_implies_Suc nested_simps json.distinct)+

lemma findForeign_deep: "8 < depth \<Longrightarrow> findForeign v org depth = None"
  by (cases v) auto

lemma findForeign_None:
  "findForeign v org depth = None \<longleftrightarrow> \<not> (depth \<le> 8 \<and> exposes org v (8 - depth))"
proof (induction v arbitrary: depth)
  case (JArr xs)
  consider "depth > 8" | "depth = 8" | m where "depth < 8" "8 - depth = Suc m" "m = 8 - Suc depth"
    by (metis Suc_diff_Suc linorder_less_linear)
  then show ?case
  proof cases
    case 2
    then show ?thesis by (simp add: findForeign_list_None findForeign_deep exposes_Arr)
  next
    case 3
    have "findForeign x org (Suc depth) = None \<longleftrightarrow> \<not> exposes org x m" if "x \<in> set xs" for x
      using 3 JArr [OF that, of "Suc depth"] by simp
    with 3 show ?thesis by (auto simp: findForeign_list_None exposes_Arr)
  qed simp
next
  case (JObj es)
  consider "depth > 8" | "depth = 8" | m where "depth < 8" "8 - depth = Suc m" "m = 8 - Suc depth"
    by (metis Suc_diff_Suc linorder_less_linear)
  then show ?case
  proof cases
    case 2
    then show ?thesis by (auto simp: findForeign_entries_None findForeign_deep exposes_Obj)
  next
    case 3
    have "findForeign e org (Suc depth) = None \<longleftrightarrow> \<not> exposes org e m" if "(k, e) \<in> set es" for k e
      using 3 JObj [OF that, of e "Suc depth"] by simp
    then have "(\<forall>(k, e) \<in> set es. \<not> foreign_entry org k e \<and> findForeign e org (Suc depth) = None) \<longleftrightarrow>
        (\<forall>(k, e) \<in> set es. \<not> foreign_entry org k e \<and> \<not> exposes org e m)" by blast
    also have "\<dots> \<longleftrightarrow> \<not> exposes org (JObj es) (8 - depth)"
      unfolding 3(2) exposes_Obj by blast
    finally show ?thesis using 3(1) by (simp add: findForeign_entries_None)
  qed simp
qed (simp_all add: exposes_leaf)

lemma findForeignOrganizationId_None:
  "findForeignOrganizationId ch org = None \<longleftrightarrow> \<not> exposes org (JObj ch) 8"
  unfolding findForeignOrganizationId_def findForeign_None by simp

section \<open>What each law demands\<close>

definition authorized :: "deployment_intent \<Rightarrow> bool" where
  "authorized i \<longleftrightarrow>
     (if actorId i = ''system'' then policyRequiresApproval i \<longrightarrow> truthy (approvedById i)
      else set (actorPermissions i) \<inter>
             {''*'', ''evolution:deploy'', REQUIRED_PERMISSION (subject i)} \<noteq> {})"

definition no_escalation :: "deployment_intent \<Rightarrow> bool" where
  "no_escalation i \<longleftrightarrow>
     set (keys (change i)) \<inter> set AUTHORITY_FIELDS = {} \<and>
     (\<forall>ps cs. getp ''toolPermissions'' (change i) = JArr ps \<longrightarrow>
        getp ''toolPermissions'' (rollback i) = JArr cs \<longrightarrow> \<not> truthy (approvedById i) \<longrightarrow>
        (\<forall>p \<in> set ps. arr_includes cs p))"

definition reversible :: "deployment_intent \<Rightarrow> bool" where
  "reversible i \<longleftrightarrow> rollback i \<noteq> [] \<and> (\<forall>k \<in> set (keys (change i)). in_obj k (rollback i))"

definition consented :: "deployment_intent \<Rightarrow> bool" where
  "consented i \<longleftrightarrow> (policyRequiresApproval i \<longrightarrow>
     (\<exists>a. approvedById i = Some a \<and> a \<noteq> [] \<and> a \<noteq> ''system''))"

definition evidenced :: "deployment_intent \<Rightarrow> bool" where
  "evidenced i \<longleftrightarrow> benchmarkVerdict i \<noteq> Some WORSE \<and>
     (truthy (approvedById i) \<or>
      (benchmarkVerdict i \<in> {None, Some BETTER} \<and> \<not> num_le (confidence i) (Fin 0)))"

definition no_destruction :: "deployment_intent \<Rightarrow> bool" where
  "no_destruction i \<longleftrightarrow> (\<forall>(k, v) \<in> set (change i).
     k \<notin> set DESTRUCTIVE_FIELDS \<and> (ends_with ''deletedAt'' k \<longrightarrow> v = Null))"

lemma truthy_iff: "truthy x \<longleftrightarrow> (\<exists>s. x = Some s \<and> s \<noteq> [])"
  by (cases x) auto

lemma append_not_Nil_dest: "xs = y # ys \<Longrightarrow> xs \<noteq> []"
  by simp

named_theorems law_checks \<open>when the reason a law returns is falsy\<close>

lemma check_org_permissions_iff [law_checks]:
  "\<not> truthy (check_org_permissions i) \<longleftrightarrow> authorized i"
  by (auto simp: check_org_permissions_def authorized_def Let_def)

lemma check_no_privilege_escalation_iff [law_checks]:
  "\<not> truthy (check_no_privilege_escalation str i) \<longleftrightarrow> no_escalation i"
proof (cases "filter (\<lambda>field. field \<in> set AUTHORITY_FIELDS) (keys (change i)) = []")
  case False
  then have "set (keys (change i)) \<inter> set AUTHORITY_FIELDS \<noteq> {}" by (auto simp: filter_empty_conv)
  moreover have "truthy (check_no_privilege_escalation str i)"
    using False unfolding check_no_privilege_escalation_def Let_def by simp
  ultimately show ?thesis unfolding no_escalation_def by blast
next
  case True
  then have d: "set (keys (change i)) \<inter> set AUTHORITY_FIELDS = {}"
    by (auto simp: filter_empty_conv)
  show ?thesis
    using True unfolding check_no_privilege_escalation_def no_escalation_def d Let_def
    by (simp add: filter_empty_conv split: json.split)
qed

lemma check_tenant_isolation_iff [law_checks]:
  "\<not> truthy (check_tenant_isolation i) \<longleftrightarrow>
     subjectOrganizationId i = organizationId i \<and> \<not> exposes (organizationId i) (JObj (change i)) 8"
  by (simp add: check_tenant_isolation_def findForeignOrganizationId_None [symmetric] split: option.split)

lemma check_no_automatic_deletion_iff [law_checks]:
  "\<not> truthy (check_no_automatic_deletion i) \<longleftrightarrow> no_destruction i"
  by (auto simp: check_no_automatic_deletion_def no_destruction_def Let_def filter_empty_conv)

lemma check_policy_compliance_iff [law_checks]:
  "\<not> truthy (check_policy_compliance i) \<longleftrightarrow> policySatisfied i \<or> policyReason i = Some []"
  by (auto simp: check_policy_compliance_def split: option.split)

lemma check_human_consent_iff [law_checks]:
  "\<not> truthy (check_human_consent i) \<longleftrightarrow> consented i"
  by (cases "approvedById i") (simp_all add: check_human_consent_def consented_def)

lemma check_reversibility_iff [law_checks]:
  "\<not> truthy (check_reversibility i) \<longleftrightarrow> reversible i"
  by (simp add: check_reversibility_def reversible_def Let_def filter_empty_conv)

lemma check_auditability_iff [law_checks]:
  "\<not> truthy (check_auditability i) \<longleftrightarrow> auditable i"
  by (simp add: check_auditability_def)

lemma check_evidence_required_iff [law_checks]:
  "\<not> truthy (check_evidence_required i) \<longleftrightarrow> evidenced i"
proof (cases "benchmarkVerdict i")
  case (Some v)
  then show ?thesis by (cases v) (auto simp: check_evidence_required_def evidenced_def)
qed (auto simp: check_evidence_required_def evidenced_def)

lemmas LAW_defs = LAW_ORG_PERMISSIONS_def LAW_NO_PRIVILEGE_ESCALATION_def LAW_TENANT_ISOLATION_def
  LAW_NO_AUTOMATIC_DELETION_def LAW_POLICY_COMPLIANCE_def LAW_HUMAN_CONSENT_def LAW_REVERSIBILITY_def
  LAW_AUDITABILITY_def LAW_EVIDENCE_REQUIRED_def

lemma law_verdict_passed: "passed (law_verdict_of i l) \<longleftrightarrow> \<not> truthy (check l i)"
  by (simp add: law_verdict_of_def Let_def)

lemma law_verdict_id: "lawId (law_verdict_of i l) = law_id l"
  by (simp add: law_verdict_of_def Let_def)

lemma permitted_all:
  "permitted (review sha str i) \<longleftrightarrow> (\<forall>l \<in> set (CONSTITUTION str). \<not> truthy (check l i))"
  by (simp add: review_def Let_def filter_empty_conv law_verdict_passed)

section \<open>Properties\<close>

lemma permitted_iff:
  "permitted (review sha str i) \<longleftrightarrow>
     authorized i \<and> no_escalation i \<and>
     (subjectOrganizationId i = organizationId i \<and> \<not> exposes (organizationId i) (JObj (change i)) 8) \<and>
     no_destruction i \<and> (policySatisfied i \<or> policyReason i = Some []) \<and>
     consented i \<and> reversible i \<and> auditable i \<and> evidenced i"
  unfolding permitted_all CONSTITUTION_def LAW_defs by (simp add: law_checks)

text \<open>C1: An intent is permitted exactly when all nine laws are met: the actor is authorized, no
  authority field is touched and no tool is added without approval, subject and change stay
  inside the organization (down to eight levels of nesting), nothing historical is deleted, the
  policy agreed (or gave an empty reason), required consent is a person's, the rollback covers the
  change, the deployment is auditable and there is evidence.\<close>

theorem review_permits_iff:
  "permitted (review sha str i) \<longleftrightarrow>
     authorized i \<and> no_escalation i \<and>
     (subjectOrganizationId i = organizationId i \<and> \<not> exposes (organizationId i) (JObj (change i)) 8) \<and>
     no_destruction i \<and> (policySatisfied i \<or> policyReason i = Some []) \<and>
     consented i \<and> reversible i \<and> auditable i \<and> evidenced i"
  by (rule permitted_iff)

text \<open>Every law is evaluated, in declaration order and whatever the others say; the violations
  are exactly the refusing laws, each with the reason its check gave.\<close>

theorem review_checks_every_law:
  "map lawId (checked (review sha str i)) =
     [''ORG_PERMISSIONS'', ''NO_PRIVILEGE_ESCALATION'', ''TENANT_ISOLATION'',
      ''NO_AUTOMATIC_DELETION'', ''POLICY_COMPLIANCE'', ''HUMAN_CONSENT'', ''REVERSIBILITY'',
      ''AUDITABILITY'', ''EVIDENCE_REQUIRED''] \<and>
   violations (review sha str i) =
     map (\<lambda>l. \<lparr>lawId = law_id l, passed = False, reason = check l i\<rparr>)
       (filter (\<lambda>l. truthy (check l i)) (CONSTITUTION str)) \<and>
   (permitted (review sha str i) \<longleftrightarrow> violations (review sha str i) = [])"
proof (intro conjI)
  show "map lawId (checked (review sha str i)) =
     [''ORG_PERMISSIONS'', ''NO_PRIVILEGE_ESCALATION'', ''TENANT_ISOLATION'',
      ''NO_AUTOMATIC_DELETION'', ''POLICY_COMPLIANCE'', ''HUMAN_CONSENT'', ''REVERSIBILITY'',
      ''AUDITABILITY'', ''EVIDENCE_REQUIRED'']"
    by (simp add: review_def Let_def CONSTITUTION_def law_verdict_id LAW_defs)
  have "filter (\<lambda>v. \<not> passed v) (map (law_verdict_of i) ls) =
     map (\<lambda>l. \<lparr>lawId = law_id l, passed = False, reason = check l i\<rparr>)
       (filter (\<lambda>l. truthy (check l i)) ls)" for ls
    by (induction ls) (simp_all add: law_verdict_of_def Let_def)
  then show "violations (review sha str i) =
     map (\<lambda>l. \<lparr>lawId = law_id l, passed = False, reason = check l i\<rparr>)
       (filter (\<lambda>l. truthy (check l i)) (CONSTITUTION str))"
    by (simp add: review_def Let_def)
  show "permitted (review sha str i) \<longleftrightarrow> violations (review sha str i) = []"
    by (simp add: review_def Let_def)
qed

definition empty_reason_intent :: deployment_intent where
  "empty_reason_intent =
     \<lparr>organizationId = ''org'', actorId = ''u1'', actorPermissions = [''worker:update''],
      subject = WORKER, subjectId = ''w1'', subjectOrganizationId = ''org'', kind = ''PROMPT'',
      change = [(''prompt'', JStr ''new'')], rollback = [(''prompt'', JStr ''old'')],
      approvedById = None, approvedAt = None, policyRequiresApproval = False,
      policySatisfied = False, policyReason = Some [], confidence = Fin 1,
      benchmarkVerdict = Some BETTER, auditable = True\<rparr>"

text \<open>An unsatisfied policy whose reason is the empty string does not stop a deployment: the law
  returns the reason, and \<open>review\<close> reads an empty reason as a pass.\<close>

theorem empty_policy_reason_passes:
  "\<not> policySatisfied empty_reason_intent \<and> permitted (review sha str empty_reason_intent)"
  by (auto simp: permitted_all CONSTITUTION_def LAW_defs law_checks empty_reason_intent_def authorized_def
      no_escalation_def no_destruction_def consented_def reversible_def evidenced_def
      AUTHORITY_FIELDS_def DESTRUCTIVE_FIELDS_def getp_def in_obj_def exposes_Obj exposes_leaf
      foreign_entry_def names_organization_def ends_with_def)

text \<open>The permission the constitution asks for on a workflow change is in no role's bundle, so a
  person with a role's permissions passes that law only through \<open>evolution:deploy\<close>, which owners
  and administrators hold.\<close>

theorem workflow_change_needs_deploy:
  assumes "subject i = WORKFLOW" and "actorId i \<noteq> ''system''"
    and "actorPermissions i = ROLE_PERMISSIONS r"
  shows "''workflow:update'' \<notin> set ALL_PERMISSIONS \<and>
    (check_org_permissions i = None \<longleftrightarrow> r = Owner \<or> r = Admin)"
proof
  show nw: "''workflow:update'' \<notin> set ALL_PERMISSIONS" by code_simp
  have d: "''evolution:deploy'' \<in> set (ROLE_PERMISSIONS r) \<longleftrightarrow> r = Owner \<or> r = Admin"
  proof -
    have "''evolution:deploy'' \<in> set (ROLE_PERMISSIONS Owner)"
      and "''evolution:deploy'' \<in> set (ROLE_PERMISSIONS Admin)"
      and "''evolution:deploy'' \<notin> set (ROLE_PERMISSIONS Operator)"
      and "''evolution:deploy'' \<notin> set (ROLE_PERMISSIONS Viewer)"
      by code_simp+
    then show ?thesis by (cases r) blast+
  qed
  have "''workflow:update'' \<notin> set (ROLE_PERMISSIONS r)" using nw role_catalogued by blast
  then show "check_org_permissions i = None \<longleftrightarrow> r = Owner \<or> r = Admin"
    using assms role_no_wildcard [of r] d by (simp add: check_org_permissions_def)
qed

theorem workflow_change_needs_deploy_witness:
  "check_org_permissions (empty_reason_intent\<lparr>subject := WORKFLOW,
     actorPermissions := ROLE_PERMISSIONS Operator\<rparr>) \<noteq> None"
  using workflow_change_needs_deploy [of "empty_reason_intent\<lparr>subject := WORKFLOW,
     actorPermissions := ROLE_PERMISSIONS Operator\<rparr>" Operator]
  by (simp add: empty_reason_intent_def)

end
