(* ===== verification/EgressGuard.thy ===== *)
theory EgressGuard
  imports JsValue "HOL-Library.Word"
begin

text \<open>
  \<open>backend/src/shared/http/egress-guard.ts\<close>: classification of the addresses an outbound request
  may reach, the policy decision, CIDR allowances, URL validation and the check of resolved
  addresses.

  An IPv4 address is a \<open>32 word\<close>, the bytes of an IPv6 address are \<open>8 word\<close>s. \<open>isIP\<close> of
  \<open>node:net\<close> is modelled by the textual form of the two families. The URL parser of the host is a
  parameter of \<open>validateUrl\<close>.
\<close>

unbundle bit_operations_syntax

section \<open>Textual forms\<close>

definition ipv4_octet :: "string \<Rightarrow> bool" where
  "ipv4_octet p \<longleftrightarrow> p \<noteq> [] \<and> length p \<le> 3 \<and> list_all is_digit p \<and>
     (length p = 1 \<or> hd p \<noteq> CHR ''0'') \<and> dec_val p \<le> 255"

definition isIPv4 :: "string \<Rightarrow> bool" where
  "isIPv4 s = (let ps = split_str ''.'' s in length ps = 4 \<and> list_all ipv4_octet ps)"

definition ipv6_group :: "string \<Rightarrow> bool" where
  "ipv6_group p \<longleftrightarrow> p \<noteq> [] \<and> length p \<le> 4 \<and> list_all is_hex p"

text \<open>Sixteen-bit groups a colon-separated part stands for; a dotted quad may close it when \<open>v4\<close>.\<close>

fun ipv6_count :: "bool \<Rightarrow> string list \<Rightarrow> nat option" where
  "ipv6_count v4 [] = Some 0"
| "ipv6_count v4 [p] = (if ipv6_group p then Some 1 else if v4 \<and> isIPv4 p then Some 2 else None)"
| "ipv6_count v4 (p # q # ps) =
     (if ipv6_group p then map_option Suc (ipv6_count v4 (q # ps)) else None)"

definition ipv6_part :: "bool \<Rightarrow> string \<Rightarrow> nat option" where
  "ipv6_part v4 s = (if s = [] then Some 0 else ipv6_count v4 (split_str '':'' s))"

definition ipv6_body :: "string \<Rightarrow> bool" where
  "ipv6_body s =
     (case split_str ''::'' s of
        [a] \<Rightarrow> a \<noteq> [] \<and> ipv6_part True a = Some 8
      | [a, b] \<Rightarrow>
          (case (ipv6_part False a, ipv6_part True b) of
             (Some m, Some n) \<Rightarrow> m + n \<le> 7
           | _ \<Rightarrow> False)
      | _ \<Rightarrow> False)"

definition zone_char :: "char \<Rightarrow> bool" where
  "zone_char c \<longleftrightarrow> is_alnum c \<or> c = CHR ''-'' \<or> c = CHR ''.'' \<or> c = CHR '':''"

definition isIPv6 :: "string \<Rightarrow> bool" where
  "isIPv6 s =
     (case split_str ''%'' s of
        [a] \<Rightarrow> ipv6_body a
      | [a, z] \<Rightarrow> ipv6_body a \<and> z \<noteq> [] \<and> list_all zone_char z
      | _ \<Rightarrow> False)"

definition isIP :: "string \<Rightarrow> nat" where
  "isIP s = (if isIPv4 s then 4 else if isIPv6 s then 6 else 0)"

section \<open>IPv4\<close>

datatype block_reason =
    Loopback | Private | LinkLocal | CloudMetadata | CarrierNat | MulticastR | Broadcast
  | Unspecified | Reserved | Documentation | Benchmarking | UniqueLocal | Unroutable

fun reason_name :: "block_reason \<Rightarrow> string" where
  "reason_name Loopback = ''loopback''"
| "reason_name Private = ''private''"
| "reason_name LinkLocal = ''link-local''"
| "reason_name CloudMetadata = ''cloud-metadata''"
| "reason_name CarrierNat = ''carrier-nat''"
| "reason_name MulticastR = ''multicast''"
| "reason_name Broadcast = ''broadcast''"
| "reason_name Unspecified = ''unspecified''"
| "reason_name Reserved = ''reserved''"
| "reason_name Documentation = ''documentation''"
| "reason_name Benchmarking = ''benchmarking''"
| "reason_name UniqueLocal = ''unique-local''"
| "reason_name Unroutable = ''unroutable''"

record address_verdict =
  v_allowed :: bool
  v_reason :: "block_reason option"
  v_canonical :: string
  v_family :: nat

definition quad_word :: "nat list \<Rightarrow> 32 word" where
  "quad_word ps =
     push_bit 24 (of_nat (ps ! 0)) + push_bit 16 (of_nat (ps ! 1)) +
     push_bit 8 (of_nat (ps ! 2)) + of_nat (ps ! 3)"

definition toIPv4Number :: "string \<Rightarrow> 32 word option" where
  "toIPv4Number address =
     (if isIP address \<noteq> 4 then None
      else let parts = map dec_val (split_str ''.'' address) in
        if length parts \<noteq> 4 \<or> list_ex (\<lambda>n. n > 255) parts then None
        else Some (quad_word parts))"

record ip_range =
  base :: "32 word"
  bits :: nat
  r_reason :: block_reason

definition cidr :: "string \<Rightarrow> nat \<Rightarrow> block_reason \<Rightarrow> ip_range result" where
  "cidr network b reason =
     (case toIPv4Number network of
        None \<Rightarrow> Inl (quoted network @ '' is not an IPv4 address'')
      | Some n \<Rightarrow> Inr \<lparr>base = n, bits = b, r_reason = reason\<rparr>)"

text \<open>The module constant, as the calls that build it; a throw would stop the module from loading.\<close>

definition BLOCKED_IPV4_calls :: "ip_range result list" where
  "BLOCKED_IPV4_calls =
     [cidr ''0.0.0.0'' 8 Unspecified, cidr ''10.0.0.0'' 8 Private,
      cidr ''100.64.0.0'' 10 CarrierNat, cidr ''127.0.0.0'' 8 Loopback,
      cidr ''169.254.0.0'' 16 LinkLocal, cidr ''172.16.0.0'' 12 Private,
      cidr ''192.0.0.0'' 24 Reserved, cidr ''192.0.2.0'' 24 Documentation,
      cidr ''192.88.99.0'' 24 Reserved, cidr ''192.168.0.0'' 16 Private,
      cidr ''198.18.0.0'' 15 Benchmarking, cidr ''198.51.100.0'' 24 Documentation,
      cidr ''203.0.113.0'' 24 Documentation, cidr ''224.0.0.0'' 4 MulticastR,
      cidr ''240.0.0.0'' 4 Reserved, cidr ''255.255.255.255'' 32 Broadcast]"

fun collect :: "'a result list \<Rightarrow> 'a list result" where
  "collect [] = Inr []"
| "collect (r # rs) = bindE r (\<lambda>x. bindE (collect rs) (\<lambda>xs. Inr (x # xs)))"

definition BLOCKED_IPV4 :: "ip_range list" where
  "BLOCKED_IPV4 = (case collect BLOCKED_IPV4_calls of Inl e \<Rightarrow> [] | Inr rs \<Rightarrow> rs)"

definition cidr_mask :: "nat \<Rightarrow> 32 word" where
  "cidr_mask b = (if b = 0 then 0 else push_bit (32 - b) (- 1))"

definition in_cidr :: "32 word \<Rightarrow> 32 word \<Rightarrow> nat \<Rightarrow> bool" where
  "in_cidr v n b \<longleftrightarrow> v AND cidr_mask b = n AND cidr_mask b"

text \<open>The loop of \<open>classifyIPv4\<close>: the narrowest matching range so far.\<close>

fun narrowest :: "32 word \<Rightarrow> ip_range option \<Rightarrow> ip_range list \<Rightarrow> ip_range option" where
  "narrowest v m [] = m"
| "narrowest v m (r # rs) =
     narrowest v
       (if in_cidr v (base r) (bits r) \<and> (case m of None \<Rightarrow> True | Some q \<Rightarrow> bits r > bits q)
        then Some r else m) rs"

definition classifyIPv4 :: "string \<Rightarrow> address_verdict" where
  "classifyIPv4 address =
     (case toIPv4Number address of
        None \<Rightarrow> \<lparr>v_allowed = False, v_reason = Some Unroutable, v_canonical = address, v_family = 0\<rparr>
      | Some v \<Rightarrow>
          (case narrowest v None BLOCKED_IPV4 of
             Some m \<Rightarrow> \<lparr>v_allowed = False,
                        v_reason = Some (if address = ''169.254.169.254'' then CloudMetadata
                                         else r_reason m),
                        v_canonical = address, v_family = 4\<rparr>
           | None \<Rightarrow> \<lparr>v_allowed = True, v_reason = None, v_canonical = address, v_family = 4\<rparr>))"

section \<open>IPv6\<close>

type_synonym bytes = "8 word list"

definition hex_char :: "nat \<Rightarrow> char" where
  "hex_char d = (if d < 10 then digit_char d else char_of (87 + d))"

fun show_hex :: "nat \<Rightarrow> string" where
  "show_hex n = (if n < 16 then [hex_char n] else show_hex (n div 16) @ [hex_char (n mod 16)])"

declare show_hex.simps [simp del]

text \<open>The trailing dotted quad of the regular expression: the leftmost suffix of that form.\<close>

definition quad_form :: "string \<Rightarrow> bool" where
  "quad_form s = (let ps = split_str ''.'' s in length ps = 4 \<and>
     list_all (\<lambda>p. p \<noteq> [] \<and> length p \<le> 3 \<and> list_all is_digit p) ps)"

fun dotted_tail :: "string \<Rightarrow> (string \<times> string) option" where
  "dotted_tail [] = None"
| "dotted_tail (c # s) =
     (if quad_form (c # s) then Some ([], c # s)
      else map_option (\<lambda>(h, q). (c # h, q)) (dotted_tail s))"

definition parseInt16 :: "string \<Rightarrow> nat option" where
  "parseInt16 s = (let ds = takeWhile is_hex s in if ds = [] then None else Some (hex_val ds))"

fun hextet_bytes :: "string list \<Rightarrow> bytes option" where
  "hextet_bytes [] = Some []"
| "hextet_bytes (h # hs) =
     (case parseInt16 h of
        None \<Rightarrow> None
      | Some v \<Rightarrow> if v > 0xffff then None
                  else map_option (\<lambda>bs. of_nat (v div 256) # of_nat (v mod 256) # bs) (hextet_bytes hs))"

text \<open>Rewriting a dotted tail into two hextets.\<close>

definition normalise_v6 :: "string \<Rightarrow> string option" where
  "normalise_v6 bare =
     (case dotted_tail bare of
        None \<Rightarrow> Some bare
      | Some (pre, q) \<Rightarrow>
          (case toIPv4Number q of
             None \<Rightarrow> None
           | Some w \<Rightarrow> Some (pre @ show_hex (unat w div 65536) @ '':'' @ show_hex (unat w mod 65536))))"

definition nonempty_fields :: "string \<Rightarrow> string list" where
  "nonempty_fields s = (if s = [] then [] else filter (\<lambda>p. p \<noteq> []) (split_str '':'' s))"

text \<open>\<open>const [head, tail] = normalised.split('::')\<close>; a missing \<open>tail\<close> is falsy like an empty one.\<close>

definition hextets_of :: "string \<Rightarrow> string list option" where
  "hextets_of normalised =
     (let parts = split_str ''::'' normalised;
          headParts = nonempty_fields (hd parts);
          tailParts = (case tl parts of [] \<Rightarrow> [] | t # _ \<Rightarrow> nonempty_fields t);
          used = length headParts + length tailParts in
      if used > 8 then None
      else
        let hextets = headParts @ (if tl parts \<noteq> [] then replicate (8 - used) ''0'' else []) @ tailParts in
        if length hextets \<noteq> 8 then None else Some hextets)"

definition toIPv6Bytes :: "string \<Rightarrow> bytes option" where
  "toIPv6Bytes address =
     (if isIP address \<noteq> 6 then None
      else
        let bare = hd (split_str ''%'' address) in
        Option.bind (normalise_v6 bare) (\<lambda>n. Option.bind (hextets_of n) hextet_bytes))"

definition byte_at :: "bytes \<Rightarrow> nat \<Rightarrow> 8 word" where
  "byte_at bs i = (if i < length bs then bs ! i else 0)"

definition hasPrefix :: "bytes \<Rightarrow> bytes \<Rightarrow> nat \<Rightarrow> bool" where
  "hasPrefix bs prefix n =
     list_all (\<lambda>i. bit (byte_at prefix (i div 8)) (7 - i mod 8) = bit (byte_at bs (i div 8)) (7 - i mod 8))
       [0..<n]"

definition V6_CHECKS :: "(bytes \<times> nat \<times> block_reason) list" where
  "V6_CHECKS =
     [([0, 0, 0, 0, 0, 0, 0, 0, 0, 0, 0, 0, 0, 0, 0, 0], 128, Unspecified),
      ([0, 0, 0, 0, 0, 0, 0, 0, 0, 0, 0, 0, 0, 0, 0, 1], 128, Loopback),
      ([0x01, 0x00], 64, Unroutable),
      ([0x20, 0x01, 0x0d, 0xb8], 32, Documentation),
      ([0xfc], 7, UniqueLocal),
      ([0xfe, 0x80], 10, LinkLocal),
      ([0xff], 8, MulticastR)]"

fun first_check :: "bytes \<Rightarrow> (bytes \<times> nat \<times> block_reason) list \<Rightarrow> block_reason option" where
  "first_check bs [] = None"
| "first_check bs ((p, n, r) # cs) = (if hasPrefix bs p n then Some r else first_check bs cs)"

definition v4_embedded :: "bytes \<Rightarrow> bool" where
  "v4_embedded bs \<longleftrightarrow> hasPrefix bs [0, 0, 0, 0, 0, 0, 0, 0, 0, 0, 0xff, 0xff] 96 \<or>
     hasPrefix bs [0x00, 0x64, 0xff, 0x9b] 32"

definition quad_string :: "nat \<Rightarrow> nat \<Rightarrow> nat \<Rightarrow> nat \<Rightarrow> string" where
  "quad_string a b c d =
     show_nat a @ ''.'' @ show_nat b @ ''.'' @ show_nat c @ ''.'' @ show_nat d"

definition embedded_quad :: "bytes \<Rightarrow> string" where
  "embedded_quad bs = quad_string (unat (byte_at bs 12)) (unat (byte_at bs 13))
     (unat (byte_at bs 14)) (unat (byte_at bs 15))"

definition classifyIPv6_bytes :: "string \<Rightarrow> bytes \<Rightarrow> address_verdict" where
  "classifyIPv6_bytes address bs =
     (if v4_embedded bs
      then let quad = embedded_quad bs in (classifyIPv4 quad)\<lparr>v_canonical := quad\<rparr>
      else case first_check bs V6_CHECKS of
        Some r \<Rightarrow> \<lparr>v_allowed = False, v_reason = Some r, v_canonical = address, v_family = 6\<rparr>
      | None \<Rightarrow>
          if filter (\<lambda>c. \<not> is_space c) (map ascii_lower address) = ''fd00:ec2::254''
          then \<lparr>v_allowed = False, v_reason = Some CloudMetadata, v_canonical = address, v_family = 6\<rparr>
          else \<lparr>v_allowed = True, v_reason = None, v_canonical = address, v_family = 6\<rparr>)"

definition classifyIPv6 :: "string \<Rightarrow> address_verdict" where
  "classifyIPv6 address =
     (case toIPv6Bytes address of
        None \<Rightarrow> \<lparr>v_allowed = False, v_reason = Some Unroutable, v_canonical = address, v_family = 0\<rparr>
      | Some bs \<Rightarrow> classifyIPv6_bytes address bs)"

definition classifyAddress :: "string \<Rightarrow> address_verdict" where
  "classifyAddress address =
     (if isIP address = 4 then classifyIPv4 address
      else if isIP address = 6 then classifyIPv6 address
      else \<lparr>v_allowed = False, v_reason = Some Unroutable, v_canonical = address, v_family = 0\<rparr>)"

section \<open>Policies\<close>

definition ALWAYS_DENIED :: "block_reason list" where
  "ALWAYS_DENIED = [CloudMetadata, LinkLocal, MulticastR, Broadcast, Unspecified, Unroutable]"

record egress_policy =
  policy_name :: "string option"
  allowedPorts :: "nat list option"
  allowedCidrs :: "string list option"
  allowPrivate :: bool

definition default_policy :: egress_policy where
  "default_policy = \<lparr>policy_name = None, allowedPorts = None, allowedCidrs = None, allowPrivate = False\<rparr>"

definition parseCidr :: "string \<Rightarrow> (32 word \<times> nat) result" where
  "parseCidr entry =
     (let parts = split_str ''/'' (trim entry);
          n = toIPv4Number (hd parts);
          b = (case tl parts of [] \<Rightarrow> Some 32 | p # _ \<Rightarrow> as_integer (js_number p)) in
      case (n, b) of
        (Some w, Some k) \<Rightarrow>
          if k < 0 \<or> k > 32 then Inl (quoted entry @ '' is not an IPv4 CIDR block'') else Inr (w, nat k)
      | _ \<Rightarrow> Inl (quoted entry @ '' is not an IPv4 CIDR block''))"

fun within_any :: "32 word \<Rightarrow> string list \<Rightarrow> bool" where
  "within_any v [] = False"
| "within_any v (entry # cidrs) =
     (case parseCidr entry of
        Inl _ \<Rightarrow> within_any v cidrs
      | Inr (n, b) \<Rightarrow> if in_cidr v n b then True else within_any v cidrs)"

definition withinCidrs :: "string \<Rightarrow> string list \<Rightarrow> bool" where
  "withinCidrs address cidrs =
     (case toIPv4Number address of None \<Rightarrow> False | Some v \<Rightarrow> within_any v cidrs)"

text \<open>\<open>Inr ()\<close> is allowed, \<open>Inl r\<close> refused for \<open>r\<close>.\<close>

definition permits :: "address_verdict \<Rightarrow> egress_policy \<Rightarrow> block_reason + unit" where
  "permits verdict policy =
     (if v_allowed verdict then Inr ()
      else
        let reason = (case v_reason verdict of None \<Rightarrow> Unroutable | Some r \<Rightarrow> r) in
        if reason \<in> set ALWAYS_DENIED then Inl reason
        else if allowPrivate policy then Inr ()
        else case allowedCidrs policy of
            Some cidrs \<Rightarrow> if cidrs \<noteq> [] \<and> withinCidrs (v_canonical verdict) cidrs then Inr ()
                         else Inl reason
          | None \<Rightarrow> Inl reason)"

section \<open>URLs and resolved addresses\<close>

text \<open>
  What the URL parser of the host returns; \<open>port\<close> is empty when the URL names none, otherwise
  decimal digits; \<open>url_path\<close> is \<open>pathname\<close> followed by \<open>search\<close>. A refusal carries the target and the reason of the \<open>EgressBlockedError\<close>.
\<close>

record url =
  protocol :: string
  username :: string
  password :: string
  url_hostname :: string
  port :: string
  url_host :: string
  url_path :: string
  url_origin :: string
  href :: string

record url_verdict =
  uv_url :: url
  uv_hostname :: string
  uv_port :: nat
  literalAddress :: "string option"

type_synonym egress_error = "string \<times> string"

definition BLOCKED_HOSTNAMES :: "string list" where
  "BLOCKED_HOSTNAMES =
     [''localhost'', ''metadata'', ''metadata.google.internal'', ''metadata.goog'',
      ''instance-data'', ''instance-data.ec2.internal'']"

definition METADATA_HOSTNAMES :: "string list" where
  "METADATA_HOSTNAMES =
     [''metadata'', ''metadata.google.internal'', ''metadata.goog'', ''instance-data'',
      ''instance-data.ec2.internal'']"

definition BLOCKED_SUFFIXES :: "string list" where
  "BLOCKED_SUFFIXES =
     [''.localhost'', ''.local'', ''.internal'', ''.intranet'', ''.private'', ''.home.arpa'']"

definition DEFAULT_ALLOWED_PORTS :: "nat list" where
  "DEFAULT_ALLOWED_PORTS = [80, 443, 8080, 8443]"

text \<open>\<open>hostname.toLowerCase().replace(/^\[|\]$/g, '')\<close>.\<close>

definition strip_brackets :: "string \<Rightarrow> string" where
  "strip_brackets s =
     (let a = (if starts_with ''['' s then drop 1 s else s) in
      if ends_with '']'' a then butlast a else a)"

definition relaxed :: "egress_policy \<Rightarrow> bool" where
  "relaxed policy \<longleftrightarrow> allowPrivate policy \<or>
     (case allowedCidrs policy of None \<Rightarrow> False | Some cs \<Rightarrow> cs \<noteq> [])"

definition check_hostname :: "string \<Rightarrow> egress_policy \<Rightarrow> egress_error + unit" where
  "check_hostname hostname policy =
     (if hostname \<in> set METADATA_HOSTNAMES then Inl (hostname, ''it names a cloud metadata host'')
      else if relaxed policy then Inr ()
      else if hostname \<in> set BLOCKED_HOSTNAMES then Inl (hostname, ''it names a local or metadata host'')
      else case filter (\<lambda>suffix. ends_with suffix hostname) BLOCKED_SUFFIXES of
          suffix # _ \<Rightarrow> Inl (hostname, quoted suffix @ '' names an internal host'')
        | [] \<Rightarrow> Inr ())"

definition check_literal :: "string \<Rightarrow> egress_policy \<Rightarrow> egress_error + unit" where
  "check_literal hostname policy =
     (if isIP hostname \<noteq> 0 then
        (case permits (classifyAddress hostname) policy of
           Inr _ \<Rightarrow> Inr ()
         | Inl r \<Rightarrow> Inl (hostname, ''it is a '' @ reason_name r @ '' address''))
      else Inr ())"

definition validateUrl :: "(string \<Rightarrow> url option) \<Rightarrow> string \<Rightarrow> egress_policy \<Rightarrow> egress_error + url_verdict" where
  "validateUrl parse_url raw policy =
     (case parse_url raw of
        None \<Rightarrow> Inl (raw, ''it is not a valid URL'')
      | Some u \<Rightarrow>
          if protocol u \<noteq> ''http:'' \<and> protocol u \<noteq> ''https:''
          then Inl (raw, ''the scheme '' @ quoted (protocol u) @ '' is not permitted'')
          else if username u \<noteq> [] \<or> password u \<noteq> []
          then Inl (raw, ''credentials in the URL are not permitted'')
          else
            let hostname = strip_brackets (map ascii_lower (url_hostname u)) in
            if hostname = [] then Inl (raw, ''it has no host'')
            else bindE (check_hostname hostname policy) (\<lambda>_.
              bindE (check_literal hostname policy) (\<lambda>_.
                let p = (if port u \<noteq> [] then dec_val (port u)
                         else if protocol u = ''https:'' then 443 else 80);
                    allowed = (case allowedPorts policy of None \<Rightarrow> DEFAULT_ALLOWED_PORTS | Some ps \<Rightarrow> ps)
                in if p \<notin> set allowed
                   then Inl (raw, ''port '' @ show_nat p @ '' is not permitted'')
                   else Inr \<lparr>uv_url = u, uv_hostname = hostname, uv_port = p,
                             literalAddress = (if isIP hostname \<noteq> 0 then Some hostname else None)\<rparr>)))"

fun assert_each :: "string \<Rightarrow> string list \<Rightarrow> egress_policy \<Rightarrow> egress_error + unit" where
  "assert_each hostname [] policy = Inr ()"
| "assert_each hostname (a # as) policy =
     (let verdict = classifyAddress a in
      case permits verdict policy of
        Inr _ \<Rightarrow> assert_each hostname as policy
      | Inl r \<Rightarrow> Inl (hostname, ''it resolves to '' @ v_canonical verdict @ '', which is a '' @
                               reason_name r @ '' address''))"

definition assertResolvedAddresses :: "string \<Rightarrow> string list \<Rightarrow> egress_policy \<Rightarrow> egress_error + unit" where
  "assertResolvedAddresses hostname addresses policy =
     (if addresses = [] then Inl (hostname, ''it did not resolve to any address'')
      else assert_each hostname addresses policy)"

section \<open>Dotted quads as numbers\<close>

lemma split_sub_cons:
  "\<forall>c \<in> set s. c \<noteq> x \<Longrightarrow> split_sub [x] acc (s @ x # r) = (rev acc @ s) # split_sub [x] [] r"
  by (induction s arbitrary: acc) auto

lemma split_str_cons: "\<forall>c \<in> set s. c \<noteq> x \<Longrightarrow> split_str [x] (s @ x # r) = s # split_str [x] r"
  by (simp add: split_str_def split_sub_cons)

lemma split_str_end: "\<forall>c \<in> set s. c \<noteq> x \<Longrightarrow> split_str (x # xs) s = [s]"
proof -
  have "\<forall>c \<in> set s. c \<noteq> x \<Longrightarrow> split_sub (x # xs) acc s = [rev acc @ s]" for acc
    by (induction s arbitrary: acc) auto
  then show "\<forall>c \<in> set s. c \<noteq> x \<Longrightarrow> ?thesis" by (simp add: split_str_def)
qed

lemma show_nat_not: "\<not> is_digit x \<Longrightarrow> \<forall>c \<in> set (show_nat n). c \<noteq> x"
  using show_nat_digits [of n] by auto

lemma split_quad:
  "split_str ''.'' (quad_string a b c d) = [show_nat a, show_nat b, show_nat c, show_nat d]"
proof -
  have n: "\<not> is_digit (CHR ''.'')" by (simp add: is_digit_def)
  show ?thesis
    by (simp add: quad_string_def split_str_cons [OF show_nat_not [OF n]]
        split_str_end [OF show_nat_not [OF n]])
qed

lemma show_nat_shape:
  "n < 10 \<Longrightarrow> length (show_nat n) = 1"
  "10 \<le> n \<Longrightarrow> n < 100 \<Longrightarrow> length (show_nat n) = 2"
  "100 \<le> n \<Longrightarrow> n < 1000 \<Longrightarrow> length (show_nat n) = 3"
  by (simp_all add: show_nat.simps [of n] show_nat.simps [of "n div 10"]
      show_nat.simps [of "n div 10 div 10"] div_less_iff_less_mult not_less)

lemma hd_show_nat: "0 < n \<Longrightarrow> hd (show_nat n) \<noteq> CHR ''0''"
proof (induction n rule: show_nat.induct)
  case (1 n)
  show ?case
  proof (cases "n < 10")
    case True
    have "code (digit_char n) \<noteq> code (CHR ''0'')" using True "1.prems" by simp
    then have "digit_char n \<noteq> CHR ''0''" by metis
    with True show ?thesis by (simp add: show_nat.simps [of n])
  next
    case False
    with "1.IH" have "hd (show_nat (n div 10)) \<noteq> CHR ''0''" by simp
    with False show ?thesis by (simp add: show_nat.simps [of n] hd_append)
  qed
qed

lemma ipv4_octet_show: "n < 256 \<Longrightarrow> ipv4_octet (show_nat n)"
proof -
  assume n: "n < 256"
  consider "n < 10" | "10 \<le> n" "n < 100" | "100 \<le> n" by linarith
  then have "length (show_nat n) \<le> 3 \<and> (length (show_nat n) = 1 \<or> hd (show_nat n) \<noteq> CHR ''0'')"
    using n hd_show_nat [of n] show_nat_shape [of n] by cases auto
  then show ?thesis using n show_nat_digits [of n] by (simp add: ipv4_octet_def list_all_iff)
qed

lemma isIPv4_quad: "a < 256 \<Longrightarrow> b < 256 \<Longrightarrow> c < 256 \<Longrightarrow> d < 256 \<Longrightarrow> isIPv4 (quad_string a b c d)"
  by (simp add: isIPv4_def split_quad ipv4_octet_show)

definition quad_nat :: "nat \<Rightarrow> nat \<Rightarrow> nat \<Rightarrow> nat \<Rightarrow> nat" where
  "quad_nat a b c d = a * 2 ^ 24 + b * 2 ^ 16 + c * 2 ^ 8 + d"

lemma quad_word_nat: "quad_word [a, b, c, d] = of_nat (quad_nat a b c d)"
  by (simp add: quad_word_def quad_nat_def push_bit_eq_mult)

lemma quad_nat_less: "a < 256 \<Longrightarrow> b < 256 \<Longrightarrow> c < 256 \<Longrightarrow> d < 256 \<Longrightarrow> quad_nat a b c d < 2 ^ 32"
  by (simp add: quad_nat_def)

lemma toIPv4Number_quad:
  assumes "a < 256" "b < 256" "c < 256" "d < 256"
  shows "toIPv4Number (quad_string a b c d) = Some (of_nat (quad_nat a b c d))"
  using assms isIPv4_quad [OF assms]
  by (simp add: toIPv4Number_def isIP_def split_quad quad_word_nat)

lemma unat_quad: "a < 256 \<Longrightarrow> b < 256 \<Longrightarrow> c < 256 \<Longrightarrow> d < 256 \<Longrightarrow>
    unat (of_nat (quad_nat a b c d) :: 32 word) = quad_nat a b c d"
  using quad_nat_less [of a b c d] by (simp add: unat_of_nat take_bit_eq_mod)

section \<open>Ranges as intervals\<close>

lemma in_cidr_iff:
  assumes "b \<le> 32"
  shows "in_cidr v n b \<longleftrightarrow> unat v div 2 ^ (32 - b) = unat n div 2 ^ (32 - b)"
proof (cases "b = 0")
  case True
  have "unat v < 2 ^ 32" "unat n < 2 ^ 32" using unsigned_less [of v] unsigned_less [of n] by simp_all
  with True show ?thesis by (simp add: in_cidr_def cidr_mask_def)
next
  case False
  have m: "bit (x AND cidr_mask b) i \<longleftrightarrow> bit x i \<and> 32 - b \<le> i \<and> i < 32" for x i
    using False assms by (auto simp: cidr_mask_def bit_simps)
  have "in_cidr v n b \<longleftrightarrow> (\<forall>i. 32 - b \<le> i \<and> i < 32 \<longrightarrow> bit v i = bit n i)"
    unfolding in_cidr_def by (auto simp: m intro!: bit_word_eqI) (metis m)+
  also have "\<dots> \<longleftrightarrow> drop_bit (32 - b) v = drop_bit (32 - b) n"
  proof
    assume l: "\<forall>i. 32 - b \<le> i \<and> i < 32 \<longrightarrow> bit v i = bit n i"
    show "drop_bit (32 - b) v = drop_bit (32 - b) n"
    proof (rule bit_word_eqI)
      fix i
      show "bit (drop_bit (32 - b) v) i = bit (drop_bit (32 - b) n) i"
        using l [rule_format, of "32 - b + i"] bit_imp_le_length [of v "32 - b + i"]
          bit_imp_le_length [of n "32 - b + i"]
        by (auto simp: bit_drop_bit_eq)
    qed
  next
    assume e: "drop_bit (32 - b) v = drop_bit (32 - b) n"
    show "\<forall>i. 32 - b \<le> i \<and> i < 32 \<longrightarrow> bit v i = bit n i"
    proof (intro allI impI)
      fix i
      assume "32 - b \<le> i \<and> i < 32"
      then have "bit (drop_bit (32 - b) w) (i - (32 - b)) = bit w i" for w :: "32 word"
        by (simp add: bit_drop_bit_eq)
      with e show "bit v i = bit n i" by metis
    qed
  qed
  also have "\<dots> \<longleftrightarrow> unat (drop_bit (32 - b) v) = unat (drop_bit (32 - b) n)"
    by (simp add: word_unat_eq_iff)
  also have "\<dots> \<longleftrightarrow> unat v div 2 ^ (32 - b) = unat n div 2 ^ (32 - b)"
    by (simp only: unat_drop_bit_eq) (simp add: drop_bit_eq_div)
  finally show ?thesis .
qed

lemma cidr_quad:
  assumes "a < 256" "b < 256" "c < 256" "d < 256"
  shows "cidr (quad_string a b c d) k r = Inr \<lparr>base = of_nat (quad_nat a b c d), bits = k, r_reason = r\<rparr>"
  using toIPv4Number_quad [OF assms] by (simp add: cidr_def)

lemma quad_literals:
  "''0.0.0.0'' = quad_string 0 0 0 0" "''10.0.0.0'' = quad_string 10 0 0 0"
  "''100.64.0.0'' = quad_string 100 64 0 0" "''127.0.0.0'' = quad_string 127 0 0 0"
  "''169.254.0.0'' = quad_string 169 254 0 0" "''172.16.0.0'' = quad_string 172 16 0 0"
  "''192.0.0.0'' = quad_string 192 0 0 0" "''192.0.2.0'' = quad_string 192 0 2 0"
  "''192.88.99.0'' = quad_string 192 88 99 0" "''192.168.0.0'' = quad_string 192 168 0 0"
  "''198.18.0.0'' = quad_string 198 18 0 0" "''198.51.100.0'' = quad_string 198 51 100 0"
  "''203.0.113.0'' = quad_string 203 0 113 0" "''224.0.0.0'' = quad_string 224 0 0 0"
  "''240.0.0.0'' = quad_string 240 0 0 0" "''255.255.255.255'' = quad_string 255 255 255 255"
  "''169.254.169.254'' = quad_string 169 254 169 254"
  by (simp_all add: quad_string_def js_simps)

definition ip_table :: "(nat \<times> nat \<times> block_reason) list" where
  "ip_table =
     [(0, 8, Unspecified), (167772160, 8, Private), (1681915904, 10, CarrierNat),
      (2130706432, 8, Loopback), (2851995648, 16, LinkLocal), (2886729728, 12, Private),
      (3221225472, 24, Reserved), (3221225984, 24, Documentation), (3227017984, 24, Reserved),
      (3232235520, 16, Private), (3323068416, 15, Benchmarking), (3325256704, 24, Documentation),
      (3405803776, 24, Documentation), (3758096384, 4, MulticastR), (4026531840, 4, Reserved),
      (4294967295, 32, Broadcast)]"

lemma cidr_literals:
  "cidr ''0.0.0.0'' k r = Inr \<lparr>base = 0, bits = k, r_reason = r\<rparr>"
  "cidr ''10.0.0.0'' k r = Inr \<lparr>base = 167772160, bits = k, r_reason = r\<rparr>"
  "cidr ''100.64.0.0'' k r = Inr \<lparr>base = 1681915904, bits = k, r_reason = r\<rparr>"
  "cidr ''127.0.0.0'' k r = Inr \<lparr>base = 2130706432, bits = k, r_reason = r\<rparr>"
  "cidr ''169.254.0.0'' k r = Inr \<lparr>base = 2851995648, bits = k, r_reason = r\<rparr>"
  "cidr ''172.16.0.0'' k r = Inr \<lparr>base = 2886729728, bits = k, r_reason = r\<rparr>"
  "cidr ''192.0.0.0'' k r = Inr \<lparr>base = 3221225472, bits = k, r_reason = r\<rparr>"
  "cidr ''192.0.2.0'' k r = Inr \<lparr>base = 3221225984, bits = k, r_reason = r\<rparr>"
  "cidr ''192.88.99.0'' k r = Inr \<lparr>base = 3227017984, bits = k, r_reason = r\<rparr>"
  "cidr ''192.168.0.0'' k r = Inr \<lparr>base = 3232235520, bits = k, r_reason = r\<rparr>"
  "cidr ''198.18.0.0'' k r = Inr \<lparr>base = 3323068416, bits = k, r_reason = r\<rparr>"
  "cidr ''198.51.100.0'' k r = Inr \<lparr>base = 3325256704, bits = k, r_reason = r\<rparr>"
  "cidr ''203.0.113.0'' k r = Inr \<lparr>base = 3405803776, bits = k, r_reason = r\<rparr>"
  "cidr ''224.0.0.0'' k r = Inr \<lparr>base = 3758096384, bits = k, r_reason = r\<rparr>"
  "cidr ''240.0.0.0'' k r = Inr \<lparr>base = 4026531840, bits = k, r_reason = r\<rparr>"
  "cidr ''255.255.255.255'' k r = Inr \<lparr>base = 4294967295, bits = k, r_reason = r\<rparr>"
  using cidr_quad [of 0 0 0 0 k r]
    cidr_quad [of 10 0 0 0 k r]
    cidr_quad [of 100 64 0 0 k r]
    cidr_quad [of 127 0 0 0 k r]
    cidr_quad [of 169 254 0 0 k r]
    cidr_quad [of 172 16 0 0 k r]
    cidr_quad [of 192 0 0 0 k r]
    cidr_quad [of 192 0 2 0 k r]
    cidr_quad [of 192 88 99 0 k r]
    cidr_quad [of 192 168 0 0 k r]
    cidr_quad [of 198 18 0 0 k r]
    cidr_quad [of 198 51 100 0 k r]
    cidr_quad [of 203 0 113 0 k r]
    cidr_quad [of 224 0 0 0 k r]
    cidr_quad [of 240 0 0 0 k r]
    cidr_quad [of 255 255 255 255 k r]
  by (simp_all add: quad_string_def js_simps quad_nat_def)

lemma BLOCKED_IPV4_table:
  "collect BLOCKED_IPV4_calls =
     Inr (map (\<lambda>(n, b, r). \<lparr>base = of_nat n, bits = b, r_reason = r\<rparr>) ip_table)"
  by (simp add: BLOCKED_IPV4_calls_def cidr_literals ip_table_def)

lemma BLOCKED_IPV4_eq:
  "BLOCKED_IPV4 = map (\<lambda>(n, b, r). \<lparr>base = of_nat n, bits = b, r_reason = r\<rparr>) ip_table"
  by (simp add: BLOCKED_IPV4_def BLOCKED_IPV4_table)

text \<open>A reference: the reason for refusing the address with value \<open>x\<close>, by intervals.\<close>

definition ipv4_reason :: "nat \<Rightarrow> block_reason option" where
  "ipv4_reason x =
     (if x < 16777216 then Some Unspecified
      else if 167772160 \<le> x \<and> x < 184549376 then Some Private
      else if 1681915904 \<le> x \<and> x < 1686110208 then Some CarrierNat
      else if 2130706432 \<le> x \<and> x < 2147483648 then Some Loopback
      else if 2851995648 \<le> x \<and> x < 2852061184 then Some LinkLocal
      else if 2886729728 \<le> x \<and> x < 2887778304 then Some Private
      else if 3221225472 \<le> x \<and> x < 3221225728 then Some Reserved
      else if 3221225984 \<le> x \<and> x < 3221226240 then Some Documentation
      else if 3227017984 \<le> x \<and> x < 3227018240 then Some Reserved
      else if 3232235520 \<le> x \<and> x < 3232301056 then Some Private
      else if 3323068416 \<le> x \<and> x < 3323199488 then Some Benchmarking
      else if 3325256704 \<le> x \<and> x < 3325256960 then Some Documentation
      else if 3405803776 \<le> x \<and> x < 3405804032 then Some Documentation
      else if x = 4294967295 then Some Broadcast
      else if 4026531840 \<le> x then Some Reserved
      else if 3758096384 \<le> x then Some MulticastR
      else None)"

text \<open>The loop over the table with each range read as an interval.\<close>

fun narrowest_n :: "nat \<Rightarrow> (nat \<times> block_reason) option \<Rightarrow> (nat \<times> nat \<times> block_reason) list \<Rightarrow>
    (nat \<times> block_reason) option" where
  "narrowest_n x m [] = m"
| "narrowest_n x m ((n, b, r) # rs) =
     narrowest_n x
       (if n \<le> x \<and> x < n + 2 ^ (32 - b) \<and> (case m of None \<Rightarrow> True | Some (k, _) \<Rightarrow> b > k)
        then Some (b, r) else m) rs"

lemma div_eq_interval: "m dvd n \<Longrightarrow> 0 < m \<Longrightarrow> x div m = n div m \<longleftrightarrow> n \<le> x \<and> x < n + (m::nat)"
proof -
  assume m: "m dvd n" "0 < m"
  then obtain q where q: "n = m * q" by blast
  have "x div m = q \<longleftrightarrow> m * q \<le> x \<and> x < m * Suc q"
    using m(2) by (metis div_mult_self1_is_m mult.commute div_nat_eqI less_eq_div_iff_mult_less_eq
        dividend_less_times_div order_refl times_div_less_eq_dividend mult_Suc_right add.commute)
  with q m(2) show ?thesis by (simp add: add.commute)
qed

lemma narrowest_table:
  assumes "\<forall>(n, b, r) \<in> set rs. n < 2 ^ 32 \<and> b \<le> 32 \<and> 2 ^ (32 - b) dvd n"
    and "map_option (\<lambda>q. (bits q, r_reason q)) m = m'"
  shows "map_option (\<lambda>q. (bits q, r_reason q))
      (narrowest v m (map (\<lambda>(n, b, r). \<lparr>base = of_nat n, bits = b, r_reason = r\<rparr>) rs)) =
    narrowest_n (unat v) m' rs"
  using assms
proof (induction rs arbitrary: m m')
  case (Cons e rs)
  obtain n b r where e: "e = (n, b, r)" by (cases e)
  with Cons.prems have nb: "n < 2 ^ 32" "b \<le> 32" "2 ^ (32 - b) dvd n" by auto
  have "unat (of_nat n :: 32 word) = n" using nb(1) by (simp add: unat_of_nat take_bit_eq_mod)
  then have "in_cidr v (of_nat n) b \<longleftrightarrow> n \<le> unat v \<and> unat v < n + 2 ^ (32 - b)"
    using in_cidr_iff [OF nb(2), of v "of_nat n"] div_eq_interval [OF nb(3)] by simp
  then show ?case using Cons e by (auto split: option.splits)
qed simp

lemma narrowest_ip_table: "x < 2 ^ 32 \<Longrightarrow> map_option snd (narrowest_n x None ip_table) = ipv4_reason x"
proof -
  note t = ip_table_def ipv4_reason_def
  assume "x < 2 ^ 32"
  then show ?thesis
    by (cases "x < 16777216", simp add: t,
      cases "x < 167772160", simp add: t,
      cases "x < 184549376", simp add: t,
      cases "x < 1681915904", simp add: t,
      cases "x < 1686110208", simp add: t,
      cases "x < 2130706432", simp add: t,
      cases "x < 2147483648", simp add: t,
      cases "x < 2851995648", simp add: t,
      cases "x < 2852061184", simp add: t,
      cases "x < 2886729728", simp add: t,
      cases "x < 2887778304", simp add: t,
      cases "x < 3221225472", simp add: t,
      cases "x < 3221225728", simp add: t,
      cases "x < 3221225984", simp add: t,
      cases "x < 3221226240", simp add: t,
      cases "x < 3227017984", simp add: t,
      cases "x < 3227018240", simp add: t,
      cases "x < 3232235520", simp add: t,
      cases "x < 3232301056", simp add: t,
      cases "x < 3323068416", simp add: t,
      cases "x < 3323199488", simp add: t,
      cases "x < 3325256704", simp add: t,
      cases "x < 3325256960", simp add: t,
      cases "x < 3405803776", simp add: t,
      cases "x < 3405804032", simp add: t,
      cases "x < 3758096384", simp add: t,
      cases "x < 4026531840", simp add: t,
      cases "x < 4294967295", simp add: t, simp add: t)
qed

lemma ip_table_wf: "\<forall>(n, b, r) \<in> set ip_table. n < 2 ^ 32 \<and> b \<le> 32 \<and> 2 ^ (32 - b) dvd n"
  by (simp add: ip_table_def dvd_eq_mod_eq_0)

lemma narrowest_blocked:
  "map_option r_reason (narrowest v None BLOCKED_IPV4) = ipv4_reason (unat v)"
proof -
  have "map_option (\<lambda>q. (bits q, r_reason q)) (narrowest v None BLOCKED_IPV4) =
      narrowest_n (unat v) None ip_table"
    unfolding BLOCKED_IPV4_eq by (rule narrowest_table [OF ip_table_wf]) simp
  then have "map_option r_reason (narrowest v None BLOCKED_IPV4) =
      map_option snd (narrowest_n (unat v) None ip_table)"
    by (metis (mono_tags, lifting) map_option_cong option.map_comp comp_apply snd_conv)
  then show ?thesis
    using narrowest_ip_table [of "unat v"] unsigned_less [of v, where ?'a = nat] by simp
qed

lemma base256_inj:
  "x * 256 + d = y * 256 + e \<Longrightarrow> d < 256 \<Longrightarrow> e < 256 \<Longrightarrow> x = y \<and> d = (e :: nat)"
proof -
  assume q: "x * 256 + d = y * 256 + e" and "d < 256" "e < 256"
  from \<open>d < 256\<close> \<open>e < 256\<close> have "(x * 256 + d) mod 256 = d" "(y * 256 + e) mod 256 = e"
    by simp_all
  then have "d = e" using q by metis
  with q show ?thesis by simp
qed

lemma quad_nat_horner: "quad_nat a b c d = ((a * 256 + b) * 256 + c) * 256 + d"
  by (simp add: quad_nat_def)

lemma quad_nat_inj:
  assumes "b < 256" "c < 256" "d < 256" "b' < 256" "c' < 256" "d' < 256"
    and "quad_nat a b c d = quad_nat a' b' c' d'"
  shows "a = a' \<and> b = b' \<and> c = c' \<and> d = d'"
proof -
  note q = assms(7) [unfolded quad_nat_horner]
  note q3 = base256_inj [OF q assms(3,6)]
  note q2 = base256_inj [OF conjunct1 [OF q3] assms(2,5)]
  note q1 = base256_inj [OF conjunct1 [OF q2] assms(1,4)]
  show ?thesis using q1 q2 q3 by simp
qed

lemma quad_string_inj:
  assumes "a < 256" "b < 256" "c < 256" "d < 256" "a' < 256" "b' < 256" "c' < 256" "d' < 256"
  shows "quad_string a b c d = quad_string a' b' c' d' \<longleftrightarrow> quad_nat a b c d = quad_nat a' b' c' d'"
proof
  assume "quad_string a b c d = quad_string a' b' c' d'"
  then have "(of_nat (quad_nat a b c d) :: 32 word) = of_nat (quad_nat a' b' c' d')"
    using toIPv4Number_quad [OF assms(1-4)] toIPv4Number_quad [OF assms(5-8)] by simp
  then show "quad_nat a b c d = quad_nat a' b' c' d'"
    using unat_quad [OF assms(1-4)] unat_quad [OF assms(5-8)] by metis
next
  assume q: "quad_nat a b c d = quad_nat a' b' c' d'"
  have "a = a' \<and> b = b' \<and> c = c' \<and> d = d'"
    using assms(2-4,6-8) q by (rule quad_nat_inj)
  then show "quad_string a b c d = quad_string a' b' c' d'" by simp
qed

text \<open>The verdict on the quad with value \<open>x\<close>, written with intervals.\<close>

definition quad_verdict :: "string \<Rightarrow> nat \<Rightarrow> address_verdict" where
  "quad_verdict s x =
     \<lparr>v_allowed = (ipv4_reason x = None),
      v_reason = (if x = 2852039166 then Some CloudMetadata else ipv4_reason x),
      v_canonical = s, v_family = 4\<rparr>"

lemma classifyIPv4_quad:
  assumes "a < 256" "b < 256" "c < 256" "d < 256"
  shows "classifyIPv4 (quad_string a b c d) = quad_verdict (quad_string a b c d) (quad_nat a b c d)"
proof -
  let ?w = "of_nat (quad_nat a b c d) :: 32 word"
  have m: "map_option r_reason (narrowest ?w None BLOCKED_IPV4) = ipv4_reason (quad_nat a b c d)"
    using narrowest_blocked [of ?w] unat_quad [OF assms] by simp
  have "quad_string a b c d = quad_string 169 254 169 254 \<longleftrightarrow> quad_nat a b c d = quad_nat 169 254 169 254"
    using assms by (intro quad_string_inj) simp_all
  then have meta: "quad_string a b c d = ''169.254.169.254'' \<longleftrightarrow> quad_nat a b c d = 2852039166"
    by (simp add: quad_literals(17) quad_nat_def)
  have "ipv4_reason 2852039166 \<noteq> None" by (simp add: ipv4_reason_def)
  with m meta show ?thesis
    by (cases "narrowest ?w None BLOCKED_IPV4")
      (auto simp: classifyIPv4_def toIPv4Number_quad [OF assms] quad_verdict_def dest: sym)
qed

section \<open>IPv4 addresses written as IPv6\<close>

lemma split_dcolon:
  "split_sub ''::'' acc (CHR '':'' # CHR '':'' # r) = rev acc # split_sub ''::'' [] r"
  "c \<noteq> CHR '':'' \<Longrightarrow> split_sub ''::'' acc (c # s) = split_sub ''::'' (c # acc) s"
  "r \<noteq> [] \<Longrightarrow> hd r \<noteq> CHR '':'' \<Longrightarrow>
     split_sub ''::'' acc (CHR '':'' # r) = split_sub ''::'' (CHR '':'' # acc) r"
  by (cases r; simp)+

lemma split_dcolon_free:
  "\<forall>c \<in> set s. c \<noteq> CHR '':'' \<Longrightarrow> split_sub ''::'' acc (s @ r) = split_sub ''::'' (rev s @ acc) r"
  by (induction s arbitrary: acc) (auto simp: split_dcolon simp del: split_sub.simps)

lemma hex_char_props:
  "d < 16 \<Longrightarrow> is_hex (hex_char d)" "d < 16 \<Longrightarrow> hex_digit (hex_char d) = d"
  by (auto simp: hex_char_def is_hex_def hex_digit_def is_digit_def is_upper_def of_char_of take_bit_eq_mod)

lemma is_hex_show_hex: "\<forall>c \<in> set (show_hex n). is_hex c"
proof (induction n rule: show_hex.induct)
  case (1 n)
  then show ?case by (cases "n < 16") (simp_all add: show_hex.simps [of n] hex_char_props)
qed

lemma show_hex_nonempty [simp]: "show_hex n \<noteq> []"
  by (cases "n < 16") (simp_all add: show_hex.simps [of n])

lemma hex_val_snoc: "hex_val (s @ [c]) = 16 * hex_val s + hex_digit c"
  by (simp add: hex_val_def)

lemma hex_val_show_hex [simp]: "hex_val (show_hex n) = n"
proof (induction n rule: show_hex.induct)
  case (1 n)
  show ?case
  proof (cases "n < 16")
    case True
    then show ?thesis by (simp add: show_hex.simps [of n] hex_val_def hex_char_props)
  next
    case False
    with "1" show ?thesis by (simp add: show_hex.simps [of n] hex_val_snoc hex_char_props)
  qed
qed

lemma parseInt16_show_hex: "parseInt16 (show_hex n) = Some n"
proof -
  have "takeWhile is_hex (show_hex n) = show_hex n" using is_hex_show_hex by (simp add: takeWhile_eq_all_conv)
  then show ?thesis by (simp only: parseInt16_def Let_def show_hex_nonempty if_False hex_val_show_hex)
qed

lemma quad_chars: "\<forall>c \<in> set (quad_string a b c' d). is_digit c \<or> c = CHR ''.''"
  using show_nat_digits by (auto simp: quad_string_def)

lemma quad_no: "\<not> is_digit x \<Longrightarrow> x \<noteq> CHR ''.'' \<Longrightarrow> \<forall>c \<in> set (quad_string a b c' d). c \<noteq> x"
  using quad_chars [of a b c' d] by auto

lemma quad_nonempty [simp]: "quad_string a b c d \<noteq> []"
  by (simp add: quad_string_def)

lemma hd_quad: "\<not> is_digit x \<Longrightarrow> hd (quad_string a b c d) \<noteq> x"
  using show_nat_digits [of a] by (auto simp: quad_string_def)

definition mapped_string :: "nat \<Rightarrow> nat \<Rightarrow> nat \<Rightarrow> nat \<Rightarrow> string" where
  "mapped_string a b c d = ''::ffff:'' @ quad_string a b c d"

lemma quad_form_quad: "a < 256 \<Longrightarrow> b < 256 \<Longrightarrow> c < 256 \<Longrightarrow> d < 256 \<Longrightarrow> quad_form (quad_string a b c d)"
  using ipv4_octet_show by (simp add: quad_form_def split_quad ipv4_octet_def)

lemma split_prefix_quad:
  "\<forall>x \<in> set p. x \<noteq> CHR ''.'' \<Longrightarrow>
     split_str ''.'' (p @ quad_string a b c d) = [p @ show_nat a, show_nat b, show_nat c, show_nat d]"
proof -
  assume p: "\<forall>x \<in> set p. x \<noteq> CHR ''.''"
  have n: "\<not> is_digit (CHR ''.'')" by (simp add: is_digit_def)
  have "\<forall>x \<in> set (p @ show_nat a). x \<noteq> CHR ''.''" using p show_nat_not [OF n] by auto
  from split_str_cons [OF this, of "show_nat b @ ''.'' @ show_nat c @ ''.'' @ show_nat d"]
  show ?thesis
    by (simp add: quad_string_def split_str_cons [OF show_nat_not [OF n]]
        split_str_end [OF show_nat_not [OF n]])
qed

lemma not_quad_form_prefix:
  "\<forall>x \<in> set p. x \<noteq> CHR ''.'' \<Longrightarrow> list_ex (\<lambda>x. \<not> is_digit x) p \<Longrightarrow>
     \<not> quad_form (p @ quad_string a b c d)"
  by (simp add: quad_form_def split_prefix_quad list_all_iff list_ex_iff) blast

lemma dotted_tail_prefix:
  assumes q: "a < 256" "b < 256" "c < 256" "d < 256"
  shows "\<forall>x \<in> set p. x \<noteq> CHR ''.'' \<Longrightarrow> p \<noteq> [] \<Longrightarrow> \<not> is_digit (last p) \<Longrightarrow>
    dotted_tail (p @ quad_string a b c d) = Some (p, quad_string a b c d)"
proof (induction p)
  case (Cons x p)
  have "list_ex (\<lambda>x. \<not> is_digit x) (x # p)"
    using Cons.prems(3) last_in_set [OF Cons.prems(2)] unfolding list_ex_iff by blast
  then have nq: "\<not> quad_form ((x # p) @ quad_string a b c d)"
    by (rule not_quad_form_prefix [OF Cons.prems(1)])
  have "dotted_tail (p @ quad_string a b c d) = Some (p, quad_string a b c d)"
  proof (cases "p = []")
    case True
    obtain y r where "quad_string a b c d = y # r" by (cases "quad_string a b c d") simp_all
    with True quad_form_quad [OF q] show ?thesis by simp
  next
    case False
    show ?thesis by (rule Cons.IH) (use Cons.prems False in simp_all)
  qed
  with nq show ?case by simp
qed simp

lemma mapped_not_ipv4: "\<not> isIPv4 (mapped_string a b c d)"
proof -
  have "split_str ''.'' (mapped_string a b c d) =
      [''::ffff:'' @ show_nat a, show_nat b, show_nat c, show_nat d]"
    unfolding mapped_string_def by (rule split_prefix_quad) simp
  then show ?thesis by (simp add: isIPv4_def ipv4_octet_def is_digit_def)
qed

lemma not_ipv6_group_quad: "\<not> ipv6_group (quad_string a b c d)"
proof -
  have "CHR ''.'' \<in> set (quad_string a b c d)" by (simp add: quad_string_def)
  moreover have "\<not> is_hex (CHR ''.'')" by (simp add: is_hex_def is_digit_def)
  ultimately show ?thesis unfolding ipv6_group_def list_all_iff by blast
qed

lemma split_mapped:
  "split_str ''%'' (mapped_string a b c d) = [mapped_string a b c d]"
  "split_str ''::'' (mapped_string a b c d) = [[], ''ffff:'' @ quad_string a b c d]"
  "split_str '':'' (''ffff:'' @ quad_string a b c d) = [''ffff'', quad_string a b c d]"
proof -
  have n: "\<not> is_digit (CHR '':'')" "\<not> is_digit (CHR ''%'')" by (simp_all add: is_digit_def)
  have "\<forall>x \<in> set (mapped_string a b c d). x \<noteq> CHR ''%''"
    using quad_no [OF n(2)] by (simp add: mapped_string_def)
  then show "split_str ''%'' (mapped_string a b c d) = [mapped_string a b c d]"
    by (rule split_str_end)
  have free: "\<forall>x \<in> set (quad_string a b c d). x \<noteq> CHR '':''" using quad_no [OF n(1)] by simp
  show "split_str '':'' (''ffff:'' @ quad_string a b c d) = [''ffff'', quad_string a b c d]"
    using split_str_cons [of "''ffff''" "CHR '':''" "quad_string a b c d"] split_str_end [OF free]
    by simp
  have "split_sub ''::'' acc (quad_string a b c d) = [rev acc @ quad_string a b c d]" for acc
    using split_dcolon_free [OF free, of acc "[]"] by simp
  then show "split_str ''::'' (mapped_string a b c d) = [[], ''ffff:'' @ quad_string a b c d]"
    using hd_quad [OF n(1), of a b c d]
    by (simp add: split_str_def mapped_string_def split_dcolon del: split_sub.simps(2))
qed

lemma isIP_mapped:
  assumes "a < 256" "b < 256" "c < 256" "d < 256"
  shows "isIP (mapped_string a b c d) = 6"
proof -
  have "ipv6_group ''ffff''" by (simp add: ipv6_group_def is_hex_def)
  then have "ipv6_part True (''ffff:'' @ quad_string a b c d) = Some 3"
    using isIPv4_quad [OF assms] not_ipv6_group_quad
    by (simp add: ipv6_part_def split_mapped(3) [simplified])
  then have "ipv6_body (mapped_string a b c d)"
    by (simp add: ipv6_body_def split_mapped(2) ipv6_part_def [of False])
  then show ?thesis by (simp add: isIP_def isIPv6_def split_mapped(1) mapped_not_ipv4)
qed

lemma quad_div: 
  assumes "a < 256" "b < 256" "c < 256" "d < 256"
  shows "quad_nat a b c d div 65536 = a * 256 + b" "quad_nat a b c d mod 65536 = c * 256 + d"
proof -
  have e: "quad_nat a b c d = (a * 256 + b) * 65536 + (c * 256 + d)" by (simp add: quad_nat_def)
  have l: "c * 256 + d < 65536" using assms by simp
  show "quad_nat a b c d div 65536 = a * 256 + b" unfolding e using l by simp
  show "quad_nat a b c d mod 65536 = c * 256 + d"
    unfolding e mod_mult_self3 using l by (rule mod_less)
qed

definition mapped_bytes :: "nat \<Rightarrow> nat \<Rightarrow> nat \<Rightarrow> nat \<Rightarrow> bytes" where
  "mapped_bytes a b c d =
     [0, 0, 0, 0, 0, 0, 0, 0, 0, 0, 0xff, 0xff, of_nat a, of_nat b, of_nat c, of_nat d]"

lemma hextets_mapped:
  "hextets_of (''::ffff:'' @ show_hex m @ '':'' @ show_hex n) =
     Some [''0'', ''0'', ''0'', ''0'', ''0'', ''ffff'', show_hex m, show_hex n]"
proof -
  have c: "\<not> is_hex (CHR '':'')" by (simp add: is_hex_def is_digit_def)
  have free: "\<forall>x \<in> set (show_hex k). x \<noteq> CHR '':''" for k using is_hex_show_hex c by metis
  have h: "hd (show_hex k) \<noteq> CHR '':''" for k
    using free [of k] hd_in_set [OF show_hex_nonempty] by blast
  have "split_sub ''::'' acc (show_hex k) = [rev acc @ show_hex k]" for acc k
    using split_dcolon_free [OF free, of acc k "[]"] by simp
  then have s2: "split_str ''::'' (''::ffff:'' @ show_hex m @ '':'' @ show_hex n) =
      [[], ''ffff:'' @ show_hex m @ '':'' @ show_hex n]"
    using h by (simp add: split_str_def split_dcolon split_dcolon_free [OF free] del: split_sub.simps(2))
  have "split_str '':'' (''ffff'' @ CHR '':'' # show_hex m @ CHR '':'' # show_hex n) =
      [''ffff'', show_hex m, show_hex n]"
    using split_str_cons [of "''ffff''" "CHR '':''" "show_hex m @ CHR '':'' # show_hex n"]
    by (simp add: split_str_cons [OF free] split_str_end [OF free])
  with s2 show ?thesis
    by (simp add: hextets_of_def nonempty_fields_def numeral_eq_Suc)
qed

lemma toIPv6Bytes_mapped:
  assumes "a < 256" "b < 256" "c < 256" "d < 256"
  shows "toIPv6Bytes (mapped_string a b c d) = Some (mapped_bytes a b c d)"
proof -
  have "dotted_tail (mapped_string a b c d) = Some (''::ffff:'', quad_string a b c d)"
    unfolding mapped_string_def by (rule dotted_tail_prefix [OF assms]) (simp_all add: is_digit_def)
  then have n: "normalise_v6 (mapped_string a b c d) =
      Some (''::ffff:'' @ show_hex (a * 256 + b) @ '':'' @ show_hex (c * 256 + d))"
    using toIPv4Number_quad [OF assms] unat_quad [OF assms] quad_div [OF assms]
    by (simp add: normalise_v6_def)
  have h: "parseInt16 ''0'' = Some 0" "parseInt16 ''ffff'' = Some 65535"
    by (simp_all add: parseInt16_def is_hex_def is_digit_def hex_val_def hex_digit_def is_upper_def)
  have l: "\<not> 65535 < a * 256 + b" "\<not> 65535 < c * 256 + d" using assms by simp_all
  have q: "(a * 256 + b) div 256 = a" "(a * 256 + b) mod 256 = b"
    "(c * 256 + d) div 256 = c" "(c * 256 + d) mod 256 = d" using assms by simp_all
  have "hextet_bytes [''0'', ''0'', ''0'', ''0'', ''0'', ''ffff'', show_hex (a * 256 + b), show_hex (c * 256 + d)] =
      Some (mapped_bytes a b c d)"
    using assms by (simp add: h parseInt16_show_hex l q mapped_bytes_def)
  then show ?thesis
    using n hextets_mapped by (simp add: toIPv6Bytes_def isIP_mapped [OF assms] split_mapped(1))
qed

lemma hasPrefix_bytes: "take k bs = p \<Longrightarrow> length p = k \<Longrightarrow> hasPrefix bs p (8 * k)"
  by (auto simp: hasPrefix_def list_all_iff byte_at_def)

lemma classify_mapped:
  assumes "a < 256" "b < 256" "c < 256" "d < 256"
  shows "classifyAddress (mapped_string a b c d) = classifyAddress (quad_string a b c d)"
proof -
  have "v4_embedded (mapped_bytes a b c d)"
    using hasPrefix_bytes [of 12 "mapped_bytes a b c d" "[0, 0, 0, 0, 0, 0, 0, 0, 0, 0, 0xff, 0xff]"]
    by (simp add: v4_embedded_def mapped_bytes_def)
  moreover have "embedded_quad (mapped_bytes a b c d) = quad_string a b c d"
    using assms by (simp add: embedded_quad_def mapped_bytes_def byte_at_def unat_of_nat take_bit_eq_mod)
  ultimately have "classifyAddress (mapped_string a b c d) =
      (classifyIPv4 (quad_string a b c d))\<lparr>v_canonical := quad_string a b c d\<rparr>"
    by (simp add: classifyAddress_def isIP_mapped [OF assms] classifyIPv6_def toIPv6Bytes_mapped [OF assms]
        classifyIPv6_bytes_def Let_def)
  moreover have "classifyAddress (quad_string a b c d) = classifyIPv4 (quad_string a b c d)"
    using isIPv4_quad [OF assms] by (simp add: classifyAddress_def isIP_def)
  ultimately show ?thesis by (simp add: classifyIPv4_quad [OF assms] quad_verdict_def)
qed

lemma hasPrefix_byte:
  assumes "hasPrefix bs p n" "8 * i + 8 \<le> n"
  shows "byte_at p i = byte_at bs i"
proof (rule bit_word_eqI)
  fix k
  assume "k < LENGTH(8)"
  then have "8 * i + (7 - k) < n" "(8 * i + (7 - k)) div 8 = i" and m: "7 - (7 - k) mod 8 = k"
    using assms(2) by simp_all
  moreover have "7 - (8 * i + (7 - k)) mod 8 = k" unfolding mod_mult_self4 by (rule m)
  ultimately show "bit (byte_at p i) k = bit (byte_at bs i) k"
    using assms(1) unfolding hasPrefix_def list_all_iff by (metis atLeast_upt lessThan_iff)
qed

lemma hasPrefix_first: "8 \<le> n \<Longrightarrow> byte_at p 0 \<noteq> byte_at bs 0 \<Longrightarrow> \<not> hasPrefix bs p n"
  using hasPrefix_byte [of bs p n 0] by auto

definition aws_bytes :: bytes where
  "aws_bytes = [0xfd, 0, 0x0e, 0xc2, 0, 0, 0, 0, 0, 0, 0, 0, 0, 0, 0x02, 0x54]"

lemma aws_parses: "isIP ''fd00:ec2::254'' = 6" "toIPv6Bytes ''fd00:ec2::254'' = Some aws_bytes"
proof -
  show i: "isIP ''fd00:ec2::254'' = 6" by code_simp
  have d: "dotted_tail ''fd00:ec2::254'' = None" by code_simp
  have h: "hextets_of ''fd00:ec2::254'' = Some [''fd00'', ''ec2'', ''0'', ''0'', ''0'', ''0'', ''0'', ''254'']"
    by code_simp
  have v: "map parseInt16 [''fd00'', ''ec2'', ''0'', ''254''] = map Some [64768, 3778, 0, 596]"
    by (simp add: parseInt16_def is_hex_def is_digit_def hex_val_def hex_digit_def is_upper_def)
  have "split_str ''%'' ''fd00:ec2::254'' = [''fd00:ec2::254'']" by code_simp
  then show "toIPv6Bytes ''fd00:ec2::254'' = Some aws_bytes"
    using d h v by (simp add: toIPv6Bytes_def i normalise_v6_def aws_bytes_def)
qed

lemma classify_aws:
  "classifyAddress ''fd00:ec2::254'' =
     \<lparr>v_allowed = False, v_reason = Some UniqueLocal, v_canonical = ''fd00:ec2::254'', v_family = 6\<rparr>"
proof -
  have f: "\<not> hasPrefix aws_bytes p n" if "8 \<le> n" "byte_at p 0 \<noteq> 0xfd" for p n
    using hasPrefix_first [OF that(1), of p aws_bytes] that(2) by (simp add: aws_bytes_def byte_at_def)
  have "hasPrefix aws_bytes [0xfc] 7"
    by (simp add: hasPrefix_def aws_bytes_def byte_at_def upt_rec bit_simps)
  then show ?thesis
    by (simp add: classifyAddress_def aws_parses classifyIPv6_def classifyIPv6_bytes_def v4_embedded_def
        V6_CHECKS_def f byte_at_def)
qed

section \<open>The floor under every policy\<close>

text \<open>
  The interface the callers of \<open>permits\<close> rely on: a decision on verdicts under policies, and a set
  of verdicts no policy admits.
\<close>

locale address_gate =
  fixes classify :: "string \<Rightarrow> 'v" and decide :: "'v \<Rightarrow> 'p \<Rightarrow> 'r + unit" and floor :: "'v \<Rightarrow> bool"
  assumes floor_denied: "floor v \<Longrightarrow> \<exists>r. decide v p = Inl r"
begin

definition passes :: "string list \<Rightarrow> 'p \<Rightarrow> bool" where
  "passes as p \<longleftrightarrow> as \<noteq> [] \<and> (\<forall>a \<in> set as. decide (classify a) p = Inr ())"

lemma passes_no_floor: "passes as p \<Longrightarrow> a \<in> set as \<Longrightarrow> \<not> floor (classify a)"
  using floor_denied unfolding passes_def by (metis Inl_Inr_False)

lemma passes_subset: "passes as p \<Longrightarrow> bs \<noteq> [] \<Longrightarrow> set bs \<subseteq> set as \<Longrightarrow> passes bs p"
  unfolding passes_def by blast

end

definition floored :: "address_verdict \<Rightarrow> bool" where
  "floored v \<longleftrightarrow> \<not> v_allowed v \<and>
     (case v_reason v of None \<Rightarrow> True | Some r \<Rightarrow> r \<in> set ALWAYS_DENIED)"

interpretation gate: address_gate classifyAddress permits floored
  by unfold_locales (auto simp: floored_def permits_def Let_def ALWAYS_DENIED_def split: option.splits)

lemma assert_each_iff:
  "assert_each h as p = Inr () \<longleftrightarrow> (\<forall>a \<in> set as. permits (classifyAddress a) p = Inr ())"
  by (induction as) (auto simp: Let_def split: sum.splits)

lemma assertResolved_passes: "assertResolvedAddresses h as p = Inr () \<longleftrightarrow> gate.passes as p"
  by (simp add: assertResolvedAddresses_def gate.passes_def assert_each_iff)

lemma classifyAddress_quad:
  assumes "a < 256" "b < 256" "c < 256" "d < 256"
  shows "classifyAddress (quad_string a b c d) = quad_verdict (quad_string a b c d) (quad_nat a b c d)"
  using isIPv4_quad [OF assms] classifyIPv4_quad [OF assms] by (simp add: classifyAddress_def isIP_def)

text \<open>The addresses of the floor: this network, link local (so the metadata services), multicast, broadcast.\<close>

definition floor_quad :: "nat \<Rightarrow> nat \<Rightarrow> nat \<Rightarrow> nat \<Rightarrow> bool" where
  "floor_quad a b c d \<longleftrightarrow> a = 0 \<or> (a = 169 \<and> b = 254) \<or> (224 \<le> a \<and> a < 240) \<or>
     (a = 255 \<and> b = 255 \<and> c = 255 \<and> d = 255)"

lemma floor_quad_reason:
  assumes "a < 256" "b < 256" "c < 256" "d < 256" "floor_quad a b c d"
  shows "ipv4_reason (quad_nat a b c d) \<in> {Some Unspecified, Some LinkLocal, Some MulticastR, Some Broadcast}"
  using assms(5) unfolding floor_quad_def
proof (elim disjE conjE)
  assume "a = 0"
  then have "quad_nat a b c d < 16777216" using assms by (simp add: quad_nat_def)
  then show ?thesis by (simp add: ipv4_reason_def)
next
  assume "a = 169" "b = 254"
  then have "2851995648 \<le> quad_nat a b c d" "quad_nat a b c d < 2852061184"
    using assms by (simp_all add: quad_nat_def)
  then show ?thesis by (simp add: ipv4_reason_def)
next
  assume "224 \<le> a" "a < 240"
  then have "3758096384 \<le> quad_nat a b c d" "quad_nat a b c d < 4026531840"
    using assms by (simp_all add: quad_nat_def)
  then show ?thesis by (simp add: ipv4_reason_def)
next
  assume "a = 255" "b = 255" "c = 255" "d = 255"
  then have "quad_nat a b c d = 4294967295" by (simp add: quad_nat_def)
  then show ?thesis by (simp add: ipv4_reason_def)
qed

lemma floor_quad_floored:
  assumes "a < 256" "b < 256" "c < 256" "d < 256" "floor_quad a b c d"
  shows "floored (classifyAddress (quad_string a b c d))"
  using floor_quad_reason [OF assms]
  by (auto simp: floored_def classifyAddress_quad [OF assms(1-4)] quad_verdict_def ALWAYS_DENIED_def)

section \<open>CIDR allowances\<close>

lemma split_no: "\<forall>c \<in> set s. c \<noteq> x \<Longrightarrow> \<forall>c \<in> set r. c \<noteq> x \<Longrightarrow> split_str [x] (s @ x # r) = [s, r]"
  by (simp add: split_str_cons split_str_end)

lemma quad_not_space: "c \<in> set (quad_string a b c' d) \<Longrightarrow> \<not> is_space c"
  using quad_chars [of a b c' d] by (auto simp: is_space_def is_digit_def)

lemma quad_parts:
  "\<forall>c \<in> set r. is_digit c \<Longrightarrow>
     split_str ''/'' (trim (quad_string a b c d @ CHR ''/'' # r)) = [quad_string a b c d, r]"
proof -
  assume r: "\<forall>c \<in> set r. is_digit c"
  have s: "\<not> is_space (hd (quad_string a b c d))" using quad_not_space hd_in_set [OF quad_nonempty] by blast
  have "\<not> is_space (last (quad_string a b c d @ CHR ''/'' # r))"
  proof (cases r rule: rev_cases)
    case (snoc ys y)
    then show ?thesis using r by (simp add: is_space_def is_digit_def)
  qed (simp add: is_space_def)
  then have t: "trim (quad_string a b c d @ CHR ''/'' # r) = quad_string a b c d @ CHR ''/'' # r"
    using s by (subst trim_id) simp_all
  have "\<not> is_digit (CHR ''/'')" by (simp add: is_digit_def)
  then show ?thesis unfolding t using quad_no [of "CHR ''/''" a b c d] r by (intro split_no) auto
qed

lemma parseCidr_quad:
  assumes "a < 256" "b < 256" "c < 256" "d < 256" "k \<le> 32"
  shows "parseCidr (quad_string a b c d @ ''/'' @ show_nat k) = Inr (of_nat (quad_nat a b c d), k)"
proof -
  have "js_number (show_nat k) = Fin (of_nat k)"
    using assms(5) js_number_digits [of "show_nat k"] show_nat_digits [of k]
    by (simp add: list_all_iff round_double_nat)
  then show ?thesis
    using assms(5) by (simp add: parseCidr_def quad_parts [OF show_nat_digits] toIPv4Number_quad [OF assms(1-4)]
        as_integer_def)
qed

lemma parseCidr_empty_prefix:
  assumes "a < 256" "b < 256" "c < 256" "d < 256"
  shows "parseCidr (quad_string a b c d @ ''/'') = Inr (of_nat (quad_nat a b c d), 0)"
  using quad_parts [of "[]" a b c d]
  by (simp add: parseCidr_def toIPv4Number_quad [OF assms] js_number_empty as_integer_def)

section \<open>Properties\<close>

text \<open>C25: a dotted quad, written plainly or as an IPv4-mapped IPv6 address, is classified by the
  interval its 32-bit value lies in; the metadata address is named as such.\<close>

theorem quads_classified_by_interval:
  assumes "a < 256" "b < 256" "c < 256" "d < 256"
  shows "classifyAddress (quad_string a b c d) = quad_verdict (quad_string a b c d) (quad_nat a b c d) \<and>
    classifyAddress (''::ffff:'' @ quad_string a b c d) =
      quad_verdict (quad_string a b c d) (quad_nat a b c d)"
  using classifyAddress_quad [OF assms] classify_mapped [OF assms] by (simp_all add: mapped_string_def)

theorem quads_classified_by_interval_witness:
  "v_reason (classifyAddress ''::ffff:10.1.2.3'') = Some Private \<and> v_allowed (classifyAddress ''8.8.4.4'')"
  using quads_classified_by_interval [of 10 1 2 3] quads_classified_by_interval [of 8 8 4 4]
  by (simp add: quad_string_def js_simps quad_verdict_def quad_nat_def ipv4_reason_def)



text \<open>without an allowance, a resolution to dotted quads passes exactly when there is an
  address and every one of them lies outside all blocked intervals.\<close>

theorem resolved_public_only:
  assumes "\<forall>(a, b, c, d) \<in> set qs. a < 256 \<and> b < 256 \<and> c < 256 \<and> d < 256"
  shows "assertResolvedAddresses h (map (\<lambda>(a, b, c, d). quad_string a b c d) qs) default_policy = Inr () \<longleftrightarrow>
    qs \<noteq> [] \<and> (\<forall>(a, b, c, d) \<in> set qs. ipv4_reason (quad_nat a b c d) = None)"
proof -
  have "permits (classifyAddress (quad_string a b c d)) default_policy = Inr () \<longleftrightarrow>
      ipv4_reason (quad_nat a b c d) = None" if "(a, b, c, d) \<in> set qs" for a b c d
    using that assms classifyAddress_quad [of a b c d]
    by (auto simp: quad_verdict_def permits_def default_policy_def Let_def)
  then show ?thesis by (fastforce simp: assertResolved_passes gate.passes_def)
qed

theorem resolved_public_only_witness:
  "assertResolvedAddresses ''example.com'' (map (\<lambda>(a, b, c, d). quad_string a b c d) [(93, 184, 216, 34)])
     default_policy = Inr ()"
  using resolved_public_only [of "[(93, 184, 216, 34)]" "''example.com''"]
  by (simp add: quad_nat_def ipv4_reason_def)

text \<open>a CIDR entry with a written prefix length covers exactly the quads whose leading bits
  agree with the network's.\<close>

theorem cidr_entry_covers_block:
  assumes "a < 256" "b < 256" "c < 256" "d < 256" "a' < 256" "b' < 256" "c' < 256" "d' < 256" "k \<le> 32"
  shows "withinCidrs (quad_string a b c d) [quad_string a' b' c' d' @ ''/'' @ show_nat k] \<longleftrightarrow>
    quad_nat a b c d div 2 ^ (32 - k) = quad_nat a' b' c' d' div 2 ^ (32 - k)"
  using in_cidr_iff [OF assms(9)] parseCidr_quad [OF assms(5-9)] unat_quad [OF assms(1-4)]
    unat_quad [OF assms(5-8)]
  by (simp add: withinCidrs_def toIPv4Number_quad [OF assms(1-4)] del: append_Cons)

theorem cidr_entry_covers_block_witness:
  "withinCidrs (quad_string 10 0 4 7) [quad_string 10 0 0 0 @ ''/'' @ show_nat 8] \<and>
   \<not> withinCidrs (quad_string 11 0 4 7) [quad_string 10 0 0 0 @ ''/'' @ show_nat 8]"
  using cidr_entry_covers_block [of 10 0 4 7 10 0 0 0 8] cidr_entry_covers_block [of 11 0 4 7 10 0 0 0 8]
  by (simp add: quad_nat_def)

text \<open>An entry whose prefix length is left empty (\<open>10.0.0.0/\<close>) reads as \<open>/0\<close> and covers every
  IPv4 address.\<close>

theorem empty_prefix_covers_everything:
  assumes "a < 256" "b < 256" "c < 256" "d < 256" "a' < 256" "b' < 256" "c' < 256" "d' < 256"
  shows "withinCidrs (quad_string a b c d) [quad_string a' b' c' d' @ ''/'']"
  using parseCidr_empty_prefix [OF assms(5-8)]
  by (simp add: withinCidrs_def toIPv4Number_quad [OF assms(1-4)] in_cidr_def cidr_mask_def del: append_Cons)

theorem empty_prefix_covers_everything_witness:
  "withinCidrs (quad_string 192 168 1 1) [quad_string 10 0 0 0 @ ''/'']"
  by (rule empty_prefix_covers_everything) simp_all

lemma check_hostname_sound:
  "check_hostname h policy = Inr () \<Longrightarrow> h \<notin> set METADATA_HOSTNAMES \<and>
    (relaxed policy \<or> h \<notin> set BLOCKED_HOSTNAMES \<and>
       list_all (\<lambda>suffix. \<not> ends_with suffix h) BLOCKED_SUFFIXES)"
  by (auto simp: check_hostname_def list_all_iff filter_empty_conv split: if_splits list.splits)

lemma check_literal_sound:
  "check_literal h policy = Inr () \<Longrightarrow> isIP h = 0 \<or> permits (classifyAddress h) policy = Inr ()"
  by (auto simp: check_literal_def split: if_splits sum.splits)

lemma validateUrl_Inr:
  assumes "validateUrl parse_url raw policy = Inr v"
  shows "\<exists>u h. parse_url raw = Some u \<and> h = strip_brackets (map ascii_lower (url_hostname u)) \<and>
    protocol u \<in> {''http:'', ''https:''} \<and> username u = [] \<and> password u = [] \<and> h \<noteq> [] \<and>
    check_hostname h policy = Inr () \<and> check_literal h policy = Inr () \<and>
    uv_port v \<in> set (case allowedPorts policy of None \<Rightarrow> DEFAULT_ALLOWED_PORTS | Some ps \<Rightarrow> ps) \<and>
    uv_url v = u \<and> uv_hostname v = h \<and> literalAddress v = (if isIP h \<noteq> 0 then Some h else None)"
proof -
  from assms obtain u where u: "parse_url raw = Some u" by (auto simp: validateUrl_def split: option.splits)
  with assms show ?thesis
    by (auto simp: validateUrl_def bindE_eq_Inr Let_def split: if_splits)
qed

lemma url_literal_permitted:
  assumes "validateUrl parse_url raw policy = Inr v" "literalAddress v = Some l"
  shows "permits (classifyAddress l) policy = Inr ()"
  using validateUrl_Inr [OF assms(1)] assms(2) check_literal_sound [of l policy] by (auto split: if_splits)

text \<open>a URL that validates has an HTTP scheme, no credentials, a host that names no metadata
  service (nor, without an allowance, a local or internal host), a permitted port, and a literal
  address only if the policy permits it.\<close>

theorem validateUrl_sound:
  assumes "validateUrl parse_url raw policy = Inr v"
  shows "parse_url raw = Some (uv_url v) \<and> protocol (uv_url v) \<in> {''http:'', ''https:''} \<and>
    username (uv_url v) = [] \<and> password (uv_url v) = [] \<and>
    uv_hostname v = strip_brackets (map ascii_lower (url_hostname (uv_url v))) \<and> uv_hostname v \<noteq> [] \<and>
    uv_hostname v \<notin> set METADATA_HOSTNAMES \<and>
    (relaxed policy \<or> uv_hostname v \<notin> set BLOCKED_HOSTNAMES \<and>
       list_all (\<lambda>suffix. \<not> ends_with suffix (uv_hostname v)) BLOCKED_SUFFIXES) \<and>
    uv_port v \<in> set (case allowedPorts policy of None \<Rightarrow> DEFAULT_ALLOWED_PORTS | Some ps \<Rightarrow> ps) \<and>
    literalAddress v = (if isIP (uv_hostname v) \<noteq> 0 then Some (uv_hostname v) else None) \<and>
    (literalAddress v = None \<or> permits (classifyAddress (uv_hostname v)) policy = Inr ())"
  using validateUrl_Inr [OF assms] check_hostname_sound [of "uv_hostname v" policy]
    check_literal_sound [of "uv_hostname v" policy]
  by (elim exE conjE) (auto simp del: insert_iff)

definition example_url :: url where
  "example_url = \<lparr>protocol = ''https:'', username = [], password = [], url_hostname = ''example.com'', port = [],
     url_host = ''example.com'', url_path = ''/'', url_origin = ''https://example.com'',
     href = ''https://example.com/''\<rparr>"

lemma example_validates:
  "validateUrl (\<lambda>s. Some example_url) ''https://example.com'' default_policy =
     Inr \<lparr>uv_url = example_url, uv_hostname = ''example.com'', uv_port = 443, literalAddress = None\<rparr>"
  by (simp add: validateUrl_def example_url_def default_policy_def check_hostname_def check_literal_def
      METADATA_HOSTNAMES_def BLOCKED_HOSTNAMES_def BLOCKED_SUFFIXES_def ends_with_def relaxed_def
      strip_brackets_def ascii_lower_def is_upper_def isIP_def isIPv4_def isIPv6_def ipv6_body_def
      ipv6_part_def split_str_def DEFAULT_ALLOWED_PORTS_def ipv6_group_def is_hex_def is_digit_def Let_def)

theorem validateUrl_sound_witness: "''example.com'' \<notin> set METADATA_HOSTNAMES \<and> (443 :: nat) \<in> set DEFAULT_ALLOWED_PORTS"
  using validateUrl_sound [OF example_validates]
  by (simp add: default_policy_def example_url_def strip_brackets_def ascii_lower_def is_upper_def ends_with_def)

text \<open>The metadata host names are refused under every policy, yet the same name with the root
  dot at its end is accepted under every policy, by the check of names alone.\<close>

theorem trailing_dot_passes_names:
  "(\<exists>e. check_hostname ''metadata.google.internal'' p = Inl e) \<and>
   check_hostname ''metadata.google.internal.'' p = Inr () \<and> check_hostname ''localhost.'' p = Inr ()"
  by (auto simp: check_hostname_def METADATA_HOSTNAMES_def BLOCKED_HOSTNAMES_def BLOCKED_SUFFIXES_def
      ends_with_def)

text \<open>The IPv6 metadata address of AWS is classified as unique-local, so it is refused by
  default but permitted under \<open>allowPrivate\<close>.\<close>

theorem aws_v6_metadata_reachable_when_private:
  "v_reason (classifyAddress ''fd00:ec2::254'') = Some UniqueLocal \<and>
   permits (classifyAddress ''fd00:ec2::254'') default_policy = Inl UniqueLocal \<and>
   permits (classifyAddress ''fd00:ec2::254'') (default_policy\<lparr>allowPrivate := True\<rparr>) = Inr ()"
  by (simp add: classify_aws permits_def default_policy_def ALWAYS_DENIED_def)

end
