(* ===== verification/EgressPolicies.thy ===== *)
theory EgressPolicies
  imports EgressGuard
begin

text \<open>
  \<open>backend/src/shared/http/egress-policies.ts\<close>: the two outbound policies, built from the process
  environment, and the boot-time check that neither reaches an address of the forbidden set. An
  environment is the map of its variables.
\<close>

type_synonym process_env = "string \<rightharpoonup> string"

definition env_or :: "process_env \<Rightarrow> string \<Rightarrow> string \<Rightarrow> string" where
  "env_or env k d = (case env k of None \<Rightarrow> d | Some v \<Rightarrow> v)"

definition DEFAULT_NODE_PORTS :: "nat list" where
  "DEFAULT_NODE_PORTS = [80, 443, 8080, 8443, 3000, 3100]"

definition as_port :: "string \<Rightarrow> nat option" where
  "as_port entry =
     (case as_integer (js_number (trim entry)) of
        None \<Rightarrow> None
      | Some p \<Rightarrow> if p > 0 \<and> p \<le> 65535 then Some (nat p) else None)"

definition nodeAllowedPorts :: "process_env \<Rightarrow> nat list" where
  "nodeAllowedPorts env =
     (let configured = List.map_filter as_port (split_str '','' (env_or env ''NODE_ENDPOINT_ALLOWED_PORTS'' [])) in
      if configured \<noteq> [] then configured else DEFAULT_NODE_PORTS)"

definition nodeAllowedCidrs :: "process_env \<Rightarrow> string list" where
  "nodeAllowedCidrs env =
     (let configured = filter (\<lambda>e. e \<noteq> [])
            (map trim (split_str '','' (env_or env ''NODE_ENDPOINT_ALLOWED_CIDRS'' []))) in
      if configured \<noteq> [] then configured
      else if env_or env ''NODE_ENV'' ''development'' = ''production'' then []
      else [''127.0.0.0/8'', ''10.0.0.0/8'', ''172.16.0.0/12'', ''192.168.0.0/16''])"

definition TENANT_PUBLIC :: egress_policy where
  "TENANT_PUBLIC = \<lparr>policy_name = Some ''tenant-public'', allowedPorts = None, allowedCidrs = None,
     allowPrivate = False\<rparr>"

definition internalNodeTransport :: "process_env \<Rightarrow> egress_policy" where
  "internalNodeTransport env =
     \<lparr>policy_name = Some ''internal-node-transport'', allowedPorts = Some (nodeAllowedPorts env),
      allowedCidrs = Some (nodeAllowedCidrs env), allowPrivate = False\<rparr>"

definition registeredPolicies :: "process_env \<Rightarrow> egress_policy list" where
  "registeredPolicies env = [TENANT_PUBLIC, internalNodeTransport env]"

definition FORBIDDEN_UNDER_EVERY_POLICY :: "string list" where
  "FORBIDDEN_UNDER_EVERY_POLICY =
     [''169.254.169.254'', ''169.254.170.2'', ''169.254.1.1'', ''::ffff:169.254.169.254'',
      ''224.0.0.1'', ''255.255.255.255'', ''0.0.0.0'']"

fun assert_forbidden :: "egress_policy \<Rightarrow> string list \<Rightarrow> unit result" where
  "assert_forbidden policy [] = Inr ()"
| "assert_forbidden policy (address # rest) =
     (case permits (classifyAddress address) policy of
        Inr _ \<Rightarrow> Inl (''Egress policy '' @
            quoted (case policy_name policy of None \<Rightarrow> ''unnamed'' | Some n \<Rightarrow> n) @
            '' would permit '' @ address @ '', which must be unreachable under every policy.'' @
            '' This is a bug in the guard, not a configuration problem '' @ dash @ '' check ALWAYS_DENIED.'')
      | Inl _ \<Rightarrow> assert_forbidden policy rest)"

definition assertPolicyCannotReachForbidden :: "egress_policy \<Rightarrow> unit result" where
  "assertPolicyCannotReachForbidden policy = assert_forbidden policy FORBIDDEN_UNDER_EVERY_POLICY"

fun assert_all_policies :: "egress_policy list \<Rightarrow> unit result" where
  "assert_all_policies [] = Inr ()"
| "assert_all_policies (p # ps) =
     bindE (assertPolicyCannotReachForbidden p) (\<lambda>_. assert_all_policies ps)"

fun assert_denied :: "block_reason list \<Rightarrow> unit result" where
  "assert_denied [] = Inr ()"
| "assert_denied (r # rs) =
     (if r \<notin> set ALWAYS_DENIED then Inl (quoted (reason_name r) @ '' was removed from ALWAYS_DENIED'')
      else assert_denied rs)"

definition verifyEgressPolicies :: "process_env \<Rightarrow> unit result" where
  "verifyEgressPolicies env =
     bindE (assert_all_policies (registeredPolicies env)) (\<lambda>_. assert_denied [CloudMetadata, LinkLocal])"

section \<open>Lemmas\<close>

lemma forbidden_floored: "list_all (\<lambda>a. floored (classifyAddress a)) FORBIDDEN_UNDER_EVERY_POLICY"
proof -
  have m: "mapped_string 169 254 169 254 = ''::ffff:169.254.169.254''"
    by (simp add: mapped_string_def quad_string_def js_simps)
  have "classifyAddress ''::ffff:169.254.169.254'' = classifyAddress (quad_string 169 254 169 254)"
    unfolding m [symmetric] by (rule classify_mapped) simp_all
  then show ?thesis
    using floor_quad_floored [of 169 254 169 254] floor_quad_floored [of 169 254 170 2]
      floor_quad_floored [of 169 254 1 1] floor_quad_floored [of 224 0 0 1]
      floor_quad_floored [of 255 255 255 255] floor_quad_floored [of 0 0 0 0]
    by (simp add: FORBIDDEN_UNDER_EVERY_POLICY_def floor_quad_def quad_string_def js_simps)
qed

lemma assert_forbidden_floored:
  "list_all (\<lambda>a. floored (classifyAddress a)) as \<Longrightarrow> assert_forbidden p as = Inr ()"
proof (induction as)
  case (Cons a as)
  then obtain r where "permits (classifyAddress a) p = Inl r" using gate.floor_denied by auto
  with Cons show ?case by simp
qed simp

section \<open>Properties\<close>

text \<open>the boot check passes for every policy and every environment, so no configuration can make
  it fail, and none of the registered policies reaches a forbidden address.\<close>

theorem boot_check_passes:
  "assertPolicyCannotReachForbidden p = Inr () \<and> verifyEgressPolicies env = Inr ()"
proof -
  have a: "assertPolicyCannotReachForbidden q = Inr ()" for q
    unfolding assertPolicyCannotReachForbidden_def by (rule assert_forbidden_floored [OF forbidden_floored])
  then have "assert_all_policies ps = Inr ()" for ps by (induction ps) simp_all
  then show ?thesis using a by (simp add: verifyEgressPolicies_def ALWAYS_DENIED_def)
qed

text \<open>in production with no CIDR configured, the node transport admits exactly the addresses a
  tenant destination may have, and no hostname rule is relaxed.\<close>

theorem production_unconfigured_is_public:
  assumes "env ''NODE_ENV'' = Some ''production''" and "env ''NODE_ENDPOINT_ALLOWED_CIDRS'' = None"
  shows "permits v (internalNodeTransport env) = permits v TENANT_PUBLIC \<and>
    relaxed (internalNodeTransport env) = relaxed TENANT_PUBLIC"
  using assms
  by (auto simp: permits_def internalNodeTransport_def TENANT_PUBLIC_def nodeAllowedCidrs_def env_or_def
      relaxed_def split_str_def Let_def split: option.splits)

theorem production_unconfigured_is_public_witness:
  "\<not> relaxed (internalNodeTransport [''NODE_ENV'' \<mapsto> ''production''])"
  using production_unconfigured_is_public [of "[''NODE_ENV'' \<mapsto> ''production'']"]
  by (simp add: relaxed_def TENANT_PUBLIC_def)

text \<open>The ports of a node endpoint are always a non-empty list of valid TCP ports.\<close>

theorem node_ports_valid:
  "nodeAllowedPorts env \<noteq> [] \<and> list_all (\<lambda>p. 0 < p \<and> p \<le> 65535) (nodeAllowedPorts env)"
proof -
  have "0 < p \<and> p \<le> 65535" if "as_port e = Some p" for e p
    using that by (auto simp: as_port_def split: option.splits if_splits)
  then have "list_all (\<lambda>p. 0 < p \<and> p \<le> 65535) (List.map_filter as_port es)" for es
    by (induction es) (auto simp: map_filter_simps split: option.splits)
  then show ?thesis by (simp add: nodeAllowedPorts_def Let_def DEFAULT_NODE_PORTS_def)
qed

end
