(* ===== verification/OutboundHttp.thy ===== *)
theory OutboundHttp
  imports EgressPolicies
begin

text \<open>
  \<open>backend/src/shared/http/outbound-http.service.ts\<close>: the guarded HTTP client. A request is a loop
  over redirect hops; each hop validates the target, resolves the host, approves every address, and
  sends one request pinned to the approved address. The requests sent are kept in a trace.

  Parameters (\<open>env\<close>): the clock, the name resolver, the transport of \<open>node:http\<close>, the URL parser
  and the resolution of a relative reference. Bytes and text are strings; the UTF-8 decoding of the
  body is a parameter too.
\<close>

section \<open>Data\<close>

type_synonym headers = "(string \<times> string) list"

record outbound_request =
  rq_url :: string
  rq_method :: "string option"
  rq_headers :: "headers option"
  rq_body :: "string option"
  timeoutMs :: "int option"
  maxRedirects :: "int option"
  maxResponseBytes :: "int option"
  policy :: egress_policy

record outbound_response =
  rs_status :: int
  rs_headers :: headers
  rs_body :: string
  rs_chain :: "string list"
  peer :: string
  rs_truncated :: bool

text \<open>What is handed to \<open>transport.request\<close>, with the address its pinned lookup answers.\<close>

record sent =
  st_url :: url
  st_protocol :: string
  st_host :: string
  st_port :: string
  st_path :: string
  st_method :: string
  st_headers :: headers
  st_own_headers :: headers
  st_pinned :: string
  st_family :: nat
  st_servername :: "string option"
  st_timeout :: int
  st_body :: "string option"

text \<open>A header value as \<open>node:http\<close> reports it, and the events of one exchange.\<close>

datatype header_value = Undefined | One string | Many "string list"

datatype stream_end = Ended | Errored string

datatype transport_answer =
    RequestError string
  | Response "int option" "(string \<times> header_value) list" "string list" stream_end

datatype failure = Blocked egress_error | Thrown string

record hop_response =
  h_status :: int
  h_headers :: headers
  h_body :: string
  h_truncated :: bool

record env =
  clock :: "nat \<Rightarrow> int"
  lookup :: "nat \<Rightarrow> string \<Rightarrow> string + string list"
  transport :: "nat \<Rightarrow> sent \<Rightarrow> transport_answer"
  parse_url :: "string \<Rightarrow> url option"
  relative_url :: "string \<Rightarrow> url \<Rightarrow> url option"
  utf8 :: "string \<Rightarrow> string"

definition DEFAULT_timeoutMs :: int where "DEFAULT_timeoutMs = 30000"
definition DEFAULT_maxRedirects :: int where "DEFAULT_maxRedirects = 3"
definition DEFAULT_maxResponseBytes :: int where "DEFAULT_maxResponseBytes = 1024 * 1024"

definition or_default :: "'a option \<Rightarrow> 'a \<Rightarrow> 'a" where
  "or_default x d = (case x of None \<Rightarrow> d | Some v \<Rightarrow> v)"

section \<open>One hop\<close>

text \<open>The \<open>data\<close> handler on a state of chunks received, their size, and the truncation flag.
  \<open>Buffer.subarray\<close> with a negative end counts from the back of the chunk.\<close>

record body_state =
  chunks :: "string list"
  bsize :: int
  truncated :: bool

definition subarray_end :: "string \<Rightarrow> int \<Rightarrow> string" where
  "subarray_end c e = take (nat (if e < 0 then max 0 (int (length c) + e) else e)) c"

definition on_data :: "int \<Rightarrow> body_state \<Rightarrow> string \<Rightarrow> body_state" where
  "on_data maxBytes b chunk =
     (if truncated b then b
      else
        let size = bsize b + int (length chunk) in
        if size > maxBytes
        then b\<lparr>bsize := size, truncated := True,
               chunks := chunks b @ [subarray_end chunk (int (length chunk) - (size - maxBytes))]\<rparr>
        else b\<lparr>bsize := size, chunks := chunks b @ [chunk]\<rparr>)"

definition read_body :: "int \<Rightarrow> string list \<Rightarrow> body_state" where
  "read_body maxBytes cs = foldl (on_data maxBytes) \<lparr>chunks = [], bsize = 0, truncated = False\<rparr> cs"

fun settle_headers :: "headers \<Rightarrow> (string \<times> header_value) list \<Rightarrow> headers" where
  "settle_headers acc [] = acc"
| "settle_headers acc ((n, Undefined) # hs) = settle_headers acc hs"
| "settle_headers acc ((n, One v) # hs) = settle_headers (put (map ascii_lower n) v acc) hs"
| "settle_headers acc ((n, Many vs) # hs) = settle_headers (put (map ascii_lower n) (join '', '' vs) acc) hs"

definition settle :: "env \<Rightarrow> int option \<Rightarrow> (string \<times> header_value) list \<Rightarrow> body_state \<Rightarrow> hop_response" where
  "settle e status hs b =
     \<lparr>h_status = or_default status 0, h_headers = settle_headers [] hs,
      h_body = utf8 e (concat (chunks b)), h_truncated = truncated b\<rparr>"

definition pinned_family :: "string \<Rightarrow> nat" where
  "pinned_family address = (if CHR '':'' \<in> set address then 6 else 4)"

definition put_all :: "headers \<Rightarrow> headers \<Rightarrow> headers" where
  "put_all initial hs = foldl (\<lambda>m (k, v). put k v m) initial hs"

definition build_request :: "url \<Rightarrow> string \<Rightarrow> string \<Rightarrow> headers \<Rightarrow> string option \<Rightarrow> int \<Rightarrow> sent" where
  "build_request u address meth headers body timeout =
     (let secure = (protocol u = ''https:'') in
      \<lparr>st_url = u, st_protocol = protocol u, st_host = url_hostname u,
       st_port = (if port u \<noteq> [] then port u else if secure then ''443'' else ''80''),
       st_path = url_path u, st_method = meth,
       st_headers = put_all [(''host'', url_host u), (''accept-encoding'', ''identity'')] headers,
       st_own_headers = headers, st_pinned = address, st_family = pinned_family address,
       st_servername = (if secure then Some (url_hostname u) else None),
       st_timeout = timeout, st_body = body\<rparr>)"

definition send :: "env \<Rightarrow> nat \<Rightarrow> sent \<Rightarrow> int \<Rightarrow> failure + hop_response" where
  "send e hop s maxBytes =
     (case transport e hop s of
        RequestError msg \<Rightarrow> Inl (Thrown msg)
      | Response status hs cs fin \<Rightarrow>
          let b = read_body maxBytes cs in
          case fin of
            Ended \<Rightarrow> Inr (settle e status hs b)
          | Errored msg \<Rightarrow> if truncated b then Inr (settle e status hs b) else Inl (Thrown msg))"

definition resolve_host :: "env \<Rightarrow> nat \<Rightarrow> string \<Rightarrow> string option \<Rightarrow> egress_policy \<Rightarrow> egress_error + string" where
  "resolve_host e hop hostname literal pol =
     (case literal of
        Some l \<Rightarrow> Inr l
      | None \<Rightarrow>
          (case lookup e hop hostname of
             Inl cause \<Rightarrow> Inl (hostname, ''it could not be resolved ('' @ cause @ '')'')
           | Inr addresses \<Rightarrow>
               bindE (assertResolvedAddresses hostname addresses pol) (\<lambda>_. Inr (hd addresses))))"

definition credential_header :: "string \<Rightarrow> bool" where
  "credential_header name =
     (let lower = map ascii_lower name in
      lower = ''authorization'' \<or> lower = ''cookie'' \<or> lower = ''proxy-authorization'' \<or>
      starts_with ''x-prismx-'' lower)"

definition withoutCredentials :: "headers \<Rightarrow> headers" where
  "withoutCredentials hs = filter (\<lambda>(n, v). \<not> credential_header n) hs"

section \<open>The redirect loop\<close>

record hop_state =
  target :: string
  h_method :: string
  own_headers :: headers
  h_reqbody :: "string option"
  chain :: "string list"
  trace :: "sent list"

definition redirect_location :: "hop_response \<Rightarrow> string option" where
  "redirect_location r =
     (if 300 \<le> h_status r \<and> h_status r < 400
      then case map_of (h_headers r) ''location'' of
             None \<Rightarrow> None
           | Some l \<Rightarrow> if l = [] then None else Some l
      else None)"

text \<open>The state for the next hop after a redirect from \<open>u\<close> to \<open>nxt\<close> with reply status \<open>status\<close>.\<close>

definition follow :: "url \<Rightarrow> url \<Rightarrow> int \<Rightarrow> hop_state \<Rightarrow> hop_state" where
  "follow u nxt status s =
     (let hs = (if url_origin nxt \<noteq> url_origin u then withoutCredentials (own_headers s) else own_headers s) in
      if status = 303 \<or> (h_method s \<noteq> ''GET'' \<and> h_method s \<noteq> ''HEAD'')
      then s\<lparr>target := href nxt, h_method := ''GET'', h_reqbody := None,
             own_headers := del ''content-length'' (del ''content-type'' hs)\<rparr>
      else s\<lparr>target := href nxt, own_headers := hs\<rparr>)"

text \<open>
  One pass through the body of the loop: \<open>Inl\<close> stops with an error or a response, \<open>Inr\<close> goes on.
\<close>

datatype outcome = Failed failure | Answered outbound_response

definition hop_step :: "env \<Rightarrow> egress_policy \<Rightarrow> int \<Rightarrow> int \<Rightarrow> int \<Rightarrow> nat \<Rightarrow> hop_state \<Rightarrow>
    (outcome \<times> hop_state) + hop_state" where
  "hop_step e pol deadline maxHops maxBytes hop s =
     (let remaining = deadline - clock e (Suc hop) in
      if remaining \<le> 0 then Inl (Failed (Blocked (target s, ''the request deadline elapsed'')), s)
      else case validateUrl (parse_url e) (target s) pol of
        Inl err \<Rightarrow> Inl (Failed (Blocked err), s)
      | Inr v \<Rightarrow>
          case resolve_host e hop (uv_hostname v) (literalAddress v) pol of
            Inl err \<Rightarrow> Inl (Failed (Blocked err), s)
          | Inr address \<Rightarrow>
              let u = uv_url v;
                  rq = build_request u address (h_method s) (own_headers s) (h_reqbody s) remaining;
                  s1 = s\<lparr>chain := chain s @ [href u], trace := trace s @ [rq]\<rparr> in
              case send e hop rq maxBytes of
                Inl f \<Rightarrow> Inl (Failed f, s1)
              | Inr r \<Rightarrow>
                  case redirect_location r of
                    None \<Rightarrow> Inl (Answered \<lparr>rs_status = h_status r, rs_headers = h_headers r,
                        rs_body = h_body r, rs_chain = chain s1, peer = address,
                        rs_truncated = h_truncated r\<rparr>, s1)
                  | Some location \<Rightarrow>
                      if int hop = maxHops
                      then Inl (Failed (Blocked (target s, ''it redirected more than '' @
                             show_int maxHops @ '' time(s)'')), s1)
                      else case relative_url e location u of
                        None \<Rightarrow> Inl (Failed (Thrown ''Invalid URL''), s1)
                      | Some nxt \<Rightarrow>
                          if href nxt \<in> set (chain s1)
                          then Inl (Failed (Blocked (href nxt, ''the redirect chain loops'')), s1)
                          else Inr (follow u nxt (h_status r) s1))"

function hops :: "env \<Rightarrow> outbound_request \<Rightarrow> int \<Rightarrow> int \<Rightarrow> int \<Rightarrow> nat \<Rightarrow> hop_state \<Rightarrow> outcome \<times> hop_state" where
  "hops e input deadline maxHops maxBytes hop s =
     (if int hop \<le> maxHops
      then case hop_step e (policy input) deadline maxHops maxBytes hop s of
             Inl out \<Rightarrow> out
           | Inr s' \<Rightarrow> hops e input deadline maxHops maxBytes (Suc hop) s'
      else (Failed (Blocked (rq_url input, ''the redirect limit was exhausted'')), s))"
  by pat_completeness auto
termination
  by (relation "measure (\<lambda>(e, i, d, m, b, hop, s). nat (m + 1 - int hop))") auto

declare hops.simps [simp del]

definition start :: "outbound_request \<Rightarrow> hop_state" where
  "start input =
     \<lparr>target = rq_url input, h_method = map ascii_upper (or_default (rq_method input) ''GET''),
      own_headers = or_default (rq_headers input) [], h_reqbody = rq_body input, chain = [], trace = []\<rparr>"

definition request :: "env \<Rightarrow> outbound_request \<Rightarrow> outcome \<times> hop_state" where
  "request e input =
     hops e input (clock e 0 + or_default (timeoutMs input) DEFAULT_timeoutMs)
       (or_default (maxRedirects input) DEFAULT_maxRedirects)
       (or_default (maxResponseBytes input) DEFAULT_maxResponseBytes) 0 (start input)"

text \<open>\<open>fetch\<close>: the same request in the shape of a \<open>Response\<close>.\<close>

definition fetch :: "env \<Rightarrow> outbound_request \<Rightarrow> failure + (int \<times> headers \<times> string)" where
  "fetch e input =
     (case fst (request e input) of
        Failed f \<Rightarrow> Inl f
      | Answered r \<Rightarrow> Inr (rs_status r, rs_headers r, rs_body r))"

section \<open>Lemmas on one hop\<close>

text \<open>A request is approved when its URL validated and its pinned address is permitted.\<close>

definition approved :: "env \<Rightarrow> egress_policy \<Rightarrow> sent \<Rightarrow> bool" where
  "approved e pol q \<longleftrightarrow>
     (\<exists>raw v. validateUrl (parse_url e) raw pol = Inr v \<and> st_url q = uv_url v) \<and>
     permits (classifyAddress (st_pinned q)) pol = Inr ()"

lemma resolve_permitted:
  assumes "validateUrl (parse_url e) raw pol = Inr v"
    and "resolve_host e hop (uv_hostname v) (literalAddress v) pol = Inr a"
  shows "permits (classifyAddress a) pol = Inr ()"
proof (cases "literalAddress v")
  case None
  with assms(2) obtain as where "assertResolvedAddresses (uv_hostname v) as pol = Inr ()" "a = hd as"
    by (auto simp: resolve_host_def bindE_eq_Inr split: sum.splits)
  then show ?thesis using assertResolved_passes gate.passes_def by (metis hd_in_set)
next
  case (Some l)
  with assms(2) have "a = l" by (simp add: resolve_host_def)
  with Some url_literal_permitted [OF assms(1)] show ?thesis by simp
qed

text \<open>What one pass does: the target is unchanged until it sends; then exactly one request is added.\<close>

lemma hop_step_cases:
  obtains (early) f where "hop_step e pol dl mh mb hop s = Inl (Failed f, s)"
  | (sent) v a rq s1 where
      "validateUrl (parse_url e) (target s) pol = Inr v"
      "resolve_host e hop (uv_hostname v) (literalAddress v) pol = Inr a"
      "rq = build_request (uv_url v) a (h_method s) (own_headers s) (h_reqbody s) (dl - clock e (Suc hop))"
      "s1 = s\<lparr>chain := chain s @ [href (uv_url v)], trace := trace s @ [rq]\<rparr>"
      "(\<exists>f. hop_step e pol dl mh mb hop s = Inl (Failed f, s1)) \<or>
       (\<exists>r. hop_step e pol dl mh mb hop s = Inl (Answered r, s1) \<and> rs_chain r = chain s1 \<and> peer r = a) \<or>
       (\<exists>nxt st loc. hop_step e pol dl mh mb hop s = Inr (follow (uv_url v) nxt st s1) \<and> int hop \<noteq> mh \<and>
          relative_url e loc (uv_url v) = Some nxt \<and> href nxt \<notin> set (chain s1))"
proof (cases "dl - clock e (Suc hop) \<le> 0")
  case True
  then show thesis by (intro early) (simp add: hop_step_def)
next
  case t: False
  show thesis
  proof (cases "validateUrl (parse_url e) (target s) pol")
    case (Inl err)
    with t show thesis by (intro early) (simp add: hop_step_def)
  next
    case v: (Inr v)
    show thesis
    proof (cases "resolve_host e hop (uv_hostname v) (literalAddress v) pol")
      case (Inl err)
      with t v show thesis by (intro early) (simp add: hop_step_def)
    next
      case (Inr a)
      show thesis
        by (rule sent [OF v Inr refl refl])
          (use t v Inr in \<open>auto simp: hop_step_def Let_def split: sum.splits option.splits\<close>)
    qed
  qed
qed

section \<open>Invariants of the loop\<close>

text \<open>
  A property \<open>I\<close> of the states between hops and a property \<open>J\<close> of the states the loop may stop in:
  it is enough to look at the request one pass adds.
\<close>

lemma hops_invariant:
  assumes I: "I s" and IJ: "\<And>s. I s \<Longrightarrow> J s"
    and step: "\<And>s v a rq s1 dt hp. I s \<Longrightarrow> validateUrl (parse_url e) (target s) (policy input) = Inr v \<Longrightarrow>
      resolve_host e hp (uv_hostname v) (literalAddress v) (policy input) = Inr a \<Longrightarrow>
      rq = build_request (uv_url v) a (h_method s) (own_headers s) (h_reqbody s) dt \<Longrightarrow>
      s1 = s\<lparr>chain := chain s @ [href (uv_url v)], trace := trace s @ [rq]\<rparr> \<Longrightarrow>
      J s1 \<and> (\<forall>nxt st loc. relative_url e loc (uv_url v) = Some nxt \<longrightarrow> href nxt \<notin> set (chain s1) \<longrightarrow>
        I (follow (uv_url v) nxt st s1))"
  shows "J (snd (hops e input dl mh mb hop s))"
  using I
proof (induction "nat (mh + 1 - int hop)" arbitrary: hop s rule: less_induct)
  case less
  show ?case
  proof (cases "int hop \<le> mh")
    case False
    then show ?thesis using IJ [OF less.prems] by (simp add: hops.simps)
  next
    case True
    show ?thesis
    proof (cases e "policy input" dl mh mb hop s rule: hop_step_cases)
      case (early f)
      with True IJ [OF less.prems] show ?thesis by (simp add: hops.simps)
    next
      case (sent v a rq s1)
      note st = step [OF less.prems sent(1-4)]
      from sent(5) show ?thesis
      proof (elim disjE exE conjE)
        fix nxt st loc
        assume h: "hop_step e (policy input) dl mh mb hop s = Inr (follow (uv_url v) nxt st s1)"
          and r: "relative_url e loc (uv_url v) = Some nxt" "href nxt \<notin> set (chain s1)"
        have "I (follow (uv_url v) nxt st s1)" using st r by blast
        then have "J (snd (hops e input dl mh mb (Suc hop) (follow (uv_url v) nxt st s1)))"
          by (rule less.hyps [rotated]) (use True in simp)
        with True h show ?thesis by (simp add: hops.simps [of _ _ _ _ _ hop])
      qed (use True st in \<open>simp_all add: hops.simps\<close>)
    qed
  qed
qed

lemma follow_simps [simp]:
  "target (follow u nxt st s) = href nxt" "trace (follow u nxt st s) = trace s"
  "chain (follow u nxt st s) = chain s"
  by (simp_all add: follow_def Let_def)

lemma start_simps [simp]: "trace (start i) = []" "chain (start i) = []" "target (start i) = rq_url i"
  by (simp_all add: start_def)

lemma build_simps [simp]:
  "st_url (build_request u a m hs b t) = u" "st_pinned (build_request u a m hs b t) = a"
  "st_method (build_request u a m hs b t) = m" "st_own_headers (build_request u a m hs b t) = hs"
  "st_body (build_request u a m hs b t) = b"
  "st_headers (build_request u a m hs b t) =
     put_all [(''host'', url_host u), (''accept-encoding'', ''identity'')] hs"
  by (simp_all add: build_request_def Let_def)

lemma request_invariant:
  assumes "I (start input)" and "\<And>s. I s \<Longrightarrow> J s"
    and "\<And>s v a rq s1 dt hp. I s \<Longrightarrow> validateUrl (parse_url e) (target s) (policy input) = Inr v \<Longrightarrow>
      resolve_host e hp (uv_hostname v) (literalAddress v) (policy input) = Inr a \<Longrightarrow>
      rq = build_request (uv_url v) a (h_method s) (own_headers s) (h_reqbody s) dt \<Longrightarrow>
      s1 = s\<lparr>chain := chain s @ [href (uv_url v)], trace := trace s @ [rq]\<rparr> \<Longrightarrow>
      J s1 \<and> (\<forall>nxt st loc. relative_url e loc (uv_url v) = Some nxt \<longrightarrow> href nxt \<notin> set (chain s1) \<longrightarrow>
        I (follow (uv_url v) nxt st s1))"
  shows "J (snd (request e input))"
  unfolding request_def by (rule hops_invariant [of I, OF assms])

lemma request_approved: "list_all (approved e (policy input)) (trace (snd (request e input)))"
proof (rule request_invariant [of "\<lambda>s. list_all (approved e (policy input)) (trace s)"])
  fix s s1 :: hop_state and v a rq dt hp
  assume a: "list_all (approved e (policy input)) (trace s)"
    "validateUrl (parse_url e) (target s) (policy input) = Inr v"
    "resolve_host e hp (uv_hostname v) (literalAddress v) (policy input) = Inr a"
    "rq = build_request (uv_url v) a (h_method s) (own_headers s) (h_reqbody s) dt"
    "s1 = s\<lparr>chain := chain s @ [href (uv_url v)], trace := trace s @ [rq]\<rparr>"
  then have "approved e (policy input) rq" using resolve_permitted by (auto simp: approved_def)
  with a show "list_all (approved e (policy input)) (trace s1) \<and>
      (\<forall>nxt st loc. relative_url e loc (uv_url v) = Some nxt \<longrightarrow> href nxt \<notin> set (chain s1) \<longrightarrow>
         list_all (approved e (policy input)) (trace (follow (uv_url v) nxt st s1)))" by simp
qed simp_all

lemma request_chain: "chain (snd (request e input)) = map (\<lambda>q. href (st_url q)) (trace (snd (request e input)))"
  by (rule request_invariant [of "\<lambda>s. chain s = map (\<lambda>q. href (st_url q)) (trace s)"]) simp_all

definition parses_back :: "env \<Rightarrow> bool" where
  "parses_back e \<longleftrightarrow> (\<forall>loc b n. relative_url e loc b = Some n \<longrightarrow> parse_url e (href n) = Some n)"

lemma validate_url_of: "validateUrl P raw pol = Inr v \<Longrightarrow> P raw = Some (uv_url v)"
  using validateUrl_Inr by fastforce

lemma request_chain_distinct:
  assumes "parses_back e"
  shows "distinct (chain (snd (request e input)))"
proof -
  let ?I = "\<lambda>s. distinct (chain s) \<and> (chain s = [] \<or>
    (\<exists>n. parse_url e (target s) = Some n \<and> href n = target s \<and> target s \<notin> set (chain s)))"
  show ?thesis
  proof (rule request_invariant [of ?I])
    fix s s1 :: hop_state and v a rq dt hp
    assume I: "?I s" and v: "validateUrl (parse_url e) (target s) (policy input) = Inr v"
      and s1: "s1 = s\<lparr>chain := chain s @ [href (uv_url v)], trace := trace s @ [rq]\<rparr>"
    have "distinct (chain s1)" using I validate_url_of [OF v] by (auto simp: s1)
    then show "distinct (chain s1) \<and> (\<forall>nxt st loc. relative_url e loc (uv_url v) = Some nxt \<longrightarrow>
        href nxt \<notin> set (chain s1) \<longrightarrow> ?I (follow (uv_url v) nxt st s1))"
      using assms unfolding parses_back_def by auto
  qed simp_all
qed

section \<open>Credentials\<close>

definition clean :: "headers \<Rightarrow> bool" where
  "clean hs \<longleftrightarrow> (\<forall>(n, v) \<in> set hs. \<not> credential_header n)"

lemma clean_without: "clean (withoutCredentials hs)"
  by (auto simp: clean_def withoutCredentials_def)

lemma clean_del: "clean hs \<Longrightarrow> clean (del k hs)"
  by (auto simp: clean_def del_def)

lemma clean_put: "clean m \<Longrightarrow> \<not> credential_header k \<Longrightarrow> clean (put k v m)"
  by (induction m) (auto simp: clean_def split: if_splits)

lemma clean_put_all: "clean m \<Longrightarrow> clean hs \<Longrightarrow> clean (put_all m hs)"
proof (induction hs arbitrary: m)
  case (Cons h hs)
  obtain k v where h: "h = (k, v)" by (cases h)
  with Cons.prems(2) have "\<not> credential_header k" "clean hs" by (simp_all add: clean_def)
  with Cons.prems(1) have "clean (put k v m)" "clean hs" by (simp_all add: clean_put)
  from Cons.IH [OF this] show ?case by (simp add: put_all_def h)
qed (simp add: put_all_def)

lemma own_headers_follow:
  "own_headers (follow u nxt st s) \<in>
     (let hs = (if url_origin nxt \<noteq> url_origin u then withoutCredentials (own_headers s) else own_headers s)
      in {hs, del ''content-length'' (del ''content-type'' hs)})"
  by (simp add: follow_def Let_def)

lemma clean_follow:
  "clean (own_headers s) \<or> url_origin nxt \<noteq> url_origin u \<Longrightarrow> clean (own_headers (follow u nxt st s))"
proof -
  assume a: "clean (own_headers s) \<or> url_origin nxt \<noteq> url_origin u"
  have "clean (withoutCredentials (own_headers s))" by (rule clean_without)
  with a show ?thesis using own_headers_follow [of u nxt st s] by (auto simp: Let_def clean_del split: if_splits)
qed

abbreviation origin_of :: "sent \<Rightarrow> string" where
  "origin_of q \<equiv> url_origin (st_url q)"

text \<open>Either no credential is left, or every request so far and the next one have one origin.\<close>

definition origin_inv :: "env \<Rightarrow> hop_state \<Rightarrow> bool" where
  "origin_inv e s \<longleftrightarrow> trace s = [] \<or> clean (own_headers s) \<or>
     (\<exists>n. parse_url e (target s) = Some n \<and> (\<forall>q \<in> set (trace s). origin_of q = url_origin n))"

definition origin_safe :: "sent list \<Rightarrow> bool" where
  "origin_safe t \<longleftrightarrow> (\<forall>j < length t. \<forall>i < j.
     origin_of (t ! i) = origin_of (t ! j) \<or> clean (st_own_headers (t ! j)))"

lemma origin_safe_snoc:
  "origin_safe (t @ [q]) \<longleftrightarrow>
     origin_safe t \<and> (clean (st_own_headers q) \<or> (\<forall>r \<in> set t. origin_of r = origin_of q))"
proof -
  have "origin_safe (t @ [q]) \<longleftrightarrow> origin_safe t \<and>
      (\<forall>i < length t. origin_of (t ! i) = origin_of q \<or> clean (st_own_headers q))"
    unfolding origin_safe_def by (simp add: All_less_Suc nth_append conj_commute)
  then show ?thesis unfolding all_set_conv_all_nth by blast
qed

lemma request_origin_safe:
  assumes "parses_back e"
  shows "origin_safe (trace (snd (request e input)))"
proof (rule request_invariant [of "\<lambda>s. origin_inv e s \<and> origin_safe (trace s)"])
  fix s s1 :: hop_state and v a rq dt hp
  assume I: "origin_inv e s \<and> origin_safe (trace s)"
    and v: "validateUrl (parse_url e) (target s) (policy input) = Inr v"
    and rq: "rq = build_request (uv_url v) a (h_method s) (own_headers s) (h_reqbody s) dt"
    and s1: "s1 = s\<lparr>chain := chain s @ [href (uv_url v)], trace := trace s @ [rq]\<rparr>"
  let ?u = "uv_url v"
  from I validate_url_of [OF v]
  have c: "clean (own_headers s) \<or> (\<forall>r \<in> set (trace s). origin_of r = url_origin ?u)"
    by (auto simp: origin_inv_def)
  with I have J: "origin_safe (trace s1)" by (auto simp: s1 origin_safe_snoc rq)
  have "origin_inv e (follow ?u nxt st s1)" if r: "relative_url e loc ?u = Some nxt" for nxt st loc
  proof (cases "clean (own_headers s) \<or> url_origin nxt \<noteq> url_origin ?u")
    case True
    then show ?thesis using clean_follow [of s1 nxt ?u st] by (simp add: origin_inv_def s1)
  next
    case False
    have "parse_url e (href nxt) = Some nxt" using assms r by (auto simp: parses_back_def)
    with False c show ?thesis by (auto simp: origin_inv_def s1 rq)
  qed
  with J show "origin_safe (trace s1) \<and> (\<forall>nxt st loc. relative_url e loc ?u = Some nxt \<longrightarrow>
      href nxt \<notin> set (chain s1) \<longrightarrow> origin_inv e (follow ?u nxt st s1) \<and> origin_safe (trace (follow ?u nxt st s1)))"
    by simp
qed (simp_all add: origin_inv_def origin_safe_def)

definition host_header :: "url \<Rightarrow> headers" where
  "host_header u = [(''host'', url_host u), (''accept-encoding'', ''identity'')]"

lemma clean_host: "clean (host_header u)"
  by (simp add: clean_def host_header_def credential_header_def ascii_lower_def is_upper_def)

lemma request_built:
  "list_all (\<lambda>q. st_headers q = put_all (host_header (st_url q)) (st_own_headers q)) (trace (snd (request e input)))"
  by (rule request_invariant [of "\<lambda>s. list_all (\<lambda>q. st_headers q = put_all (host_header (st_url q)) (st_own_headers q)) (trace s)"])
    (simp_all add: host_header_def)

section \<open>Bounds, methods and bodies\<close>

lemma hop_step_trace:
  "hop_step e pol dl mh mb hop s = Inl (out, s') \<Longrightarrow> length (trace s') \<le> Suc (length (trace s))"
  "hop_step e pol dl mh mb hop s = Inr s' \<Longrightarrow> length (trace s') = Suc (length (trace s))"
  by (cases e pol dl mh mb hop s rule: hop_step_cases; auto)+

lemma hops_length:
  "length (trace (snd (hops e input dl mh mb hop s))) \<le> length (trace s) + nat (mh + 1 - int hop)"
proof (induction "nat (mh + 1 - int hop)" arbitrary: hop s rule: less_induct)
  case less
  show ?case
  proof (cases "int hop \<le> mh")
    case True
    show ?thesis
    proof (cases "hop_step e (policy input) dl mh mb hop s")
      case (Inl out)
      then obtain o' s' where "out = (o', s')" by (cases out)
      with Inl True hop_step_trace(1) [of e "policy input" dl mh mb hop s o' s'] show ?thesis
        by (simp add: hops.simps)
    next
      case (Inr s')
      have "length (trace (snd (hops e input dl mh mb (Suc hop) s'))) \<le> length (trace s') + nat (mh + 1 - int (Suc hop))"
        by (rule less.hyps) (use True in simp)
      with Inr True hop_step_trace(2) [of e "policy input" dl mh mb hop s s'] show ?thesis
        by (simp add: hops.simps [of _ _ _ _ _ hop])
    qed
  qed (simp add: hops.simps)
qed

abbreviation safe_method :: "string \<Rightarrow> bool" where
  "safe_method m \<equiv> m = ''GET'' \<or> m = ''HEAD''"

definition later_safe :: "sent list \<Rightarrow> bool" where
  "later_safe t \<longleftrightarrow> list_all (\<lambda>q. safe_method (st_method q) \<and> (safe_method (st_method (hd t)) \<or> st_body q = None)) (tl t)"

lemma later_safe_snoc:
  "t \<noteq> [] \<Longrightarrow> later_safe (t @ [q]) \<longleftrightarrow> later_safe t \<and> safe_method (st_method q) \<and>
     (safe_method (st_method (hd t)) \<or> st_body q = None)"
  by (auto simp: later_safe_def)

lemma request_later_safe: "later_safe (trace (snd (request e input)))"
proof (rule request_invariant [of "\<lambda>s. later_safe (trace s) \<and> (trace s = [] \<or> safe_method (h_method s) \<and>
    (safe_method (st_method (hd (trace s))) \<or> h_reqbody s = None))"])
  fix s s1 :: hop_state and v a rq dt hp
  let ?I = "\<lambda>s. later_safe (trace s) \<and> (trace s = [] \<or> safe_method (h_method s) \<and>
    (safe_method (st_method (hd (trace s))) \<or> h_reqbody s = None))"
  assume I: "?I s" and rq: "rq = build_request (uv_url v) a (h_method s) (own_headers s) (h_reqbody s) dt"
    and s1: "s1 = s\<lparr>chain := chain s @ [href (uv_url v)], trace := trace s @ [rq]\<rparr>"
  have J: "later_safe (trace s1)"
    using I later_safe_snoc [of "trace s" rq] by (cases "trace s = []") (auto simp: s1 rq later_safe_def)
  have h: "?I (follow (uv_url v) nxt st s1)" for nxt st
    using I J by (cases "trace s") (auto simp: follow_def Let_def s1 rq)
  show "later_safe (trace s1) \<and> (\<forall>nxt st loc. relative_url e loc (uv_url v) = Some nxt \<longrightarrow>
      href nxt \<notin> set (chain s1) \<longrightarrow> ?I (follow (uv_url v) nxt st s1))" by (simp only: J h simp_thms)
qed (simp_all add: later_safe_def)

lemma on_data_inv:
  assumes "0 \<le> m" "truncated b = (bsize b > m)" "int (length (concat cs)) = bsize b"
    "concat (chunks b) = take (nat m) (concat cs)"
  shows "truncated (on_data m b c) = (int (length (concat (cs @ [c]))) > m) \<and>
    concat (chunks (on_data m b c)) = take (nat m) (concat (cs @ [c]))"
proof (cases "truncated b")
  case True
  then show ?thesis using assms by (auto simp: on_data_def)
next
  case False
  then have l: "length (concat cs) \<le> nat m" using assms by simp
  show ?thesis
  proof (cases "bsize b + int (length c) > m")
    case True
    then have "nat (int (length c) - (bsize b + int (length c) - m)) = nat m - length (concat cs)"
      "\<not> int (length c) - (bsize b + int (length c) - m) < 0" using assms l False by linarith+
    then show ?thesis using True False assms l by (simp add: on_data_def Let_def subarray_end_def)
  next
    case c: False
    then show ?thesis using False assms l by (simp add: on_data_def Let_def)
  qed
qed

lemma on_data_cases:
  "truncated b \<Longrightarrow> on_data m b c = b"
  "\<not> truncated b \<Longrightarrow> truncated (on_data m b c) \<or> bsize (on_data m b c) = bsize b + int (length c)"
  by (simp_all add: on_data_def Let_def)

lemma read_body_take:
  assumes "0 \<le> m"
  shows "concat (chunks (read_body m cs)) = take (nat m) (concat cs) \<and>
    truncated (read_body m cs) = (int (length (concat cs)) > m)"
proof -
  let ?b = "\<lambda>cs. foldl (on_data m) \<lparr>chunks = [], bsize = 0, truncated = False\<rparr> cs"
  have "concat (chunks (?b cs)) = take (nat m) (concat cs) \<and>
      truncated (?b cs) = (int (length (concat cs)) > m) \<and>
      (truncated (?b cs) \<or> bsize (?b cs) = int (length (concat cs)))"
  proof (induction cs rule: rev_induct)
    case Nil
    then show ?case using assms by simp
  next
    case (snoc c cs)
    show ?case
    proof (cases "truncated (?b cs)")
      case True
      with snoc have "m < int (length (concat cs))" by simp
      then have "nat m \<le> length (concat cs)" by linarith
      with snoc True show ?thesis by (simp add: on_data_cases)
    next
      case False
      with snoc have "truncated (?b cs) = (bsize (?b cs) > m)" "int (length (concat cs)) = bsize (?b cs)" by auto
      from on_data_inv [OF assms this, of c] on_data_cases(2) [OF False, of m c] this(2) snoc show ?thesis
        by simp
    qed
  qed
  then show ?thesis by (simp add: read_body_def)
qed

section \<open>An exchange with one redirect to another origin\<close>

definition url_a :: url where
  "url_a = \<lparr>protocol = ''https:'', username = [], password = [], url_hostname = ''a.example'', port = [],
     url_host = ''a.example'', url_path = ''/'', url_origin = ''https://a.example'', href = ''https://a.example/''\<rparr>"

definition url_b :: url where
  "url_b = \<lparr>protocol = ''https:'', username = [], password = [], url_hostname = ''b.example'', port = [],
     url_host = ''b.example'', url_path = ''/'', url_origin = ''https://b.example'', href = ''https://b.example/''\<rparr>"

definition ex_env :: env where
  "ex_env =
     \<lparr>clock = (\<lambda>n. int n), lookup = (\<lambda>n h. Inr [quad_string 8 8 8 8]),
      transport = (\<lambda>n q. if n = 0 then Response (Some 302) [(''Location'', One ''https://b.example/'')] [] Ended
                         else Response (Some 200) [] [''ok''] Ended),
      parse_url = (\<lambda>s. if s = ''https://b.example/'' then Some url_b else Some url_a),
      relative_url = (\<lambda>l b. Some url_b), utf8 = (\<lambda>s. s)\<rparr>"

definition ex_req :: outbound_request where
  "ex_req = \<lparr>rq_url = ''https://a.example/'', rq_method = Some ''post'',
     rq_headers = Some [(''Authorization'', ''Bearer t''), (''Accept'', ''text/plain'')], rq_body = Some ''x'',
     timeoutMs = None, maxRedirects = None, maxResponseBytes = None, policy = default_policy\<rparr>"

lemma ex_parses_back: "parses_back ex_env"
  by (simp add: parses_back_def ex_env_def url_b_def)

lemmas ex_url_simps = validateUrl_def default_policy_def check_hostname_def check_literal_def
  METADATA_HOSTNAMES_def BLOCKED_HOSTNAMES_def BLOCKED_SUFFIXES_def ends_with_def relaxed_def
  strip_brackets_def ascii_lower_def is_upper_def isIP_def isIPv4_def isIPv6_def ipv6_body_def
  ipv6_part_def split_str_def DEFAULT_ALLOWED_PORTS_def ipv6_group_def is_hex_def is_digit_def Let_def

lemma ex_validates_a:
  "validateUrl (parse_url ex_env) ''https://a.example/'' default_policy =
     Inr \<lparr>uv_url = url_a, uv_hostname = ''a.example'', uv_port = 443, literalAddress = None\<rparr>"
  by (simp add: ex_env_def url_a_def ex_url_simps)

lemma ex_validates_b:
  "validateUrl (parse_url ex_env) ''https://b.example/'' default_policy =
     Inr \<lparr>uv_url = url_b, uv_hostname = ''b.example'', uv_port = 443, literalAddress = None\<rparr>"
  by (simp add: ex_env_def url_b_def ex_url_simps)

lemma ex_resolves: "resolve_host ex_env n h None default_policy = Inr (quad_string 8 8 8 8)"
proof -
  have "permits (classifyAddress (quad_string 8 8 8 8)) default_policy = Inr ()"
    by (simp add: classifyAddress_quad quad_verdict_def permits_def quad_nat_def ipv4_reason_def)
  then show ?thesis
    by (simp add: resolve_host_def ex_env_def assertResolvedAddresses_def)
qed

lemma ex_sends:
  "send ex_env 0 q 1048576 = Inr \<lparr>h_status = 302, h_headers = [(''location'', ''https://b.example/'')],
     h_body = [], h_truncated = False\<rparr>"
  "send ex_env (Suc 0) q 1048576 = Inr \<lparr>h_status = 200, h_headers = [], h_body = ''ok'', h_truncated = False\<rparr>"
  by (simp_all add: send_def ex_env_def settle_def read_body_def on_data_def or_default_def
      ascii_lower_def is_upper_def char_of_def bit_Suc_0_iff)

lemma ex_env_simps: "clock ex_env n = int n" "relative_url ex_env l b = Some url_b"
  by (simp_all add: ex_env_def)

lemma ex_trace:
  "\<exists>q r. trace (snd (request ex_env ex_req)) = [q, r] \<and> st_url q = url_a \<and> st_url r = url_b \<and>
     st_method q = ''POST'' \<and> st_method r = ''GET'' \<and> st_own_headers r = [(''Accept'', ''text/plain'')]"
  by (simp add: request_def hops.simps [of _ _ _ _ _ 0] hops.simps [of _ _ _ _ _ "Suc 0"] start_def ex_req_def
      hop_step_def ex_validates_a ex_validates_b ex_resolves or_default_def DEFAULT_timeoutMs_def
      DEFAULT_maxRedirects_def DEFAULT_maxResponseBytes_def Let_def ex_sends ex_env_simps
      redirect_location_def follow_def url_a_def url_b_def withoutCredentials_def credential_header_def
      ascii_lower_def ascii_upper_def is_upper_def is_lower_def del_def build_request_def
      char_of_def bit_Suc_0_iff)

section \<open>Properties\<close>

text \<open>C22: every request the client sends, on any hop and whatever the resolver and the servers answer,
  has a validated URL and is pinned to an address the policy permits, so never to one of the floor.\<close>

theorem every_connection_approved:
  "list_all (\<lambda>q. approved e (policy input) q \<and> \<not> floored (classifyAddress (st_pinned q)))
     (trace (snd (request e input)))"
proof -
  have "\<not> floored (classifyAddress (st_pinned q))" if "approved e (policy input) q" for q
    using that gate.floor_denied unfolding approved_def by (metis Inl_Inr_False)
  then show ?thesis using request_approved [of e input] by (simp add: list_all_iff)
qed

text \<open>C24: once a redirect has left the origin of an earlier request, no later request carries an
  \<open>authorization\<close>, \<open>cookie\<close>, \<open>proxy-authorization\<close> or \<open>x-prismx-\<close> header, if a parsed URL parses
  back from its own serialisation.\<close>

theorem credentials_stay_on_origin:
  assumes "parses_back e" "t = trace (snd (request e input))" "i < j" "j < length t"
    and "url_origin (st_url (t ! i)) \<noteq> url_origin (st_url (t ! j))" "(n, v) \<in> set (st_headers (t ! j))"
  shows "\<not> credential_header n"
proof -
  have "clean (st_own_headers (t ! j))"
    using request_origin_safe [OF assms(1), of input] assms(2-5) by (auto simp: origin_safe_def)
  moreover have "st_headers (t ! j) = put_all (host_header (st_url (t ! j))) (st_own_headers (t ! j))"
    using request_built [of e input] assms(2,4) by (simp add: list_all_length)
  ultimately have "clean (st_headers (t ! j))" using clean_put_all [OF clean_host] by simp
  with assms(6) show ?thesis by (auto simp: clean_def)
qed

theorem credentials_stay_on_origin_witness:
  "\<exists>q r. trace (snd (request ex_env ex_req)) = [q, r] \<and> \<not> list_ex (\<lambda>(n, v). n = ''Authorization'') (st_headers r)"
proof -
  obtain q r where t: "trace (snd (request ex_env ex_req)) = [q, r]" "st_url q = url_a" "st_url r = url_b"
    using ex_trace by blast
  have "\<not> credential_header n" if "(n, v) \<in> set (st_headers r)" for n v
    using credentials_stay_on_origin [OF ex_parses_back refl, of 0 1 ex_req n v] t that
    by (simp add: url_a_def url_b_def)
  moreover have "credential_header ''Authorization''"
    by (simp add: credential_header_def ascii_lower_def is_upper_def char_of_def bit_Suc_0_iff)
  ultimately show ?thesis using t(1) by (auto simp: list_ex_iff)
qed



text \<open>after any redirect only \<open>GET\<close> or \<open>HEAD\<close> is sent, and a body given with another method is not
  replayed; this holds for the status codes 307 and 308 as well.\<close>

theorem body_not_replayed:
  assumes "t = trace (snd (request e input))" "0 < j" "j < length t"
  shows "st_method (t ! j) \<in> {''GET'', ''HEAD''} \<and>
    (st_method (t ! 0) \<in> {''GET'', ''HEAD''} \<or> st_body (t ! j) = None)"
proof -
  have "t ! j = tl t ! (j - 1)" "j - 1 < length (tl t)" "t ! 0 = hd t"
    using assms(2,3) by (cases t; simp)+
  then show ?thesis
    using request_later_safe [of e input] assms(1) by (simp add: later_safe_def list_all_length)
qed

theorem body_not_replayed_witness:
  "st_body (trace (snd (request ex_env ex_req)) ! 1) = None"
  using body_not_replayed [OF refl, of 1 ex_env ex_req] ex_trace by auto

text \<open>the body is the first \<open>maxResponseBytes\<close> bytes of what arrived, flagged as truncated exactly
  when more had arrived.\<close>

theorem body_capped:
  assumes "0 \<le> m"
  shows "concat (chunks (read_body m cs)) = take (nat m) (concat cs) \<and>
    truncated (read_body m cs) = (int (length (concat cs)) > m)"
  using assms by (rule read_body_take)

theorem body_capped_witness:
  "concat (chunks (read_body 5 [''abc'', ''def'', ''g''])) = ''abcde'' \<and> truncated (read_body 5 [''abc'', ''def'', ''g''])"
  using body_capped [of 5 "[''abc'', ''def'', ''g'']"] by simp

end
