(* ===== verification/WorkflowData.thy ===== *)
theory WorkflowData
  imports JsValue
begin

text \<open>
  What a workflow version is made of (\<open>workflows/execution/execution-adapter.contract.ts\<close>), the
  \<open>{{path}}\<close> templates of \<open>integrations/connectors/http-connector.ts\<close> and the conditions of
  \<open>workflows/workflow-engine.service.ts\<close>.

  Property reads see own properties of objects and elements of arrays; paths through names inherited
  from \<open>Object.prototype\<close> are outside the model. \<open>String(v)\<close> on values that are not strings is the
  parameter \<open>str\<close>, and \<open>same_ref\<close> tells whether two objects read are one and the same.
\<close>

section \<open>Conversions\<close>

fun jtruthy :: "json \<Rightarrow> bool" where
  "jtruthy Undef = False"
| "jtruthy Null = False"
| "jtruthy (JBool b) = b"
| "jtruthy (JNum x) = (x \<noteq> NaN \<and> x \<noteq> Fin 0)"
| "jtruthy (JStr s) = (s \<noteq> [])"
| "jtruthy (JArr _) = True"
| "jtruthy (JObj _) = True"

definition nullish :: "json \<Rightarrow> bool" where
  "nullish v \<longleftrightarrow> v = Undef \<or> v = Null"

text \<open>\<open>a ?? b\<close>.\<close>

definition coalesce :: "json \<Rightarrow> json \<Rightarrow> json" where
  "coalesce a b = (if nullish a then b else a)"

fun js_string :: "(json \<Rightarrow> string) \<Rightarrow> json \<Rightarrow> string" where
  "js_string str (JStr s) = s"
| "js_string str Undef = ''undefined''"
| "js_string str Null = ''null''"
| "js_string str (JBool b) = (if b then ''true'' else ''false'')"
| "js_string str v = str v"

fun to_num :: "(json \<Rightarrow> string) \<Rightarrow> json \<Rightarrow> number" where
  "to_num str Undef = NaN"
| "to_num str Null = Fin 0"
| "to_num str (JBool b) = (if b then Fin 1 else Fin 0)"
| "to_num str (JNum x) = x"
| "to_num str (JStr s) = js_number s"
| "to_num str v = js_number (str v)"

text \<open>What a \<open>Json\<close> column keeps of a value: \<open>JSON.stringify\<close> followed by a parse.\<close>

fun json_column :: "json \<Rightarrow> json" where
  "json_column (JArr vs) = JArr (map (\<lambda>v. if v = Undef then Null else json_column v) vs)"
| "json_column (JObj m) = JObj (map (\<lambda>(k, v). (k, json_column v)) (filter (\<lambda>(k, v). v \<noteq> Undef) m))"
| "json_column (JNum (Fin x)) = JNum (Fin x)"
| "json_column (JNum _) = Null"
| "json_column v = v"

definition obj_column :: "obj \<Rightarrow> obj" where
  "obj_column m = map (\<lambda>(k, v). (k, json_column v)) (filter (\<lambda>(k, v). v \<noteq> Undef) m)"

text \<open>\<open>{ ...a, ...b }\<close>.\<close>

definition spread :: "obj \<Rightarrow> obj \<Rightarrow> obj" where
  "spread a b = foldl (\<lambda>m (k, v). put k v m) a b"

section \<open>Paths and templates\<close>

text \<open>One step of \<open>readPath\<close>: objects by key, arrays by index or \<open>length\<close>.\<close>

definition array_read :: "json list \<Rightarrow> string \<Rightarrow> json" where
  "array_read vs key =
     (if key = ''length'' then JNum (Fin (of_nat (length vs)))
      else if key \<noteq> [] \<and> list_all is_digit key \<and> show_nat (dec_val key) = key \<and> dec_val key < length vs
      then vs ! dec_val key else Undef)"

fun read_key :: "json \<Rightarrow> string \<Rightarrow> json" where
  "read_key (JObj m) key = getp key m"
| "read_key (JArr vs) key = array_read vs key"
| "read_key v key = Undef"

definition readPath :: "json \<Rightarrow> string \<Rightarrow> json" where
  "readPath source path = foldl read_key source (split_str ''.'' path)"

definition path_char :: "char \<Rightarrow> bool" where
  "path_char c \<longleftrightarrow> is_alnum c \<or> c = CHR ''_'' \<or> c = CHR ''.''"

text \<open>The pattern \<open>\{\{\s*([\w.]+)\s*\}\}\<close> at the front of a string: the captured path and the rest.\<close>

definition match_placeholder :: "(char \<Rightarrow> bool) \<Rightarrow> string \<Rightarrow> (string \<times> string) option" where
  "match_placeholder pc s =
     (if starts_with ''{{'' s then
        let a = dropWhile is_space (drop 2 s); key = takeWhile pc a;
            r = dropWhile is_space (dropWhile pc a) in
        if key \<noteq> [] \<and> starts_with ''}}'' r then Some (key, drop 2 r) else None
      else None)"

lemma match_placeholder_shorter:
  "match_placeholder pc s = Some (key, rest) \<Longrightarrow> length rest < length s"
proof -
  assume m: "match_placeholder pc s = Some (key, rest)"
  then have "s \<noteq> []" by (cases s) (auto simp: match_placeholder_def)
  let ?a = "dropWhile is_space (drop 2 s)"
  let ?r = "dropWhile is_space (dropWhile pc ?a)"
  have "rest = drop 2 ?r" using m by (auto simp: match_placeholder_def Let_def split: if_splits)
  moreover have "length ?r \<le> length ?a" using length_dropWhile_le le_trans by blast
  moreover have "length ?a \<le> length s - 2" using length_dropWhile_le [of is_space "drop 2 s"] by simp
  ultimately show ?thesis using \<open>s \<noteq> []\<close> by (cases s) auto
qed

definition whole_placeholder :: "(char \<Rightarrow> bool) \<Rightarrow> string \<Rightarrow> string option" where
  "whole_placeholder pc s =
     (case match_placeholder pc s of Some (key, []) \<Rightarrow> Some key | _ \<Rightarrow> None)"

definition placeholder_text :: "(json \<Rightarrow> string) \<Rightarrow> obj \<Rightarrow> string \<Rightarrow> string" where
  "placeholder_text str inp key =
     (let found = readPath (JObj inp) key in if nullish found then [] else js_string str found)"

function replace_all :: "(json \<Rightarrow> string) \<Rightarrow> obj \<Rightarrow> string \<Rightarrow> string" where
  "replace_all str inp [] = []"
| "replace_all str inp (c # s) =
     (case match_placeholder path_char (c # s) of
        Some (key, rest) \<Rightarrow> placeholder_text str inp key @ replace_all str inp rest
      | None \<Rightarrow> c # replace_all str inp s)"
  by pat_completeness auto
termination
  by (relation "measure (\<lambda>(str, inp, s). length s)") (auto dest: match_placeholder_shorter)

definition resolve_string :: "(json \<Rightarrow> string) \<Rightarrow> obj \<Rightarrow> string \<Rightarrow> json" where
  "resolve_string str inp s =
     (case whole_placeholder path_char s of
        Some key \<Rightarrow> readPath (JObj inp) key
      | None \<Rightarrow> JStr (replace_all str inp s))"

fun resolve_value :: "(json \<Rightarrow> string) \<Rightarrow> obj \<Rightarrow> json \<Rightarrow> json" where
  "resolve_value str inp (JStr s) = resolve_string str inp s"
| "resolve_value str inp (JArr vs) = JArr (map (resolve_value str inp) vs)"
| "resolve_value str inp (JObj m) = JObj (map (\<lambda>(k, v). (k, resolve_value str inp v)) m)"
| "resolve_value str inp v = v"

definition resolveTemplate :: "(json \<Rightarrow> string) \<Rightarrow> obj \<Rightarrow> obj \<Rightarrow> obj" where
  "resolveTemplate str template inp = map (\<lambda>(k, v). (k, resolve_value str inp v)) template"

section \<open>Conditions\<close>

definition cond_char :: "char \<Rightarrow> bool" where
  "cond_char c \<longleftrightarrow> path_char c \<or> c = CHR ''$''"

text \<open>\<open>{ ...input, ...context, input, context }\<close>.\<close>

definition merged_scope :: "obj \<Rightarrow> obj \<Rightarrow> obj" where
  "merged_scope inp ctx = put ''context'' (JObj ctx) (put ''input'' (JObj inp) (spread inp ctx))"

definition resolve_operand :: "obj \<Rightarrow> obj \<Rightarrow> json \<Rightarrow> json" where
  "resolve_operand inp ctx v =
     (case v of
        JStr s \<Rightarrow> (case whole_placeholder cond_char s of
                    Some key \<Rightarrow> readPath (JObj (merged_scope inp ctx)) key
                  | None \<Rightarrow> v)
      | _ \<Rightarrow> v)"

fun is_ref :: "json \<Rightarrow> bool" where
  "is_ref (JArr _) = True" | "is_ref (JObj _) = True" | "is_ref _ = False"

definition strict_eq :: "(json \<Rightarrow> json \<Rightarrow> bool) \<Rightarrow> json \<Rightarrow> json \<Rightarrow> bool" where
  "strict_eq same_ref a b =
     (if is_ref a \<and> is_ref b then a = b \<and> same_ref a b else a = b \<and> a \<noteq> JNum NaN)"

definition js_includes :: "(json \<Rightarrow> json \<Rightarrow> bool) \<Rightarrow> json list \<Rightarrow> json \<Rightarrow> bool" where
  "js_includes same_ref vs v \<longleftrightarrow> list_ex (\<lambda>x. if is_ref x \<and> is_ref v then x = v \<and> same_ref x v else x = v) vs"

fun has_substring :: "string \<Rightarrow> string \<Rightarrow> bool" where
  "has_substring p [] = (p = [])"
| "has_substring p (c # s) = (starts_with p (c # s) \<or> has_substring p s)"

definition contains :: "(json \<Rightarrow> string) \<Rightarrow> (json \<Rightarrow> json \<Rightarrow> bool) \<Rightarrow> json \<Rightarrow> json \<Rightarrow> bool" where
  "contains str same_ref l r =
     (case l of
        JArr vs \<Rightarrow> js_includes same_ref vs r
      | _ \<Rightarrow> has_substring (js_string str (coalesce r (JStr []))) (js_string str (coalesce l (JStr []))))"

definition evaluate :: "(json \<Rightarrow> string) \<Rightarrow> (json \<Rightarrow> json \<Rightarrow> bool) \<Rightarrow> json \<Rightarrow> json \<Rightarrow> json \<Rightarrow> bool" where
  "evaluate str same_ref operator l r =
     (let n = to_num str in
      if operator = JStr ''eq'' then strict_eq same_ref l r
      else if operator = JStr ''neq'' then \<not> strict_eq same_ref l r
      else if operator = JStr ''gt'' then num_lt (n r) (n l)
      else if operator = JStr ''gte'' then num_le (n r) (n l)
      else if operator = JStr ''lt'' then num_lt (n l) (n r)
      else if operator = JStr ''lte'' then num_le (n l) (n r)
      else if operator = JStr ''contains'' then contains str same_ref l r
      else if operator = JStr ''not_contains'' then \<not> contains str same_ref l r
      else if operator = JStr ''exists'' then \<not> nullish l
      else if operator = JStr ''not_exists'' then nullish l
      else if operator = JStr ''in'' then (case r of JArr vs \<Rightarrow> js_includes same_ref vs l | _ \<Rightarrow> False)
      else if operator = JStr ''truthy'' then jtruthy l
      else if operator = JStr ''falsy'' then \<not> jtruthy l
      else False)"

text \<open>A condition as the version stores it; an absent one holds.\<close>

definition evaluateCondition :: "(json \<Rightarrow> string) \<Rightarrow> (json \<Rightarrow> json \<Rightarrow> bool) \<Rightarrow> json \<Rightarrow> obj \<Rightarrow> obj \<Rightarrow> bool" where
  "evaluateCondition str same_ref condition inp ctx =
     (if \<not> jtruthy condition then True
      else evaluate str same_ref (read_key condition ''operator'')
             (resolve_operand inp ctx (read_key condition ''left''))
             (resolve_operand inp ctx (read_key condition ''right'')))"

section \<open>Steps\<close>

text \<open>Absent child lists are empty lists, an absent condition is \<open>Undef\<close>.\<close>

datatype step =
  Step (s_id: string) (s_type: string) (s_name: "string option") (s_adapter: "string option")
    (s_config: obj) (s_cond: json) (s_steps: "step list") (s_onTrue: "step list")
    (s_onFalse: "step list") (s_retries: "int option") (s_timeout: "int option")
    (s_onError: "string option") (s_fallback: "step option")

fun countStep :: "step \<Rightarrow> nat" where
  "countStep (Step i t n a c p ss ts fs r m e b) =
     1 + sum_list (map countStep ss) + sum_list (map countStep ts) + sum_list (map countStep fs)"

definition countSteps :: "step list \<Rightarrow> nat" where
  "countSteps steps = sum_list (map countStep steps)"

section \<open>Lemmas\<close>

lemma evaluate_simps [js_simps]:
  "evaluate str sr (JStr ''eq'') l r = strict_eq sr l r"
  "evaluate str sr (JStr ''neq'') l r = (\<not> strict_eq sr l r)"
  "evaluate str sr (JStr ''gt'') l r = num_lt (to_num str r) (to_num str l)"
  "evaluate str sr (JStr ''gte'') l r = num_le (to_num str r) (to_num str l)"
  "evaluate str sr (JStr ''lt'') l r = num_lt (to_num str l) (to_num str r)"
  "evaluate str sr (JStr ''lte'') l r = num_le (to_num str l) (to_num str r)"
  "evaluate str sr (JStr ''contains'') l r = contains str sr l r"
  "evaluate str sr (JStr ''not_contains'') l r = (\<not> contains str sr l r)"
  "evaluate str sr (JStr ''exists'') l r = (\<not> nullish l)"
  "evaluate str sr (JStr ''not_exists'') l r = nullish l"
  "evaluate str sr (JStr ''truthy'') l r = jtruthy l"
  "evaluate str sr (JStr ''falsy'') l r = (\<not> jtruthy l)"
  by (simp_all add: evaluate_def Let_def)

lemma dollar_not_path: "\<not> path_char (CHR ''$'')"
  by (simp add: path_char_def is_alnum_def is_digit_def is_upper_def is_lower_def)

end
