(* ===== verification/WorkflowEngine.thy ===== *)
theory WorkflowEngine
  imports WorkflowData
begin

text \<open>
  The interpreter of \<open>backend/src/workflows/workflow-engine.service.ts\<close>: sequences, conditions,
  parallel steps, loops, delays, approvals, decisions and adapter steps with their retries.

  Everything outside the engine is the parameter \<open>world\<close>: adapters, approvals, decisions, the clock
  and the step-run table answer from the history of what the run has done so far (its \<open>log\<close>), so an
  answer may change with time. The context is passed as the object it is, keyed by step id; the
  children of a parallel slice run in list order, one of the schedules the event loop may choose,
  and a throw stops the run at once. Publishing an event does not throw.
\<close>

section \<open>State and environment\<close>

datatype suspension = Approval string string | Delay string

fun suspended_step :: "suspension \<Rightarrow> string" where
  "suspended_step (Approval a s) = s" | "suspended_step (Delay s) = s"

datatype run_status =
    PENDING | RUNNING | AWAITING_APPROVAL | SLEEPING | SUCCEEDED | FAILED | CANCELLED | DEAD_LETTERED | SKIPPED

record step_row =
  sr_step :: string
  sr_type :: string
  sr_name :: "string option"
  sr_status :: run_status
  sr_adapter :: "string option"
  sr_input :: obj
  sr_output :: json
  sr_error :: "string option"
  sr_attempts :: int
  sr_cost :: number
  sr_duration :: number

record approval_request =
  aq_step :: string
  aq_title :: string
  aq_reason :: string
  aq_action :: "string option"
  aq_risk :: json
  aq_context :: obj
  aq_expires :: "number option"

record decision_request =
  dq_step :: string
  dq_worker :: string
  dq_question :: string
  dq_options :: json
  dq_context :: json
  dq_threshold :: "number option"
  dq_costLimit :: "number option"
  dq_requireApproval :: bool

datatype event =
    Recorded step_row
  | Completed string string
  | StepFailed string string
  | Called string string int
  | Slept number
  | Asked approval_request
  | Decided decision_request

datatype exec_answer =
    Result bool json "string option" "number option"
  | StepError string bool
  | OtherError string
  | TimedOut

record decision =
  dc_ok :: bool
  dc_escalated :: bool
  dc_approvalId :: "string option"
  dc_error :: "string option"
  dc_cost :: number
  dc_json :: obj

record adapter =
  key :: string
  supports :: "string list"

record world =
  adapters :: "adapter list"
  execute :: "event list \<Rightarrow> string \<Rightarrow> step \<Rightarrow> obj \<Rightarrow> obj \<Rightarrow> exec_answer"
  ask_approval :: "event list \<Rightarrow> approval_request \<Rightarrow> string + string"
  decide :: "event list \<Rightarrow> decision_request \<Rightarrow> string + decision"
  elapsed :: "event list \<Rightarrow> number"
  row_stored :: "event list \<Rightarrow> bool"
  str_of :: "json \<Rightarrow> string"
  same_ref :: "json \<Rightarrow> json \<Rightarrow> bool"

text \<open>The mutable state of one drive: what is left of the budget, and what has happened.\<close>

record drive_state =
  budget :: int
  log :: "event list"

record outcome =
  ok :: bool
  out_val :: json
  error :: "string option"
  stepsRun :: nat
  costUsd :: number
  suspended :: "suspension option"

type_synonym step_result = "(string + outcome) \<times> obj \<times> drive_state"

definition MAX_STEPS_PER_RUN :: int where "MAX_STEPS_PER_RUN = 200"
definition MAX_LOOP_ITERATIONS :: nat where "MAX_LOOP_ITERATIONS = 100"
definition PARALLEL_CONCURRENCY :: nat where "PARALLEL_CONCURRENCY = 5"

text \<open>\<open>a + b\<close> on doubles.\<close>

fun num_add :: "number \<Rightarrow> number \<Rightarrow> number" where
  "num_add (Fin a) (Fin b) = round_double (a + b)"
| "num_add NaN _ = NaN" | "num_add _ NaN = NaN"
| "num_add PosInf NegInf = NaN" | "num_add NegInf PosInf = NaN"
| "num_add PosInf _ = PosInf" | "num_add _ PosInf = PosInf"
| "num_add NegInf _ = NegInf" | "num_add _ NegInf = NegInf"

definition emit :: "event \<Rightarrow> drive_state \<Rightarrow> drive_state" where
  "emit e st = st\<lparr>log := log st @ [e]\<rparr>"

text \<open>\<open>recordStep\<close>; a failing write is swallowed.\<close>

definition recordStep :: "world \<Rightarrow> step \<Rightarrow> run_status \<Rightarrow> json \<Rightarrow> string option \<Rightarrow> number \<Rightarrow>
    string option \<Rightarrow> int \<Rightarrow> number \<Rightarrow> drive_state \<Rightarrow> drive_state" where
  "recordStep w s status out err duration ad attempts cost st =
     (if row_stored w (log st)
      then emit (Recorded \<lparr>sr_step = s_id s, sr_type = s_type s, sr_name = s_name s, sr_status = status,
             sr_adapter = ad, sr_input = obj_column (s_config s), sr_output = json_column (coalesce out Null),
             sr_error = err, sr_attempts = attempts, sr_cost = cost, sr_duration = duration\<rparr>) st
      else st)"

abbreviation record_plain :: "world \<Rightarrow> step \<Rightarrow> run_status \<Rightarrow> json \<Rightarrow> string option \<Rightarrow> number \<Rightarrow> drive_state \<Rightarrow> drive_state" where
  "record_plain w s status out err duration \<equiv> recordStep w s status out err duration None 1 (Fin 0)"

text \<open>\<open>context[id] !== undefined\<close>: own properties, and those every object inherits.\<close>

definition recorded :: "obj \<Rightarrow> string \<Rightarrow> bool" where
  "recorded ctx i = (case map_of ctx i of Some v \<Rightarrow> v \<noteq> Undef | None \<Rightarrow> i \<in> set OBJECT_PROTOTYPE)"

definition scope :: "obj \<Rightarrow> obj \<Rightarrow> obj" where
  "scope inp ctx = merged_scope inp ctx"

section \<open>Leaf steps\<close>

fun adapter_for :: "string \<Rightarrow> adapter list \<Rightarrow> string" where
  "adapter_for ty [] = ''internal''"
| "adapter_for ty (a # as) =
     (if key a \<noteq> ''internal'' \<and> ty \<in> set (supports a) then key a else adapter_for ty as)"

definition resolveAdapter :: "world \<Rightarrow> step \<Rightarrow> string + string" where
  "resolveAdapter w s =
     (let k = (case s_adapter s of Some k \<Rightarrow> k | None \<Rightarrow> adapter_for (s_type s) (adapters w)) in
      if k \<in> set (map key (adapters w)) then Inr k
      else Inl (''No execution adapter '' @ quoted k @ '' for step '' @ quoted (s_id s) @
             ''. Registered: '' @ join '', '' (map key (adapters w))))"

text \<open>
  The attempts \<open>k, \<dots>, n\<close>: \<open>Inr\<close> the successful result with its attempt and cost, \<open>Inl\<close> the last
  error. A step error that is not retryable ends the loop; a timeout counts as a retryable one.
\<close>

function attempt_loop :: "world \<Rightarrow> string \<Rightarrow> step \<Rightarrow> obj \<Rightarrow> obj \<Rightarrow> int \<Rightarrow> int \<Rightarrow> string \<Rightarrow> drive_state \<Rightarrow>
    (string + (json \<times> number option \<times> int)) \<times> drive_state" where
  "attempt_loop w k s inp ctx i n lastErr st =
     (if i > n then (Inl lastErr, st)
      else
        let ans = execute w (log st) k s ctx inp;
            st1 = emit (Called k (s_id s) i) st;
            wait = (\<lambda>st. if i < n then emit (Slept (Fin (250 * 2 ^ nat (i - 1)))) st else st) in
        case ans of
          Result True out err cost \<Rightarrow> (Inr (out, cost, i), st1)
        | Result False out err cost \<Rightarrow>
            attempt_loop w k s inp ctx (i + 1) n
              (case err of None \<Rightarrow> ''Step failed'' | Some e \<Rightarrow> e) (wait st1)
        | OtherError msg \<Rightarrow> attempt_loop w k s inp ctx (i + 1) n msg (wait st1)
        | TimedOut \<Rightarrow> attempt_loop w k s inp ctx (i + 1) n
            (''Step '' @ quoted (s_id s) @ '' timed out after '' @
             show_int (case s_timeout s of None \<Rightarrow> 120000 | Some t \<Rightarrow> t) @ ''ms'') (wait st1)
        | StepError msg retryable \<Rightarrow>
            if retryable then attempt_loop w k s inp ctx (i + 1) n msg (wait st1) else (Inl msg, st1))"
  by pat_completeness auto
termination
  by (relation "measure (\<lambda>(w, k, s, inp, ctx, i, n, l, st). nat (n + 1 - i))") auto

declare attempt_loop.simps [simp del]

definition plain :: "bool \<Rightarrow> json \<Rightarrow> string option \<Rightarrow> nat \<Rightarrow> number \<Rightarrow> outcome" where
  "plain b out err n c = \<lparr>ok = b, out_val = out, error = err, stepsRun = n, costUsd = c, suspended = None\<rparr>"

definition waiting :: "nat \<Rightarrow> number \<Rightarrow> suspension \<Rightarrow> outcome" where
  "waiting n c sp = \<lparr>ok = False, out_val = Undef, error = None, stepsRun = n, costUsd = c, suspended = Some sp\<rparr>"

definition runAdapterStep :: "world \<Rightarrow> step \<Rightarrow> obj \<Rightarrow> obj \<Rightarrow> drive_state \<Rightarrow> step_result" where
  "runAdapterStep w s inp ctx st =
     (case resolveAdapter w s of
        Inl e \<Rightarrow> (Inl e, ctx, st)
      | Inr k \<Rightarrow>
          let n = (case s_retries s of None \<Rightarrow> 0 | Some r \<Rightarrow> r) + 1 in
          case attempt_loop w k s inp ctx 1 n [] st of
            (Inr (out, cost, i), st1) \<Rightarrow>
              let c = (case cost of None \<Rightarrow> Fin 0 | Some c \<Rightarrow> c);
                  st2 = recordStep w s SUCCEEDED (coalesce out (JObj [])) None (elapsed w (log st1)) (Some k) i c st1
              in (Inr (plain True out None 1 c), ctx, emit (Completed (s_id s) k) st2)
          | (Inl e, st1) \<Rightarrow>
              let st2 = recordStep w s FAILED (JObj []) (Some e) (Fin 0) (Some k) n (Fin 0) st1
              in (Inr (plain False Undef (Some (''Step '' @ quoted (s_id s) @ '': '' @ e)) 1 (Fin 0)), ctx,
                  emit (StepFailed (s_id s) (take 300 e)) st2))"

definition runDelay :: "world \<Rightarrow> step \<Rightarrow> obj \<Rightarrow> obj \<Rightarrow> drive_state \<Rightarrow> step_result" where
  "runDelay w s inp ctx st =
     (let r = resolveTemplate (str_of w) (s_config s) (spread inp ctx);
          ms = to_num (str_of w) (coalesce (getp ''ms'' r) (coalesce (getp ''milliseconds'' r) (JNum (Fin 0)))) in
      if num_le ms (Fin 5000)
      then (Inr (plain True (JObj [(''delayedMs'', JNum ms)]) None 1 (Fin 0)), ctx,
            record_plain w s SUCCEEDED (JObj [(''delayedMs'', JNum ms)]) None ms (emit (Slept ms) st))
      else (Inr (waiting 1 (Fin 0) (Delay (s_id s))), ctx,
            record_plain w s PENDING (JObj [(''delayMs'', JNum ms)]) None (Fin 0) st))"

definition opt_num :: "(json \<Rightarrow> string) \<Rightarrow> json \<Rightarrow> number option" where
  "opt_num str v = (if jtruthy v then Some (to_num str v) else None)"

text \<open>\<open>{ step: id, ...context }\<close>; spreading anything but an object adds nothing.\<close>

definition approval_context :: "string \<Rightarrow> json \<Rightarrow> obj" where
  "approval_context i v = (case v of JObj m \<Rightarrow> spread [(''step'', JStr i)] m | _ \<Rightarrow> [(''step'', JStr i)])"

definition approval_query :: "world \<Rightarrow> step \<Rightarrow> obj \<Rightarrow> obj \<Rightarrow> approval_request" where
  "approval_query w s inp ctx =
     (let r = resolveTemplate (str_of w) (s_config s) (scope inp ctx);
          name = (case s_name s of None \<Rightarrow> Undef | Some n \<Rightarrow> JStr n);
          S = js_string (str_of w) in
      \<lparr>aq_step = s_id s,
       aq_title = S (coalesce (getp ''title'' r) (coalesce name (JStr ''Workflow approval''))),
       aq_reason = S (coalesce (getp ''reason'' r) (JStr ''This step requires human approval'')),
       aq_action = (if jtruthy (getp ''suggestedAction'' r) then Some (S (getp ''suggestedAction'' r)) else None),
       aq_risk = coalesce (getp ''riskLevel'' r) (JStr ''MEDIUM''),
       aq_context = approval_context (s_id s) (getp ''context'' r),
       aq_expires = opt_num (str_of w) (getp ''expiresInSeconds'' r)\<rparr>)"

definition runApproval :: "world \<Rightarrow> step \<Rightarrow> obj \<Rightarrow> obj \<Rightarrow> drive_state \<Rightarrow> step_result" where
  "runApproval w s inp ctx st =
     (let q = approval_query w s inp ctx; st1 = emit (Asked q) st in
      case ask_approval w (log st) q of
        Inl e \<Rightarrow> (Inl e, ctx, st1)
      | Inr a \<Rightarrow> (Inr (waiting 1 (Fin 0) (Approval a (s_id s))), ctx,
                  record_plain w s PENDING (JObj [(''approvalId'', JStr a)]) None (Fin 0) st1))"

definition decision_query :: "world \<Rightarrow> step \<Rightarrow> obj \<Rightarrow> obj \<Rightarrow> decision_request" where
  "decision_query w s inp ctx =
     (let r = resolveTemplate (str_of w) (s_config s) (scope inp ctx); S = js_string (str_of w) in
      \<lparr>dq_step = s_id s, dq_worker = S (coalesce (getp ''workerId'' r) (JStr [])),
       dq_question = S (coalesce (getp ''question'' r) (JStr [])),
       dq_options = coalesce (getp ''options'' r) (JArr []),
       dq_context = coalesce (getp ''context'' r) (JObj []),
       dq_threshold = opt_num (str_of w) (getp ''confidenceThreshold'' r),
       dq_costLimit = opt_num (str_of w) (getp ''costLimitUsd'' r),
       dq_requireApproval = (getp ''requireApprovalBelowConfidence'' r \<noteq> JBool False)\<rparr>)"

definition escalation :: "decision \<Rightarrow> string option" where
  "escalation d = (if dc_escalated d then (case dc_approvalId d of Some (c # cs) \<Rightarrow> Some (c # cs) | _ \<Rightarrow> None) else None)"

definition runAiDecision :: "world \<Rightarrow> step \<Rightarrow> obj \<Rightarrow> obj \<Rightarrow> drive_state \<Rightarrow> step_result" where
  "runAiDecision w s inp ctx st =
     (let q = decision_query w s inp ctx; st1 = emit (Decided q) st in
      case decide w (log st) q of
        Inl e \<Rightarrow> (Inl e, ctx, st1)
      | Inr d \<Rightarrow>
          (case escalation d of
             Some a \<Rightarrow>
               (Inr (waiting 1 (dc_cost d) (Approval a (s_id s))), ctx,
                record_plain w s PENDING (JObj [(''escalated'', JBool True), (''approvalId'', JStr a)]) None
                  (elapsed w (log st1)) st1)
           | None \<Rightarrow>
               (Inr (plain (dc_ok d) (JObj (dc_json d)) (dc_error d) 1 (dc_cost d)), ctx,
                recordStep w s (if dc_ok d then SUCCEEDED else FAILED) (JObj (dc_json d)) (dc_error d)
                  (elapsed w (log st1)) (Some ''internal'') 1 (dc_cost d) st1)))"

section \<open>Control flow\<close>

definition too_many_steps :: string where
  "too_many_steps = ''Run exceeded '' @ show_int MAX_STEPS_PER_RUN @ '' steps; the graph may not terminate''"

text \<open>The totals a sequence or a loop has accumulated.\<close>

record totals =
  t_steps :: nat
  t_cost :: number
  t_last :: json

definition add_outcome :: "outcome \<Rightarrow> totals \<Rightarrow> totals" where
  "add_outcome r t = t\<lparr>t_steps := t_steps t + stepsRun r, t_cost := num_add (t_cost t) (costUsd r)\<rparr>"

definition zero_totals :: totals where
  "zero_totals = \<lparr>t_steps = 0, t_cost = Fin 0, t_last = Undef\<rparr>"

definition one_step :: totals where
  "one_step = \<lparr>t_steps = 1, t_cost = Fin 0, t_last = Undef\<rparr>"

text \<open>What a parallel step has gathered: outputs by child id, and messages of the failures.\<close>

record gathered =
  g_tot :: totals
  g_outputs :: obj
  g_failures :: "string list"

fun merge_slice :: "(step \<times> outcome) list \<Rightarrow> gathered \<Rightarrow> obj \<Rightarrow> gathered \<times> obj" where
  "merge_slice [] g ctx = (g, ctx)"
| "merge_slice ((c, r) # rs) g ctx =
     (let g1 = g\<lparr>g_tot := add_outcome r (g_tot g)\<rparr> in
      if ok r
      then merge_slice rs (g1\<lparr>g_outputs := put (s_id c) (out_val r) (g_outputs g1)\<rparr>) (put (s_id c) (out_val r) ctx)
      else merge_slice rs (g1\<lparr>g_failures := g_failures g1 @
             [s_id c @ '': '' @ (case error r of None \<Rightarrow> ''undefined'' | Some e \<Rightarrow> e)]\<rparr>) ctx)"

definition finish_parallel :: "world \<Rightarrow> step \<Rightarrow> gathered \<Rightarrow> obj \<Rightarrow> drive_state \<Rightarrow> step_result" where
  "finish_parallel w s g ctx st =
     (let fs = g_failures g; text = join ''; '' fs; b = (fs = [] \<or> s_onError s = Some ''continue'') in
      (Inr \<lparr>ok = b, out_val = JObj (g_outputs g),
            error = (if b then None else Some (''Parallel step failed '' @ dash @ '' '' @ text)),
            stepsRun = t_steps (g_tot g), costUsd = t_cost (g_tot g), suspended = None\<rparr>, ctx,
       record_plain w s (if b then SUCCEEDED else FAILED) (JObj (g_outputs g))
         (if text = [] then None else Some text) (Fin 0) st))"

definition finish_condition :: "world \<Rightarrow> step \<Rightarrow> step list \<Rightarrow> step_result \<Rightarrow> step_result" where
  "finish_condition w s branch res =
     (case res of
        (Inl e, ctx, st) \<Rightarrow> (Inl e, ctx, st)
      | (Inr r, ctx, st) \<Rightarrow>
          (Inr (r\<lparr>stepsRun := stepsRun r + 1\<rparr>), ctx,
           record_plain w s (if ok r then SUCCEEDED else FAILED)
             (JObj [(''branch'', JStr (if branch \<noteq> [] then ''taken'' else ''empty''))]) (error r) (Fin 0) st))"

definition condition_holds :: "world \<Rightarrow> step \<Rightarrow> obj \<Rightarrow> obj \<Rightarrow> bool" where
  "condition_holds w s inp ctx =
     evaluateCondition (str_of w) (same_ref w) (coalesce (getp ''condition'' (s_config s)) (s_cond s)) inp ctx"

definition loop_items :: "world \<Rightarrow> step \<Rightarrow> obj \<Rightarrow> obj \<Rightarrow> json list" where
  "loop_items w s inp ctx =
     (case getp ''items'' (resolveTemplate (str_of w) (s_config s) (scope inp ctx)) of
        JArr vs \<Rightarrow> take MAX_LOOP_ITERATIONS vs
      | _ \<Rightarrow> [])"

definition iteration_scope :: "obj \<Rightarrow> json \<Rightarrow> nat \<Rightarrow> obj" where
  "iteration_scope ctx item i = put ''$index'' (JNum (Fin (of_nat i))) (put ''$item'' item ctx)"

definition loop_done :: "world \<Rightarrow> step \<Rightarrow> nat \<Rightarrow> json list \<Rightarrow> totals \<Rightarrow> obj \<Rightarrow> drive_state \<Rightarrow> step_result" where
  "loop_done w s n results t ctx st =
     (Inr (plain True (JObj [(''results'', JArr results), (''iterations'', JNum (Fin (of_nat n)))]) None
        (t_steps t) (t_cost t)), ctx,
      record_plain w s SUCCEEDED (JObj [(''iterations'', JNum (Fin (of_nat n)))]) None (Fin 0) st)"

definition loop_failed :: "world \<Rightarrow> step \<Rightarrow> nat \<Rightarrow> outcome \<Rightarrow> json list \<Rightarrow> totals \<Rightarrow> obj \<Rightarrow> drive_state \<Rightarrow> step_result" where
  "loop_failed w s i r results t ctx st =
     (Inr (plain False Undef
        (Some (''Loop '' @ quoted (s_id s) @ '' failed at iteration '' @ show_nat i @ '': '' @
           (case error r of None \<Rightarrow> ''undefined'' | Some e \<Rightarrow> e))) (t_steps t) (t_cost t)), ctx,
      record_plain w s FAILED (JObj [(''results'', JArr results)]) (error r) (Fin 0) st)"

definition skip_step :: "world \<Rightarrow> step \<Rightarrow> obj \<Rightarrow> obj \<Rightarrow> bool" where
  "skip_step w s inp ctx \<longleftrightarrow>
     jtruthy (s_cond s) \<and> \<not> evaluateCondition (str_of w) (same_ref w) (s_cond s) inp ctx"

definition take_step :: "drive_state \<Rightarrow> drive_state" where
  "take_step st = st\<lparr>budget := budget st - 1\<rparr>"

lemma fallback_smaller: "s_fallback s = Some f \<Longrightarrow> size f < size s"
  by (cases s) simp

text \<open>
  The interpreter. \<open>run_seq\<close> is the loop of \<open>runSequence\<close> with its totals, \<open>run_children\<close> the slices of
  \<open>runParallel\<close> (the outcomes of the slice so far are in \<open>pend\<close>), \<open>run_items\<close> the loop of \<open>runLoop\<close>.
\<close>

function (sequential)
  run_seq :: "world \<Rightarrow> obj \<Rightarrow> step list \<Rightarrow> totals \<Rightarrow> obj \<Rightarrow> drive_state \<Rightarrow> step_result" and
  run_step :: "world \<Rightarrow> obj \<Rightarrow> step \<Rightarrow> obj \<Rightarrow> drive_state \<Rightarrow> step_result" and
  run_children :: "world \<Rightarrow> obj \<Rightarrow> step \<Rightarrow> step list \<Rightarrow> (step \<times> outcome) list \<Rightarrow> gathered \<Rightarrow> obj \<Rightarrow> drive_state \<Rightarrow> step_result" and
  run_items :: "world \<Rightarrow> obj \<Rightarrow> step \<Rightarrow> step list \<Rightarrow> json list \<Rightarrow> nat \<Rightarrow> json list \<Rightarrow> totals \<Rightarrow> obj \<Rightarrow> drive_state \<Rightarrow> step_result"
where
  "run_seq w inp [] t ctx st = (Inr (plain True (t_last t) None (t_steps t) (t_cost t)), ctx, st)"
| "run_seq w inp (s # ss) t ctx st =
     (let st1 = take_step st in
      if budget st \<le> 0 then (Inl too_many_steps, ctx, st1)
      else if recorded ctx (s_id s) then run_seq w inp ss t ctx st1
      else if skip_step w s inp ctx
      then run_seq w inp ss t (put (s_id s) (JObj [(''skipped'', JBool True)]) ctx)
             (record_plain w s SKIPPED (JObj []) None (Fin 0) st1)
      else case run_step w inp s ctx st1 of
        (Inl e, ctx2, st2) \<Rightarrow> (Inl e, ctx2, st2)
      | (Inr r, ctx2, st2) \<Rightarrow>
          let t2 = add_outcome r t in
          if suspended r \<noteq> None
          then (Inr \<lparr>ok = False, out_val = Undef, error = None, stepsRun = t_steps t2, costUsd = t_cost t2,
                     suspended = suspended r\<rparr>, ctx2, st2)
          else if ok r then run_seq w inp ss (t2\<lparr>t_last := out_val r\<rparr>) (put (s_id s) (out_val r) ctx2) st2
          else if s_onError s = Some ''continue''
          then run_seq w inp ss t2
                 (put (s_id s) (JObj [(''failed'', JBool True),
                    (''error'', case error r of None \<Rightarrow> Undef | Some e \<Rightarrow> JStr e)]) ctx2) st2
          else case (if s_onError s = Some ''fallback'' then s_fallback s else None) of
            None \<Rightarrow> (Inr (plain False Undef (error r) (t_steps t2) (t_cost t2)), ctx2, st2)
          | Some f \<Rightarrow>
              (case run_step w inp f ctx2 st2 of
                 (Inl e, ctx3, st3) \<Rightarrow> (Inl e, ctx3, st3)
               | (Inr fr, ctx3, st3) \<Rightarrow>
                   let t3 = add_outcome fr t2 in
                   if ok fr
                   then run_seq w inp ss (t3\<lparr>t_last := out_val fr\<rparr>) (put (s_id s) (out_val fr) ctx3) st3
                   else (Inr (plain False Undef (error r) (t_steps t3) (t_cost t3)), ctx3, st3)))"
| "run_step w inp (Step i ty n a c p ss ts fs re tm er fb) ctx st =
     (let s = Step i ty n a c p ss ts fs re tm er fb in
      if ty = ''condition''
      then if condition_holds w s inp ctx
           then finish_condition w s ts (run_seq w inp ts zero_totals ctx st)
           else finish_condition w s fs (run_seq w inp fs zero_totals ctx st)
      else if ty = ''parallel''
      then run_children w inp s ss [] \<lparr>g_tot = one_step, g_outputs = [], g_failures = []\<rparr> ctx st
      else if ty = ''loop''
      then run_items w inp s ss (loop_items w s inp ctx) 0 [] one_step ctx st
      else if ty = ''delay'' then runDelay w s inp ctx st
      else if ty = ''approval'' then runApproval w s inp ctx st
      else if ty = ''ai_decision'' then runAiDecision w s inp ctx st
      else runAdapterStep w s inp ctx st)"
| "run_children w inp s [] pend g ctx st =
     (let (g2, ctx2) = merge_slice pend g ctx in finish_parallel w s g2 ctx2 st)"
| "run_children w inp s (c # cs) pend g ctx st =
     (case run_step w inp c ctx st of
        (Inl e, ctx2, st2) \<Rightarrow> (Inl e, ctx2, st2)
      | (Inr r, ctx2, st2) \<Rightarrow>
          let pend2 = pend @ [(c, r)] in
          if length pend2 = PARALLEL_CONCURRENCY
          then let (g2, ctx3) = merge_slice pend2 g ctx2 in run_children w inp s cs [] g2 ctx3 st2
          else run_children w inp s cs pend2 g ctx2 st2)"
| "run_items w inp s ss [] i results t ctx st = loop_done w s i results t ctx st"
| "run_items w inp s ss (v # vs) i results t ctx st =
     (case run_seq w inp ss zero_totals (iteration_scope ctx v i) st of
        (Inl e, ctx2, st2) \<Rightarrow> (Inl e, ctx, st2)
      | (Inr r, ctx2, st2) \<Rightarrow>
          let t2 = add_outcome r t in
          if \<not> ok r \<and> s_onError s \<noteq> Some ''continue'' then loop_failed w s i r results t2 ctx st2
          else run_items w inp s ss vs (i + 1) (results @ [out_val r]) t2 ctx st2)"
  by pat_completeness auto
termination
  by (relation "measures [
      (\<lambda>x. case x of Inl (Inl (w, inp, ss, t, ctx, st)) \<Rightarrow> size_list size ss
         | Inl (Inr (w, inp, s, ctx, st)) \<Rightarrow> size s
         | Inr (Inl (w, inp, s, cs, pend, g, ctx, st)) \<Rightarrow> size_list size cs
         | Inr (Inr (w, inp, s, ss, vs, i, res, t, ctx, st)) \<Rightarrow> size_list size ss),
      (\<lambda>x. case x of Inr (Inr (w, inp, s, ss, vs, i, res, t, ctx, st)) \<Rightarrow> Suc (length vs) | _ \<Rightarrow> 0)]")
    (auto dest!: fallback_smaller split: if_splits)

declare run_seq.simps(2) [simp del] run_step.simps [simp del] run_children.simps(2) [simp del]
  run_items.simps(2) [simp del]

section \<open>Driving a run\<close>

text \<open>\<open>drive\<close> up to its writes: the result of the sequence with a full budget, the context it leaves.\<close>

definition drive_steps :: "world \<Rightarrow> step list \<Rightarrow> obj \<Rightarrow> obj \<Rightarrow> event list \<Rightarrow> step_result" where
  "drive_steps w steps inp seed history =
     run_seq w inp steps zero_totals seed \<lparr>budget = MAX_STEPS_PER_RUN, log = history\<rparr>"

text \<open>
  Induction over a version: \<open>L\<close> for sequences, \<open>S\<close> for steps, \<open>C\<close> for the children of a parallel step.
\<close>

lemma version_induct:
  assumes "L []" "C []"
    and cons: "\<And>s ss. S s \<Longrightarrow> (\<And>f. s_fallback s = Some f \<Longrightarrow> S f) \<Longrightarrow> L ss \<Longrightarrow> L (s # ss)"
    and child: "\<And>c cs. S c \<Longrightarrow> C cs \<Longrightarrow> C (c # cs)"
    and step: "\<And>s. L (s_onTrue s) \<Longrightarrow> L (s_onFalse s) \<Longrightarrow> L (s_steps s) \<Longrightarrow> C (s_steps s) \<Longrightarrow> S s"
  shows "L ss" "S s" "C ss"
proof -
  let ?Q = "\<lambda>s. S s \<and> (\<forall>f. s_fallback s = Some f \<longrightarrow> S f)"
  have l: "L ss" "C ss" if "\<forall>x \<in> set ss. ?Q x" for ss
    using that by (induction ss) (auto intro: assms(1,2) cons child)
  have q: "?Q s" for s
  proof (induction s)
    case (Step i ty n a c p ss ts fs re tm er fb)
    then have "L ts" "L fs" "L ss" "C ss" by (auto intro!: l)
    then have "S (Step i ty n a c p ss ts fs re tm er fb)" by (intro step) simp_all
    with Step show ?case by (cases fb) auto
  qed
  then show "L ss" "S s" "C ss" using l by auto
qed

definition CONTROL_TYPES :: "string list" where
  "CONTROL_TYPES = [''condition'', ''parallel'', ''loop'', ''delay'', ''approval'', ''ai_decision'']"

definition empty_gathered :: gathered where
  "empty_gathered = \<lparr>g_tot = one_step, g_outputs = [], g_failures = []\<rparr>"

lemma run_step_types:
  "s_type s = ''condition'' \<Longrightarrow> run_step w inp s ctx st =
     (let b = (if condition_holds w s inp ctx then s_onTrue s else s_onFalse s) in
      finish_condition w s b (run_seq w inp b zero_totals ctx st))"
  "s_type s = ''parallel'' \<Longrightarrow> run_step w inp s ctx st = run_children w inp s (s_steps s) [] empty_gathered ctx st"
  "s_type s = ''loop'' \<Longrightarrow> run_step w inp s ctx st =
     run_items w inp s (s_steps s) (loop_items w s inp ctx) 0 [] one_step ctx st"
  "s_type s = ''delay'' \<Longrightarrow> run_step w inp s ctx st = runDelay w s inp ctx st"
  "s_type s = ''approval'' \<Longrightarrow> run_step w inp s ctx st = runApproval w s inp ctx st"
  "s_type s = ''ai_decision'' \<Longrightarrow> run_step w inp s ctx st = runAiDecision w s inp ctx st"
  "s_type s \<notin> set CONTROL_TYPES \<Longrightarrow> run_step w inp s ctx st = runAdapterStep w s inp ctx st"
  by (cases s; simp add: run_step.simps CONTROL_TYPES_def empty_gathered_def Let_def)+

lemma step_type_cases:
  obtains "s_type s = ''condition''" | "s_type s = ''parallel''" | "s_type s = ''loop''"
  | "s_type s = ''delay''" | "s_type s = ''approval''" | "s_type s = ''ai_decision''"
  | "s_type s \<notin> set CONTROL_TYPES"
  by (auto simp: CONTROL_TYPES_def)

text \<open>The ways one turn of the sequence loop can go.\<close>

lemma run_seq_Cons_cases:
  obtains (over) "budget st \<le> 0" "run_seq w inp (s # ss) t ctx st = (Inl too_many_steps, ctx, take_step st)"
  | (known) "\<not> budget st \<le> 0" "recorded ctx (s_id s)"
      "run_seq w inp (s # ss) t ctx st = run_seq w inp ss t ctx (take_step st)"
  | (skip) "\<not> budget st \<le> 0" "\<not> recorded ctx (s_id s)" "skip_step w s inp ctx"
      "run_seq w inp (s # ss) t ctx st =
         run_seq w inp ss t (put (s_id s) (JObj [(''skipped'', JBool True)]) ctx)
           (record_plain w s SKIPPED (JObj []) None (Fin 0) (take_step st))"
  | (throw) e c2 st2 where "\<not> budget st \<le> 0" "\<not> recorded ctx (s_id s)" "\<not> skip_step w s inp ctx"
      "run_step w inp s ctx (take_step st) = (Inl e, c2, st2)"
      "run_seq w inp (s # ss) t ctx st = (Inl e, c2, st2)"
  | (stop) r c2 st2 q where "\<not> budget st \<le> 0" "\<not> recorded ctx (s_id s)" "\<not> skip_step w s inp ctx"
      "run_step w inp s ctx (take_step st) = (Inr r, c2, st2)"
      "run_seq w inp (s # ss) t ctx st = (Inr q, c2, st2)" "\<not> ok q" "suspended q = suspended r"
      "suspended r \<noteq> None \<or> \<not> ok r"
  | (proceed) r c2 st2 t2 v where "\<not> budget st \<le> 0" "\<not> recorded ctx (s_id s)" "\<not> skip_step w s inp ctx"
      "run_step w inp s ctx (take_step st) = (Inr r, c2, st2)" "suspended r = None"
      "run_seq w inp (s # ss) t ctx st = run_seq w inp ss t2 (put (s_id s) v c2) st2"
      "ok r \<and> v = out_val r \<or> \<not> ok r \<and> s_onError s = Some ''continue''"
  | (fallback_throw) r c2 st2 f e c3 st3 where "\<not> budget st \<le> 0" "\<not> recorded ctx (s_id s)" "\<not> skip_step w s inp ctx"
      "run_step w inp s ctx (take_step st) = (Inr r, c2, st2)" "suspended r = None" "\<not> ok r"
      "s_onError s = Some ''fallback''" "s_fallback s = Some f"
      "run_step w inp f c2 st2 = (Inl e, c3, st3)" "run_seq w inp (s # ss) t ctx st = (Inl e, c3, st3)"
  | (fallback_stop) r c2 st2 f q fr c3 st3 where "\<not> budget st \<le> 0" "\<not> recorded ctx (s_id s)" "\<not> skip_step w s inp ctx"
      "run_step w inp s ctx (take_step st) = (Inr r, c2, st2)" "suspended r = None" "\<not> ok r"
      "s_onError s = Some ''fallback''" "s_fallback s = Some f"
      "run_step w inp f c2 st2 = (Inr fr, c3, st3)" "\<not> ok fr" "run_seq w inp (s # ss) t ctx st = (Inr q, c3, st3)"
      "\<not> ok q" "suspended q = None"
  | (fallback_proceed) r c2 st2 f fr c3 st3 t2 where "\<not> budget st \<le> 0" "\<not> recorded ctx (s_id s)" "\<not> skip_step w s inp ctx"
      "run_step w inp s ctx (take_step st) = (Inr r, c2, st2)" "suspended r = None" "\<not> ok r"
      "s_onError s = Some ''fallback''" "s_fallback s = Some f"
      "run_step w inp f c2 st2 = (Inr fr, c3, st3)" "ok fr"
      "run_seq w inp (s # ss) t ctx st = run_seq w inp ss t2 (put (s_id s) (out_val fr) c3) st3"
proof -
  note cases = that
  show thesis
  proof (cases "budget st \<le> 0 \<or> recorded ctx (s_id s) \<or> skip_step w s inp ctx")
    case True
    then show thesis using cases(1-3) by (auto simp: run_seq.simps(2) Let_def)
  next
    case False
    then have n: "\<not> budget st \<le> 0" "\<not> recorded ctx (s_id s)" "\<not> skip_step w s inp ctx" by auto
    obtain x c2 st2 where rs: "run_step w inp s ctx (take_step st) = (x, c2, st2)" by (metis prod_cases3)
    show thesis
    proof (cases x)
      case (Inl e)
      with n rs show thesis by (intro cases(4)) (auto simp: run_seq.simps(2) Let_def)
    next
      case (Inr r)
      show thesis
      proof (cases "suspended r = None \<and> (ok r \<or> s_onError s = Some ''continue'')")
        case True
        show thesis
        proof (cases "ok r")
          case o: True
          show thesis by (rule cases(6) [OF n rs [unfolded Inr]]) (use True n rs Inr o in \<open>auto simp: run_seq.simps(2) Let_def\<close>)
        next
          case o: False
          show thesis by (rule cases(6) [OF n rs [unfolded Inr]]) (use True n rs Inr o in \<open>auto simp: run_seq.simps(2) Let_def\<close>)
        qed
      next
        case nok: False
        show thesis
        proof (cases "suspended r = None \<and> s_onError s = Some ''fallback'' \<and> s_fallback s \<noteq> None")
          case False
          let ?t2 = "add_outcome r t"
          show thesis
          proof (cases "suspended r")
            case None
            show thesis
              by (rule cases(5) [OF n rs [unfolded Inr], where q = "plain False Undef (error r) (t_steps ?t2) (t_cost ?t2)"])
                (use None False nok n rs Inr in \<open>auto simp: run_seq.simps(2) Let_def plain_def\<close>)
          next
            case (Some sp)
            show thesis
              by (rule cases(5) [OF n rs [unfolded Inr], where q = "\<lparr>ok = False, out_val = Undef, error = None,
                  stepsRun = t_steps ?t2, costUsd = t_cost ?t2, suspended = Some sp\<rparr>"])
                (use Some n rs Inr in \<open>auto simp: run_seq.simps(2) Let_def\<close>)
          qed
        next
          case True
          then obtain f where f: "s_fallback s = Some f" by blast
          obtain y c3 st3 where rf: "run_step w inp f c2 st2 = (y, c3, st3)" by (metis prod_cases3)
          show thesis
          proof (cases y)
            case (Inl e)
            show thesis
              by (rule cases(7) [OF n rs [unfolded \<open>x = Inr r\<close>] _ _ _ f rf [unfolded Inl]])
                (use True nok n rs f rf Inl \<open>x = Inr r\<close> in \<open>auto simp: run_seq.simps(2) Let_def\<close>)
          next
            case (Inr fr)
            note c = n rs [unfolded \<open>x = Inr r\<close>]
            show thesis
            proof (cases "ok fr")
              case o: True
              show thesis
                by (rule cases(9) [OF c _ _ _ f rf [unfolded Inr] o])
                  (use True nok n rs f rf Inr o \<open>x = Inr r\<close> in \<open>auto simp: run_seq.simps(2) Let_def\<close>)
            next
              case o: False
              show thesis
                by (rule cases(8) [OF c _ _ _ f rf [unfolded Inr] o, where q = "plain False Undef (error r)
                    (t_steps (add_outcome fr (add_outcome r t))) (t_cost (add_outcome fr (add_outcome r t)))"])
                  (use True nok n rs f rf Inr o \<open>x = Inr r\<close> in \<open>auto simp: run_seq.simps(2) Let_def plain_def\<close>)
            qed
          qed
        qed
      qed
    qed
  qed
qed

section \<open>What every run does to its state\<close>

text \<open>
  The interpreter changes its state only by appending to the log and by taking from the budget. A
  reflexive and transitive relation that both respect relates the states before and after any part
  of a run.
\<close>

locale drive_relation =
  fixes R :: "drive_state \<Rightarrow> drive_state \<Rightarrow> bool"
  assumes rel_refl [simp]: "R st st"
    and rel_trans: "R a b \<Longrightarrow> R b c \<Longrightarrow> R a c"
    and emit_step: "R a b \<Longrightarrow> R a (emit e b)"
    and take_rel: "R st (take_step st)"
begin

lemma recordStep_rel: "R a b \<Longrightarrow> R a (recordStep w s status out err d ad n c b)"
  by (simp add: recordStep_def emit_step)

lemma attempt_rel: "R st (snd (attempt_loop w k s inp ctx i n l st))"
proof (induction w k s inp ctx i n l st rule: attempt_loop.induct)
  case (1 w k s inp ctx i n l st)
  let ?st1 = "emit (Called k (s_id s) i) st"
  let ?w = "if i < n then emit (Slept (Fin (250 * 2 ^ nat (i - 1)))) ?st1 else ?st1"
  have a: "R st ?st1" "R st ?w" by (auto intro!: emit_step)
  show ?case
  proof (cases "i > n")
    case True
    then show ?thesis by (simp add: attempt_loop.simps)
  next
    case False
    show ?thesis
    proof (cases "execute w (log st) k s ctx inp")
      case (Result b out err cost)
      with False a 1(1) [OF False refl refl refl Result] show ?thesis
        by (cases b) (auto simp: attempt_loop.simps [of w k s inp ctx i] intro: rel_trans)
    next
      case (StepError msg re)
      with False a 1(2) [OF False refl refl refl StepError] show ?thesis
        by (cases re) (auto simp: attempt_loop.simps [of w k s inp ctx i] intro: rel_trans)
    next
      case (OtherError msg)
      with False a 1(3) [OF False refl refl refl OtherError] show ?thesis
        by (auto simp: attempt_loop.simps [of w k s inp ctx i] intro: rel_trans)
    next
      case TimedOut
      with False a 1(4) [OF False refl refl refl TimedOut] show ?thesis
        by (auto simp: attempt_loop.simps [of w k s inp ctx i] Let_def intro: rel_trans)
    qed
  qed
qed

lemma leaf_rel:
  "R st (snd (snd (runDelay w s inp ctx st)))" "R st (snd (snd (runApproval w s inp ctx st)))"
  "R st (snd (snd (runAiDecision w s inp ctx st)))"
  by (auto simp: runDelay_def runApproval_def runAiDecision_def Let_def intro!: recordStep_rel emit_step
      split: sum.splits option.splits list.splits bool.splits)

lemma adapter_rel: "R st (snd (snd (runAdapterStep w s inp ctx st)))"
proof (cases "resolveAdapter w s")
  case (Inr k)
  let ?n = "(case s_retries s of None \<Rightarrow> 0 | Some r \<Rightarrow> r) + 1"
  obtain x st1 where a: "attempt_loop w k s inp ctx 1 ?n [] st = (x, st1)" by fastforce
  have "R st st1" using attempt_rel [of st w k s inp ctx 1 ?n "[]"] a by simp
  with Inr a show ?thesis
    by (cases x) (auto simp: runAdapterStep_def Let_def intro!: recordStep_rel emit_step)
qed (simp add: runAdapterStep_def)

lemma finish_rel:
  "R st (snd (snd res)) \<Longrightarrow> R st (snd (snd (finish_condition w s branch res)))"
  "R st st' \<Longrightarrow> R st (snd (snd (finish_parallel w s g ctx st')))"
  "R st st' \<Longrightarrow> R st (snd (snd (loop_done w s n rs t ctx st')))"
  "R st st' \<Longrightarrow> R st (snd (snd (loop_failed w s i r rs t ctx st')))"
  by (auto simp: finish_condition_def finish_parallel_def loop_done_def loop_failed_def Let_def
      intro!: recordStep_rel split: prod.splits sum.splits)

lemma run_rel:
  shows run_seq_rel: "\<And>t ctx st. R st (snd (snd (run_seq w inp ss t ctx st)))"
    and run_step_rel: "\<And>ctx st. R st (snd (snd (run_step w inp s ctx st)))"
    and run_children_rel: "\<And>s0 pend g ctx st. R st (snd (snd (run_children w inp s0 ss pend g ctx st)))"
proof (induction ss and s and ss rule: version_induct)
  fix s ss t ctx st
  assume S: "\<And>ctx st. R st (snd (snd (run_step w inp s ctx st)))"
    and F: "\<And>f ctx st. s_fallback s = Some f \<Longrightarrow> R st (snd (snd (run_step w inp f ctx st)))"
    and L: "\<And>t ctx st. R st (snd (snd (run_seq w inp ss t ctx st)))"
  show "R st (snd (snd (run_seq w inp (s # ss) t ctx st)))"
  proof -
    note T = take_rel [of st]
    have S': "R a b" if "run_step w inp s c a = (x, c2, b)" for c a x c2 b using S [of a c] that by simp
    have F': "R a b" if "s_fallback s = Some f" "run_step w inp f c a = (x, c2, b)" for f c a x c2 b
      using F [OF that(1), of a c] that(2) by simp
    have L': "R a (snd (snd (run_seq w inp ss t c b)))" if "R a b" for a b t c
      using rel_trans [OF that L] .
    show ?thesis
    proof (cases rule: run_seq_Cons_cases [where st = st and w = w and inp = inp and s = s and ss = ss and t = t and ctx = ctx])
      case over
      with T show ?thesis by simp
    next
      case known
      with T L' show ?thesis by simp
    next
      case skip
      with L' recordStep_rel [OF T] show ?thesis by simp
    next
      case (throw e c2 st2)
      with rel_trans [OF T S'] show ?thesis by simp
    next
      case (stop r c2 st2 q)
      with rel_trans [OF T S'] show ?thesis by simp
    next
      case (proceed r c2 st2 t2 v)
      with L' rel_trans [OF T S'] show ?thesis by simp
    next
      case (fallback_throw r c2 st2 f e c3 st3)
      with rel_trans [OF rel_trans [OF T S'] F'] show ?thesis by simp
    next
      case (fallback_stop r c2 st2 f q fr c3 st3)
      with rel_trans [OF rel_trans [OF T S'] F'] show ?thesis by simp
    next
      case (fallback_proceed r c2 st2 f fr c3 st3 t2)
      with L' rel_trans [OF rel_trans [OF T S'] F'] show ?thesis by simp
    qed
  qed
next
  fix c cs s0 pend g ctx st
  assume S: "\<And>ctx st. R st (snd (snd (run_step w inp c ctx st)))"
    and C: "\<And>s0 pend g ctx st. R st (snd (snd (run_children w inp s0 cs pend g ctx st)))"
  obtain x c2 st2 where r: "run_step w inp c ctx st = (x, c2, st2)" by (metis prod_cases3)
  with S [of st ctx] have "R st st2" by simp
  then show "R st (snd (snd (run_children w inp s0 (c # cs) pend g ctx st)))"
    using C rel_trans by (cases x) (auto simp: run_children.simps(2) r Let_def split_beta)
next
  fix s ctx st
  assume L: "\<And>t ctx st. R st (snd (snd (run_seq w inp (s_onTrue s) t ctx st)))"
    "\<And>t ctx st. R st (snd (snd (run_seq w inp (s_onFalse s) t ctx st)))"
    "\<And>t ctx st. R st (snd (snd (run_seq w inp (s_steps s) t ctx st)))"
    and C: "\<And>s0 pend g ctx st. R st (snd (snd (run_children w inp s0 (s_steps s) pend g ctx st)))"
  have I: "R st (snd (snd (run_items w inp s0 (s_steps s) vs i rs t ctx st)))" for s0 vs i rs t ctx st
  proof (induction vs arbitrary: i rs t st)
    case (Cons v vs)
    obtain x c2 st2 where r: "run_seq w inp (s_steps s) zero_totals (iteration_scope ctx v i) st = (x, c2, st2)"
      by (metis prod_cases3)
    with L(3) [of st zero_totals "iteration_scope ctx v i"] have "R st st2" by simp
    then show ?case
      using Cons rel_trans by (cases x) (auto simp: run_items.simps(2) r Let_def intro: finish_rel)
  qed (simp add: finish_rel)
  show "R st (snd (snd (run_step w inp s ctx st)))"
    by (cases s rule: step_type_cases)
      (simp_all add: run_step_types leaf_rel adapter_rel C I Let_def L finish_rel(1))
qed (auto simp: split_beta intro: finish_rel)

end

lemma log_emit: "log (emit e st) = log st @ [e]" "budget (emit e st) = budget st"
  by (simp_all add: emit_def)

interpretation log_grows: drive_relation "\<lambda>a b. \<exists>xs. log b = log a @ xs"
  by unfold_locales (auto simp: log_emit take_step_def)

interpretation budget_falls: drive_relation "\<lambda>a b. budget b \<le> budget a"
  by unfold_locales (auto simp: log_emit take_step_def)

section \<open>Budget, skipping and suspension\<close>

lemma run_step_budget: "run_step w inp s ctx st = (x, c2, st2) \<Longrightarrow> budget st2 \<le> budget st"
  using budget_falls.run_step_rel [where st = st and w = w and inp = inp and s = s and ctx = ctx] by simp

lemma ok_sequence_fits:
  "run_seq w inp ss t ctx st = (Inr r, c', st') \<Longrightarrow> ok r \<Longrightarrow> ss = [] \<or> int (length ss) \<le> budget st"
proof (induction ss arbitrary: t ctx st)
  case (Cons s ss)
  have step: "int (length (s # ss)) \<le> budget st"
    if "run_seq w inp ss t2 c2 st2 = (Inr r, c', st')" "budget st2 \<le> budget st - 1" "\<not> budget st \<le> 0" for t2 c2 st2
    using Cons.IH [OF that(1) Cons.prems(2)] that(2,3) by auto
  have T: "budget (take_step st) = budget st - 1" by (simp add: take_step_def)
  show ?case
  proof (cases rule: run_seq_Cons_cases [where st = st and w = w and inp = inp and s = s and ss = ss and t = t and ctx = ctx])
    case over
    with Cons.prems show ?thesis by simp
  next
    case known
    with Cons.prems T step show ?thesis by simp
  next
    case skip
    with Cons.prems T step show ?thesis
      using budget_falls.recordStep_rel [of "take_step st" "take_step st"] by fastforce
  next
    case (throw e c2 st2)
    with Cons.prems show ?thesis by simp
  next
    case (stop r2 c2 st2 q)
    with Cons.prems show ?thesis by simp
  next
    case (proceed r2 c2 st2 t2 v)
    with Cons.prems T step run_step_budget [OF proceed(4)] show ?thesis by simp
  next
    case (fallback_throw r2 c2 st2 f e c3 st3)
    with Cons.prems show ?thesis by simp
  next
    case (fallback_stop r2 c2 st2 f q fr c3 st3)
    with Cons.prems show ?thesis by simp
  next
    case (fallback_proceed r2 c2 st2 f fr c3 st3 t2)
    with Cons.prems T step run_step_budget [OF fallback_proceed(4)] run_step_budget [OF fallback_proceed(9)]
    show ?thesis by simp
  qed
qed simp

lemma recorded_prefix_skipped:
  "\<forall>x \<in> set xs. recorded ctx (s_id x) \<Longrightarrow> int (length xs) \<le> budget st \<Longrightarrow>
     run_seq w inp (xs @ ys) t ctx st = run_seq w inp ys t ctx (st\<lparr>budget := budget st - int (length xs)\<rparr>)"
proof (induction xs arbitrary: st)
  case (Cons x xs)
  have "run_seq w inp (xs @ ys) t ctx (take_step st) =
      run_seq w inp ys t ctx ((take_step st)\<lparr>budget := budget (take_step st) - int (length xs)\<rparr>)"
    by (rule Cons.IH) (use Cons.prems in \<open>simp_all add: take_step_def\<close>)
  then show ?case using Cons.prems by (simp add: run_seq.simps(2) take_step_def algebra_simps)
qed simp

lemma children_outcome:
  "run_children w inp s cs pend g ctx st = (Inr r, c', st') \<Longrightarrow>
     suspended r = None \<and> (s_onError s = Some ''continue'' \<longrightarrow> ok r)"
proof (induction cs arbitrary: pend g ctx st)
  case Nil
  then show ?case by (auto simp: finish_parallel_def Let_def split_beta)
next
  case (Cons c cs)
  then show ?case by (auto simp: run_children.simps(2) Let_def split_beta split: sum.splits if_splits)
qed

lemma items_outcome:
  "run_items w inp s ss vs i rs t ctx st = (x, c', st') \<Longrightarrow> c' = ctx \<and>
     (\<forall>r. x = Inr r \<longrightarrow> suspended r = None \<and> (s_onError s = Some ''continue'' \<longrightarrow> ok r) \<and>
        (ok r \<longrightarrow> (\<exists>us. length us = length rs + length vs \<and>
           out_val r = JObj [(''results'', JArr us), (''iterations'', JNum (Fin (of_nat (i + length vs))))])))"
proof (induction vs arbitrary: i rs t st)
  case Nil
  then show ?case by (auto simp: loop_done_def plain_def)
next
  case (Cons v vs)
  obtain y c2 st2 where r: "run_seq w inp ss zero_totals (iteration_scope ctx v i) st = (y, c2, st2)"
    by (metis prod_cases3)
  show ?case
  proof (cases y)
    case (Inl e)
    with Cons.prems r show ?thesis by (auto simp: run_items.simps(2))
  next
    case (Inr q)
    show ?thesis
    proof (cases "\<not> ok q \<and> s_onError s \<noteq> Some ''continue''")
      case True
      with Cons.prems r Inr show ?thesis by (auto simp: run_items.simps(2) Let_def loop_failed_def plain_def)
    next
      case False
      with Cons.prems r Inr have "run_items w inp s ss vs (i + 1) (rs @ [out_val q]) (add_outcome q t) ctx st2 = (x, c', st')"
        by (auto simp: run_items.simps(2) Let_def)
      from Cons.IH [OF this] show ?thesis by (auto simp: algebra_simps)
    qed
  qed
qed

lemma loop_items_bound: "length (loop_items w s inp ctx) \<le> 100"
  by (auto simp: loop_items_def MAX_LOOP_ITERATIONS_def split: json.splits)

text \<open>An approval a run may wait for: the approvals service or a decision has named it.\<close>

definition backed :: "world \<Rightarrow> event list \<Rightarrow> string \<Rightarrow> bool" where
  "backed w lg a \<longleftrightarrow> (\<exists>pre post q. lg = pre @ Asked q # post \<and> ask_approval w pre q = Inr a) \<or>
     (\<exists>pre post q d. lg = pre @ Decided q # post \<and> decide w pre q = Inr d \<and> dc_escalated d \<and> dc_approvalId d = Some a)"

lemma backed_mono: "backed w lg a \<Longrightarrow> backed w (lg @ xs) a"
  unfolding backed_def by (metis append.assoc append_Cons)

lemma recordStep_log: "\<exists>xs. log (recordStep w s status out err d ad n c st) = log st @ xs"
  using log_grows.recordStep_rel [of st st] by auto

lemma leaf_suspension:
  "runDelay w s inp ctx st = (Inr r, c', st') \<Longrightarrow> suspended r \<noteq> Some (Approval a i)"
  "runAdapterStep w s inp ctx st = (Inr r, c', st') \<Longrightarrow> suspended r = None"
  by (auto simp: runDelay_def runAdapterStep_def plain_def waiting_def Let_def split: if_splits sum.splits prod.splits)

lemma approval_backed:
  assumes "runApproval w s inp ctx st = (Inr r, c', st')" "suspended r = Some (Approval a i)"
  shows "backed w (log st') a"
proof -
  let ?st1 = "emit (Asked (approval_query w s inp ctx)) st"
  have q: "ask_approval w (log st) (approval_query w s inp ctx) = Inr a"
    and st': "\<exists>xs. log st' = log ?st1 @ xs"
    using assms by (auto simp: runApproval_def waiting_def Let_def intro: recordStep_log split: sum.splits)
  have "backed w (log ?st1) a" unfolding backed_def using q by (auto simp: log_emit)
  with st' backed_mono show ?thesis by metis
qed

lemma decision_backed:
  assumes "runAiDecision w s inp ctx st = (Inr r, c', st')" "suspended r = Some (Approval a i)"
  shows "backed w (log st') a"
proof -
  let ?q = "decision_query w s inp ctx"
  let ?st1 = "emit (Decided ?q) st"
  have "\<exists>d. decide w (log st) ?q = Inr d \<and> escalation d = Some a \<and> (\<exists>xs. log st' = log ?st1 @ xs)"
    using assms
    by (auto simp: runAiDecision_def waiting_def plain_def Let_def intro: recordStep_log
        split: sum.splits option.splits)
  then obtain d where q: "decide w (log st) ?q = Inr d" "escalation d = Some a"
    and st': "\<exists>xs. log st' = log ?st1 @ xs" by blast
  have "dc_escalated d" "dc_approvalId d = Some a"
    using q(2) by (auto simp: escalation_def split: if_splits option.splits list.splits)
  with q(1) have "backed w (log ?st1) a" unfolding backed_def by (auto simp: log_emit)
  with st' backed_mono show ?thesis by metis
qed

lemma run_backed:
  shows seq_backed: "\<And>t ctx st. run_seq w inp ss t ctx st = (Inr r, c', st') \<Longrightarrow>
      suspended r = Some (Approval a i) \<Longrightarrow> backed w (log st') a"
    and step_backed: "\<And>ctx st r c' st'. run_step w inp s ctx st = (Inr r, c', st') \<Longrightarrow>
      suspended r = Some (Approval a i) \<Longrightarrow> backed w (log st') a"
    and True
proof (induction ss and s and ss arbitrary: r c' st' rule: version_induct)
  fix s ss t ctx st r c' st'
  assume S: "\<And>ctx st r c' st'. run_step w inp s ctx st = (Inr r, c', st') \<Longrightarrow>
      suspended r = Some (Approval a i) \<Longrightarrow> backed w (log st') a"
    and L: "\<And>t ctx st r c' st'. run_seq w inp ss t ctx st = (Inr r, c', st') \<Longrightarrow>
      suspended r = Some (Approval a i) \<Longrightarrow> backed w (log st') a"
    and p: "run_seq w inp (s # ss) t ctx st = (Inr r, c', st')" "suspended r = Some (Approval a i)"
  show "backed w (log st') a"
    by (cases rule: run_seq_Cons_cases [where st = st and w = w and inp = inp and s = s and ss = ss and t = t and ctx = ctx])
      (use p S L L [OF sym] in auto)
next
  fix s ctx st r c' st'
  assume T: "\<And>t ctx st r c' st'. run_seq w inp (s_onTrue s) t ctx st = (Inr r, c', st') \<Longrightarrow>
      suspended r = Some (Approval a i) \<Longrightarrow> backed w (log st') a"
    and F: "\<And>t ctx st r c' st'. run_seq w inp (s_onFalse s) t ctx st = (Inr r, c', st') \<Longrightarrow>
      suspended r = Some (Approval a i) \<Longrightarrow> backed w (log st') a"
    and p: "run_step w inp s ctx st = (Inr r, c', st')" "suspended r = Some (Approval a i)"
  show "backed w (log st') a"
  proof (cases s rule: step_type_cases)
    case 1
    let ?b = "if condition_holds w s inp ctx then s_onTrue s else s_onFalse s"
    obtain x c2 st2 where r: "run_seq w inp ?b zero_totals ctx st = (x, c2, st2)" by (metis prod_cases3)
    obtain q where q: "x = Inr q" "suspended q = Some (Approval a i)"
      and st': "\<exists>xs. log st' = log st2 @ xs"
      using p r 1 recordStep_log
      by (cases x) (auto simp: run_step_types finish_condition_def Let_def)
    have "backed w (log st2) a" using r q T F by (cases "condition_holds w s inp ctx") auto
    with st' backed_mono show ?thesis by metis
  next
    case 2
    with p children_outcome show ?thesis by (fastforce simp: run_step_types)
  next
    case 3
    with p items_outcome show ?thesis by (fastforce simp: run_step_types)
  next
    case 4
    with p leaf_suspension show ?thesis by (fastforce simp: run_step_types)
  next
    case 5
    with p approval_backed show ?thesis by (simp add: run_step_types)
  next
    case 6
    with p decision_backed show ?thesis by (simp add: run_step_types)
  next
    case 7
    with p leaf_suspension show ?thesis by (fastforce simp: run_step_types)
  qed
qed (auto simp: plain_def)

section \<open>Attempts\<close>

fun is_call :: "event \<Rightarrow> bool" where
  "is_call (Called k s i) = True" | "is_call _ = False"

definition calls :: "drive_state \<Rightarrow> nat" where
  "calls st = length (filter is_call (log st))"

lemma calls_emit: "calls (emit e st) = calls st + (if is_call e then 1 else 0)"
  by (simp add: calls_def log_emit)

lemma attempts_counted:
  assumes "attempt_loop w k s inp ctx i n l st = (x, st')" "i \<le> n + 1"
  shows "int (calls st') \<le> int (calls st) + (n + 1 - i) \<and>
    (\<forall>out cost j. x = Inr (out, cost, j) \<longrightarrow> i \<le> j \<and> j \<le> n \<and> int (calls st') = int (calls st) + (j + 1 - i))"
  using assms
proof (induction "nat (n + 1 - i)" arbitrary: i l st rule: less_induct)
  case less
  show ?case
  proof (cases "i > n")
    case True
    with less.prems show ?thesis by (auto simp: attempt_loop.simps)
  next
    case False
    let ?st1 = "emit (Called k (s_id s) i) st"
    let ?w = "if i < n then emit (Slept (Fin (250 * 2 ^ nat (i - 1)))) ?st1 else ?st1"
    have c: "calls ?st1 = Suc (calls st)" "calls ?w = Suc (calls st)" by (simp_all add: calls_emit)
    have again: ?thesis if "attempt_loop w k s inp ctx (i + 1) n l' ?w = (x, st')" for l'
      using less.hyps [OF _ that] False c by auto
    show ?thesis
    proof (cases "execute w (log st) k s ctx inp")
      case (Result b out err cost)
      with less.prems False again c show ?thesis
        by (cases b) (auto simp: attempt_loop.simps [of w k s inp ctx i] Let_def split: if_splits)
    next
      case (StepError msg re)
      with less.prems False again c show ?thesis
        by (cases re) (auto simp: attempt_loop.simps [of w k s inp ctx i] Let_def split: if_splits)
    qed (use less.prems False again in \<open>auto simp: attempt_loop.simps [of w k s inp ctx i] Let_def split: if_splits\<close>)
  qed
qed

section \<open>A run to look at\<close>

definition call_step :: "string \<Rightarrow> int option \<Rightarrow> step" where
  "call_step i retries = Step i ''http'' None None [] Undef [] [] [] retries None None None"

definition approval_step :: "string \<Rightarrow> step" where
  "approval_step i = Step i ''approval'' None None [] Undef [] [] [] None None None None"

definition parallel_step :: "string \<Rightarrow> step list \<Rightarrow> step" where
  "parallel_step i ss = Step i ''parallel'' None None [] Undef ss [] [] None None (Some ''continue'') None"

definition loop_step :: "string \<Rightarrow> json \<Rightarrow> step list \<Rightarrow> step" where
  "loop_step i items ss = Step i ''loop'' None None [(''items'', items)] Undef ss [] [] None None None None"

text \<open>An internal adapter that fails on its first call, and approvals that are always filed.\<close>

definition ex_world :: world where
  "ex_world =
     \<lparr>adapters = [\<lparr>key = ''internal'', supports = []\<rparr>],
      execute = (\<lambda>h k s c i. if h = [] then OtherError ''down'' else Result True (JStr ''done'') None None),
      ask_approval = (\<lambda>h q. Inr ''ap1''), decide = (\<lambda>h q. Inl ''none''),
      elapsed = (\<lambda>h. Fin 0), row_stored = (\<lambda>h. True), str_of = (\<lambda>v. []), same_ref = (\<lambda>a b. False)\<rparr>"

lemmas ex_simps = ex_world_def call_step_def approval_step_def parallel_step_def loop_step_def
  runApproval_def waiting_def approval_query_def resolveTemplate_def scope_def merged_scope_def
  spread_def getp_def coalesce_def nullish_def approval_context_def opt_num_def recordStep_def
  emit_def take_step_def recorded_def OBJECT_PROTOTYPE_def skip_step_def add_outcome_def
  zero_totals_def plain_def obj_column_def Let_def CONTROL_TYPES_def

lemma ex_suspends:
  "\<exists>r c st. drive_steps ex_world [approval_step ''a''] [] [] [] = (Inr r, c, st) \<and>
     suspended r = Some (Approval ''ap1'' ''a'')"
  by (simp add: drive_steps_def MAX_STEPS_PER_RUN_def run_seq.simps(2) run_step_types ex_simps)

section \<open>Properties\<close>

text \<open>C21: a drive passes over the steps already recorded in the context without running or logging
  anything for them, and continues with the rest; this is what makes a resumed run go on where it
  stopped.\<close>

theorem settled_steps_are_skipped:
  assumes "list_all (\<lambda>x. recorded ctx (s_id x)) xs" "length xs \<le> 200"
  shows "drive_steps w (xs @ ys) inp ctx history =
    run_seq w inp ys zero_totals ctx \<lparr>budget = 200 - int (length xs), log = history\<rparr>"
  using recorded_prefix_skipped [of xs ctx "\<lparr>budget = 200, log = history\<rparr>" w inp ys zero_totals] assms
  by (simp add: drive_steps_def MAX_STEPS_PER_RUN_def list_all_iff)

theorem settled_steps_are_skipped_witness:
  "drive_steps ex_world [approval_step ''a'', call_step ''b'' None] [] [(''a'', JBool True)] [] =
     run_seq ex_world [] [call_step ''b'' None] zero_totals [(''a'', JBool True)] \<lparr>budget = 199, log = []\<rparr>"
  using settled_steps_are_skipped [of "[(''a'', JBool True)]" "[approval_step ''a'']" ex_world "[call_step ''b'' None]" "[]" "[]"]
  by (simp add: recorded_def approval_step_def)

text \<open>a run waits for an approval only if the approvals service filed it for one of its steps, or a
  decision escalated to it, during this drive.\<close>

theorem suspension_is_backed:
  assumes "drive_steps w steps inp ctx [] = (Inr r, c, st)" "suspended r = Some (Approval a i)"
  shows "backed w (log st) a"
  using assms unfolding drive_steps_def by (rule seq_backed)

theorem suspension_is_backed_witness:
  "\<exists>st :: drive_state. backed ex_world (log st) ''ap1''"
proof -
  obtain r c st where "drive_steps ex_world [approval_step ''a''] [] [] [] = (Inr r, c, st)"
    "suspended r = Some (Approval ''ap1'' ''a'')" using ex_suspends by blast
  then have "backed ex_world (log st) ''ap1''" by (rule suspension_is_backed)
  then show ?thesis by blast
qed

text \<open>a parallel step or a loop never suspends the run, whatever its children do: an approval inside
  one is filed, but the run goes on as if it had failed, and with \<open>onError: continue\<close> as if it had
  succeeded.\<close>

theorem parallel_and_loop_never_wait:
  assumes "s_type s \<in> {''parallel'', ''loop''}" "run_step w inp s ctx st = (Inr r, c, st')"
  shows "suspended r = None \<and> (s_onError s \<noteq> Some ''continue'' \<or> ok r)"
proof (cases "s_type s = ''parallel''")
  case True
  with assms(2) have "run_children w inp s (s_steps s) [] empty_gathered ctx st = (Inr r, c, st')"
    by (simp add: run_step_types)
  from children_outcome [OF this] show ?thesis by blast
next
  case False
  with assms have "run_items w inp s (s_steps s) (loop_items w s inp ctx) 0 [] one_step ctx st = (Inr r, c, st')"
    by (simp add: run_step_types)
  from items_outcome [OF this] show ?thesis by blast
qed

theorem parallel_and_loop_never_wait_witness:
  "\<exists>r c st. drive_steps ex_world [parallel_step ''p'' [approval_step ''a'']] [] [] [] = (Inr r, c, st) \<and> ok r"
proof -
  let ?s = "parallel_step ''p'' [approval_step ''a'']"
  obtain x c st where r: "run_step ex_world [] ?s [] (take_step \<lparr>budget = 200, log = []\<rparr>) = (x, c, st)"
    by (metis prod_cases3)
  then obtain r where x: "x = Inr r"
    by (auto simp: run_step_types run_children.simps(2) PARALLEL_CONCURRENCY_def empty_gathered_def one_step_def
        finish_parallel_def ex_simps)
  have "suspended r = None \<and> ok r"
    using parallel_and_loop_never_wait [OF _ r [unfolded x]] by (simp add: parallel_step_def)
  with r x show ?thesis
    by (simp add: drive_steps_def MAX_STEPS_PER_RUN_def run_seq.simps(2) recorded_def OBJECT_PROTOTYPE_def
        skip_step_def parallel_step_def Let_def plain_def)
qed

text \<open>a version with more than two hundred steps in its sequence never succeeds.\<close>

theorem long_sequence_never_succeeds:
  assumes "drive_steps w steps inp ctx history = (Inr r, c, st)" "length steps > 200"
  shows "\<not> ok r"
  using ok_sequence_fits assms unfolding drive_steps_def MAX_STEPS_PER_RUN_def by fastforce

theorem long_sequence_never_succeeds_witness:
  "\<exists>r c st. drive_steps ex_world (approval_step ''a'' # replicate 200 (call_step ''b'' None)) [] [] [] = (Inr r, c, st) \<and>
     \<not> ok r"
proof -
  have "\<exists>r c st. drive_steps ex_world (approval_step ''a'' # replicate 200 (call_step ''b'' None)) [] [] [] = (Inr r, c, st)"
    by (simp add: drive_steps_def MAX_STEPS_PER_RUN_def run_seq.simps(2) run_step_types ex_simps)
  with long_sequence_never_succeeds show ?thesis by fastforce
qed

text \<open>a loop leaves the context of the run as it was, and when it succeeds it has run at most a
  hundred iterations, with one result each.\<close>

theorem loop_scoped_and_bounded:
  assumes "s_type s = ''loop''" "run_step w inp s ctx st = (x, c, st')"
  shows "c = ctx \<and> (\<exists>e. x = Inl e) \<or> c = ctx \<and> (\<exists>r. x = Inr r \<and> suspended r = None \<and>
    (\<not> ok r \<or> (\<exists>us. length us \<le> 100 \<and>
       out_val r = JObj [(''results'', JArr us), (''iterations'', JNum (Fin (of_nat (length us))))])))"
proof -
  have i: "run_items w inp s (s_steps s) (loop_items w s inp ctx) 0 [] one_step ctx st = (x, c, st')"
    using assms by (simp add: run_step_types)
  show ?thesis
    using items_outcome [OF i] loop_items_bound [of w s inp ctx] by (cases x) auto
qed

theorem loop_scoped_and_bounded_witness:
  "\<exists>x st. run_step ex_world [] (loop_step ''l'' (JArr [Null]) []) [] \<lparr>budget = 200, log = []\<rparr> = (x, [], st)"
proof -
  let ?s = "loop_step ''l'' (JArr [Null]) []"
  obtain x c st where r: "run_step ex_world [] ?s [] \<lparr>budget = 200, log = []\<rparr> = (x, c, st)" by (metis prod_cases3)
  have "c = []" using loop_scoped_and_bounded [OF _ r] by (auto simp: loop_step_def)
  with r show ?thesis by blast
qed

text \<open>an adapter step is called at most \<open>retries + 1\<close> times; when it succeeds, the attempt it reports
  is the number of calls made.\<close>

theorem attempts_bounded:
  assumes "attempt_loop w k s inp ctx 1 n l st = (x, st')" "0 \<le> n"
  shows "int (calls st') \<le> int (calls st) + n \<and>
    ((\<exists>e. x = Inl e) \<or> (\<exists>out cost j. x = Inr (out, cost, j) \<and> int (calls st') = int (calls st) + j))"
  using attempts_counted [OF assms(1)] assms(2) by (cases x) auto

theorem attempts_bounded_witness:
  "\<exists>x st. attempt_loop ex_world ''internal'' (call_step ''b'' None) [] [] 1 3 [] \<lparr>budget = 200, log = []\<rparr> = (x, st) \<and>
     calls st \<le> 3"
proof -
  obtain x st where r: "attempt_loop ex_world ''internal'' (call_step ''b'' None) [] [] 1 3 [] \<lparr>budget = 200, log = []\<rparr> = (x, st)"
    by fastforce
  with attempts_bounded [OF r] show ?thesis by (auto simp: calls_def)
qed

section \<open>Observations\<close>

text \<open>A step whose id is a name every object inherits counts as recorded and is never run.\<close>

theorem inherited_name_never_runs:
  "budget st > 0 \<Longrightarrow> s_id s = ''constructor'' \<Longrightarrow>
     run_seq w inp [s] t [] st = (Inr (plain True (t_last t) None (t_steps t) (t_cost t)), [], take_step st)"
  by (simp add: run_seq.simps(2) recorded_def OBJECT_PROTOTYPE_def)

text \<open>A step that returned no output is not recorded, so a resumed run repeats it.\<close>

theorem undefined_output_not_recorded:
  "i \<notin> set OBJECT_PROTOTYPE \<Longrightarrow> \<not> recorded (put i Undef ctx) i"
  by (simp add: recorded_def)

text \<open>The item of a loop is visible to conditions, but not to the templates of its steps.\<close>

theorem loop_item_not_in_templates:
  "resolve_value str (scope inp (iteration_scope ctx v k)) (JStr ''{{$item}}'') = JStr ''{{$item}}'' \<and>
   resolve_operand [] (iteration_scope [] v k) (JStr ''{{$item}}'') = v"
proof -
  have "\<not> path_char (CHR ''$'')" by (rule dollar_not_path)
  then have m: "match_placeholder path_char ''{{$item}}'' = None"
    by (simp add: match_placeholder_def is_space_def)
  have r: "replace_all str inp' ''{{$item}}'' = ''{{$item}}''" for inp'
    using m by (simp add: match_placeholder_def)
  have "match_placeholder cond_char ''{{$item}}'' = Some (''$item'', [])"
    by (simp add: match_placeholder_def cond_char_def path_char_def is_space_def is_alnum_def is_digit_def
        is_upper_def is_lower_def)
  then have "resolve_operand [] (iteration_scope [] v k) (JStr ''{{$item}}'') = v"
    by (simp add: resolve_operand_def whole_placeholder_def readPath_def split_str_def iteration_scope_def
        merged_scope_def spread_def getp_def)
  with m r show ?thesis by (simp add: resolve_string_def whole_placeholder_def)
qed

end
