(* ===== verification/WorkflowRuns.thy ===== *)
theory WorkflowRuns
  imports WorkflowEngine
begin

text \<open>
  The life of a run in \<open>backend/src/workflows/workflow-engine.service.ts\<close>: \<open>start\<close>, \<open>resume\<close>,
  \<open>cancel\<close>, \<open>retry\<close>, and the writes of \<open>drive\<close> and \<open>failRun\<close>, on the tables of one organization.

  \<open>drive\<close> is split where it awaits: what the steps did (\<open>drive_steps\<close>) and the write of the outcome
  (\<open>settle\<close>), so that other calls may come between. New ids, times and the printing of a time are
  arguments. A table is the list of its rows by id; publishing an event appends to \<open>bus\<close>.
\<close>

section \<open>Tables\<close>

record workflow =
  w_name :: string
  w_status :: string
  activeVersionId :: "string option"
  maxConcurrentRuns :: int
  maxRetries :: int

record run =
  r_workflow :: string
  r_version :: string
  r_status :: run_status
  r_trigger :: string
  r_triggerId :: "string option"
  r_input :: obj
  r_context :: obj
  r_output :: json
  r_error :: "string option"
  r_awaiting :: "string option"
  r_current :: "string option"
  r_attempts :: int
  r_key :: "string option"
  r_cost :: number
  r_duration :: int
  r_total :: nat
  r_steps :: nat
  r_finished :: "int option"
  r_resumed :: "int option"

record approval_row =
  ap_status :: string
  ap_suggested :: json
  ap_decision :: json
  ap_decidedBy :: json
  ap_comment :: json

record dead_letter =
  dl_reference :: string
  dl_reason :: string
  dl_input :: obj
  dl_context :: obj
  dl_attempts :: int

datatype bus_event =
    RunStarted string string string
  | RunResumed string
  | RunSuspended string suspension
  | RunCompleted string nat number int
  | DeadLetterRecorded string string
  | RunFailed string string bool

record db =
  workflows :: "(string \<times> workflow) list"
  versions :: "(string \<times> step list) list"
  runs :: "(string \<times> run) list"
  approvals :: "(string \<times> approval_row) list"
  deadLetters :: "dead_letter list"
  bus :: "bus_event list"

datatype api_error = NotFound string | BadRequest string

record run_outcome =
  o_run :: string
  o_status :: run_status
  o_output :: json
  o_error :: "string option"
  o_steps :: nat
  o_total :: nat
  o_cost :: number
  o_duration :: int
  o_awaiting :: "string option"
  o_dedup :: bool

record start_options =
  so_workflow :: string
  so_input :: "obj option"
  so_trigger :: "string option"
  so_triggerId :: "string option"
  so_key :: "string option"

fun status_name :: "run_status \<Rightarrow> string" where
  "status_name PENDING = ''PENDING''" | "status_name RUNNING = ''RUNNING''"
| "status_name AWAITING_APPROVAL = ''AWAITING_APPROVAL''" | "status_name SLEEPING = ''SLEEPING''"
| "status_name SUCCEEDED = ''SUCCEEDED''" | "status_name FAILED = ''FAILED''"
| "status_name CANCELLED = ''CANCELLED''" | "status_name DEAD_LETTERED = ''DEAD_LETTERED''"
| "status_name SKIPPED = ''SKIPPED''"

definition findOrFail :: "string \<Rightarrow> (string \<times> 'a) list \<Rightarrow> api_error + 'a" where
  "findOrFail i t = (case map_of t i of None \<Rightarrow> Inl (NotFound i) | Some r \<Rightarrow> Inr r)"

definition findByIdempotencyKey :: "string \<Rightarrow> db \<Rightarrow> (string \<times> run) option" where
  "findByIdempotencyKey k d = List.find (\<lambda>(i, r). r_key r = Some k) (runs d)"

definition countActive :: "string \<Rightarrow> db \<Rightarrow> int" where
  "countActive wid d =
     int (length (filter (\<lambda>(i, r). r_workflow r = wid \<and> r_status r \<in> {PENDING, RUNNING, SLEEPING}) (runs d)))"

definition put_run :: "string \<Rightarrow> run \<Rightarrow> db \<Rightarrow> db" where
  "put_run i r d = d\<lparr>runs := put i r (runs d)\<rparr>"

definition publish :: "bus_event \<Rightarrow> db \<Rightarrow> db" where
  "publish e d = d\<lparr>bus := bus d @ [e]\<rparr>"

section \<open>The outcome of a drive\<close>

definition failRun :: "string \<Rightarrow> string \<Rightarrow> nat \<Rightarrow> number \<Rightarrow> obj \<Rightarrow> int \<Rightarrow> int \<Rightarrow> db \<Rightarrow> (api_error + run_outcome) \<times> db" where
  "failRun i err n cost ctx startedAt now d =
     (case findOrFail i (runs d) of
        Inl e \<Rightarrow> (Inl e, d)
      | Inr r \<Rightarrow>
          (case findOrFail (r_workflow r) (workflows d) of
             Inl e \<Rightarrow> (Inl e, d)
           | Inr flow \<Rightarrow>
               let exhausted = (r_attempts r \<ge> maxRetries flow + 1);
                   status = (if exhausted then DEAD_LETTERED else FAILED);
                   d1 = put_run i (r\<lparr>r_status := status, r_error := Some (take 1000 err), r_context := obj_column ctx,
                          r_steps := n, r_cost := cost, r_duration := now - startedAt, r_finished := Some now\<rparr>) d;
                   d2 = (if exhausted
                         then publish (DeadLetterRecorded i (take 200 err))
                                (d1\<lparr>deadLetters := deadLetters d1 @
                                  [\<lparr>dl_reference = i, dl_reason = take 500 err, dl_input = r_input r,
                                    dl_context = obj_column ctx, dl_attempts = r_attempts r\<rparr>]\<rparr>)
                         else d1)
               in (Inr \<lparr>o_run = i, o_status = status, o_output = Undef, o_error = Some err, o_steps = n,
                        o_total = r_total r, o_cost = cost, o_duration = now - startedAt, o_awaiting = None,
                        o_dedup = False\<rparr>,
                   publish (RunFailed i (take 300 err) exhausted) d2)))"

definition suspendRun :: "string \<Rightarrow> suspension \<Rightarrow> nat \<Rightarrow> number \<Rightarrow> obj \<Rightarrow> int \<Rightarrow> int \<Rightarrow> run \<Rightarrow> db \<Rightarrow> run_outcome \<times> db" where
  "suspendRun i sp n cost ctx startedAt now r d =
     (let st = (case sp of Approval a s \<Rightarrow> AWAITING_APPROVAL | Delay s \<Rightarrow> SLEEPING);
          ap = (case sp of Approval a s \<Rightarrow> Some a | Delay s \<Rightarrow> None) in
      (\<lparr>o_run = i, o_status = st, o_output = Undef, o_error = None, o_steps = n, o_total = r_total r,
        o_cost = cost, o_duration = now - startedAt, o_awaiting = ap, o_dedup = False\<rparr>,
       publish (RunSuspended i sp)
         (put_run i (r\<lparr>r_status := st, r_context := obj_column ctx, r_steps := n, r_cost := cost,
            r_awaiting := ap, r_current := Some (suspended_step sp)\<rparr>) d)))"

definition completeRun :: "string \<Rightarrow> json \<Rightarrow> nat \<Rightarrow> number \<Rightarrow> obj \<Rightarrow> int \<Rightarrow> int \<Rightarrow> run \<Rightarrow> db \<Rightarrow> run_outcome \<times> db" where
  "completeRun i out n cost ctx startedAt now r d =
     (let v = coalesce out (JObj ctx) in
      (\<lparr>o_run = i, o_status = SUCCEEDED, o_output = v, o_error = None, o_steps = n, o_total = r_total r,
        o_cost = cost, o_duration = now - startedAt, o_awaiting = None, o_dedup = False\<rparr>,
       publish (RunCompleted i n cost (now - startedAt))
         (put_run i (r\<lparr>r_status := SUCCEEDED, r_context := obj_column ctx, r_output := json_column v,
            r_steps := n, r_cost := cost, r_duration := now - startedAt, r_finished := Some now\<rparr>) d)))"

text \<open>The writes of \<open>drive\<close>; an error thrown by the steps reports no step and no cost.\<close>

definition settle :: "string \<Rightarrow> step_result \<Rightarrow> int \<Rightarrow> int \<Rightarrow> db \<Rightarrow> (api_error + run_outcome) \<times> db" where
  "settle i res startedAt now d =
     (case res of
        (Inl msg, ctx, st) \<Rightarrow> failRun i msg 0 (Fin 0) ctx startedAt now d
      | (Inr q, ctx, st) \<Rightarrow>
          (case findOrFail i (runs d) of
             Inl e \<Rightarrow> (Inl e, d)
           | Inr r \<Rightarrow>
               (case suspended q of
                  Some sp \<Rightarrow>
                    (case suspendRun i sp (stepsRun q) (costUsd q) ctx startedAt now r d of (o', d') \<Rightarrow> (Inr o', d'))
                | None \<Rightarrow>
                    if \<not> ok q
                    then failRun i (case error q of None \<Rightarrow> ''Workflow failed'' | Some e \<Rightarrow> e)
                           (stepsRun q) (costUsd q) ctx startedAt now d
                    else (case completeRun i (out_val q) (stepsRun q) (costUsd q) ctx startedAt now r d of
                            (o', d') \<Rightarrow> (Inr o', d')))))"

section \<open>Calls that begin a drive\<close>

text \<open>What a call hands to \<open>drive\<close>: the run, its steps, its input and the context to start from.\<close>

type_synonym pending_drive = "string \<times> step list \<times> obj \<times> obj"

definition existing_outcome :: "string \<Rightarrow> run \<Rightarrow> run_outcome" where
  "existing_outcome i r =
     \<lparr>o_run = i, o_status = r_status r, o_output = r_output r, o_error = None, o_steps = r_steps r,
      o_total = r_total r, o_cost = r_cost r, o_duration = r_duration r, o_awaiting = None, o_dedup = True\<rparr>"

definition new_run :: "string \<Rightarrow> start_options \<Rightarrow> string \<Rightarrow> step list \<Rightarrow> run" where
  "new_run wid opts vid steps =
     \<lparr>r_workflow = wid, r_version = vid, r_status = RUNNING,
      r_trigger = (case so_trigger opts of None \<Rightarrow> ''MANUAL'' | Some t \<Rightarrow> t), r_triggerId = so_triggerId opts,
      r_input = obj_column (case so_input opts of None \<Rightarrow> [] | Some m \<Rightarrow> m), r_context = [], r_output = Null,
      r_error = None, r_awaiting = None, r_current = None, r_attempts = 1, r_key = so_key opts,
      r_cost = Fin 0, r_duration = 0, r_total = countSteps steps, r_steps = 0, r_finished = None, r_resumed = None\<rparr>"

text \<open>\<open>start\<close> up to its drive: an error, the outcome of an earlier run, or a drive to do.\<close>

definition start_begin :: "start_options \<Rightarrow> string \<Rightarrow> db \<Rightarrow> (api_error + run_outcome + pending_drive) \<times> db" where
  "start_begin opts newId d =
     (case findOrFail (so_workflow opts) (workflows d) of
        Inl e \<Rightarrow> (Inl e, d)
      | Inr flow \<Rightarrow>
          if w_status flow \<noteq> ''ACTIVE''
          then (Inl (BadRequest (''Workflow '' @ quoted (w_name flow) @ '' is '' @ w_status flow @
                 ''; publish it before running'')), d)
          else case activeVersionId flow of
            None \<Rightarrow> (Inl (BadRequest (''Workflow '' @ quoted (w_name flow) @ '' has no published version'')), d)
          | Some vid \<Rightarrow>
              if vid = [] then (Inl (BadRequest (''Workflow '' @ quoted (w_name flow) @ '' has no published version'')), d)
              else case (if truthy (so_key opts) then findByIdempotencyKey (the (so_key opts)) d else None) of
                Some (i, r) \<Rightarrow> (Inr (Inl (existing_outcome i r)), d)
              | None \<Rightarrow>
                  let active = countActive (so_workflow opts) d in
                  if active \<ge> maxConcurrentRuns flow
                  then (Inl (BadRequest (''Workflow '' @ quoted (w_name flow) @ '' already has '' @ show_int active @
                         '' runs in flight (limit '' @ show_int (maxConcurrentRuns flow) @ '')'')), d)
                  else case findOrFail vid (versions d) of
                    Inl e \<Rightarrow> (Inl e, d)
                  | Inr steps \<Rightarrow>
                      let r = new_run (so_workflow opts) opts vid steps;
                          inp = (case so_input opts of None \<Rightarrow> [] | Some m \<Rightarrow> m)
                      in (Inr (Inr (newId, steps, inp, [])),
                          publish (RunStarted newId (so_workflow opts) (r_trigger r)) (put_run newId r d)))"

definition approval_entry :: "string \<Rightarrow> approval_row \<Rightarrow> json" where
  "approval_entry a row =
     JObj [(''approved'', JBool True), (''approvalId'', JStr a),
           (''decision'', coalesce (ap_suggested row) (ap_decision row)),
           (''decidedBy'', ap_decidedBy row), (''comment'', ap_comment row)]"

text \<open>The context a resumed run starts from: the suspended step is settled in it.\<close>

definition resume_context :: "(int \<Rightarrow> string) \<Rightarrow> int \<Rightarrow> run \<Rightarrow> db \<Rightarrow> api_error + obj" where
  "resume_context stamp now r d =
     (case r_current r of
        Some (c # cs) \<Rightarrow>
          (if truthy (r_awaiting r)
           then let a = the (r_awaiting r) in
             (case findOrFail a (approvals d) of
                Inl e \<Rightarrow> Inl e
              | Inr row \<Rightarrow>
                  if ap_status row \<noteq> ''APPROVED''
                  then Inl (BadRequest (''Approval '' @ quoted a @ '' is '' @ ap_status row @
                         ''; only an approved request resumes its run''))
                  else Inr (put (c # cs) (approval_entry a row) (r_context r)))
           else Inr (put (c # cs) (JObj [(''delayed'', JBool True), (''resumedAt'', JStr (stamp now))]) (r_context r)))
      | _ \<Rightarrow> Inr (r_context r))"

definition resume_begin :: "(int \<Rightarrow> string) \<Rightarrow> string \<Rightarrow> int \<Rightarrow> db \<Rightarrow> (api_error + pending_drive) \<times> db" where
  "resume_begin stamp i now d =
     (case findOrFail i (runs d) of
        Inl e \<Rightarrow> (Inl e, d)
      | Inr r \<Rightarrow>
          if r_status r \<noteq> AWAITING_APPROVAL \<and> r_status r \<noteq> SLEEPING
          then (Inl (BadRequest (''Run is '' @ status_name (r_status r) @ ''; only suspended runs can be resumed'')), d)
          else case findOrFail (r_version r) (versions d) of
            Inl e \<Rightarrow> (Inl e, d)
          | Inr steps \<Rightarrow>
              (case resume_context stamp now r d of
                 Inl e \<Rightarrow> (Inl e, d)
               | Inr ctx \<Rightarrow>
                   (Inr (i, steps, r_input r, ctx),
                    publish (RunResumed i)
                      (put_run i (r\<lparr>r_status := RUNNING, r_resumed := Some now, r_awaiting := None,
                         r_current := None, r_context := obj_column ctx\<rparr>) d))))"

definition cancel :: "string \<Rightarrow> int \<Rightarrow> db \<Rightarrow> (api_error + unit) \<times> db" where
  "cancel i now d =
     (case findOrFail i (runs d) of
        Inl e \<Rightarrow> (Inl e, d)
      | Inr r \<Rightarrow>
          if r_status r \<in> {SUCCEEDED, FAILED, CANCELLED}
          then (Inl (BadRequest (''Run is already '' @ status_name (r_status r))), d)
          else (Inr (), put_run i (r\<lparr>r_status := CANCELLED, r_finished := Some now\<rparr>) d))"

definition retry_begin :: "string \<Rightarrow> db \<Rightarrow> (api_error + pending_drive) \<times> db" where
  "retry_begin i d =
     (case findOrFail i (runs d) of
        Inl e \<Rightarrow> (Inl e, d)
      | Inr r \<Rightarrow>
          if r_status r \<noteq> FAILED \<and> r_status r \<noteq> DEAD_LETTERED
          then (Inl (BadRequest (''Only failed runs can be retried; this one is '' @ status_name (r_status r))), d)
          else case findOrFail (r_workflow r) (workflows d) of
            Inl e \<Rightarrow> (Inl e, d)
          | Inr flow \<Rightarrow>
              if r_attempts r \<ge> maxRetries flow + 1
              then (Inl (BadRequest (''Run has used all '' @ show_int (r_attempts r) @ '' attempts (limit '' @
                     show_int (maxRetries flow + 1) @ '')'')), d)
              else case findOrFail (r_version r) (versions d) of
                Inl e \<Rightarrow> (Inl e, d)
              | Inr steps \<Rightarrow>
                  (Inr (i, steps, r_input r, []),
                   put_run i (r\<lparr>r_status := RUNNING, r_attempts := r_attempts r + 1, r_error := None,
                     r_context := [], r_finished := None\<rparr>) d))"

section \<open>The calls as a whole\<close>

definition drive :: "world \<Rightarrow> int \<Rightarrow> int \<Rightarrow> pending_drive \<Rightarrow> db \<Rightarrow> (api_error + run_outcome) \<times> db" where
  "drive w startedAt now p d =
     (case p of (i, steps, inp, ctx) \<Rightarrow> settle i (drive_steps w steps inp ctx []) startedAt now d)"

definition start :: "world \<Rightarrow> int \<Rightarrow> int \<Rightarrow> start_options \<Rightarrow> string \<Rightarrow> db \<Rightarrow> (api_error + run_outcome) \<times> db" where
  "start w t0 t1 opts newId d =
     (case start_begin opts newId d of
        (Inl e, d1) \<Rightarrow> (Inl e, d1)
      | (Inr (Inl o'), d1) \<Rightarrow> (Inr o', d1)
      | (Inr (Inr p), d1) \<Rightarrow> drive w t0 t1 p d1)"

definition resume :: "world \<Rightarrow> (int \<Rightarrow> string) \<Rightarrow> int \<Rightarrow> int \<Rightarrow> string \<Rightarrow> db \<Rightarrow> (api_error + run_outcome) \<times> db" where
  "resume w stamp t0 t1 i d =
     (case resume_begin stamp i t0 d of (Inl e, d1) \<Rightarrow> (Inl e, d1) | (Inr p, d1) \<Rightarrow> drive w t0 t1 p d1)"

definition retry :: "world \<Rightarrow> int \<Rightarrow> int \<Rightarrow> string \<Rightarrow> db \<Rightarrow> (api_error + run_outcome) \<times> db" where
  "retry w t0 t1 i d =
     (case retry_begin i d of (Inl e, d1) \<Rightarrow> (Inl e, d1) | (Inr p, d1) \<Rightarrow> drive w t0 t1 p d1)"

section \<open>Interleaved calls\<close>

text \<open>
  A state: the tables, and the runs some drive is working on. A drive may settle with any result; the
  workflows stay as they are. A new id is not in use.
\<close>

type_synonym sys = "db \<times> string list"

inductive call :: "sys \<Rightarrow> sys \<Rightarrow> bool" where
  started: "start_begin opts i d = (Inr (Inr (i, p)), d') \<Longrightarrow> map_of (runs d) i = None \<Longrightarrow> call (d, ds) (d', i # ds)"
| resumed: "resume_begin stamp i now d = (Inr (i, p), d') \<Longrightarrow> call (d, ds) (d', i # ds)"
| retried: "retry_begin i d = (Inr (i, p), d') \<Longrightarrow> call (d, ds) (d', i # ds)"
| cancelled: "cancel i now d = (Inr (), d') \<Longrightarrow> call (d, ds) (d', ds)"
| settled: "i \<in> set ds \<Longrightarrow> settle i res t0 t1 d = (Inr o', d') \<Longrightarrow> call (d, ds) (d', remove1 i ds)"
| decided: "call (d, ds) (d\<lparr>approvals := as\<rparr>, ds)"

inductive_cases call_elim: "call (d, ds) (d', ds')"

inductive reachable :: "sys \<Rightarrow> bool" where
  empty: "runs d = [] \<Longrightarrow> reachable (d, [])"
| step: "reachable s \<Longrightarrow> call s s' \<Longrightarrow> reachable s'"

section \<open>Effects of the calls\<close>

lemma findOrFail_Inr: "findOrFail i t = Inr r \<longleftrightarrow> map_of t i = Some r"
  by (simp add: findOrFail_def split: option.splits)

lemma table_simps [simp]:
  "runs (put_run i r d) = put i r (runs d)" "workflows (put_run i r d) = workflows d"
  "deadLetters (put_run i r d) = deadLetters d" "approvals (put_run i r d) = approvals d"
  "runs (publish e d) = runs d" "workflows (publish e d) = workflows d"
  "deadLetters (publish e d) = deadLetters d" "approvals (publish e d) = approvals d"
  by (simp_all add: put_run_def publish_def)

lemma start_effect:
  assumes "start_begin opts newId d = (Inr (Inr (i, p)), d')"
  shows "\<exists>r. i = newId \<and> runs d' = put i r (runs d) \<and> workflows d' = workflows d \<and> deadLetters d' = deadLetters d \<and>
    r_status r = RUNNING \<and> r_attempts r = 1 \<and> r_key r = so_key opts \<and> countActive (so_workflow opts) d < maxConcurrentRuns
      (the (map_of (workflows d) (so_workflow opts))) \<and>
    (truthy (so_key opts) \<longrightarrow> findByIdempotencyKey (the (so_key opts)) d = None)"
  using assms
  by (auto simp: start_begin_def Let_def new_run_def findOrFail_Inr split: sum.splits if_splits option.splits)

lemma resume_effect:
  assumes "resume_begin stamp i0 now d = (Inr (i, p), d')"
  shows "\<exists>r r'. i = i0 \<and> map_of (runs d) i = Some r \<and> r_status r \<in> {AWAITING_APPROVAL, SLEEPING} \<and>
    runs d' = put i r' (runs d) \<and> workflows d' = workflows d \<and> deadLetters d' = deadLetters d \<and>
    r_status r' = RUNNING \<and> r_attempts r' = r_attempts r \<and> r_key r' = r_key r \<and> r_workflow r' = r_workflow r"
  using assms
  by (auto simp: resume_begin_def findOrFail_Inr split: sum.splits if_splits)

lemma retry_effect:
  assumes "retry_begin i0 d = (Inr (i, p), d')"
  shows "\<exists>r r' flow. i = i0 \<and> map_of (runs d) i = Some r \<and> r_status r \<in> {FAILED, DEAD_LETTERED} \<and>
    map_of (workflows d) (r_workflow r) = Some flow \<and> r_attempts r < maxRetries flow + 1 \<and>
    runs d' = put i r' (runs d) \<and> workflows d' = workflows d \<and> deadLetters d' = deadLetters d \<and>
    r_status r' = RUNNING \<and> r_attempts r' = r_attempts r + 1 \<and> r_key r' = r_key r \<and> r_workflow r' = r_workflow r"
  using assms
  by (auto simp: retry_begin_def findOrFail_Inr split: sum.splits if_splits)

lemma cancel_effect:
  assumes "cancel i now d = (Inr (), d')"
  shows "\<exists>r r'. map_of (runs d) i = Some r \<and> r_status r \<notin> {SUCCEEDED, FAILED, CANCELLED} \<and>
    runs d' = put i r' (runs d) \<and> workflows d' = workflows d \<and> deadLetters d' = deadLetters d \<and>
    r_status r' = CANCELLED \<and> r_attempts r' = r_attempts r \<and> r_key r' = r_key r \<and> r_workflow r' = r_workflow r"
  using assms by (auto simp: cancel_def findOrFail_Inr split: sum.splits if_splits)

text \<open>The states a drive may leave its run in, with what comes with each.\<close>

definition settled_row :: "db \<Rightarrow> string \<Rightarrow> run \<Rightarrow> run \<Rightarrow> db \<Rightarrow> bool" where
  "settled_row d i r r' d' \<longleftrightarrow>
     r_attempts r' = r_attempts r \<and> r_key r' = r_key r \<and> r_workflow r' = r_workflow r \<and>
     (r_status r' = SUCCEEDED \<or>
      r_status r' = AWAITING_APPROVAL \<and> r_awaiting r' \<noteq> None \<and> r_current r' \<noteq> None \<or>
      r_status r' = SLEEPING \<and> r_current r' \<noteq> None \<or>
      (\<exists>flow. map_of (workflows d) (r_workflow r) = Some flow \<and>
        (r_status r' = FAILED \<and> r_attempts r < maxRetries flow + 1 \<or>
         r_status r' = DEAD_LETTERED \<and> r_attempts r \<ge> maxRetries flow + 1 \<and>
         (\<exists>l \<in> set (deadLetters d'). dl_reference l = i))))"

lemma failRun_effect:
  assumes "failRun i err n cost ctx t0 t1 d = (Inr o', d')"
  shows "\<exists>r r'. map_of (runs d) i = Some r \<and> runs d' = put i r' (runs d) \<and> workflows d' = workflows d \<and>
    set (deadLetters d) \<subseteq> set (deadLetters d') \<and> settled_row d i r r' d'"
proof -
  from assms obtain r flow where r: "map_of (runs d) i = Some r" "map_of (workflows d) (r_workflow r) = Some flow"
    by (auto simp: failRun_def findOrFail_def split: option.splits)
  with assms show ?thesis
    by (auto simp: failRun_def findOrFail_def settled_row_def Let_def split: if_splits)
qed

lemma settle_effect:
  assumes "settle i res t0 t1 d = (Inr o', d')"
  shows "\<exists>r r'. map_of (runs d) i = Some r \<and> runs d' = put i r' (runs d) \<and> workflows d' = workflows d \<and>
    set (deadLetters d) \<subseteq> set (deadLetters d') \<and> settled_row d i r r' d'"
proof -
  obtain x ctx st where res: "res = (x, ctx, st)" by (metis prod_cases3)
  show ?thesis
  proof (cases x)
    case (Inl msg)
    with assms res show ?thesis by (intro failRun_effect) (auto simp: settle_def)
  next
    case (Inr q)
    with assms res obtain r where r: "map_of (runs d) i = Some r"
      by (auto simp: settle_def findOrFail_def split: option.splits)
    show ?thesis
    proof (cases "suspended q = None \<and> \<not> ok q")
      case True
      with assms res Inr r show ?thesis by (intro failRun_effect) (auto simp: settle_def findOrFail_def)
    next
      case False
      with assms res Inr r show ?thesis
        by (auto simp: settle_def findOrFail_def suspendRun_def completeRun_def Let_def settled_row_def
            split: suspension.splits option.splits)
    qed
  qed
qed

section \<open>The invariant\<close>

definition run_ok :: "db \<Rightarrow> string list \<Rightarrow> string \<Rightarrow> run \<Rightarrow> bool" where
  "run_ok d ds i r \<longleftrightarrow>
     (i \<in> set ds \<longrightarrow> r_status r \<in> {RUNNING, CANCELLED}) \<and> (r_status r = RUNNING \<longrightarrow> i \<in> set ds) \<and>
     r_status r \<notin> {PENDING, SKIPPED} \<and>
     (r_status r = AWAITING_APPROVAL \<longrightarrow> r_awaiting r \<noteq> None) \<and>
     (r_status r \<in> {AWAITING_APPROVAL, SLEEPING} \<longrightarrow> r_current r \<noteq> None) \<and> 1 \<le> r_attempts r \<and>
     (\<forall>flow. map_of (workflows d) (r_workflow r) = Some flow \<longrightarrow>
        r_attempts r \<le> max 1 (maxRetries flow + 1) \<and>
        (r_status r = FAILED \<longrightarrow> r_attempts r < maxRetries flow + 1) \<and>
        (r_status r = DEAD_LETTERED \<longrightarrow> r_attempts r \<ge> maxRetries flow + 1)) \<and>
     (r_status r = DEAD_LETTERED \<longrightarrow> (\<exists>l \<in> set (deadLetters d). dl_reference l = i))"

definition keys_once :: "db \<Rightarrow> bool" where
  "keys_once d \<longleftrightarrow> (\<forall>i j r q. map_of (runs d) i = Some r \<longrightarrow> map_of (runs d) j = Some q \<longrightarrow>
     truthy (r_key r) \<longrightarrow> r_key r = r_key q \<longrightarrow> i = j)"

definition sys_inv :: "sys \<Rightarrow> bool" where
  "sys_inv s \<longleftrightarrow> (case s of (d, ds) \<Rightarrow> distinct ds \<and> wf_obj (runs d) \<and> keys_once d \<and>
     (\<forall>i \<in> set ds. map_of (runs d) i \<noteq> None) \<and> (\<forall>i r. map_of (runs d) i = Some r \<longrightarrow> run_ok d ds i r))"

lemma sys_inv_put:
  assumes inv: "sys_inv (d, ds)" and d': "runs d' = put i r' (runs d)" "workflows d' = workflows d"
      "set (deadLetters d) \<subseteq> set (deadLetters d')"
    and ds': "distinct ds'" "\<And>j. j \<noteq> i \<Longrightarrow> j \<in> set ds' \<longleftrightarrow> j \<in> set ds"
    and ok: "run_ok d' ds' i r'"
    and k: "(\<exists>r. map_of (runs d) i = Some r \<and> r_key r = r_key r') \<or>
      (\<forall>j q. map_of (runs d) j = Some q \<longrightarrow> truthy (r_key r') \<longrightarrow> r_key q \<noteq> r_key r')"
  shows "sys_inv (d', ds')"
proof -
  have "run_ok d' ds' j q" if "j \<noteq> i" "map_of (runs d) j = Some q" for j q
    using inv that d' ds'(2) unfolding sys_inv_def run_ok_def by fastforce
  moreover have "keys_once d'"
    using inv k d'(1) unfolding sys_inv_def keys_once_def by (auto split: if_splits) metis+
  moreover have "map_of (runs d') j \<noteq> None" if "j \<in> set ds'" for j
    using that inv d'(1) ds'(2) [of j] by (cases "j = i") (auto simp: sys_inv_def)
  ultimately show ?thesis using inv d'(1) ds'(1) ok by (simp add: sys_inv_def wf_put)
qed

lemma find_key_None:
  "findByIdempotencyKey k d = None \<Longrightarrow> map_of (runs d) j = Some q \<Longrightarrow> r_key q \<noteq> Some k"
  by (auto simp: findByIdempotencyKey_def find_None_iff dest!: map_of_SomeD)

lemma settled_ok:
  assumes "run_ok d ds i r" "distinct ds" "workflows d' = workflows d" and row: "settled_row d i r r' d'"
  shows "run_ok d' (remove1 i ds) i r'"
proof -
  have base: "1 \<le> r_attempts r'" "i \<notin> set (remove1 i ds)"
    "\<And>flow. map_of (workflows d') (r_workflow r') = Some flow \<Longrightarrow> r_attempts r' \<le> max 1 (maxRetries flow + 1)"
    using assms by (auto simp: run_ok_def settled_row_def)
  from row [unfolded settled_row_def] consider
      "r_status r' = SUCCEEDED" | "r_status r' = AWAITING_APPROVAL" "r_awaiting r' \<noteq> None" "r_current r' \<noteq> None"
    | "r_status r' = SLEEPING" "r_current r' \<noteq> None"
    | flow where "map_of (workflows d') (r_workflow r') = Some flow" "r_status r' = FAILED"
        "r_attempts r' < maxRetries flow + 1"
    | flow where "map_of (workflows d') (r_workflow r') = Some flow" "r_status r' = DEAD_LETTERED"
        "r_attempts r' \<ge> maxRetries flow + 1" "\<exists>l \<in> set (deadLetters d'). dl_reference l = i"
    using assms(3) by (auto; blast)
  then show ?thesis by cases (use base in \<open>simp_all add: run_ok_def\<close>)
qed

lemma call_inv [inv_intros]: "call s s' \<Longrightarrow> sys_inv s \<Longrightarrow> sys_inv s'"
proof (induction rule: call.induct)
  case (started opts i d p d' ds)
  obtain r where r: "runs d' = put i r (runs d)" "workflows d' = workflows d" "deadLetters d' = deadLetters d"
    "r_status r = RUNNING" "r_attempts r = 1" "r_key r = so_key opts"
    "truthy (so_key opts) \<longrightarrow> findByIdempotencyKey (the (so_key opts)) d = None"
    using start_effect [OF started(1)] by blast
  have new: "i \<notin> set ds" using started(2,3) by (auto simp: sys_inv_def)
  show ?case
  proof (rule sys_inv_put [OF started(3) r(1,2)])
    show "\<And>j. j \<noteq> i \<Longrightarrow> j \<in> set (i # ds) \<longleftrightarrow> j \<in> set ds" by auto
    show "run_ok d' (i # ds) i r" using r by (auto simp: run_ok_def)
    show "(\<exists>q. map_of (runs d) i = Some q \<and> r_key q = r_key r) \<or>
        (\<forall>j q. map_of (runs d) j = Some q \<longrightarrow> truthy (r_key r) \<longrightarrow> r_key q \<noteq> r_key r)"
      using r(6,7) find_key_None by (cases "so_key opts") fastforce+
  qed (use r new started in \<open>auto simp: sys_inv_def\<close>)
next
  case (resumed stamp i now d p d' ds)
  from resume_effect [OF resumed(1)] obtain r r' where r: "map_of (runs d) i = Some r"
    "r_status r \<in> {AWAITING_APPROVAL, SLEEPING}" "runs d' = put i r' (runs d)" "workflows d' = workflows d"
    "deadLetters d' = deadLetters d" "r_status r' = RUNNING" "r_attempts r' = r_attempts r" "r_key r' = r_key r"
    "r_workflow r' = r_workflow r" by blast
  have ok: "run_ok d ds i r" "distinct ds" using resumed(2) r(1) by (auto simp: sys_inv_def)
  show ?case
    by (rule sys_inv_put [OF resumed(2) r(3,4)]) (use r ok in \<open>auto simp: run_ok_def\<close>)
next
  case (retried i d p d' ds)
  from retry_effect [OF retried(1)] obtain r r' flow where r: "map_of (runs d) i = Some r"
    "r_status r \<in> {FAILED, DEAD_LETTERED}" "map_of (workflows d) (r_workflow r) = Some flow"
    "r_attempts r < maxRetries flow + 1" "runs d' = put i r' (runs d)" "workflows d' = workflows d"
    "deadLetters d' = deadLetters d" "r_status r' = RUNNING" "r_attempts r' = r_attempts r + 1"
    "r_key r' = r_key r" "r_workflow r' = r_workflow r" by blast
  have ok: "run_ok d ds i r" "distinct ds" using retried(2) r(1) by (auto simp: sys_inv_def)
  show ?case
    by (rule sys_inv_put [OF retried(2) r(5,6)]) (use r ok in \<open>auto simp: run_ok_def\<close>)
next
  case (cancelled i now d d' ds)
  from cancel_effect [OF cancelled(1)] obtain r r' where r: "map_of (runs d) i = Some r"
    "runs d' = put i r' (runs d)" "workflows d' = workflows d" "deadLetters d' = deadLetters d"
    "r_status r' = CANCELLED" "r_attempts r' = r_attempts r" "r_key r' = r_key r" "r_workflow r' = r_workflow r" by blast
  have ok: "run_ok d ds i r" "distinct ds" using cancelled(2) r(1) by (auto simp: sys_inv_def)
  show ?case
    by (rule sys_inv_put [OF cancelled(2) r(2,3)]) (use r ok in \<open>auto simp: run_ok_def\<close>)
next
  case (settled i ds res t0 t1 d o' d')
  from settle_effect [OF settled(2)] obtain r r' where r: "map_of (runs d) i = Some r"
    "runs d' = put i r' (runs d)" "workflows d' = workflows d" "set (deadLetters d) \<subseteq> set (deadLetters d')"
    "settled_row d i r r' d'" by blast
  have ok: "run_ok d ds i r" "distinct ds" using settled(3) r(1) by (auto simp: sys_inv_def)
  show ?case
  proof (rule sys_inv_put [OF settled(3) r(2,3,4)])
    show "run_ok d' (remove1 i ds) i r'" by (rule settled_ok [OF ok r(3,5)])
    show "(\<exists>q. map_of (runs d) i = Some q \<and> r_key q = r_key r') \<or>
        (\<forall>j q. map_of (runs d) j = Some q \<longrightarrow> truthy (r_key r') \<longrightarrow> r_key q \<noteq> r_key r')"
      using r(1,5) by (simp add: settled_row_def)
  qed (use ok in simp_all)
next
  case (decided d ds as)
  have "run_ok (d\<lparr>approvals := as\<rparr>) ds i r = run_ok d ds i r" for i r by (simp add: run_ok_def)
  moreover have "keys_once (d\<lparr>approvals := as\<rparr>) = keys_once d" by (simp add: keys_once_def)
  ultimately show ?case using decided by (simp add: sys_inv_def del: map_of_eq_Some_iff)
qed

lemma reachable_inv: "reachable s \<Longrightarrow> sys_inv s"
proof (induction rule: reachable.induct)
  case (empty d)
  then show ?case by (simp add: sys_inv_def keys_once_def)
qed (rule call_inv)

lemma reachable_run_ok: "reachable (d, ds) \<Longrightarrow> map_of (runs d) i = Some r \<Longrightarrow> run_ok d ds i r"
  using reachable_inv [of "(d, ds)"] by (simp add: sys_inv_def)

section \<open>A run that is started and settles\<close>

definition ex_db :: db where
  "ex_db = \<lparr>workflows = [(''w'', \<lparr>w_name = ''mail'', w_status = ''ACTIVE'', activeVersionId = Some ''v'',
       maxConcurrentRuns = 2, maxRetries = 0\<rparr>)],
     versions = [(''v'', [approval_step ''a''])], runs = [],
     approvals = [(''ap1'', \<lparr>ap_status = ''APPROVED'', ap_suggested = Null, ap_decision = Null,
       ap_decidedBy = JStr ''u'', ap_comment = Null\<rparr>)], deadLetters = [], bus = []\<rparr>"

definition ex_opts :: start_options where
  "ex_opts = \<lparr>so_workflow = ''w'', so_input = None, so_trigger = None, so_triggerId = None, so_key = Some ''k''\<rparr>"

definition ex_started :: db where
  "ex_started = snd (start_begin ex_opts ''r1'' ex_db)"

definition ex_waiting :: step_result where
  "ex_waiting = (Inr (waiting 1 (Fin 0) (Approval ''ap1'' ''a'')), [], \<lparr>budget = 199, log = []\<rparr>)"

definition ex_settled :: "step_result \<Rightarrow> db" where
  "ex_settled res = snd (settle ''r1'' res 0 1 ex_started)"

lemma ex_begin:
  "start_begin ex_opts ''r1'' ex_db = (Inr (Inr (''r1'', [approval_step ''a''], [], [])), ex_started)"
  by (simp add: ex_started_def start_begin_def ex_db_def ex_opts_def findOrFail_def findByIdempotencyKey_def
      countActive_def Let_def)

lemma ex_row:
  "map_of (runs ex_started) ''r1'' = Some (new_run ''w'' ex_opts ''v'' [approval_step ''a''])"
  "map_of (workflows ex_started) ''w'' = Some \<lparr>w_name = ''mail'', w_status = ''ACTIVE'', activeVersionId = Some ''v'',
       maxConcurrentRuns = 2, maxRetries = 0\<rparr>"
  by (simp_all add: ex_started_def start_begin_def ex_db_def ex_opts_def findOrFail_def findByIdempotencyKey_def
      countActive_def Let_def)

lemma ex_reachable: "reachable (ex_started, [''r1''])"
proof -
  have "reachable (ex_db, [])" by (rule reachable.empty) (simp add: ex_db_def)
  moreover have "call (ex_db, []) (ex_started, [''r1''])" by (rule started [OF ex_begin]) (simp add: ex_db_def)
  ultimately show ?thesis by (rule reachable.step)
qed

lemma ex_settles:
  "\<exists>o'. settle ''r1'' ex_waiting 0 1 ex_started = (Inr o', ex_settled ex_waiting)"
  "\<exists>o'. settle ''r1'' (Inl ''boom'', [], \<lparr>budget = 199, log = []\<rparr>) 0 1 ex_started =
     (Inr o', ex_settled (Inl ''boom'', [], \<lparr>budget = 199, log = []\<rparr>))"
  by (simp_all add: ex_settled_def settle_def ex_waiting_def findOrFail_def ex_row waiting_def suspendRun_def
      failRun_def new_run_def ex_opts_def Let_def)

lemma ex_settled_reachable:
  "reachable (ex_settled ex_waiting, [])"
  "reachable (ex_settled (Inl ''boom'', [], \<lparr>budget = 199, log = []\<rparr>), [])"
proof -
  have c: "reachable (d', [])" if "settle ''r1'' res 0 1 ex_started = (Inr o', d')" for res o' d'
    using reachable.step [OF ex_reachable settled [OF _ that, of "[''r1'']"]] by simp
  show "reachable (ex_settled ex_waiting, [])" using ex_settles(1) c by blast
  show "reachable (ex_settled (Inl ''boom'', [], \<lparr>budget = 199, log = []\<rparr>), [])" using ex_settles(2) c by blast
qed

lemma ex_settled_rows:
  "\<exists>r. map_of (runs (ex_settled ex_waiting)) ''r1'' = Some r \<and> r_status r = AWAITING_APPROVAL \<and>
     r_awaiting r = Some ''ap1'' \<and> r_current r = Some ''a'' \<and> r_version r = ''v'' \<and> r_context r = [] \<and> r_key r = Some ''k''"
  "\<exists>r. map_of (runs (ex_settled (Inl ''boom'', [], \<lparr>budget = 199, log = []\<rparr>))) ''r1'' = Some r \<and>
     r_status r = DEAD_LETTERED"
  by (simp_all add: ex_settled_def settle_def ex_waiting_def findOrFail_def ex_row waiting_def suspendRun_def
      failRun_def new_run_def ex_opts_def Let_def obj_column_def)

section \<open>Properties\<close>



text \<open>a run that has succeeded is never changed again by any call.\<close>

theorem success_is_final:
  assumes "reachable (d, ds)" "map_of (runs d) i = Some r" "r_status r = SUCCEEDED" "call (d, ds) (d', ds')"
  shows "map_of (runs d') i = Some r"
proof -
  have ok: "run_ok d ds i r" using reachable_run_ok assms(1,2) .
  then have "i \<notin> set ds" using assms(3) by (auto simp: run_ok_def)
  with assms(4,2,3) show ?thesis
    by (cases rule: call.cases)
      (auto dest!: start_effect resume_effect retry_effect cancel_effect settle_effect split: if_splits)
qed

theorem success_is_final_witness:
  "\<exists>d d'. reachable (d, []) \<and> call (d, []) (d', []) \<and> (\<exists>r. map_of (runs d') ''r1'' = Some r \<and> r_status r = SUCCEEDED)"
proof -
  let ?res = "(Inr (plain True Null None 1 (Fin 0)), [], \<lparr>budget = 199, log = []\<rparr>)"
  obtain o' where s: "settle ''r1'' ?res 0 1 ex_started = (Inr o', ex_settled ?res)"
    by (simp add: ex_settled_def settle_def findOrFail_def ex_row plain_def completeRun_def new_run_def ex_opts_def Let_def)
  have "reachable (ex_settled ?res, [])"
    using reachable.step [OF ex_reachable settled [OF _ s, of "[''r1'']"]] by simp
  moreover obtain r where r: "map_of (runs (ex_settled ?res)) ''r1'' = Some r" "r_status r = SUCCEEDED"
    by (simp add: ex_settled_def settle_def findOrFail_def ex_row plain_def completeRun_def new_run_def ex_opts_def Let_def)
  moreover have c: "call (ex_settled ?res, []) ((ex_settled ?res)\<lparr>approvals := []\<rparr>, [])" by (rule decided)
  ultimately show ?thesis using success_is_final [OF _ r(1,2) c] r(2) c by blast
qed

text \<open>a dead-lettered run is never retried; a failed one always can be, as long as its workflow and
  its version exist.\<close>

theorem retry_decided_by_status:
  assumes "reachable (d, ds)" "map_of (runs d) i = Some r" "map_of (workflows d) (r_workflow r) = Some flow"
    and "map_of (versions d) (r_version r) = Some steps" "r_status r \<in> {FAILED, DEAD_LETTERED}"
  shows "if r_status r = DEAD_LETTERED then \<exists>e. retry_begin i d = (Inl (BadRequest e), d)
    else \<exists>d'. retry_begin i d = (Inr (i, steps, r_input r, []), d')"
  using reachable_run_ok [OF assms(1,2)] assms(2-5)
  by (auto simp: run_ok_def retry_begin_def findOrFail_def)

theorem retry_decided_by_status_witness:
  "\<exists>e. retry_begin ''r1'' (ex_settled (Inl ''boom'', [], \<lparr>budget = 199, log = []\<rparr>)) =
     (Inl (BadRequest e), ex_settled (Inl ''boom'', [], \<lparr>budget = 199, log = []\<rparr>))"
proof -
  let ?d = "ex_settled (Inl ''boom'', [], \<lparr>budget = 199, log = []\<rparr>)"
  obtain r where r: "map_of (runs ?d) ''r1'' = Some r" "r_status r = DEAD_LETTERED" "r_workflow r = ''w''" "r_version r = ''v''"
    by (simp add: ex_settled_def settle_def findOrFail_def ex_row failRun_def new_run_def ex_opts_def Let_def)
  have "map_of (workflows ?d) ''w'' \<noteq> None" "map_of (versions ?d) ''v'' \<noteq> None"
    by (simp_all add: ex_settled_def settle_def findOrFail_def ex_row failRun_def new_run_def ex_opts_def Let_def
        put_run_def publish_def)
      (simp add: ex_started_def start_begin_def ex_db_def ex_opts_def findOrFail_def findByIdempotencyKey_def
        countActive_def Let_def put_run_def publish_def)
  then obtain flow steps where "map_of (workflows ?d) ''w'' = Some flow" "map_of (versions ?d) ''v'' = Some steps" by blast
  then show ?thesis
    using retry_decided_by_status [OF ex_settled_reachable(2) r(1)] r(2-4) by simp
qed

text \<open>C27: resuming a run that waits for an approval succeeds only once that approval is approved, and the
  drive it begins starts from a context in which the waiting step is recorded, so it is not run again.\<close>

theorem resume_needs_approval:
  assumes "resume_begin stamp i now d = (Inr (i', steps, inp, ctx), d')" "map_of (runs d) i = Some r"
    and "r_current r = Some c" "c \<noteq> []"
  shows "recorded ctx c \<and> (r_awaiting r = None \<or> r_awaiting r = Some [] \<or>
    (\<exists>a row. r_awaiting r = Some a \<and> map_of (approvals d) a = Some row \<and> ap_status row = ''APPROVED''))"
proof -
  obtain x xs where c: "c = x # xs" using assms(4) by (cases c) auto
  have "resume_context stamp now r d = Inr ctx"
    using assms(1,2) by (auto simp: resume_begin_def findOrFail_Inr split: sum.splits if_splits)
  then have f: "resume_context stamp now r d = Inr ctx" "r_current r = Some (x # xs)" using assms(3) c by auto
  show ?thesis
  proof (cases "truthy (r_awaiting r)")
    case True
    then obtain a where a: "r_awaiting r = Some a" by (cases "r_awaiting r") auto
    with f True obtain row where "map_of (approvals d) a = Some row" "ap_status row = ''APPROVED''"
      "ctx = put (x # xs) (approval_entry a row) (r_context r)"
      by (auto simp: resume_context_def findOrFail_Inr split: sum.splits if_splits)
    with a c show ?thesis by (auto simp: recorded_def approval_entry_def)
  next
    case False
    then have "r_awaiting r = None \<or> r_awaiting r = Some []" by (cases "r_awaiting r") auto
    moreover have "recorded ctx c" using f False c by (auto simp: resume_context_def recorded_def)
    ultimately show ?thesis by blast
  qed
qed

theorem resume_needs_approval_witness:
  "\<exists>ctx d'. resume_begin (\<lambda>t. []) ''r1'' 2 (ex_settled ex_waiting) = (Inr (''r1'', [approval_step ''a''], [], ctx), d') \<and>
     recorded ctx ''a''"
proof -
  let ?d = "ex_settled ex_waiting"
  obtain ctx d' where r: "resume_begin (\<lambda>t. []) ''r1'' 2 ?d = (Inr (''r1'', [approval_step ''a''], [], ctx), d')"
    by (simp add: ex_settled_def settle_def ex_waiting_def findOrFail_def ex_row waiting_def suspendRun_def new_run_def
        ex_opts_def Let_def resume_begin_def put_run_def publish_def obj_column_def)
      (simp add: resume_context_def ex_started_def new_run_def start_begin_def ex_db_def ex_opts_def findOrFail_def findByIdempotencyKey_def
        countActive_def Let_def put_run_def publish_def)
  obtain row where "map_of (runs ?d) ''r1'' = Some row" "r_current row = Some ''a''" using ex_settled_rows(1) by blast
  with resume_needs_approval [OF r] r show ?thesis by blast
qed

text \<open>starting with a key some run already has starts nothing: the tables stay as they are and the
  outcome is that of a run with this key.\<close>

theorem repeated_key_starts_nothing:
  assumes "map_of (workflows d) (so_workflow opts) = Some flow" "w_status flow = ''ACTIVE''"
    and "activeVersionId flow = Some vid" "vid \<noteq> []" "so_key opts = Some k" "k \<noteq> []"
    and "map_of (runs d) j = Some q" "r_key q = Some k"
  shows "\<exists>i r. (i, r) \<in> set (runs d) \<and> r_key r = Some k \<and> start w t0 t1 opts newId d = (Inr (existing_outcome i r), d)"
proof -
  have "findByIdempotencyKey k d \<noteq> None" using find_key_None assms(7,8) by blast
  then obtain i r where f: "findByIdempotencyKey k d = Some (i, r)" by auto
  then have "(i, r) \<in> set (runs d) \<and> r_key r = Some k"
    by (auto simp: findByIdempotencyKey_def find_Some_iff) (metis nth_mem)
  moreover have "start_begin opts newId d = (Inr (Inl (existing_outcome i r)), d)"
    using assms f by (simp add: start_begin_def findOrFail_def)
  then have "start w t0 t1 opts newId d = (Inr (existing_outcome i r), d)" by (simp add: start_def)
  ultimately show ?thesis by blast
qed

theorem repeated_key_starts_nothing_witness:
  "snd (start ex_world 0 1 ex_opts ''r2'' ex_started) = ex_started"
proof -
  have k: "r_key (new_run ''w'' ex_opts ''v'' [approval_step ''a'']) = Some ''k''" by (simp add: new_run_def ex_opts_def)
  have "\<exists>i r. (i, r) \<in> set (runs ex_started) \<and> r_key r = Some ''k'' \<and>
      start ex_world 0 1 ex_opts ''r2'' ex_started = (Inr (existing_outcome i r), ex_started)"
    by (rule repeated_key_starts_nothing [OF _ _ _ _ _ _ ex_row(1) k, where vid = "''v''" and
        flow = "\<lparr>w_name = ''mail'', w_status = ''ACTIVE'', activeVersionId = Some ''v'', maxConcurrentRuns = 2, maxRetries = 0\<rparr>"])
      (use ex_row(2) in \<open>simp_all add: ex_opts_def\<close>)
  then show ?thesis by auto
qed

section \<open>Observations\<close>

text \<open>A run cancelled while a drive is under way is overwritten by the outcome of the drive.\<close>

theorem cancel_is_overwritten:
  "\<exists>d1 d2 o'. cancel ''r1'' 5 ex_started = (Inr (), d1) \<and>
     settle ''r1'' (Inr (plain True Null None 1 (Fin 0)), [], \<lparr>budget = 199, log = []\<rparr>) 0 9 d1 = (Inr o', d2) \<and>
     map_option r_status (map_of (runs d1) ''r1'') = Some CANCELLED \<and>
     map_option r_status (map_of (runs d2) ''r1'') = Some SUCCEEDED"
  by (simp add: cancel_def settle_def findOrFail_def ex_row plain_def completeRun_def new_run_def ex_opts_def Let_def)

text \<open>A dead-lettered run can be cancelled, which a failed one cannot.\<close>

theorem dead_letter_can_be_cancelled:
  "map_of (runs d) i = Some r \<Longrightarrow> r_status r = DEAD_LETTERED \<Longrightarrow> fst (cancel i now d) = Inr ()"
  by (simp add: cancel_def findOrFail_def)

end
