(* ===== verification/Simulation.thy ===== *)
theory Simulation
  imports Prelude
begin

text \<open>
  Sequences of operations on a component's state, and the two contracts the components are
  proved against: an invariant that every operation keeps, and an abstract specification that
  every operation simulates.
\<close>

section \<open>Sequences of operations\<close>

text \<open>An operation answers and yields the next state.\<close>

fun run_ops :: "('p \<Rightarrow> 'c \<Rightarrow> 'r \<times> 'c) \<Rightarrow> 'p list \<Rightarrow> 'c \<Rightarrow> 'r list \<times> 'c" where
  "run_ops f [] c = ([], c)"
| "run_ops f (p # ps) c =
     (case f p c of (r, c1) \<Rightarrow> (case run_ops f ps c1 of (rs, c2) \<Rightarrow> (r # rs, c2)))"

text \<open>The same for a specification given as a relation.\<close>

inductive spec_run :: "('p \<Rightarrow> 'a \<Rightarrow> 'r \<Rightarrow> 'a \<Rightarrow> bool) \<Rightarrow> 'p list \<Rightarrow> 'a \<Rightarrow> 'r list \<Rightarrow> 'a \<Rightarrow> bool"
  for spec where
  nothing: "spec_run spec [] a [] a"
| step: "spec p a r a1 \<Longrightarrow> spec_run spec ps a1 rs a2 \<Longrightarrow> spec_run spec (p # ps) a (r # rs) a2"

inductive_cases spec_runE: "spec_run spec (p # ps) a rs a2"

lemma run_ops_append:
  "run_ops f (ps @ qs) c =
     (case run_ops f ps c of (rs, c1) \<Rightarrow> (case run_ops f qs c1 of (ss, c2) \<Rightarrow> (rs @ ss, c2)))"
  by (induction ps arbitrary: c) (auto split: prod.splits)

lemma length_run_ops: "length (fst (run_ops f ps c)) = length ps"
  by (induction ps arbitrary: c) (auto simp: split_beta)

section \<open>Invariants\<close>

locale kept =
  fixes inv :: "'c \<Rightarrow> bool" and f :: "'p \<Rightarrow> 'c \<Rightarrow> 'r \<times> 'c" and ok :: "'p \<Rightarrow> bool"
  assumes kept_step: "inv c \<Longrightarrow> ok p \<Longrightarrow> inv (snd (f p c))"
begin

lemma kept_run: "inv c \<Longrightarrow> \<forall>p \<in> set ps. ok p \<Longrightarrow> inv (snd (run_ops f ps c))"
proof (induction ps arbitrary: c)
  case (Cons p ps)
  from Cons.prems have "inv (snd (f p c))" by (simp add: kept_step)
  from Cons.IH [OF this] Cons.prems show ?case by (simp add: split_beta)
qed simp

end

section \<open>Simulation of a specification\<close>

locale simulation =
  fixes rel :: "'c \<Rightarrow> 'a \<Rightarrow> bool" and f :: "'p \<Rightarrow> 'c \<Rightarrow> 'r \<times> 'c"
    and spec :: "'p \<Rightarrow> 'a \<Rightarrow> 'r \<Rightarrow> 'a \<Rightarrow> bool" and ok :: "'p \<Rightarrow> bool"
  assumes simulates: "rel c a \<Longrightarrow> ok p \<Longrightarrow> \<exists>a'. spec p a (fst (f p c)) a' \<and> rel (snd (f p c)) a'"
begin

lemma run_simulates:
  "rel c a \<Longrightarrow> \<forall>p \<in> set ps. ok p \<Longrightarrow>
   \<exists>a'. spec_run spec ps a (fst (run_ops f ps c)) a' \<and> rel (snd (run_ops f ps c)) a'"
proof (induction ps arbitrary: c a)
  case Nil
  then show ?case by (auto intro: spec_run.nothing)
next
  case (Cons p ps)
  obtain r c1 where rc: "f p c = (r, c1)" by (cases "f p c")
  obtain rs c2 where rs: "run_ops f ps c1 = (rs, c2)" by (cases "run_ops f ps c1")
  from simulates [of c a p] Cons.prems rc obtain a1 where 1: "spec p a r a1" "rel c1 a1" by auto
  from Cons.IH [OF 1(2)] Cons.prems rs obtain a2 where "spec_run spec ps a1 rs a2" "rel c2 a2"
    by auto
  with 1 rc rs show ?case by (auto intro: spec_run.step)
qed

end

end
