(* ===== verification/BoundedMap.thy ===== *)
theory BoundedMap
  imports Simulation
begin

text \<open>
  The least-recently-used map of \<open>src/backend/src/shared/bounded-map.ts\<close> that the platform's
  caches are built on: its operations on the insertion-ordered entries, its bounds, and its
  refinement of an abstract cache in which every entry carries the time of its last use.

  A value is an option, \<open>None\<close> for a stored \<open>undefined\<close>. Limits and weights are
  integers, added exactly. The eviction callback is modelled by the sequence of its calls; a
  callback that throws or that calls the map again is not modelled.
\<close>

section \<open>The map\<close>

record ('k, 'v) bounded_map =
  entries :: "('k \<times> 'v option) list"
  weight :: int
  evictions :: nat
  limit :: int
  weigh :: "('v option \<Rightarrow> int) option"
  on_evict :: "('k \<times> 'v option) list"

definition new_bounded :: "int \<Rightarrow> ('v option \<Rightarrow> int) option \<Rightarrow> ('k, 'v) bounded_map result" where
  "new_bounded lim w =
     (if lim < 1 then Inl ''A bounded map needs room for at least one entry''
      else Inr \<lparr>entries = [], weight = 0, evictions = 0, limit = lim, weigh = w, on_evict = []\<rparr>)"

definition size_of :: "('k, 'v) bounded_map \<Rightarrow> nat" where
  "size_of m = length (entries m)"

definition load :: "('k, 'v) bounded_map \<Rightarrow> int" where
  "load m = (case weigh m of Some w \<Rightarrow> weight m | None \<Rightarrow> int (size_of m))"

definition weight_of :: "('k, 'v) bounded_map \<Rightarrow> 'v option \<Rightarrow> int" where
  "weight_of m v = (case weigh m of Some w \<Rightarrow> w v | None \<Rightarrow> 0)"

definition has :: "'k \<Rightarrow> ('k, 'v) bounded_map \<Rightarrow> bool" where
  "has k m \<longleftrightarrow> map_of (entries m) k \<noteq> None"

text \<open>\<open>this.entries.get(k)\<close>: \<open>undefined\<close> both for an absent key and for a stored \<open>undefined\<close>.\<close>

definition existing_value :: "'k \<Rightarrow> ('k, 'v) bounded_map \<Rightarrow> 'v option" where
  "existing_value k m = (case map_of (entries m) k of Some v \<Rightarrow> v | None \<Rightarrow> None)"

definition get :: "'k \<Rightarrow> ('k, 'v) bounded_map \<Rightarrow> 'v option \<times> ('k, 'v) bounded_map" where
  "get k m =
     (if \<not> has k m then (None, m)
      else let v = existing_value k m in (v, m\<lparr>entries := put k v (del k (entries m))\<rparr>))"

text \<open>One round of the loop of \<open>evict\<close>, and the loop.\<close>

definition drop_oldest :: "('k, 'v) bounded_map \<Rightarrow> ('k, 'v) bounded_map" where
  "drop_oldest m =
     (case entries m of
        [] \<Rightarrow> m
      | (k, v) # es \<Rightarrow>
          m\<lparr>entries := es, weight := weight m - weight_of m v, evictions := evictions m + 1,
            on_evict := on_evict m @ [(k, v)]\<rparr>)"

function evict :: "('k, 'v) bounded_map \<Rightarrow> ('k, 'v) bounded_map" where
  "evict m = (if load m > limit m \<and> size_of m > 1 then evict (drop_oldest m) else m)"
  by pat_completeness auto
termination
  by (relation "measure size_of") (auto simp: drop_oldest_def size_of_def split: list.splits)

declare evict.simps [simp del]

lemma evict_rounds:
  "load m > limit m \<Longrightarrow> size_of m > 1 \<Longrightarrow> evict m = evict (drop_oldest m)"
  "load m \<le> limit m \<Longrightarrow> evict m = m"
  "size_of m \<le> 1 \<Longrightarrow> evict m = m"
  by (simp_all add: evict.simps [of m])

definition set_entry :: "'k \<Rightarrow> 'v option \<Rightarrow> ('k, 'v) bounded_map \<Rightarrow> ('k, 'v) bounded_map" where
  "set_entry k v m =
     (let old = existing_value k m;
          m1 = (if old \<noteq> None
                then m\<lparr>weight := weight m - weight_of m old, entries := del k (entries m)\<rparr> else m)
      in evict (m1\<lparr>entries := put k v (entries m1), weight := weight m1 + weight_of m1 v\<rparr>))"

definition delete :: "'k \<Rightarrow> ('k, 'v) bounded_map \<Rightarrow> bool \<times> ('k, 'v) bounded_map" where
  "delete k m =
     (case existing_value k m of
        None \<Rightarrow> (has k m, m\<lparr>entries := del k (entries m)\<rparr>)
      | Some x \<Rightarrow>
          (has k m, m\<lparr>weight := weight m - weight_of m (Some x), entries := del k (entries m)\<rparr>))"

definition clear :: "('k, 'v) bounded_map \<Rightarrow> ('k, 'v) bounded_map" where
  "clear m = m\<lparr>entries := [], weight := 0\<rparr>"

definition keys_of :: "('k, 'v) bounded_map \<Rightarrow> 'k list" where
  "keys_of m = keys (entries m)"

definition values_of :: "('k, 'v) bounded_map \<Rightarrow> 'v option list" where
  "values_of m = map snd (entries m)"

text \<open>The operations as data, with what they return.\<close>

datatype ('k, 'v) cache_op = Get 'k | Has 'k | Set 'k "'v option" | Delete 'k | Clear

datatype 'v answer = Value "'v option" | Flag bool | Unit

fun apply_op :: "('k, 'v) cache_op \<Rightarrow> ('k, 'v) bounded_map \<Rightarrow> 'v answer \<times> ('k, 'v) bounded_map" where
  "apply_op (Get k) m = (case get k m of (v, m') \<Rightarrow> (Value v, m'))"
| "apply_op (Has k) m = (Flag (has k m), m)"
| "apply_op (Set k v) m = (Unit, set_entry k v m)"
| "apply_op (Delete k) m = (case delete k m of (b, m') \<Rightarrow> (Flag b, m'))"
| "apply_op Clear m = (Unit, clear m)"

text \<open>An operation that stores a defined value, the only use the platform makes of \<open>set\<close>.\<close>

fun stores_defined :: "('k, 'v) cache_op \<Rightarrow> bool" where
  "stores_defined (Set k v) \<longleftrightarrow> v \<noteq> None"
| "stores_defined _ \<longleftrightarrow> True"

section \<open>The invariant\<close>

text \<open>
  Keys occur once, no stored value is \<open>undefined\<close>, and the running weight is the weight of what
  is held. \<open>within\<close> is the bound: the load respects the limit unless a single entry exceeds it.
\<close>

definition held :: "('k, 'v) bounded_map \<Rightarrow> int" where
  "held m = sum_list (map (weight_of m \<circ> snd) (entries m))"

definition wf_cache :: "('k, 'v) bounded_map \<Rightarrow> bool" where
  "wf_cache m \<longleftrightarrow> wf_obj (entries m) \<and> None \<notin> snd ` set (entries m) \<and> weight m = held m \<and> 1 \<le> limit m"

definition within :: "('k, 'v) bounded_map \<Rightarrow> bool" where
  "within m \<longleftrightarrow> load m \<le> limit m \<or> size_of m \<le> 1"

definition weights_nonneg :: "('v option \<Rightarrow> int) option \<Rightarrow> bool" where
  "weights_nonneg w \<longleftrightarrow> (\<forall>f. w = Some f \<longrightarrow> (\<forall>v. 0 \<le> f v))"

lemma held_eq: "held m = sum_list (map (weight_of m \<circ> snd) (entries m))"
  by (simp add: held_def)

lemma weight_of_update [simp]:
  "weight_of (m\<lparr>entries := es\<rparr>) = weight_of m" "weight_of (m\<lparr>weight := x\<rparr>) = weight_of m"
  "weight_of (m\<lparr>evictions := n\<rparr>) = weight_of m" "weight_of (m\<lparr>on_evict := l\<rparr>) = weight_of m"
  by (simp_all add: weight_of_def fun_eq_iff)

lemma weight_of_nonneg: "weights_nonneg (weigh m) \<Longrightarrow> 0 \<le> weight_of m v"
  by (auto simp: weights_nonneg_def weight_of_def split: option.split)

lemma sum_del:
  assumes "wf_obj es" and "map_of es k = Some v"
  shows "sum_list (map (g \<circ> snd) (del k es)) = sum_list (map (g \<circ> snd) es) - (g v :: int)"
  using assms
proof (induction es)
  case (Cons e es)
  obtain k' v' where e: "e = (k', v')" by (cases e)
  show ?case
  proof (cases "k' = k")
    case True
    with Cons.prems e have "k \<notin> set (keys es)" by simp
    then have "del k es = es" by (auto simp: del_def filter_id_conv)
    with True Cons.prems e show ?thesis by (simp add: del_def)
  next
    case False
    with Cons e show ?thesis by (simp add: del_def)
  qed
qed simp

lemma del_absent: "k \<notin> fst ` set es \<Longrightarrow> del k es = es"
  by (auto simp: del_def filter_id_conv)

lemma put_del [simp]: "put k v (del k es) = del k es @ [(k, v)]"
  by (rule put_new) (auto simp: del_def)

lemma set_del: "set (del k es) = {e \<in> set es. fst e \<noteq> k}"
  by (auto simp: del_def)

text \<open>What \<open>drop_oldest\<close> and \<open>evict\<close> leave alone, and that they keep the invariant.\<close>

lemma drop_oldest_simps [simp]:
  "limit (drop_oldest m) = limit m" "weigh (drop_oldest m) = weigh m"
  "entries (drop_oldest m) = tl (entries m)"
  by (auto simp: drop_oldest_def split: list.split)

lemma wf_drop_oldest: "wf_cache m \<Longrightarrow> wf_cache (drop_oldest m)"
  by (cases "entries m")
    (auto simp: wf_cache_def held_def drop_oldest_def)

lemma evict_simps [simp]: "limit (evict m) = limit m" "weigh (evict m) = weigh m"
proof (induction m rule: evict.induct)
  case (1 m)
  { case 1
    from "1.IH"(1) show ?case by (subst evict.simps) auto }
  { case 2
    from "1.IH"(2) show ?case by (subst evict.simps) auto }
qed

lemma wf_evict: "wf_cache m \<Longrightarrow> wf_cache (evict m)"
proof (induction m rule: evict.induct)
  case (1 m)
  then show ?case by (subst evict.simps) (auto intro: wf_drop_oldest)
qed

lemma evict_bounded: "load (evict m) \<le> limit m \<or> size_of (evict m) \<le> 1"
proof (induction m rule: evict.induct)
  case (1 m)
  then show ?case by (subst (1 2) evict.simps) auto
qed

lemma evict_suffix: "\<exists>n. entries (evict m) = drop n (entries m)"
proof (induction m rule: evict.induct)
  case (1 m)
  show ?case
  proof (cases "load m > limit m \<and> size_of m > 1")
    case True
    with 1 obtain n where "entries (evict (drop_oldest m)) = drop n (tl (entries m))" by auto
    then have "entries (evict m) = drop (Suc n) (entries m)"
      using True by (subst evict.simps) (simp add: drop_Suc)
    then show ?thesis ..
  next
    case False
    then have "entries (evict m) = drop 0 (entries m)" by (subst evict.simps) auto
    then show ?thesis ..
  qed
qed

lemma evict_nonempty: "entries m \<noteq> [] \<Longrightarrow> entries (evict m) \<noteq> []"
proof (induction m rule: evict.induct)
  case (1 m)
  show ?case
  proof (cases "load m > limit m \<and> size_of m > 1")
    case True
    then have "tl (entries m) \<noteq> []" by (cases "entries m") (auto simp: size_of_def)
    with 1 True show ?thesis by (subst evict.simps) auto
  next
    case False
    with 1 show ?thesis by (subst evict.simps) auto
  qed
qed

text \<open>The newest entry survives.\<close>

lemma evict_keeps_last: "entries m \<noteq> [] \<Longrightarrow> last (entries (evict m)) = last (entries m)"
  using evict_suffix [of m] evict_nonempty [of m] by (metis last_drop drop_eq_Nil not_le)

section \<open>The operations keep the invariant\<close>

lemma has_iff: "has k m \<longleftrightarrow> k \<in> fst ` set (entries m)"
  by (simp add: has_def map_of_eq_None_iff)

lemma wf_entry:
  assumes "wf_cache m" and "has k m"
  obtains x where "map_of (entries m) k = Some (Some x)" and "existing_value k m = Some x"
proof -
  from assms(2) obtain v where v: "map_of (entries m) k = Some v" by (auto simp: has_def)
  then have "v \<in> snd ` set (entries m)" by (force dest: map_of_SomeD)
  with assms(1) obtain x where "v = Some x" by (cases v) (auto simp: wf_cache_def)
  with v that show thesis by (simp add: existing_value_def)
qed

lemma absent: "\<not> has k m \<Longrightarrow> existing_value k m = None" "\<not> has k m \<Longrightarrow> map_of (entries m) k = None"
  by (simp_all add: existing_value_def has_def)

lemma length_del: "wf_obj es \<Longrightarrow> k \<in> fst ` set es \<Longrightarrow> Suc (length (del k es)) = length es"
proof (induction es)
  case (Cons e es)
  show ?case
  proof (cases "fst e = k")
    case True
    with Cons.prems have "k \<notin> fst ` set es" by simp
    then have "del k es = es" by (rule del_absent)
    moreover have "del k (e # es) = del k es" using True by (simp add: del_def)
    ultimately show ?thesis by simp
  next
    case False
    with Cons show ?thesis by (simp add: del_def)
  qed
qed simp

lemma held_del:
  assumes "wf_cache m" and "has k m"
  shows "sum_list (map (weight_of m \<circ> snd) (del k (entries m))) = weight m - weight_of m (existing_value k m)"
proof -
  from wf_entry [OF assms] obtain x
    where x: "map_of (entries m) k = Some (Some x)" "existing_value k m = Some x" .
  from assms have "wf_obj (entries m)" and "weight m = sum_list (map (weight_of m \<circ> snd) (entries m))"
    by (auto simp: wf_cache_def held_def)
  with sum_del [of "entries m" k "Some x" "weight_of m"] x show ?thesis by simp
qed

lemma wf_get:
  assumes "wf_cache m"
  shows "wf_cache (snd (get k m))"
proof (cases "has k m")
  case True
  from wf_entry [OF assms True] have "existing_value k m \<noteq> None" by blast
  with True assms held_del [OF assms True] show ?thesis
    by (auto simp: get_def wf_cache_def held_def set_del Let_def)

qed (use assms in \<open>simp add: get_def\<close>)

text \<open>With defined values stored, \<open>set\<close> moves or appends the entry and then evicts.\<close>

definition placed :: "'k \<Rightarrow> 'v option \<Rightarrow> ('k, 'v) bounded_map \<Rightarrow> ('k, 'v) bounded_map" where
  "placed k v m =
     m\<lparr>entries := del k (entries m) @ [(k, v)],
       weight := sum_list (map (weight_of m \<circ> snd) (del k (entries m))) + weight_of m v\<rparr>"

lemma placed_simps [simp]:
  "limit (placed k v m) = limit m" "weigh (placed k v m) = weigh m"
  "entries (placed k v m) = del k (entries m) @ [(k, v)]"
  "weight_of (placed k v m) = weight_of m"
  by (simp_all add: placed_def)

lemma set_entry_placed: "wf_cache m \<Longrightarrow> set_entry k v m = evict (placed k v m)"
proof (cases "has k m")
  case True
  assume wf: "wf_cache m"
  from wf_entry [OF wf True] have "existing_value k m \<noteq> None" by blast
  with held_del [OF wf True] show ?thesis by (simp add: set_entry_def placed_def Let_def)
next
  case False
  assume wf: "wf_cache m"
  from False have del: "del k (entries m) = entries m" by (simp add: del_absent has_iff)
  from False wf have "existing_value k m = None" by (simp add: absent)
  moreover have "put k v (entries m) = entries m @ [(k, v)]"
    using False by (simp add: put_new has_iff)
  moreover have "weight m = sum_list (map (weight_of m \<circ> snd) (entries m))"
    using wf by (simp add: wf_cache_def held_def)
  ultimately show ?thesis using del by (simp add: set_entry_def placed_def Let_def)
qed

lemma wf_placed: "wf_cache m \<Longrightarrow> v \<noteq> None \<Longrightarrow> wf_cache (placed k v m)"
  by (auto simp: wf_cache_def held_def placed_def set_del)

lemma wf_delete: "wf_cache m \<Longrightarrow> wf_cache (snd (delete k m))"
proof (cases "has k m")
  case True
  assume wf: "wf_cache m"
  from wf_entry [OF wf True] have "existing_value k m \<noteq> None" by blast
  with held_del [OF wf True] wf show ?thesis
    by (auto simp: delete_def wf_cache_def held_def set_del split: option.split)
next
  case False
  assume wf: "wf_cache m"
  from False have "del k (entries m) = entries m" by (simp add: del_absent has_iff)
  with False wf show ?thesis by (simp add: delete_def absent)
qed

lemma wf_clear: "wf_cache m \<Longrightarrow> wf_cache (clear m)"
  by (simp add: wf_cache_def held_def clear_def)

lemma wf_apply_op: "wf_cache m \<Longrightarrow> stores_defined p \<Longrightarrow> wf_cache (snd (apply_op p m))"
  by (cases p)
    (auto simp: split_beta set_entry_placed wf_clear intro: wf_get wf_delete wf_evict wf_placed)

text \<open>What is fixed at construction.\<close>

lemma limit_apply_op [simp]:
  "limit (snd (apply_op p m)) = limit m" "weigh (snd (apply_op p m)) = weigh m"
  by (cases p; simp add: split_beta get_def set_entry_def delete_def clear_def Let_def split: option.split)+

section \<open>The bound\<close>

lemma load_eq: "wf_cache m \<Longrightarrow> load m = (if weigh m = None then int (length (entries m)) else held m)"
  by (auto simp: load_def size_of_def wf_cache_def split: option.split)

lemma sum_del_le:
  fixes g :: "'v option \<Rightarrow> int"
  assumes "\<And>v. 0 \<le> g v"
  shows "sum_list (map (g \<circ> snd) (del k es)) \<le> sum_list (map (g \<circ> snd) es)"
  using assms by (induction es) (auto simp: del_def add_increasing)

lemma length_del_le: "length (del k es) \<le> length es"
  by (simp add: del_def)

lemma load_delete:
  assumes "wf_cache m" and "weights_nonneg (weigh m)"
  shows "load (snd (delete k m)) \<le> load m"
proof -
  have [simp]: "weigh (snd (delete k m)) = weigh m"
    using limit_apply_op(2) [of "Delete k" m] by (simp add: split_beta)
  have [simp]: "entries (snd (delete k m)) = del k (entries m)"
    by (auto simp: delete_def split: option.split)
  have "weight_of (snd (delete k m)) = weight_of m" by (simp add: weight_of_def fun_eq_iff)
  then show ?thesis
    using load_eq [OF assms(1)] load_eq [OF wf_delete [OF assms(1)], of k]
      sum_del_le [of "weight_of m" k "entries m"] length_del_le [of k "entries m"]
      weight_of_nonneg [OF assms(2)]
    by (simp add: held_def)
qed

lemma load_get:
  assumes "wf_cache m"
  shows "load (snd (get k m)) = load m"
proof (cases "has k m")
  case True
  with assms length_del [of "entries m" k] show ?thesis
    by (auto simp: get_def load_def size_of_def wf_cache_def has_iff Let_def split: option.split)
qed (simp add: get_def)

definition sound :: "int \<Rightarrow> ('v option \<Rightarrow> int) option \<Rightarrow> ('k, 'v) bounded_map \<Rightarrow> bool" where
  "sound lim w m \<longleftrightarrow> wf_cache m \<and> within m \<and> limit m = lim \<and> weigh m = w"

lemma within_delete:
  assumes "wf_cache m" and "weights_nonneg (weigh m)" and "within m"
  shows "within (snd (delete k m))"
proof -
  have "limit (snd (delete k m)) = limit m"
    using limit_apply_op(1) [of "Delete k" m] by (simp add: split_beta)
  moreover have "size_of (snd (delete k m)) \<le> size_of m"
    using length_del_le [of k "entries m"]
    by (auto simp: delete_def size_of_def split: option.split)
  ultimately show ?thesis using load_delete [OF assms(1,2), of k] assms(3) by (auto simp: within_def)
qed

lemma size_get: "wf_cache m \<Longrightarrow> size_of (snd (get k m)) = size_of m"
  using length_del [of "entries m" k]
  by (cases "has k m") (auto simp: get_def size_of_def wf_cache_def has_iff Let_def)

lemma sound_apply_op:
  assumes "sound lim w m" and "stores_defined p" and "weights_nonneg w"
  shows "sound lim w (snd (apply_op p m))"
proof -
  from assms have wf: "wf_cache m" and "within m" and "weights_nonneg (weigh m)"
    by (auto simp: sound_def)
  then have "within (snd (apply_op p m))"
  proof (cases p)
    case (Get k)
    with wf \<open>within m\<close> limit_apply_op(1) [of p m] show ?thesis
      by (simp add: split_beta within_def load_get size_get)
  next
    case (Set k v)
    with wf evict_bounded [of "placed k v m"] show ?thesis
      by (simp add: set_entry_placed within_def)
  next
    case (Delete k)
    with wf \<open>within m\<close> \<open>weights_nonneg (weigh m)\<close> show ?thesis by (simp add: split_beta within_delete)
  next
    case Clear
    then show ?thesis by (simp add: within_def clear_def size_of_def)
  qed simp
  with assms show ?thesis by (simp add: sound_def wf_apply_op)
qed

interpretation bound: kept "\<lambda>m. sound lim w m \<and> weights_nonneg w" apply_op stores_defined for lim w
  by unfold_locales (simp add: sound_apply_op)

lemma sound_new: "new_bounded lim w = Inr m \<Longrightarrow> sound lim w m"
  by (auto simp: new_bounded_def sound_def wf_cache_def held_def within_def size_of_def split: if_splits)

lemma sound_run:
  assumes "new_bounded lim w = Inr m" and "weights_nonneg w" and "\<forall>p \<in> set ps. stores_defined p"
  shows "sound lim w (snd (run_ops apply_op ps m))"
  using bound.kept_run [of lim w m ps] assms sound_new [OF assms(1)] by blast

text \<open>C36: However a bounded map is used (any sequence of \<open>get\<close>, \<open>has\<close>, \<open>set\<close>,
  \<open>delete\<close>, \<open>clear\<close> after its construction, storing defined values with
  non-negative weights), its load stays within the limit or a single entry is held, the running
  weight is exactly the weight of the entries held, and no key occurs twice.\<close>

theorem load_stays_bounded:
  assumes "new_bounded lim w = Inr m" and "weights_nonneg w" and "\<forall>p \<in> set ps. stores_defined p"
  shows "let m' = snd (run_ops apply_op ps m)
         in (load m' \<le> lim \<or> size_of m' = 1) \<and> weight m' = held m' \<and> distinct (keys_of m')"
proof -
  let ?m = "snd (run_ops apply_op ps m)"
  have s: "sound lim w ?m" by (rule sound_run [OF assms])
  then have "load ?m \<le> lim \<or> size_of ?m = 1"
  proof (cases "size_of ?m = 0")
    case True
    with s have "load ?m = 0" by (auto simp: load_def size_of_def sound_def wf_cache_def held_def split: option.split)
    with s show ?thesis by (auto simp: sound_def wf_cache_def)
  next
    case False
    with s show ?thesis by (auto simp: sound_def within_def)
  qed
  with s show ?thesis by (simp add: sound_def wf_cache_def keys_of_def)
qed

fun byte_count :: "nat option \<Rightarrow> int" where
  "byte_count (Some n) = int n"
| "byte_count None = 0"

definition example_cache :: "(string, nat) bounded_map" where
  "example_cache =
     \<lparr>entries = [], weight = 0, evictions = 0, limit = 5, weigh = Some byte_count, on_evict = []\<rparr>"

definition example_ops :: "(string, nat) cache_op list" where
  "example_ops = [Set ''a'' (Some 3), Set ''b'' (Some 1), Get ''a'', Set ''c'' (Some 2), Get ''b'', Set ''d'' (Some 9)]"

lemma example_new: "new_bounded 5 (Some byte_count) = Inr example_cache"
  by (simp add: new_bounded_def example_cache_def)

lemma byte_count_nonneg: "weights_nonneg (Some byte_count)"
proof -
  have "0 \<le> byte_count v" for v by (cases v) simp_all
  then show ?thesis by (simp add: weights_nonneg_def)
qed

lemma load_stays_bounded_witness:
  "let m' = snd (run_ops apply_op example_ops example_cache)
   in entries m' = [(''d'', Some 9)] \<and> evictions m' = 3 \<and> size_of m' = 1 \<and> weight m' = held m'"
proof -
  have "weight (snd (run_ops apply_op example_ops example_cache))
      = held (snd (run_ops apply_op example_ops example_cache))"
    using load_stays_bounded [OF example_new byte_count_nonneg, of example_ops]
    by (simp add: Let_def example_ops_def)
  moreover have "entries (snd (run_ops apply_op example_ops example_cache)) = [(''d'', Some 9)]"
    and "evictions (snd (run_ops apply_op example_ops example_cache)) = 3" by code_simp+
  ultimately show ?thesis by (simp add: Let_def size_of_def)
qed

text \<open>What was just stored is there: \<open>evict\<close> never drops the newest entry.\<close>

lemma stored_is_found:
  assumes "sound lim w m" and "v \<noteq> None"
  shows "fst (get k (set_entry k v m)) = v"
proof -
  let ?m = "set_entry k v m"
  from assms have wf: "wf_cache m" by (simp add: sound_def)
  have "?m = evict (placed k v m)" using wf by (rule set_entry_placed)
  then have ne: "entries ?m \<noteq> []" and l: "last (entries ?m) = (k, v)"
    using evict_nonempty [of "placed k v m"] evict_keeps_last [of "placed k v m"] by simp_all
  have "wf_cache ?m" using wf_apply_op [OF wf, of "Set k v"] assms(2) by simp
  moreover have "(k, v) \<in> set (entries ?m)" using ne l last_in_set by metis
  ultimately have "map_of (entries ?m) k = Some v" by (simp add: wf_cache_def)
  then show ?thesis by (simp add: get_def has_def existing_value_def Let_def)
qed

section \<open>The abstract cache\<close>

text \<open>
  The specification: a finite map from keys to a value and the time of its last use, and a clock.
  A cache that is too full forgets an entry no other entry is older than, as long as it holds more
  than one.
\<close>

record ('k, 'v) cache =
  content :: "'k \<Rightarrow> ('v \<times> nat) option"
  now :: nat

definition weight_total :: "('v option \<Rightarrow> int) option \<Rightarrow> ('k, 'v) cache \<Rightarrow> int" where
  "weight_total w c =
     (case w of None \<Rightarrow> int (card (dom (content c)))
      | Some f \<Rightarrow> (\<Sum>k \<in> dom (content c). f (Some (fst (the (content c k))))))"

definition used :: "'k \<Rightarrow> ('k, 'v) cache \<Rightarrow> nat" where
  "used k c = snd (the (content c k))"

definition touch :: "'k \<Rightarrow> 'v \<Rightarrow> ('k, 'v) cache \<Rightarrow> ('k, 'v) cache" where
  "touch k v c = \<lparr>content = (content c)(k \<mapsto> (v, now c)), now = now c + 1\<rparr>"

definition forget :: "'k \<Rightarrow> ('k, 'v) cache \<Rightarrow> ('k, 'v) cache" where
  "forget k c = c\<lparr>content := (content c)(k := None)\<rparr>"

inductive makes_room :: "int \<Rightarrow> ('v option \<Rightarrow> int) option \<Rightarrow> ('k, 'v) cache \<Rightarrow> ('k, 'v) cache \<Rightarrow> bool"
  for lim w where
  fits: "weight_total w c \<le> lim \<or> card (dom (content c)) \<le> 1 \<Longrightarrow> makes_room lim w c c"
| drops: "\<lbrakk>lim < weight_total w c; 1 < card (dom (content c)); k \<in> dom (content c);
           \<forall>k' \<in> dom (content c). used k c \<le> used k' c; makes_room lim w (forget k c) c'\<rbrakk>
          \<Longrightarrow> makes_room lim w c c'"

inductive cache_step :: "int \<Rightarrow> ('v option \<Rightarrow> int) option \<Rightarrow> ('k, 'v) cache_op \<Rightarrow> ('k, 'v) cache
    \<Rightarrow> 'v answer \<Rightarrow> ('k, 'v) cache \<Rightarrow> bool"
  for lim w where
  hit: "content c k = Some (v, t) \<Longrightarrow> cache_step lim w (Get k) c (Value (Some v)) (touch k v c)"
| miss: "content c k = None \<Longrightarrow> cache_step lim w (Get k) c (Value None) c"
| asked: "cache_step lim w (Has k) c (Flag (content c k \<noteq> None)) c"
| stored: "makes_room lim w (touch k v c) c' \<Longrightarrow> cache_step lim w (Set k (Some v)) c Unit c'"
| dropped: "cache_step lim w (Delete k) c (Flag (content c k \<noteq> None)) (forget k c)"
| cleared: "cache_step lim w Clear c Unit (c\<lparr>content := Map.empty\<rparr>)"

definition empty_cache :: "('k, 'v) cache" where
  "empty_cache = \<lparr>content = Map.empty, now = 0\<rparr>"

text \<open>
  The bounded map represents a cache when it holds the same values, oldest use first.
\<close>

definition represents :: "int \<Rightarrow> ('v option \<Rightarrow> int) option \<Rightarrow> ('k, 'v) bounded_map \<Rightarrow> ('k, 'v) cache \<Rightarrow> bool" where
  "represents lim w m c \<longleftrightarrow>
     wf_cache m \<and> limit m = lim \<and> weigh m = w
     \<and> map_of (entries m) = (\<lambda>k. map_option (Some \<circ> fst) (content c k))
     \<and> sorted_wrt (\<lambda>k k'. used k c < used k' c) (keys_of m)
     \<and> (\<forall>k \<in> dom (content c). used k c < now c)"

lemma represents_dom: "represents lim w m c \<Longrightarrow> dom (content c) = fst ` set (entries m)"
proof -
  assume "represents lim w m c"
  then have "map_of (entries m) = (\<lambda>k. map_option (Some \<circ> fst) (content c k))"
    by (simp add: represents_def)
  then have "dom (map_of (entries m)) = dom (content c)" by (auto simp: dom_def)
  then show ?thesis by (simp add: dom_map_of_conv_image_fst)
qed

lemma represents_size: "represents lim w m c \<Longrightarrow> card (dom (content c)) = size_of m"
proof -
  assume r: "represents lim w m c"
  then have "distinct (keys (entries m))" by (simp add: represents_def wf_cache_def)
  from distinct_card [OF this] represents_dom [OF r] show ?thesis by (simp add: size_of_def)
qed

lemma represents_load:
  assumes r: "represents lim w m c"
  shows "weight_total w c = load m"
proof (cases w)
  case None
  with r represents_size [OF r] show ?thesis by (simp add: weight_total_def load_def represents_def)
next
  case (Some f)
  from r have wf: "wf_obj (entries m)" and w: "weigh m = Some f" and wt: "weight m = held m"
    and mo: "map_of (entries m) = (\<lambda>k. map_option (Some \<circ> fst) (content c k))"
    using Some by (auto simp: represents_def wf_cache_def)
  have eq: "f (Some (fst (the (content c k)))) = f v" if "(k, v) \<in> set (entries m)" for k v
  proof -
    from that wf have "map_of (entries m) k = Some v" by simp
    with mo show ?thesis by (cases "content c k") auto
  qed
  have "load m = sum_list (map (f \<circ> snd) (entries m))"
    using w wt by (simp add: load_def held_def weight_of_def comp_def)
  also have "\<dots> = sum_list (map (\<lambda>k. f (Some (fst (the (content c k))))) (keys (entries m)))"
    using eq by (simp add: comp_def cong: map_cong) (metis (no_types, lifting) eq map_eq_conv prod.collapse)
  also have "\<dots> = (\<Sum>k \<in> set (keys (entries m)). f (Some (fst (the (content c k)))))"
    using wf by (rule sum_list_distinct_conv_sum_set)
  also have "\<dots> = weight_total w c"
    using Some represents_dom [OF r] by (simp add: weight_total_def)
  finally show ?thesis by simp
qed

lemma map_of_append_last: "map_of (del k es @ [(k, v)]) = (map_of es)(k \<mapsto> v)"
  using map_of_put [of k v "del k es"] by simp

lemma used_simps [simp]:
  "used k (touch k v c) = now c" "k' \<noteq> k \<Longrightarrow> used k' (touch k v c) = used k' c"
  "k' \<noteq> k \<Longrightarrow> used k' (forget k c) = used k' c"
  "now (touch k v c) = Suc (now c)" "now (forget k c) = now c"
  "content (touch k v c) = (content c)(k \<mapsto> (v, now c))"
  "content (forget k c) = (content c)(k := None)"
  by (simp_all add: used_def touch_def forget_def)

lemma represents_touch:
  assumes r: "represents lim w m c" and m': "wf_cache m'" "limit m' = limit m" "weigh m' = weigh m"
    "entries m' = del k (entries m) @ [(k, Some v)]"
  shows "represents lim w m' (touch k v c)"
proof -
  have old: "used k' c < now c" if "k' \<in> fst ` set (entries m)" for k'
    using r that represents_dom [OF r] by (auto simp: represents_def)
  from r have "sorted_wrt (\<lambda>k k'. used k c < used k' c) (keys (entries m))"
    by (simp add: represents_def keys_of_def)
  then have "sorted_wrt (\<lambda>k k'. used k c < used k' c) (filter (\<lambda>x. x \<noteq> k) (keys (entries m)))"
    by (rule sorted_wrt_filter)
  then have "sorted_wrt (\<lambda>a b. used a (touch k v c) < used b (touch k v c)) (filter (\<lambda>x. x \<noteq> k) (keys (entries m)))"
    by (rule sorted_wrt_mono_rel [rotated]) auto
  then have "sorted_wrt (\<lambda>a b. used a (touch k v c) < used b (touch k v c)) (keys_of m')"
    using m'(4) old by (auto simp: keys_of_def sorted_wrt_append)
  moreover have "map_of (entries m') = (\<lambda>k'. map_option (Some \<circ> fst) (content (touch k v c) k'))"
  proof -
    have "map_of (entries m') = (map_of (entries m))(k \<mapsto> Some v)"
      using m'(4) by (simp only: map_of_append_last)
    with r show ?thesis by (auto simp: represents_def fun_eq_iff)
  qed
  moreover have "used k' (touch k v c) < now (touch k v c)" if "k' \<in> dom (content (touch k v c))" for k'
    using old [of k'] that represents_dom [OF r] by (cases "k' = k") auto
  ultimately show ?thesis using r m' by (simp add: represents_def)
qed

lemma represents_forget:
  assumes r: "represents lim w m c" and m': "wf_cache m'" "limit m' = limit m" "weigh m' = weigh m"
    "entries m' = del k (entries m)"
  shows "represents lim w m' (forget k c)"
proof -
  from r have "sorted_wrt (\<lambda>k k'. used k c < used k' c) (filter (\<lambda>x. x \<noteq> k) (keys (entries m)))"
    by (simp add: represents_def keys_of_def sorted_wrt_filter)
  then have "sorted_wrt (\<lambda>a b. used a (forget k c) < used b (forget k c)) (keys_of m')"
    unfolding keys_of_def m'(4) keys_del by (rule sorted_wrt_mono_rel [rotated]) auto
  then show ?thesis using r m' by (auto simp: represents_def fun_eq_iff)
qed

lemma tl_is_del:
  assumes "wf_obj es" and "es \<noteq> []"
  shows "tl es = del (fst (hd es)) es"
proof (cases es)
  case (Cons e es')
  with assms have "del (fst e) es' = es'" by (intro del_absent) simp
  with Cons show ?thesis by (simp add: del_def)
qed (use assms in simp)

lemma represents_evict:
  "represents lim w m c \<Longrightarrow> \<exists>c'. makes_room lim w c c' \<and> represents lim w (evict m) c'"
proof (induction m arbitrary: c rule: evict.induct)
  case (1 m)
  note r = "1.prems"
  show ?case
  proof (cases "load m > limit m \<and> size_of m > 1")
    case False
    with r have "makes_room lim w c c"
      by (intro makes_room.fits) (auto simp: represents_load [OF r] represents_size [OF r] represents_def)
    moreover have "evict m = m" using False by (auto simp: evict.simps [of m])
    ultimately show ?thesis using r by auto
  next
    case True
    then have ne: "entries m \<noteq> []" by (auto simp: size_of_def)
    let ?k = "fst (hd (entries m))"
    from r have wf: "wf_cache m" "wf_obj (entries m)" by (auto simp: represents_def wf_cache_def)
    from r wf ne have "represents lim w (drop_oldest m) (forget ?k c)"
      by (intro represents_forget) (auto simp: wf_drop_oldest tl_is_del)
    from "1.IH" [OF True this] obtain c' where c': "makes_room lim w (forget ?k c) c'"
      and r': "represents lim w (evict (drop_oldest m)) c'" by blast
    have kd: "?k \<in> dom (content c)" using ne represents_dom [OF r] by simp
    have old: "\<forall>k' \<in> dom (content c). used ?k c \<le> used k' c"
    proof -
      obtain e es where es: "entries m = e # es" using ne by (cases "entries m") auto
      with r have "\<forall>x \<in> fst ` set es. used (fst e) c < used x c"
        by (simp add: represents_def keys_of_def)
      with es represents_dom [OF r] show ?thesis by fastforce
    qed
    have over: "lim < weight_total w c" "1 < card (dom (content c))"
      using True r by (auto simp: represents_load [OF r] represents_size [OF r] represents_def)
    have "makes_room lim w c c'" by (rule makes_room.drops [OF over kd old c'])
    moreover have "evict m = evict (drop_oldest m)" using True by (simp add: evict_rounds)
    ultimately show ?thesis using r' by metis
  qed
qed

text \<open>Each operation does what the cache does.\<close>

lemma apply_op_simulates:
  assumes r: "represents lim w m c" and ok: "stores_defined p"
  shows "\<exists>c'. cache_step lim w p c (fst (apply_op p m)) c' \<and> represents lim w (snd (apply_op p m)) c'"
proof -
  from r have wf: "wf_cache m" by (simp add: represents_def)
  have c_of: "map_of (entries m) k = map_option (Some \<circ> fst) (content c k)" for k
    using r by (simp add: represents_def)
  have wf': "wf_cache (snd (apply_op p m))" by (rule wf_apply_op [OF wf ok])
  show ?thesis
  proof (cases p)
    case (Get k)
    show ?thesis
    proof (cases "content c k")
      case None
      then have "\<not> has k m" by (simp add: has_def c_of)
      with Get None r show ?thesis by (auto simp: get_def intro: cache_step.miss)
    next
      case (Some e)
      obtain v t where e: "e = (v, t)" by (cases e)
      then have "has k m" and "existing_value k m = Some v"
        using Some by (simp_all add: has_def existing_value_def c_of)
      then have "apply_op p m = (Value (Some v), m\<lparr>entries := del k (entries m) @ [(k, Some v)]\<rparr>)"
        using Get by (simp add: get_def Let_def)
      moreover from this have "represents lim w (snd (apply_op p m)) (touch k v c)"
        using wf' by (intro represents_touch [OF r]) auto
      ultimately show ?thesis using Get Some e by (auto intro: cache_step.hit)
    qed
  next
    case (Has k)
    have "has k m \<longleftrightarrow> content c k \<noteq> None" by (simp add: has_def c_of)
    with Has r cache_step.asked [of lim w k c] show ?thesis by auto
  next
    case (Set k v)
    with ok obtain x where x: "v = Some x" by auto
    have "represents lim w (placed k v m) (touch k x c)"
      using wf x by (intro represents_touch [OF r] wf_placed) auto
    from represents_evict [OF this] Set x wf show ?thesis
      by (auto simp: set_entry_placed intro: cache_step.stored)
  next
    case (Delete k)
    have "fst (delete k m) = (content c k \<noteq> None)"
      by (auto simp: delete_def has_def c_of split: option.split)
    moreover have "represents lim w (snd (delete k m)) (forget k c)"
      using wf_delete [OF wf] by (intro represents_forget [OF r]) (auto simp: delete_def split: option.split)
    ultimately show ?thesis using Delete cache_step.dropped [of lim w k c] by (auto simp: split_beta)
  next
    case Clear
    have "represents lim w (clear m) (c\<lparr>content := Map.empty\<rparr>)"
      using r wf_clear [OF wf] by (simp add: represents_def clear_def keys_of_def)
    with Clear show ?thesis by (auto intro: cache_step.cleared)
  qed
qed

interpretation lru: simulation "represents lim w" apply_op "cache_step lim w" stores_defined for lim w
  by unfold_locales (rule apply_op_simulates)

text \<open>C35: Used with defined values, a bounded map behaves exactly as the abstract cache:
  the answers of any sequence of operations after its construction are answers the cache gives,
  where every hit and every store marks the entry as used now, and only the entries used longest
  ago are forgotten, only while the cache is over its limit and holds more than one entry.\<close>

theorem bounded_map_is_an_lru_cache:
  assumes "new_bounded lim w = Inr m" and "\<forall>p \<in> set ps. stores_defined p"
  shows "\<exists>c. spec_run (cache_step lim w) ps empty_cache (fst (run_ops apply_op ps m)) c
           \<and> represents lim w (snd (run_ops apply_op ps m)) c"
proof -
  have "represents lim w m empty_cache"
    using assms(1)
    by (auto simp: new_bounded_def represents_def wf_cache_def held_def empty_cache_def keys_of_def
      split: if_splits)
  from lru.run_simulates [OF this assms(2)] show ?thesis .
qed

lemma bounded_map_is_an_lru_cache_witness:
  "fst (run_ops apply_op example_ops example_cache) = [Unit, Unit, Value (Some 3), Unit, Value None, Unit]
   \<and> (\<exists>c. spec_run (cache_step 5 (Some byte_count)) example_ops empty_cache
        (fst (run_ops apply_op example_ops example_cache)) c)"
proof -
  have "\<exists>c. spec_run (cache_step 5 (Some byte_count)) example_ops empty_cache
        (fst (run_ops apply_op example_ops example_cache)) c"
    using bounded_map_is_an_lru_cache [OF example_new, of example_ops] by (auto simp: example_ops_def)
  moreover have "fst (run_ops apply_op example_ops example_cache)
      = [Unit, Unit, Value (Some 3), Unit, Value None, Unit]" by code_simp
  ultimately show ?thesis by simp
qed

text \<open>
  A stored \<open>undefined\<close> escapes the bookkeeping: overwriting it neither takes back its weight nor
  marks the entry as used.
\<close>

lemma undefined_value_not_refreshed:
  "entries (snd (run_ops apply_op [Set ''a'' None, Set ''b'' (Some 1), Set ''a'' (Some 2)] example_cache))
     = [(''a'', Some 2), (''b'', Some 1)]"
  by code_simp

end
