(* ===== verification/VectorClock.thy ===== *)
theory VectorClock
  imports JsValue
begin

text \<open>
  The pure helpers of the shared memory, the last section of
  \<open>src/backend/src/distributed/memory-sync.service.ts\<close>: the canonical text a value is hashed by,
  vector clocks, the tie-break between concurrent writes, and the column a scope is stored under.

  A clock is the list of its entries; a node it does not name has contributed nothing. Counts are
  integers, so that clocks received from other nodes are covered whatever they hold. Node ids are not
  names that objects inherit from \<open>Object.prototype\<close>.
\<close>

section \<open>The canonical text of a value\<close>

text \<open>\<open>JSON.stringify\<close> of a string, on code units below 256.\<close>

definition json_hex :: "nat \<Rightarrow> char" where
  "json_hex d = (if d < 10 then char_of (48 + d) else char_of (87 + d))"

definition json_char :: "char \<Rightarrow> string" where
  "json_char c =
     (if c = CHR 0x22 then [CHR 0x5C, CHR 0x22]
      else if c = CHR 0x5C then [CHR 0x5C, CHR 0x5C]
      else if code c = 8 then [CHR 0x5C, CHR ''b'']
      else if code c = 9 then [CHR 0x5C, CHR ''t'']
      else if code c = 10 then [CHR 0x5C, CHR ''n'']
      else if code c = 12 then [CHR 0x5C, CHR ''f'']
      else if code c = 13 then [CHR 0x5C, CHR ''r'']
      else if code c < 32 then [CHR 0x5C] @ ''u00'' @ [json_hex (code c div 16), json_hex (code c mod 16)]
      else [c])"

definition json_quote :: "string \<Rightarrow> string" where
  "json_quote s = [CHR 0x22] @ concat (map json_char s) @ [CHR 0x22]"

definition by_key :: "string \<times> 'a \<Rightarrow> string \<times> 'a \<Rightarrow> int" where
  "by_key e e' = ord3 (fst e) (fst e')"

text \<open>
  \<open>canonical\<close>; \<open>number_text\<close> is the decimal text of a finite number. \<open>JSON.stringify\<close> gives
  \<open>undefined\<close> for \<open>undefined\<close>, which \<open>?? 'null'\<close> replaces.
\<close>

function canonical :: "(rat \<Rightarrow> string) \<Rightarrow> json \<Rightarrow> string" where
  "canonical number_text Undef = ''null''"
| "canonical number_text Null = ''null''"
| "canonical number_text (JBool b) = (if b then ''true'' else ''false'')"
| "canonical number_text (JNum x) = (case x of Fin r \<Rightarrow> number_text r | _ \<Rightarrow> ''null'')"
| "canonical number_text (JStr s) = json_quote s"
| "canonical number_text (JArr vs) = ''['' @ join '','' (map (canonical number_text) vs) @ '']''"
| "canonical number_text (JObj m) =
     ''{'' @ join '','' (map (\<lambda>e. json_quote (fst e) @ '':'' @ canonical number_text (snd e)) (sort_by by_key m)) @ ''}''"
  by pat_completeness auto
termination
proof (relation "measure (\<lambda>(f, v). size v)")
  fix number_text :: "rat \<Rightarrow> string" and vs :: "json list" and v
  assume "v \<in> set vs"
  then show "((number_text, v), number_text, JArr vs) \<in> measure (\<lambda>(f, v). size v)"
    by (induction vs) auto
next
  fix number_text :: "rat \<Rightarrow> string" and m :: obj and e
  assume "e \<in> set (sort_by by_key m)"
  then have "e \<in> set m" by simp
  then have "size (snd e) < size (JObj m)" by (induction m) auto
  then show "((number_text, snd e), number_text, JObj m) \<in> measure (\<lambda>(f, v). size v)" by simp
qed simp

definition checksum :: "(string \<Rightarrow> string) \<Rightarrow> (rat \<Rightarrow> string) \<Rightarrow> json \<Rightarrow> string" where
  "checksum sha256_hex number_text v = sha256_hex (canonical number_text v)"

section \<open>Vector clocks\<close>

type_synonym clock = "(string \<times> int) list"

text \<open>\<open>clock[node] ?? 0\<close>.\<close>

definition count :: "clock \<Rightarrow> string \<Rightarrow> int" where
  "count c n = (case map_of c n of None \<Rightarrow> 0 | Some k \<Rightarrow> k)"

definition tick :: "clock \<Rightarrow> string \<Rightarrow> clock" where
  "tick c n = (let k = (if n = [] then ''control-plane'' else n) in put k (count c k + 1) c)"

definition merge :: "clock \<Rightarrow> clock \<Rightarrow> clock" where
  "merge a b = fold (\<lambda>(n, k) merged. put n (max (count merged n) k) merged) b a"

text \<open>The loop of \<open>dominates\<close>, over the union of the nodes of both clocks.\<close>

fun dominates_loop :: "clock \<Rightarrow> clock \<Rightarrow> bool \<Rightarrow> string list \<Rightarrow> bool" where
  "dominates_loop a b strictlyGreater [] = strictlyGreater"
| "dominates_loop a b strictlyGreater (n # ns) =
     (if count a n < count b n then False
      else dominates_loop a b (if count a n > count b n then True else strictlyGreater) ns)"

definition dominates :: "clock \<Rightarrow> clock \<Rightarrow> bool" where
  "dominates a b = dominates_loop a b False (dedup (keys a @ keys b))"

definition concurrent :: "clock \<Rightarrow> clock \<Rightarrow> bool" where
  "concurrent a b \<longleftrightarrow> \<not> dominates a b \<and> \<not> dominates b a"

section \<open>Tie-break, freshness, and the node column\<close>

datatype winner = Incoming | Existing

record candidate =
  cand_version :: int
  cand_at :: int
  cand_node :: string

definition resolveConcurrent :: "candidate \<Rightarrow> candidate \<Rightarrow> winner" where
  "resolveConcurrent i e =
     (if cand_version i \<noteq> cand_version e then if cand_version i > cand_version e then Incoming else Existing
      else let byTime = cand_at i - cand_at e in
           if byTime \<noteq> 0 then if byTime > 0 then Incoming else Existing
           else if cand_node i > cand_node e then Incoming else Existing)"

definition CACHE_TTL_MS :: int where "CACHE_TTL_MS = 60000"

text \<open>\<open>isFresh\<close> on the two times of a shard it reads.\<close>

definition isFresh :: "int option \<Rightarrow> int \<Rightarrow> int \<Rightarrow> bool" where
  "isFresh expiresAt updatedAt now =
     (case expiresAt of Some t \<Rightarrow> t > now | None \<Rightarrow> now - updatedAt < CACHE_TTL_MS)"

datatype memory_scope = LOCAL | SHARED | CACHED | GLOBAL

fun scope_name :: "memory_scope \<Rightarrow> string" where
  "scope_name LOCAL = ''LOCAL''" | "scope_name SHARED = ''SHARED''"
| "scope_name CACHED = ''CACHED''" | "scope_name GLOBAL = ''GLOBAL''"

definition nodeKeyFor :: "memory_scope \<Rightarrow> string option \<Rightarrow> string + string" where
  "nodeKeyFor sc nodeId =
     (if sc = LOCAL \<or> sc = CACHED
      then if \<not> truthy nodeId then Inl (scope_name sc @ '' memory requires a nodeId'') else Inr (the nodeId)
      else Inr [])"

section \<open>Equal values have equal texts\<close>

text \<open>Two values are the same up to the order of the keys of their objects, at any depth.\<close>

inductive same_json :: "json \<Rightarrow> json \<Rightarrow> bool" where
  leaf: "same_json v v"
| arr: "list_all2 same_json vs ws \<Longrightarrow> same_json (JArr vs) (JArr ws)"
| obj: "\<lbrakk>wf_obj m; wf_obj m'; fst ` set m = fst ` set m';
         \<forall>k v w. (k, v) \<in> set m \<longrightarrow> (k, w) \<in> set m' \<longrightarrow> same_json v w\<rbrakk>
        \<Longrightarrow> same_json (JObj m) (JObj m')"

interpretation by_key: comparator by_key
  unfolding by_key_def by (rule ord3.comparator_axioms)

lemma sorted_keys_unique:
  fixes m m' :: obj
  assumes "wf_obj m" and "wf_obj m'" and "fst ` set m = fst ` set m'"
  shows "keys (sort_by by_key m) = keys (sort_by by_key m')"
proof -
  have mono: "sorted (keys (sort_by by_key x))" for x :: obj
    using by_key.sorted_sort_by [of x]
    by (simp add: sorted_map by_key_def ord3_iff sorted_wrt_map)
  have "distinct (keys (sort_by by_key x))" if "wf_obj x" for x :: obj
  proof -
    have "distinct x" using that by (simp add: distinct_map)
    then have "distinct (sort_by by_key x)" by (rule distinct_sort_by)
    with that show ?thesis by (simp add: distinct_map)
  qed
  with assms mono show ?thesis by (intro sorted_distinct_set_unique) auto
qed

lemma map_by_keys:
  assumes "keys xs = keys ys"
    and "\<And>k v w. (k, v) \<in> set xs \<Longrightarrow> (k, w) \<in> set ys \<Longrightarrow> f (k, v) = f (k, w)"
  shows "map f xs = map f ys"
  using assms
proof (induction xs arbitrary: ys)
  case (Cons x xs)
  then obtain y ys' where ys: "ys = y # ys'" and "fst x = fst y" and "keys xs = keys ys'"
    by (cases ys) auto
  moreover have "f x = f y"
  proof -
    have "(fst x, snd x) \<in> set (x # xs)" and "(fst x, snd y) \<in> set ys"
      using ys \<open>fst x = fst y\<close> by (metis list.set_intros(1) prod.collapse)+
    from Cons.prems(2) [OF this] \<open>fst x = fst y\<close> show ?thesis by (metis prod.collapse)
  qed
  moreover have "map f xs = map f ys'"
    using Cons.IH [of ys'] Cons.prems(2) ys \<open>keys xs = keys ys'\<close> by auto
  ultimately show ?case by simp
qed simp

text \<open>C32: The canonical text, and with it the checksum, does not depend on the order of the
  keys of any object inside a value.\<close>

theorem checksum_ignores_key_order:
  assumes "same_json v w"
  shows "checksum sha256_hex number_text v = checksum sha256_hex number_text w"
proof -
  from assms have "canonical number_text v = canonical number_text w"
  proof (induction rule: same_json.induct)
    case (arr vs ws)
    then have "list_all2 (\<lambda>v w. canonical number_text v = canonical number_text w) vs ws"
      by (auto elim: list_all2_mono)
    then have "map (canonical number_text) vs = map (canonical number_text) ws"
      by (induction rule: list_all2_induct) auto
    then show ?case by simp
  next
    case (obj m m')
    have "map (\<lambda>e. json_quote (fst e) @ '':'' @ canonical number_text (snd e)) (sort_by by_key m)
        = map (\<lambda>e. json_quote (fst e) @ '':'' @ canonical number_text (snd e)) (sort_by by_key m')"
      by (rule map_by_keys [OF sorted_keys_unique [OF obj(1-3)]]) (use obj(4) in simp)
    then show ?case by simp
  qed simp
  then show ?thesis by (simp add: checksum_def)
qed

definition value_ab :: json where
  "value_ab = JObj [(''a'', JNum (Fin 1)), (''b'', JArr [JObj [(''x'', Null), (''y'', JStr [CHR 0x22])]])]"

definition value_ba :: json where
  "value_ba = JObj [(''b'', JArr [JObj [(''y'', JStr [CHR 0x22]), (''x'', Null)]]), (''a'', JNum (Fin 1))]"

lemma value_ab_ba: "same_json value_ab value_ba"
proof -
  have inner: "same_json (JObj [(''x'', Null), (''y'', JStr [CHR 0x22])]) (JObj [(''y'', JStr [CHR 0x22]), (''x'', Null)])"
    by (rule same_json.obj) (auto intro: same_json.leaf)
  show ?thesis unfolding value_ab_def value_ba_def
    by (rule same_json.obj) (auto intro: same_json.leaf same_json.arr inner)
qed

lemma checksum_ignores_key_order_witness:
  "checksum id (\<lambda>r. show_int (floor r)) value_ab = checksum id (\<lambda>r. show_int (floor r)) value_ba
   \<and> value_ab \<noteq> value_ba \<and> length (checksum id (\<lambda>r. show_int (floor r)) value_ab) = 33"
proof -
  have "value_ab \<noteq> value_ba" by (simp add: value_ab_def value_ba_def)
  moreover have "length (checksum id (\<lambda>r. show_int (floor r)) value_ab) = 33" by code_simp
  ultimately show ?thesis using checksum_ignores_key_order [OF value_ab_ba] by blast
qed

section \<open>The order of clocks\<close>

definition sees :: "clock \<Rightarrow> clock \<Rightarrow> bool" where
  "sees a b \<longleftrightarrow> (\<forall>n. count b n \<le> count a n)"

definition counts :: "clock \<Rightarrow> bool" where
  "counts c \<longleftrightarrow> (\<forall>n. 0 \<le> count c n)"

lemma dominates_loop_iff:
  "dominates_loop a b s ns \<longleftrightarrow>
     (\<forall>n \<in> set ns. count b n \<le> count a n) \<and> (s \<or> (\<exists>n \<in> set ns. count b n < count a n))"
  by (induction ns arbitrary: s) auto

lemma count_absent: "n \<notin> fst ` set c \<Longrightarrow> count c n = 0"
  by (simp add: count_def map_of_eq_None_iff [THEN iffD2])

text \<open>The loop computes the order of vector clocks: one clock dominates another exactly
  when no node's count is smaller and some node's count is larger, nodes absent from a clock
  counting as zero; and two clocks are concurrent exactly when neither has seen the other or both
  count the same everywhere.\<close>

theorem dominates_is_causal_order:
  "(dominates a b \<longleftrightarrow> (\<forall>n. count b n \<le> count a n) \<and> (\<exists>n. count b n < count a n))
   \<and> (concurrent a b \<longleftrightarrow> (\<forall>n. count a n = count b n)
        \<or> (\<exists>n n'. count a n < count b n \<and> count b n' < count a n'))"
proof -
  have d: "dominates a b \<longleftrightarrow> (\<forall>n. count b n \<le> count a n) \<and> (\<exists>n. count b n < count a n)" for a b
  proof -
    have "count a n = 0 \<and> count b n = 0" if "n \<notin> fst ` set a \<union> fst ` set b" for n
      using that by (simp add: count_absent)
    then show ?thesis by (fastforce simp: dominates_def dominates_loop_iff)
  qed
  have le: "(\<forall>n. count b n \<le> count a n) \<longleftrightarrow> \<not> (\<exists>n. count a n < count b n)"
    and ge: "(\<forall>n. count a n \<le> count b n) \<longleftrightarrow> \<not> (\<exists>n. count b n < count a n)"
    by (auto simp: not_less)
  have eq: "(\<forall>n. count a n = count b n) \<longleftrightarrow>
      \<not> (\<exists>n. count a n < count b n) \<and> \<not> (\<exists>n. count b n < count a n)"
    by (metis less_irrefl linorder_less_linear)
  show ?thesis unfolding concurrent_def d le ge eq by blast
qed

text \<open>
  What the replication relies on: \<open>dominates\<close> is the strict part of "has seen", \<open>merge\<close> is the
  least clock that has seen both, and \<open>tick\<close> makes a clock that has seen more.
\<close>

locale causality =
  fixes seen :: "'c \<Rightarrow> 'c \<Rightarrow> bool" and before :: "'c \<Rightarrow> 'c \<Rightarrow> bool" and merged :: "'c \<Rightarrow> 'c \<Rightarrow> 'c"
    and adv :: "'c \<Rightarrow> 'n \<Rightarrow> 'c" and good :: "'c \<Rightarrow> bool"
  assumes seen_refl: "seen a a"
    and seen_trans: "seen a b \<Longrightarrow> seen b c \<Longrightarrow> seen a c"
    and before_iff: "before a b \<longleftrightarrow> seen a b \<and> \<not> seen b a"
    and merged_good: "good a \<Longrightarrow> good b \<Longrightarrow> good (merged a b)"
    and merged_seen: "good a \<Longrightarrow> good b \<Longrightarrow> seen (merged a b) a \<and> seen (merged a b) b"
    and merged_least: "good a \<Longrightarrow> good b \<Longrightarrow> seen c a \<Longrightarrow> seen c b \<Longrightarrow> seen c (merged a b)"
    and adv_good: "good a \<Longrightarrow> good (adv a n)"
    and adv_before: "before (adv a n) a"
begin

lemma before_irrefl: "\<not> before a a"
  by (simp add: before_iff)

lemma before_trans: "before a b \<Longrightarrow> before b c \<Longrightarrow> before a c"
  using seen_trans before_iff by blast

lemma before_asym: "before a b \<Longrightarrow> \<not> before b a"
  by (simp add: before_iff)

lemma before_seen: "before a b \<Longrightarrow> seen a b"
  by (simp add: before_iff)

lemma adv_seen: "seen (adv a n) a"
  using adv_before before_seen by blast

lemma merged_comm: "good a \<Longrightarrow> good b \<Longrightarrow> seen (merged a b) (merged b a)"
  using merged_least merged_seen by blast

lemma merged_idem: "good a \<Longrightarrow> seen (merged a a) a \<and> seen a (merged a a)"
  using merged_least merged_seen seen_refl by blast

lemma merged_absorbs: "good a \<Longrightarrow> good b \<Longrightarrow> before a b \<Longrightarrow> seen a (merged a b)"
  using merged_least seen_refl before_seen by blast

end

lemma count_put: "count (put n k c) m = (if m = n then k else count c m)"
  by (simp add: count_def)

lemma count_merge:
  assumes "wf_obj b"
  shows "count (merge a b) n = (if n \<in> fst ` set b then max (count a n) (count b n) else count a n)"
  using assms unfolding merge_def
proof (induction b arbitrary: a)
  case (Cons e b)
  obtain m k where e: "e = (m, k)" by (cases e)
  have b: "n \<in> fst ` set b \<longrightarrow> n \<noteq> m" using Cons.prems e by auto
  have c: "count ((m, k) # b) x = (if x = m then k else count b x)" for x by (simp add: count_def)
  show ?case using Cons e b by (auto simp: count_put c)
qed simp

text \<open>Clocks with distinct nodes and counts that are not negative, as every local write makes them.\<close>

definition good_clock :: "clock \<Rightarrow> bool" where
  "good_clock c \<longleftrightarrow> wf_obj c \<and> counts c"

lemma count_merge_good:
  assumes "good_clock a" and "good_clock b"
  shows "count (merge a b) n = max (count a n) (count b n)"
  using assms by (auto simp: count_merge good_clock_def counts_def count_absent)

lemma wf_merge: "wf_obj a \<Longrightarrow> wf_obj (merge a b)"
  unfolding merge_def by (induction b arbitrary: a) (auto intro: wf_put)

lemma count_tick:
  "count (tick c n) m = (if m = (if n = [] then ''control-plane'' else n) then count c m + 1 else count c m)"
  by (simp add: tick_def Let_def count_put)

lemma good_tick: "good_clock c \<Longrightarrow> good_clock (tick c n)"
  by (auto simp: good_clock_def counts_def count_tick) (simp_all add: tick_def Let_def wf_put)

lemma good_merge: "good_clock a \<Longrightarrow> good_clock b \<Longrightarrow> good_clock (merge a b)"
  by (auto simp: good_clock_def counts_def wf_merge count_merge_good [unfolded good_clock_def counts_def] le_max_iff_disj)

interpretation clocks: causality sees dominates merge tick good_clock
proof
  fix a b c n
  show "sees a a" by (simp add: sees_def)
  show "sees a b \<Longrightarrow> sees b c \<Longrightarrow> sees a c" unfolding sees_def using order_trans by blast
  show "dominates a b \<longleftrightarrow> sees a b \<and> \<not> sees b a"
    using dominates_is_causal_order [of a b] by (auto simp: sees_def not_le)
  show "good_clock a \<Longrightarrow> good_clock b \<Longrightarrow> good_clock (merge a b)" by (rule good_merge)
  show "good_clock a \<Longrightarrow> good_clock b \<Longrightarrow> sees (merge a b) a \<and> sees (merge a b) b"
    by (simp add: sees_def count_merge_good)
  show "good_clock a \<Longrightarrow> good_clock b \<Longrightarrow> sees c a \<Longrightarrow> sees c b \<Longrightarrow> sees c (merge a b)"
    by (simp add: sees_def count_merge_good)
  show "good_clock a \<Longrightarrow> good_clock (tick a n)" by (rule good_tick)
  show "dominates (tick a n) a"
    using dominates_is_causal_order [of "tick a n" a] by (auto simp: count_tick)
qed

text \<open>The tie-break picks the larger of two writes in one linear order, the existing one on a tie.\<close>

lemma resolve_lex:
  "resolveConcurrent i e = (if (cand_version e, cand_at e, cand_node e) < (cand_version i, cand_at i, cand_node i)
     then Incoming else Existing)"
  by (auto simp: resolveConcurrent_def Let_def)

end
