(* ===== verification/Repository.thy ===== *)
theory Repository
  imports Simulation
begin

text \<open>
  The database access of \<open>src/backend/src/database/repositories/base.repository.ts\<close>: the scope
  every query is confined to, the reads, and the writes, on the table of one model. With it the
  request context of \<open>src/backend/src/shared/context/request-context.ts\<close> that names the tenant.

  A table is the list of its rows in the order an unordered query returns them; ids are unique in
  it. The Prisma client is an explicit store: \<open>findFirst\<close> is the first row that satisfies the
  predicate, \<open>updateMany\<close> and \<open>deleteMany\<close> act on all of them and count them.
\<close>

section \<open>The request context\<close>

record request_context =
  userId :: string
  organizationId :: string
  roleKey :: string
  permissions :: "string list"
  requestId :: string
  ip :: "string option"
  userAgent :: "string option"

datatype repo_error = Missing string | Unusable string

definition no_context :: string where
  "no_context = ''No RequestContext available. A tenant-scoped operation ran outside an '' @
     ''authenticated request. Use AuthService.asSystem() for background jobs.''"

text \<open>\<open>RequestContextStore.require\<close> on what the store holds.\<close>

definition require :: "request_context option \<Rightarrow> repo_error + request_context" where
  "require store =
     (case store of None \<Rightarrow> Inl (Unusable no_context)
      | Some ctx \<Rightarrow> if organizationId ctx = [] then Inl (Unusable no_context) else Inr ctx)"

text \<open>The tenant every query is confined to.\<close>

definition tenant :: "request_context option \<Rightarrow> repo_error + string" where
  "tenant store = bindE (require store) (\<lambda>ctx. Inr (organizationId ctx))"

section \<open>Rows and predicates\<close>

record 'a row =
  row_id :: string
  row_org :: string
  row_deleted :: "int option"
  contents :: 'a

type_synonym 'a table = "'a row list"

record model =
  modelName :: string
  softDeletes :: bool

definition label :: "model \<Rightarrow> string" where
  "label M = (case modelName M of [] \<Rightarrow> [] | c # cs \<Rightarrow> ascii_upper c # cs)"

definition not_found :: "model \<Rightarrow> string \<Rightarrow> repo_error" where
  "not_found M i = Missing (label M @ '' '' @ quoted i @ '' was not found'')"

text \<open>A \<open>where\<close> object maps columns to conditions; spreading lets later columns replace earlier ones.\<close>

type_synonym 'a conditions = "(string \<times> ('a row \<Rightarrow> bool)) list"

definition satisfies_all :: "'a conditions \<Rightarrow> 'a row \<Rightarrow> bool" where
  "satisfies_all w r \<longleftrightarrow> list_all (\<lambda>(column, holds). holds r) w"

definition scope :: "model \<Rightarrow> string \<Rightarrow> bool \<Rightarrow> 'a conditions \<Rightarrow> 'a conditions" where
  "scope M org withDeleted w =
     (let scoped = put ''organizationId'' (\<lambda>r. row_org r = org) w
      in if softDeletes M \<and> \<not> withDeleted then put ''deletedAt'' (\<lambda>r. row_deleted r = None) scoped
         else scoped)"

definition by_id :: "string \<Rightarrow> 'a conditions" where
  "by_id i = [(''id'', \<lambda>r. row_id r = i)]"

definition find_first :: "'a conditions \<Rightarrow> 'a table \<Rightarrow> 'a row option" where
  "find_first w t = List.find (satisfies_all w) t"

text \<open>\<open>updateMany\<close> with its count; \<open>assign\<close> writes the columns given.\<close>

definition update_many :: "'a conditions \<Rightarrow> ('a row \<Rightarrow> 'a row) \<Rightarrow> 'a table \<Rightarrow> nat \<times> 'a table" where
  "update_many w assign t =
     (length (filter (satisfies_all w) t), map (\<lambda>r. if satisfies_all w r then assign r else r) t)"

definition delete_many :: "'a conditions \<Rightarrow> 'a table \<Rightarrow> nat \<times> 'a table" where
  "delete_many w t = (length (filter (satisfies_all w) t), filter (\<lambda>r. \<not> satisfies_all w r) t)"

section \<open>Reads\<close>

record 'a list_options =
  skip :: "nat option"
  take_at_most :: "nat option"
  orderBy :: "('a row \<Rightarrow> 'a row \<Rightarrow> int) option"
  withDeleted :: bool

definition no_options :: "'a list_options" where
  "no_options = \<lparr>skip = None, take_at_most = None, orderBy = None, withDeleted = False\<rparr>"

definition select_rows :: "'a conditions \<Rightarrow> 'a list_options \<Rightarrow> 'a table \<Rightarrow> 'a row list" where
  "select_rows w opts t =
     (let found = filter (satisfies_all w) t;
          ordered = (case orderBy opts of None \<Rightarrow> found | Some cmp \<Rightarrow> sort_by cmp found);
          skipped = (case skip opts of None \<Rightarrow> ordered | Some n \<Rightarrow> drop n ordered)
      in case take_at_most opts of None \<Rightarrow> skipped | Some n \<Rightarrow> take n skipped)"

definition findById :: "model \<Rightarrow> request_context option \<Rightarrow> string \<Rightarrow> 'a list_options \<Rightarrow> 'a table
    \<Rightarrow> repo_error + 'a row option" where
  "findById M ctx i opts t =
     bindE (tenant ctx) (\<lambda>org. Inr (find_first (scope M org (withDeleted opts) (by_id i)) t))"

definition findByIdOrFail :: "model \<Rightarrow> request_context option \<Rightarrow> string \<Rightarrow> 'a list_options \<Rightarrow> 'a table
    \<Rightarrow> repo_error + 'a row" where
  "findByIdOrFail M ctx i opts t =
     bindE (findById M ctx i opts t)
       (\<lambda>record. case record of None \<Rightarrow> Inl (not_found M i) | Some r \<Rightarrow> Inr r)"

definition findMany :: "model \<Rightarrow> request_context option \<Rightarrow> 'a conditions \<Rightarrow> 'a list_options \<Rightarrow> 'a table
    \<Rightarrow> repo_error + 'a row list" where
  "findMany M ctx w opts t =
     bindE (tenant ctx) (\<lambda>org. Inr (select_rows (scope M org (withDeleted opts) w) opts t))"

definition paginate :: "model \<Rightarrow> request_context option \<Rightarrow> 'a conditions \<Rightarrow> 'a list_options \<Rightarrow> 'a table
    \<Rightarrow> repo_error + 'a row list \<times> nat" where
  "paginate M ctx w opts t =
     bindE (tenant ctx) (\<lambda>org.
       let scoped = scope M org (withDeleted opts) w
       in Inr (select_rows scoped opts t, length (filter (satisfies_all scoped) t)))"

definition count_rows :: "model \<Rightarrow> request_context option \<Rightarrow> 'a conditions \<Rightarrow> 'a table \<Rightarrow> repo_error + nat" where
  "count_rows M ctx w t =
     bindE (tenant ctx) (\<lambda>org. Inr (length (filter (satisfies_all (scope M org False w)) t)))"

definition exists_row :: "model \<Rightarrow> request_context option \<Rightarrow> 'a conditions \<Rightarrow> 'a table \<Rightarrow> repo_error + bool" where
  "exists_row M ctx w t = bindE (count_rows M ctx w t) (\<lambda>n. Inr (n > 0))"

section \<open>Writes\<close>

text \<open>\<open>create\<close> of a row whose id and default columns the database has filled in.\<close>

definition create_row :: "model \<Rightarrow> request_context option \<Rightarrow> 'a row \<Rightarrow> 'a table
    \<Rightarrow> (repo_error + 'a row) \<times> 'a table" where
  "create_row M ctx r t =
     (case tenant ctx of
        Inl e \<Rightarrow> (Inl e, t)
      | Inr org \<Rightarrow> (Inr (r\<lparr>row_org := org\<rparr>), t @ [r\<lparr>row_org := org\<rparr>]))"

definition update_row :: "model \<Rightarrow> request_context option \<Rightarrow> string \<Rightarrow> ('a row \<Rightarrow> 'a row) \<Rightarrow> 'a table
    \<Rightarrow> (repo_error + 'a row) \<times> 'a table" where
  "update_row M ctx i assign t =
     (case tenant ctx of
        Inl e \<Rightarrow> (Inl e, t)
      | Inr org \<Rightarrow>
          (case update_many (scope M org False (by_id i)) assign t of
             (n, t') \<Rightarrow> if n = 0 then (Inl (not_found M i), t')
                        else (findByIdOrFail M ctx i no_options t', t')))"

definition remove_row :: "model \<Rightarrow> request_context option \<Rightarrow> int \<Rightarrow> string \<Rightarrow> 'a table
    \<Rightarrow> (repo_error + unit) \<times> 'a table" where
  "remove_row M ctx now i t =
     (case tenant ctx of
        Inl e \<Rightarrow> (Inl e, t)
      | Inr org \<Rightarrow>
          let w = scope M org False (by_id i) in
          (case (if softDeletes M then update_many w (\<lambda>r. r\<lparr>row_deleted := Some now\<rparr>) t
                 else delete_many w t) of
             (n, t') \<Rightarrow> if n = 0 then (Inl (not_found M i), t') else (Inr (), t')))"

text \<open>\<open>purge\<close> and \<open>restore\<close> write their own predicate.\<close>

definition own :: "string \<Rightarrow> string \<Rightarrow> 'a conditions" where
  "own org i = [(''id'', \<lambda>r. row_id r = i), (''organizationId'', \<lambda>r. row_org r = org)]"

definition purge_row :: "model \<Rightarrow> request_context option \<Rightarrow> string \<Rightarrow> 'a table
    \<Rightarrow> (repo_error + unit) \<times> 'a table" where
  "purge_row M ctx i t =
     (case tenant ctx of Inl e \<Rightarrow> (Inl e, t) | Inr org \<Rightarrow> (Inr (), snd (delete_many (own org i) t)))"

definition restore_row :: "model \<Rightarrow> request_context option \<Rightarrow> string \<Rightarrow> 'a table
    \<Rightarrow> (repo_error + 'a row) \<times> 'a table" where
  "restore_row M ctx i t =
     (if \<not> softDeletes M then (Inl (Unusable (label M @ '' does not support soft deletion'')), t)
      else case tenant ctx of
          Inl e \<Rightarrow> (Inl e, t)
        | Inr org \<Rightarrow>
            let t' = snd (update_many (own org i) (\<lambda>r. r\<lparr>row_deleted := None\<rparr>) t)
            in (findByIdOrFail M ctx i no_options t', t'))"

section \<open>The scope\<close>

lemma satisfies_put: "satisfies_all (put k p w) r \<Longrightarrow> p r"
  by (induction w) (auto simp: satisfies_all_def split: if_splits)

lemma satisfies_put_other:
  assumes "satisfies_all (put k p w) r" and "(k', q) \<in> set w" and "k' \<noteq> k"
  shows "q r"
  using assms by (induction w) (auto simp: satisfies_all_def list_all_iff split: if_splits)

lemma in_put: "(k, v) \<in> set (put k v m)"
  by (induction m) auto

lemma scope_confines:
  assumes "satisfies_all (scope M org wd w) r"
  shows "row_org r = org" and "softDeletes M \<Longrightarrow> \<not> wd \<Longrightarrow> row_deleted r = None"
  using assms satisfies_put_other [of "''deletedAt''" _ "put ''organizationId'' (\<lambda>r. row_org r = org) w" r
      "''organizationId''" "\<lambda>r. row_org r = org"]
  by (auto simp: scope_def Let_def in_put dest: satisfies_put split: if_splits)

lemma scope_by_id:
  "satisfies_all (scope M org wd (by_id i)) r \<longleftrightarrow>
     row_id r = i \<and> row_org r = org \<and> (softDeletes M \<and> \<not> wd \<longrightarrow> row_deleted r = None)"
  by (auto simp: scope_def by_id_def satisfies_all_def Let_def)

lemma own_iff: "satisfies_all (own org i) r \<longleftrightarrow> row_id r = i \<and> row_org r = org"
  by (simp add: own_def satisfies_all_def)

lemma tenant_Inr: "tenant ctx = Inr org \<Longrightarrow> org \<noteq> [] \<and> (\<exists>c. ctx = Some c \<and> organizationId c = org)"
  by (auto simp: tenant_def require_def bindE_eq_Inr split: option.splits if_splits)

lemma tenant_Some [simp]: "organizationId c \<noteq> [] \<Longrightarrow> tenant (Some c) = Inr (organizationId c)"
  by (simp add: tenant_def require_def)

section \<open>Tenant isolation\<close>

text \<open>The writes as data. \<open>Assign\<close> is an \<open>update\<close>.\<close>

datatype 'a row_op =
    Insert "'a row"
  | Assign string "'a row \<Rightarrow> 'a row"
  | Remove string int
  | Purge string
  | Restore string

fun perform :: "model \<Rightarrow> request_context option \<Rightarrow> 'a row_op \<Rightarrow> 'a table \<Rightarrow> repo_error option \<times> 'a table" where
  "perform M ctx (Insert r) t = (case create_row M ctx r t of (x, t') \<Rightarrow> (case x of Inl e \<Rightarrow> Some e | Inr _ \<Rightarrow> None, t'))"
| "perform M ctx (Assign i f) t = (case update_row M ctx i f t of (x, t') \<Rightarrow> (case x of Inl e \<Rightarrow> Some e | Inr _ \<Rightarrow> None, t'))"
| "perform M ctx (Remove i now) t = (case remove_row M ctx now i t of (x, t') \<Rightarrow> (case x of Inl e \<Rightarrow> Some e | Inr _ \<Rightarrow> None, t'))"
| "perform M ctx (Purge i) t = (case purge_row M ctx i t of (x, t') \<Rightarrow> (case x of Inl e \<Rightarrow> Some e | Inr _ \<Rightarrow> None, t'))"
| "perform M ctx (Restore i) t = (case restore_row M ctx i t of (x, t') \<Rightarrow> (case x of Inl e \<Rightarrow> Some e | Inr _ \<Rightarrow> None, t'))"

text \<open>An assignment that leaves the id and the organization of a row alone.\<close>

fun stays :: "'a row_op \<Rightarrow> bool" where
  "stays (Assign i f) \<longleftrightarrow> (\<forall>r. row_org (f r) = row_org r \<and> row_id (f r) = row_id r)"
| "stays _ \<longleftrightarrow> True"

definition others :: "string \<Rightarrow> 'a table \<Rightarrow> 'a table" where
  "others org t = filter (\<lambda>r. row_org r \<noteq> org) t"

lemma others_map:
  assumes "\<And>r. satisfies_all w r \<Longrightarrow> row_org r = org" and "\<And>r. row_org (f r) = row_org r"
  shows "others org (map (\<lambda>r. if satisfies_all w r then f r else r) t) = others org t"
  using assms by (induction t) (auto simp: others_def)

lemma others_filter:
  assumes "\<And>r. satisfies_all w r \<Longrightarrow> row_org r = org"
  shows "others org (filter (\<lambda>r. \<not> satisfies_all w r) t) = others org t"
  using assms by (induction t) (auto simp: others_def)

lemma perform_isolated:
  assumes "tenant ctx = Inr org" and "stays p"
  shows "others org (snd (perform M ctx p t)) = others org t"
proof (cases p)
  case (Insert r)
  with assms show ?thesis by (simp add: create_row_def others_def)
next
  case (Assign i f)
  have "others org (snd (update_many (scope M org False (by_id i)) f t)) = others org t"
    unfolding update_many_def snd_conv
    by (rule others_map) (use Assign assms in \<open>auto simp: scope_by_id\<close>)
  with Assign assms show ?thesis by (simp add: update_row_def split_beta)
next
  case (Remove i now)
  let ?w = "scope M org False (by_id i) :: 'a conditions"
  have 1: "others org (snd (update_many ?w (\<lambda>r. r\<lparr>row_deleted := Some now\<rparr>) t)) = others org t"
    unfolding update_many_def snd_conv by (rule others_map) (auto simp: scope_by_id)
  have 2: "others org (snd (delete_many ?w t)) = others org t"
    unfolding delete_many_def snd_conv by (rule others_filter) (auto simp: scope_by_id)
  from 1 2 Remove assms show ?thesis by (simp add: remove_row_def Let_def split_beta)
next
  case (Purge i)
  have "others org (snd (delete_many (own org i) t)) = others org t"
    unfolding delete_many_def snd_conv by (rule others_filter) (auto simp: own_iff)
  with Purge assms show ?thesis by (simp add: purge_row_def)
next
  case (Restore i)
  have "others org (snd (update_many (own org i) (\<lambda>r. r\<lparr>row_deleted := None\<rparr>) t)) = others org t"
    unfolding update_many_def snd_conv by (rule others_map) (auto simp: own_iff)
  with Restore assms show ?thesis by (simp add: restore_row_def Let_def)
qed

interpretation isolated: kept "\<lambda>t. tenant ctx = Inr org \<and> others org t = rest" "perform M ctx" stays
  for M ctx org rest
  by unfold_locales (simp add: perform_isolated)

text \<open>C33: Tenant isolation of the writes. Whatever an organization creates, updates,
  removes, purges or restores through a repository, in any order and with any ids, the rows of all
  other organizations stay as they are. (An \<open>update\<close> that assigns the tenant column itself is
  excluded; see \<open>update_can_move_a_row\<close>.)\<close>

theorem other_tenants_untouched:
  assumes "tenant ctx = Inr org" and "\<forall>p \<in> set ps. stays p"
  shows "others org (snd (run_ops (perform M ctx) ps t)) = others org t"
  using isolated.kept_run [of ctx org t "others org t" ps M] assms by simp

definition ctx_of :: "string \<Rightarrow> request_context option" where
  "ctx_of org = Some \<lparr>userId = ''u'', organizationId = org, roleKey = ''admin'', permissions = [],
     requestId = ''r'', ip = None, userAgent = None\<rparr>"

definition soft_model :: model where
  "soft_model = \<lparr>modelName = ''memoryShard'', softDeletes = True\<rparr>"

definition two_tenants :: "nat table" where
  "two_tenants = [\<lparr>row_id = ''1'', row_org = ''a'', row_deleted = None, contents = 10\<rparr>,
                  \<lparr>row_id = ''2'', row_org = ''b'', row_deleted = None, contents = 20\<rparr>]"

definition raising :: "nat row \<Rightarrow> nat row" where
  "raising r = r\<lparr>contents := contents r + 1\<rparr>"

lemma other_tenants_untouched_witness:
  "let t' = snd (run_ops (perform soft_model (ctx_of ''a''))
         [Assign ''1'' raising, Assign ''2'' raising, Purge ''2'', Remove ''1'' 5, Insert (hd two_tenants\<lparr>row_org := ''b''\<rparr>)]
         two_tenants)
   in others ''a'' t' = [\<lparr>row_id = ''2'', row_org = ''b'', row_deleted = None, contents = 20\<rparr>]
      \<and> map (\<lambda>r. (row_id r, row_org r, contents r)) t' = [(''1'', ''a'', 11), (''2'', ''b'', 20), (''1'', ''a'', 10)]"
proof -
  let ?ps = "[Assign ''1'' raising, Assign ''2'' raising, Purge ''2'', Remove ''1'' 5, Insert (hd two_tenants\<lparr>row_org := ''b''\<rparr>)]"
  have "others ''a'' (snd (run_ops (perform soft_model (ctx_of ''a'')) ?ps two_tenants)) = others ''a'' two_tenants"
    by (rule other_tenants_untouched) (auto simp: ctx_of_def raising_def)
  moreover have "others ''a'' two_tenants = [\<lparr>row_id = ''2'', row_org = ''b'', row_deleted = None, contents = 20\<rparr>]"
    by (simp add: others_def two_tenants_def)
  moreover have "map (\<lambda>r. (row_id r, row_org r, contents r)) (snd (run_ops (perform soft_model (ctx_of ''a'')) ?ps two_tenants))
      = [(''1'', ''a'', 11), (''2'', ''b'', 20), (''1'', ''a'', 10)]" by code_simp
  ultimately show ?thesis by (simp add: Let_def)
qed

text \<open>
  The tenant column is stamped by \<open>create\<close> only. An \<open>update\<close> that is handed an
  \<open>organizationId\<close> writes it, and the row leaves its tenant.
\<close>

lemma update_can_move_a_row:
  "update_row soft_model (ctx_of ''a'') ''1'' (\<lambda>r. r\<lparr>row_org := ''b''\<rparr>) two_tenants
     = (Inl (not_found soft_model ''1''), [hd two_tenants\<lparr>row_org := ''b''\<rparr>, two_tenants ! 1])"
  by code_simp

section \<open>What a read returns\<close>

text \<open>A predicate that names neither of the columns the scope sets.\<close>

definition plain_conditions :: "'a conditions \<Rightarrow> bool" where
  "plain_conditions w \<longleftrightarrow> ''organizationId'' \<notin> set (keys w) \<and> ''deletedAt'' \<notin> set (keys w)"

definition visible :: "model \<Rightarrow> string \<Rightarrow> bool \<Rightarrow> 'a row \<Rightarrow> bool" where
  "visible M org wd r \<longleftrightarrow> row_org r = org \<and> (softDeletes M \<and> \<not> wd \<longrightarrow> row_deleted r = None)"

lemma scope_plain:
  "plain_conditions w \<Longrightarrow> satisfies_all (scope M org wd w) r \<longleftrightarrow> satisfies_all w r \<and> visible M org wd r"
  by (auto simp: plain_conditions_def scope_def Let_def put_new satisfies_all_def visible_def)

lemma set_select:
  "set (select_rows w opts t) \<subseteq> {r \<in> set t. satisfies_all w r}"
  by (auto simp: select_rows_def Let_def split: option.splits dest!: in_set_takeD in_set_dropD)

lemma set_select_all:
  "skip opts = None \<Longrightarrow> take_at_most opts = None \<Longrightarrow>
   set (select_rows w opts t) = {r \<in> set t. satisfies_all w r}"
  by (auto simp: select_rows_def Let_def split: option.splits)

lemma find_first_Some: "find_first w t = Some r \<Longrightarrow> r \<in> set t \<and> satisfies_all w r"
  by (auto simp: find_first_def find_Some_iff dest: nth_mem)

text \<open>C34: A read is confined to the tenant and complete within it. Whatever the caller's
  predicate says, even about the tenant column, every row returned belongs to the tenant and, unless
  deleted rows are asked for, is not soft-deleted; and a \<open>findMany\<close> without a page returns every
  such row that satisfies the predicate.\<close>

theorem reads_confined_and_complete:
  assumes "tenant ctx = Inr org"
  shows "(\<exists>rs. findMany M ctx w opts t = Inr rs \<and> set rs \<subseteq> set t \<and> (\<forall>r \<in> set rs. visible M org (withDeleted opts) r)
           \<and> (plain_conditions w \<and> skip opts = None \<and> take_at_most opts = None \<longrightarrow>
                set rs = {r \<in> set t. satisfies_all w r \<and> visible M org (withDeleted opts) r}))
       \<and> (\<forall>i r. findById M ctx i opts t = Inr (Some r) \<longrightarrow>
            r \<in> set t \<and> row_id r = i \<and> visible M org (withDeleted opts) r)"
proof -
  have 1: "visible M org (withDeleted opts) r" if "satisfies_all (scope M org (withDeleted opts) w) r" for r
    using scope_confines [OF that] by (auto simp: visible_def)
  have 2: "r \<in> set t \<and> row_id r = i \<and> visible M org (withDeleted opts) r"
    if "findById M ctx i opts t = Inr (Some r)" for i r
    using that assms by (auto simp: findById_def scope_by_id visible_def dest!: find_first_Some)
  show ?thesis
    using assms 1 2 set_select [of "scope M org (withDeleted opts) w" opts t]
      set_select_all [of opts "scope M org (withDeleted opts) w" t]
    by (auto simp: findMany_def scope_plain)
qed

lemma reads_confined_and_complete_witness:
  "findMany soft_model (ctx_of ''a'') [(''organizationId'', \<lambda>r. row_org r = ''b'')] no_options two_tenants
     = Inr [hd two_tenants]
   \<and> (\<exists>rs. findMany soft_model (ctx_of ''a'') [] no_options two_tenants = Inr rs
        \<and> set rs = {r \<in> set two_tenants. row_org r = ''a'' \<and> row_deleted r = None})"
proof -
  have "tenant (ctx_of ''a'') = Inr ''a''" by (simp add: ctx_of_def)
  from reads_confined_and_complete [OF this, of soft_model "[]" no_options two_tenants]
  have "\<exists>rs. findMany soft_model (ctx_of ''a'') [] no_options two_tenants = Inr rs
        \<and> set rs = {r \<in> set two_tenants. row_org r = ''a'' \<and> row_deleted r = None}"
    by (auto simp: no_options_def plain_conditions_def satisfies_all_def visible_def soft_model_def)
  moreover have "findMany soft_model (ctx_of ''a'') [(''organizationId'', \<lambda>r. row_org r = ''b'')] no_options two_tenants
     = Inr [hd two_tenants]" by code_simp
  ultimately show ?thesis by simp
qed

section \<open>Without a tenant\<close>

text \<open>Repositories fail closed. Without a request context, or with one whose organization
  is empty, every read and every write fails with the same error, and the table stays as it is
  (restoring a row of a model without soft deletion fails before, with its own error).\<close>

theorem fails_closed:
  assumes "ctx = None \<or> (\<exists>c. ctx = Some c \<and> organizationId c = [])"
  shows "findById M ctx i opts t = Inl (Unusable no_context)
       \<and> findByIdOrFail M ctx i opts t = Inl (Unusable no_context)
       \<and> findMany M ctx w opts t = Inl (Unusable no_context)
       \<and> paginate M ctx w opts t = Inl (Unusable no_context)
       \<and> exists_row M ctx w t = Inl (Unusable no_context)
       \<and> snd (perform M ctx p t) = t \<and> (\<exists>e. fst (perform M ctx p t) = Some e)
       \<and> ((\<forall>j. p \<noteq> Restore j) \<longrightarrow> fst (perform M ctx p t) = Some (Unusable no_context))"
proof -
  from assms have t: "tenant ctx = Inl (Unusable no_context)"
    by (auto simp: tenant_def require_def)
  show ?thesis
    by (cases p) (simp_all add: t findById_def findByIdOrFail_def findMany_def paginate_def count_rows_def
        exists_row_def create_row_def update_row_def remove_row_def purge_row_def restore_row_def)
qed

lemma fails_closed_witness:
  "perform soft_model None (Purge ''1'') two_tenants = (Some (Unusable no_context), two_tenants)"
  using fails_closed [of None soft_model "''1''" no_options two_tenants "[]" "Purge ''1''"]
  by (simp add: prod_eq_iff del: perform.simps)

section \<open>Deleting and restoring\<close>

definition unique_ids :: "'a table \<Rightarrow> bool" where
  "unique_ids t \<longleftrightarrow> distinct (map row_id t)"

lemma unique_idsD: "unique_ids t \<Longrightarrow> r \<in> set t \<Longrightarrow> r' \<in> set t \<Longrightarrow> row_id r = row_id r' \<Longrightarrow> r = r'"
  by (auto simp: unique_ids_def distinct_map inj_on_def)

lemma find_first_unique:
  assumes "unique_ids t" and "r \<in> set t" and "\<And>x. satisfies_all w x \<Longrightarrow> row_id x = row_id r"
  shows "find_first w t = (if satisfies_all w r then Some r else None)"
proof (cases "satisfies_all w r")
  case True
  then obtain x where x: "find_first w t = Some x"
    using assms(2) by (cases "find_first w t") (auto simp: find_first_def find_None_iff)
  from find_first_Some [OF x] assms have "x = r" by (auto dest: unique_idsD)
  with x True show ?thesis by simp
next
  case False
  have "\<not> satisfies_all w x" if "x \<in> set t" for x
    using that False assms by (metis unique_idsD)
  with False show ?thesis by (auto simp: find_first_def find_None_iff)
qed

text \<open>\<open>updateMany\<close> by id, on the one row with that id.\<close>

lemma update_by_id:
  assumes "unique_ids t" and "r \<in> set t" and "satisfies_all w r"
    and "\<And>x. satisfies_all w x \<Longrightarrow> row_id x = row_id r"
  shows "update_many w f t = (1, map (\<lambda>x. if x = r then f r else x) t)"
proof -
  have eq: "satisfies_all w x \<longleftrightarrow> x = r" if "x \<in> set t" for x
    using that assms by (metis unique_idsD)
  have "distinct t" using assms(1) by (simp add: unique_ids_def distinct_map)
  moreover have "{x. x = r} \<inter> set t = {r}" using assms(2) by auto
  ultimately have "length (filter (\<lambda>x. x = r) t) = 1" by (simp add: distinct_length_filter)
  then have "length (filter (satisfies_all w) t) = 1" using eq by (simp cong: filter_cong)
  moreover have "map (\<lambda>x. if satisfies_all w x then f x else x) t = map (\<lambda>x. if x = r then f r else x) t"
    using eq by auto
  ultimately show ?thesis by (simp add: update_many_def)
qed

lemma update_many_none: "(\<And>x. x \<in> set t \<Longrightarrow> \<not> satisfies_all w x) \<Longrightarrow> update_many w f t = (0, t)"
  by (auto simp: update_many_def filter_empty_conv map_idI)

lemma map_replace_mem: "r \<in> set t \<Longrightarrow> f r \<in> set (map (\<lambda>x. if x = r then f r else x) t)"
  by (auto simp: image_iff)

lemma unique_ids_replace:
  assumes "unique_ids t" and "row_id (f r) = row_id r"
  shows "unique_ids (map (\<lambda>x. if x = r then f r else x) t)"
proof -
  have "map row_id (map (\<lambda>x. if x = r then f r else x) t) = map row_id t"
    using assms(2) by auto
  with assms(1) show ?thesis by (simp add: unique_ids_def del: map_map)
qed

text \<open>
  \<open>update\<close> on a visible row: it writes the row and reads it back under the same scope, so an
  update that makes the row invisible reports that the row was not found, after having written it.
\<close>

lemma update_row_visible:
  assumes "tenant ctx = Inr org" and "unique_ids t" and "r \<in> set t" and "visible M org False r"
    and "row_id (f r) = row_id r"
  shows "update_row M ctx (row_id r) f t =
     ((if visible M org False (f r) then Inr (f r) else Inl (not_found M (row_id r))),
      map (\<lambda>x. if x = r then f r else x) t)"
proof -
  let ?w = "scope M org False (by_id (row_id r)) :: 'a conditions"
  let ?t = "map (\<lambda>x. if x = r then f r else x) t"
  have w: "satisfies_all ?w x \<longleftrightarrow> row_id x = row_id r \<and> visible M org False x" for x
    by (simp add: scope_by_id visible_def)
  have upd: "update_many ?w f t = (1, ?t)"
    using assms(2,3,4) by (intro update_by_id) (auto simp: w)
  have "find_first ?w ?t = (if satisfies_all ?w (f r) then Some (f r) else None)"
    using map_replace_mem [OF assms(3), of f]
    by (intro find_first_unique unique_ids_replace assms(2,5)) (auto simp: w assms(5))
  then have "find_first ?w ?t = (if visible M org False (f r) then Some (f r) else None)"
    by (simp add: w assms(5))
  with upd assms(1) show ?thesis
    by (simp add: update_row_def findByIdOrFail_def findById_def no_options_def)
qed

lemma update_row_invisible:
  assumes "tenant ctx = Inr org" and "\<And>r. r \<in> set t \<Longrightarrow> row_id r = i \<Longrightarrow> \<not> visible M org False r"
  shows "update_row M ctx i f t = (Inl (not_found M i), t)"
proof -
  have "update_many (scope M org False (by_id i)) f t = (0, t)"
    using assms(2) by (intro update_many_none) (auto simp: scope_by_id visible_def)
  with assms(1) show ?thesis by (simp add: update_row_def)
qed

text \<open>Removing a row of a model with soft deletion hides it from every ordinary read and
  keeps it for a read that asks for deleted rows; restoring it afterwards brings back exactly the
  table there was before, and returns the row.\<close>

theorem remove_restore_roundtrip:
  assumes "tenant ctx = Inr org" and "unique_ids t" and "r \<in> set t" and "visible M org False r"
    and "softDeletes M"
  shows "\<exists>t'. remove_row M ctx now (row_id r) t = (Inr (), t')
           \<and> findById M ctx (row_id r) no_options t' = Inr None
           \<and> findById M ctx (row_id r) (no_options\<lparr>withDeleted := True\<rparr>) t'
               = Inr (Some (r\<lparr>row_deleted := Some now\<rparr>))
           \<and> restore_row M ctx (row_id r) t' = (Inr r, t)"
proof -
  let ?d = "r\<lparr>row_deleted := Some now\<rparr>"
  let ?w = "\<lambda>wd. scope M org wd (by_id (row_id r)) :: 'a conditions"
  let ?t = "map (\<lambda>x. if x = r then ?d else x) t"
  have org: "row_org r = org" and live: "row_deleted r = None"
    using assms(4,5) by (auto simp: visible_def)
  have dt: "?d \<in> set ?t" using assms(3) by (auto simp: image_iff)
  have ut: "unique_ids ?t"
    using unique_ids_replace [of t "\<lambda>x. x\<lparr>row_deleted := Some now\<rparr>" r] assms(2) by simp
  have idw: "\<And>wd x. satisfies_all (?w wd) x \<Longrightarrow> row_id x = row_id r" by (simp add: scope_by_id)
  have sat: "satisfies_all (?w False) r" using org live by (simp add: scope_by_id)
  have "update_many (?w False) (\<lambda>r. r\<lparr>row_deleted := Some now\<rparr>) t = (1, ?t)"
    using assms(2,3) sat idw by (rule update_by_id)
  then have 1: "remove_row M ctx now (row_id r) t = (Inr (), ?t)"
    using assms(1,5) by (simp add: remove_row_def Let_def)
  have find: "find_first (?w wd) ?t = (if wd then Some ?d else None)" for wd
  proof -
    have "satisfies_all (?w wd) ?d \<longleftrightarrow> wd" using assms(5) org by (simp add: scope_by_id)
    moreover have "\<And>x. satisfies_all (?w wd) x \<Longrightarrow> row_id x = row_id ?d" by (simp add: scope_by_id)
    ultimately show ?thesis using find_first_unique [OF ut dt, of "?w wd"] by simp
  qed
  have 2: "update_many (own org (row_id r)) (\<lambda>r. r\<lparr>row_deleted := None\<rparr>) ?t = (1, t)"
  proof -
    have "update_many (own org (row_id r)) (\<lambda>r. r\<lparr>row_deleted := None\<rparr>) ?t
        = (1, map (\<lambda>x. if x = ?d then ?d\<lparr>row_deleted := None\<rparr> else x) ?t)"
      by (rule update_by_id [OF ut dt]) (simp_all add: own_iff org)
    moreover have dn: "?d\<lparr>row_deleted := None\<rparr> = r" using live by simp
    have restored: "(if (if x = r then ?d else x) = ?d then r else (if x = r then ?d else x)) = x"
      if "x \<in> set t" for x
    proof (cases "x = r")
      case False
      then have "row_id x \<noteq> row_id r" using that assms(2,3) by (auto dest: unique_idsD)
      then show ?thesis using False by auto
    qed simp
    have "map (\<lambda>x. if x = ?d then ?d\<lparr>row_deleted := None\<rparr> else x) ?t = t"
      unfolding dn map_map comp_def using restored by (rule map_idI)
    ultimately show ?thesis by simp
  qed
  have "find_first (?w False) t = Some r"
  proof -
    have "find_first (?w False) t = (if satisfies_all (?w False) r then Some r else None)"
      by (rule find_first_unique [OF assms(2,3)]) (rule idw)
    then show ?thesis using sat by (simp only: if_True)
  qed
  then have 3: "restore_row M ctx (row_id r) ?t = (Inr r, t)"
    using 2 assms(1,5) by (simp add: restore_row_def findByIdOrFail_def findById_def no_options_def)
  from 1 3 find assms(1) show ?thesis by (auto simp: findById_def no_options_def)
qed

lemma remove_restore_roundtrip_witness:
  "\<exists>t'. remove_row soft_model (ctx_of ''a'') 5 ''1'' two_tenants = (Inr (), t')
      \<and> restore_row soft_model (ctx_of ''a'') ''1'' t' = (Inr (hd two_tenants), two_tenants)
      \<and> findById soft_model (ctx_of ''a'') ''1'' no_options t' = Inr None"
proof -
  have "tenant (ctx_of ''a'') = Inr ''a''" by (simp add: ctx_of_def)
  from remove_restore_roundtrip [OF this, of two_tenants "hd two_tenants" soft_model 5]
  show ?thesis by (auto simp: unique_ids_def two_tenants_def visible_def soft_model_def)
qed

text \<open>The id given to \<open>create\<close> is found again.\<close>

lemma find_append_None: "List.find P xs = None \<Longrightarrow> List.find P (xs @ ys) = List.find P ys"
  by (induction xs) (auto split: if_splits)

lemma create_then_find:
  assumes "tenant ctx = Inr org" and "row_id r \<notin> row_id ` set t" and "row_deleted r = None"
  shows "case create_row M ctx r t of (x, t') \<Rightarrow>
     x = Inr (r\<lparr>row_org := org\<rparr>) \<and> findById M ctx (row_id r) no_options t' = Inr (Some (r\<lparr>row_org := org\<rparr>))"
proof -
  have "find_first (scope M org False (by_id (row_id r))) (t @ [r\<lparr>row_org := org\<rparr>]) = Some (r\<lparr>row_org := org\<rparr>)"
  proof -
    have "List.find (satisfies_all (scope M org False (by_id (row_id r)))) t = None"
      using assms(2) by (auto simp: find_None_iff scope_by_id image_iff)
    then show ?thesis using assms(3)
      by (simp add: find_first_def scope_by_id find_append_None)
  qed
  with assms(1) show ?thesis by (simp add: create_row_def findById_def no_options_def)
qed

end
