(* ===== verification/MemorySync.thy ===== *)
theory MemorySync
  imports VectorClock Repository "HOL-Library.Extended_Nat"
begin

text \<open>
  The shared memory of \<open>src/backend/src/distributed/memory-sync.service.ts\<close>: writes, deletions,
  reads and caching of shards, the operation log nodes pull, the application of remote writes, and
  recovery. With it the repositories it uses in
  \<open>src/backend/src/database/repositories/distributed.repositories.ts\<close>.

  Every operation runs to its end on the tables of one database; the clock is read once per
  operation. The log's sequence is a counter of the database that other organizations advance too
  (\<open>Elsewhere\<close>). Publishing an event appends to \<open>published\<close>. The digest, the text of a number and
  the supply of new ids are parameters.
\<close>

section \<open>Tables\<close>

record shard_data =
  s_scope :: memory_scope
  s_namespace :: string
  s_key :: string
  s_node :: string
  s_value :: obj
  s_version :: int
  s_checksum :: string
  s_clock :: clock
  s_owner :: "string option"
  s_writer :: "string option"
  s_tags :: "string list"
  s_expires :: "int option"
  s_updated :: int

type_synonym shard = "shard_data row"

datatype op_kind = PUT | DELETE

datatype op_status = PENDING_OP | APPLIED | SUPERSEDED | CONFLICT

record op_data =
  op_sequence :: nat
  op_shard :: "string option"
  op_scope :: memory_scope
  op_namespace :: string
  op_key :: string
  op_kind :: op_kind
  op_payload :: obj
  op_version :: int
  op_node :: string
  op_status :: op_status
  op_resolution :: "string option"
  op_applied :: "int option"

type_synonym sync_op = "op_data row"

record sync_state =
  y_node :: string
  y_scope :: memory_scope
  y_last :: nat
  y_at :: "int option"
  y_pending :: nat
  y_recovering :: bool

datatype memory_event =
    MemoryShardWritten string memory_scope string string int
  | MemoryShardDeleted string memory_scope string string
  | MemorySyncConflict string string memory_scope winner string
  | MemorySyncCompleted string nat enat nat
  | MemorySyncRecovered string string nat nat

text \<open>\<open>fleet\<close> holds the slug of each node; \<open>issued\<close> counts the ids handed out.\<close>

record memory =
  shards :: "shard_data table"
  log :: "op_data table"
  cursors :: "sync_state table"
  fleet :: "string table"
  last_sequence :: nat
  issued :: nat
  published :: "memory_event list"

record memory_env =
  sha256_hex :: "string \<Rightarrow> string"
  number_text :: "rat \<Rightarrow> string"
  cuid :: "nat \<Rightarrow> string"

datatype memory_error = Rejected string | Repo repo_error

definition SHARDS :: model where "SHARDS = \<lparr>modelName = ''memoryShard'', softDeletes = True\<rparr>"
definition OPS :: model where "OPS = \<lparr>modelName = ''memorySyncOp'', softDeletes = False\<rparr>"
definition STATES :: model where "STATES = \<lparr>modelName = ''nodeSyncState'', softDeletes = False\<rparr>"
definition NODES :: model where "NODES = \<lparr>modelName = ''node'', softDeletes = True\<rparr>"

definition PULL_BATCH :: nat where "PULL_BATCH = 200"

section \<open>The repositories\<close>

definition findByKey :: "request_context option \<Rightarrow> memory_scope \<Rightarrow> string \<Rightarrow> string \<Rightarrow> string \<Rightarrow> memory
    \<Rightarrow> repo_error + shard option" where
  "findByKey ctx sc ns k node m =
     bindE (tenant ctx) (\<lambda>org. Inr (find_first
       (scope SHARDS org True
          [(''scope'', \<lambda>r. s_scope (contents r) = sc), (''namespace'', \<lambda>r. s_namespace (contents r) = ns),
           (''key'', \<lambda>r. s_key (contents r) = k), (''nodeId'', \<lambda>r. s_node (contents r) = node)])
       (shards m)))"

definition newest_first :: "shard \<Rightarrow> shard \<Rightarrow> int" where
  "newest_first r r' = ord3 (s_updated (contents r')) (s_updated (contents r))"

definition listScope :: "request_context option \<Rightarrow> memory_scope \<Rightarrow> string option \<Rightarrow> nat \<Rightarrow> memory
    \<Rightarrow> repo_error + shard list" where
  "listScope ctx sc ns n m =
     findMany SHARDS ctx
       ((''scope'', \<lambda>r. s_scope (contents r) = sc)
        # (case ns of None \<Rightarrow> [] | Some x \<Rightarrow> [(''namespace'', \<lambda>r. s_namespace (contents r) = x)]))
       (no_options\<lparr>take_at_most := Some n, orderBy := Some newest_first\<rparr>) (shards m)"

definition sequence_of :: "sync_op \<Rightarrow> nat" where
  "sequence_of r = op_sequence (contents r)"

definition since :: "request_context option \<Rightarrow> nat \<Rightarrow> memory_scope list \<Rightarrow> nat \<Rightarrow> memory \<Rightarrow> repo_error + sync_op list" where
  "since ctx cursor scopes n m =
     findMany OPS ctx
       [(''sequence'', \<lambda>r. sequence_of r > cursor), (''scope'', \<lambda>r. op_scope (contents r) \<in> set scopes)]
       (no_options\<lparr>take_at_most := Some n, orderBy := Some (\<lambda>r r'. ord3 (sequence_of r) (sequence_of r'))\<rparr>) (log m)"

definition conflicts :: "request_context option \<Rightarrow> nat \<Rightarrow> memory \<Rightarrow> repo_error + sync_op list" where
  "conflicts ctx n m =
     findMany OPS ctx [(''status'', \<lambda>r. op_status (contents r) = CONFLICT)]
       (no_options\<lparr>take_at_most := Some n, orderBy := Some (\<lambda>r r'. ord3 (sequence_of r') (sequence_of r))\<rparr>) (log m)"

definition latestSequence :: "request_context option \<Rightarrow> memory \<Rightarrow> repo_error + nat" where
  "latestSequence ctx m =
     bindE (tenant ctx) (\<lambda>org.
       case select_rows (scope OPS org False [])
              (no_options\<lparr>orderBy := Some (\<lambda>r r'. ord3 (sequence_of r') (sequence_of r))\<rparr>) (log m) of
         [] \<Rightarrow> Inr 0 | r # rs \<Rightarrow> Inr (sequence_of r))"

definition forNode :: "request_context option \<Rightarrow> string \<Rightarrow> memory \<Rightarrow> repo_error + sync_state row list" where
  "forNode ctx node m = findMany STATES ctx [(''nodeId'', \<lambda>r. y_node (contents r) = node)] no_options (cursors m)"

definition cursor_row :: "string \<Rightarrow> memory_scope \<Rightarrow> sync_state row \<Rightarrow> bool" where
  "cursor_row node sc r \<longleftrightarrow> y_node (contents r) = node \<and> y_scope (contents r) = sc"

text \<open>The upsert of \<open>advance\<close> goes by node and scope alone.\<close>

definition advance :: "memory_env \<Rightarrow> string \<Rightarrow> int \<Rightarrow> string \<Rightarrow> nat \<Rightarrow> nat \<Rightarrow> bool \<Rightarrow> memory_scope \<Rightarrow> memory \<Rightarrow> memory" where
  "advance env org now node lastSequence pending recovering sc m =
     (if list_ex (cursor_row node sc) (cursors m)
      then m\<lparr>cursors := map (\<lambda>r. if cursor_row node sc r
               then r\<lparr>contents := (contents r)\<lparr>y_last := lastSequence, y_pending := pending,
                        y_recovering := recovering, y_at := Some now\<rparr>\<rparr> else r) (cursors m)\<rparr>
      else m\<lparr>cursors := cursors m @ [\<lparr>row_id = cuid env (issued m), row_org = org, row_deleted = None,
               contents = \<lparr>y_node = node, y_scope = sc, y_last = lastSequence, y_at = Some now, y_pending = pending,
                 y_recovering = recovering\<rparr>\<rparr>], issued := Suc (issued m)\<rparr>)"

section \<open>Steps on the tables\<close>

definition emit_event :: "memory_event \<Rightarrow> memory \<Rightarrow> memory" where
  "emit_event e m = m\<lparr>published := published m @ [e]\<rparr>"

definition update_shard :: "request_context option \<Rightarrow> string \<Rightarrow> (shard \<Rightarrow> shard) \<Rightarrow> memory
    \<Rightarrow> (memory_error + shard) \<times> memory" where
  "update_shard ctx i f m =
     (case update_row SHARDS ctx i f (shards m) of
        (Inl e, t) \<Rightarrow> (Inl (Repo e), m\<lparr>shards := t\<rparr>)
      | (Inr r, t) \<Rightarrow> (Inr r, m\<lparr>shards := t\<rparr>))"

definition appendOp :: "memory_env \<Rightarrow> request_context option \<Rightarrow> int \<Rightarrow> op_data \<Rightarrow> memory
    \<Rightarrow> (memory_error + sync_op) \<times> memory" where
  "appendOp env ctx now d m =
     (case create_row OPS ctx
             \<lparr>row_id = cuid env (issued m), row_org = [], row_deleted = None,
              contents = d\<lparr>op_sequence := Suc (last_sequence m),
                op_applied := (if op_status d = APPLIED then Some now else None)\<rparr>\<rparr> (log m) of
        (Inl e, t) \<Rightarrow> (Inl (Repo e), m)
      | (Inr r, t) \<Rightarrow> (Inr r, m\<lparr>log := t, last_sequence := Suc (last_sequence m), issued := Suc (issued m)\<rparr>))"

definition clock_json :: "clock \<Rightarrow> json" where
  "clock_json c = JObj (map (\<lambda>(n, k). (n, JNum (Fin (of_int k)))) c)"

definition value_checksum :: "memory_env \<Rightarrow> obj \<Rightarrow> string" where
  "value_checksum env v = checksum (sha256_hex env) (number_text env) (JObj v)"

section \<open>Writing\<close>

record shard_write =
  sw_scope :: memory_scope
  sw_namespace :: "string option"
  sw_key :: string
  sw_value :: obj
  sw_node :: "string option"
  sw_tags :: "string list option"
  sw_expires :: "int option option"

definition or_string :: "string option \<Rightarrow> string \<Rightarrow> string" where
  "or_string x d = (case x of None \<Rightarrow> d | Some s \<Rightarrow> s)"

text \<open>The row \<open>put\<close> leaves behind: an update of the existing shard, or a new one.\<close>

definition overwrite :: "memory_env \<Rightarrow> int \<Rightarrow> shard_write \<Rightarrow> shard \<Rightarrow> shard" where
  "overwrite env now w r =
     (let d = contents r in
      r\<lparr>contents := d\<lparr>s_value := sw_value w, s_version := s_version d + 1,
          s_checksum := value_checksum env (sw_value w),
          s_clock := tick (s_clock d) (or_string (sw_node w) ''control-plane''), s_writer := sw_node w,
          s_tags := (case sw_tags w of None \<Rightarrow> s_tags d | Some ts \<Rightarrow> ts),
          s_expires := (case sw_expires w of None \<Rightarrow> s_expires d | Some e \<Rightarrow> e), s_updated := now\<rparr>,
        row_deleted := None\<rparr>)"

definition new_shard :: "memory_env \<Rightarrow> int \<Rightarrow> shard_write \<Rightarrow> string \<Rightarrow> shard_data" where
  "new_shard env now w node =
     \<lparr>s_scope = sw_scope w, s_namespace = or_string (sw_namespace w) ''default'', s_key = sw_key w, s_node = node,
      s_value = sw_value w, s_version = 1, s_checksum = value_checksum env (sw_value w),
      s_clock = tick [] (or_string (sw_node w) ''control-plane''), s_owner = sw_node w, s_writer = sw_node w,
      s_tags = (case sw_tags w of None \<Rightarrow> [] | Some ts \<Rightarrow> ts),
      s_expires = (case sw_expires w of None \<Rightarrow> None | Some e \<Rightarrow> e), s_updated = now\<rparr>"

definition create_shard :: "memory_env \<Rightarrow> request_context option \<Rightarrow> shard_data \<Rightarrow> memory
    \<Rightarrow> (memory_error + shard) \<times> memory" where
  "create_shard env ctx d m =
     (case create_row SHARDS ctx \<lparr>row_id = cuid env (issued m), row_org = [], row_deleted = None, contents = d\<rparr>
             (shards m) of
        (Inl e, t) \<Rightarrow> (Inl (Repo e), m)
      | (Inr r, t) \<Rightarrow> (Inr r, m\<lparr>shards := t, issued := Suc (issued m)\<rparr>))"

definition put_op :: "shard \<Rightarrow> shard_write \<Rightarrow> op_data" where
  "put_op r w =
     \<lparr>op_sequence = 0, op_shard = Some (row_id r), op_scope = sw_scope w,
      op_namespace = or_string (sw_namespace w) ''default'', op_key = sw_key w, op_kind = PUT,
      op_payload = [(''value'', JObj (sw_value w)), (''checksum'', JStr (s_checksum (contents r))),
                    (''vectorClock'', clock_json (s_clock (contents r)))],
      op_version = s_version (contents r), op_node = or_string (sw_node w) [], op_status = APPLIED,
      op_resolution = None, op_applied = None\<rparr>"

text \<open>What follows the write of the row: the log entry, the event, the answer.\<close>

definition finish_put :: "memory_env \<Rightarrow> request_context option \<Rightarrow> int \<Rightarrow> shard_write \<Rightarrow> shard \<Rightarrow> memory
    \<Rightarrow> (memory_error + shard) \<times> memory" where
  "finish_put env ctx now w r m =
     (case appendOp env ctx now (put_op r w) m of
        (Inl e, m1) \<Rightarrow> (Inl e, m1)
      | (Inr _, m1) \<Rightarrow>
          (Inr r, emit_event (MemoryShardWritten (row_id r) (sw_scope w)
             (or_string (sw_namespace w) ''default'') (sw_key w) (s_version (contents r))) m1))"

definition put_shard :: "memory_env \<Rightarrow> request_context option \<Rightarrow> int \<Rightarrow> shard_write \<Rightarrow> memory
    \<Rightarrow> (memory_error + shard) \<times> memory" where
  "put_shard env ctx now w m =
     (case nodeKeyFor (sw_scope w) (sw_node w) of
        Inl e \<Rightarrow> (Inl (Rejected e), m)
      | Inr node \<Rightarrow>
          (case findByKey ctx (sw_scope w) (or_string (sw_namespace w) ''default'') (sw_key w) node m of
             Inl e \<Rightarrow> (Inl (Repo e), m)
           | Inr existing \<Rightarrow>
               (case (case existing of
                        Some x \<Rightarrow> update_shard ctx (row_id x) (overwrite env now w) m
                      | None \<Rightarrow> create_shard env ctx (new_shard env now w node) m) of
                  (Inl e, m1) \<Rightarrow> (Inl e, m1)
                | (Inr r, m1) \<Rightarrow> finish_put env ctx now w r m1)))"

section \<open>Deleting\<close>

definition tombstone :: "int \<Rightarrow> string option \<Rightarrow> shard \<Rightarrow> shard" where
  "tombstone now node r =
     r\<lparr>contents := (contents r)\<lparr>s_version := s_version (contents r) + 1, s_writer := node, s_updated := now\<rparr>,
       row_deleted := Some now\<rparr>"

definition delete_op :: "shard \<Rightarrow> memory_scope \<Rightarrow> string \<Rightarrow> string \<Rightarrow> string option \<Rightarrow> op_data" where
  "delete_op r sc ns k node =
     \<lparr>op_sequence = 0, op_shard = Some (row_id r), op_scope = sc, op_namespace = ns, op_key = k, op_kind = DELETE,
      op_payload = [], op_version = s_version (contents r), op_node = or_string node [], op_status = APPLIED,
      op_resolution = None, op_applied = None\<rparr>"

definition remove_shard :: "memory_env \<Rightarrow> request_context option \<Rightarrow> int \<Rightarrow> memory_scope \<Rightarrow> string \<Rightarrow> string option
    \<Rightarrow> string option \<Rightarrow> memory \<Rightarrow> (memory_error + shard option) \<times> memory" where
  "remove_shard env ctx now sc k namespace nodeId m =
     (let ns = or_string namespace ''default'' in
      case nodeKeyFor sc nodeId of
        Inl e \<Rightarrow> (Inl (Rejected e), m)
      | Inr node \<Rightarrow>
          (case findByKey ctx sc ns k node m of
             Inl e \<Rightarrow> (Inl (Repo e), m)
           | Inr None \<Rightarrow> (Inr None, m)
           | Inr (Some x) \<Rightarrow>
               (case update_shard ctx (row_id x) (tombstone now nodeId) m of
                  (Inl e, m1) \<Rightarrow> (Inl e, m1)
                | (Inr r, m1) \<Rightarrow>
                    (case appendOp env ctx now (delete_op r sc ns k nodeId) m1 of
                       (Inl e, m2) \<Rightarrow> (Inl e, m2)
                     | (Inr _, m2) \<Rightarrow> (Inr (Some r), emit_event (MemoryShardDeleted (row_id r) sc ns k) m2)))))"

section \<open>Reading and caching\<close>

definition fresh_row :: "int \<Rightarrow> shard \<Rightarrow> bool" where
  "fresh_row now r \<longleftrightarrow> isFresh (s_expires (contents r)) (s_updated (contents r)) now"

definition read_original :: "request_context option \<Rightarrow> int \<Rightarrow> memory_scope \<Rightarrow> string \<Rightarrow> string \<Rightarrow> string option
    \<Rightarrow> memory \<Rightarrow> memory_error + shard option" where
  "read_original ctx now sc k ns nodeId m =
     (case nodeKeyFor sc nodeId of
        Inl e \<Rightarrow> Inl (Rejected e)
      | Inr node \<Rightarrow>
          (case findByKey ctx sc ns k node m of
             Inl e \<Rightarrow> Inl (Repo e)
           | Inr None \<Rightarrow> Inr None
           | Inr (Some r) \<Rightarrow>
               if row_deleted r \<noteq> None then Inr None
               else case s_expires (contents r) of
                   Some t \<Rightarrow> if t < now then Inr None else Inr (Some r)
                 | None \<Rightarrow> Inr (Some r)))"

definition read_shard :: "request_context option \<Rightarrow> int \<Rightarrow> memory_scope \<Rightarrow> string \<Rightarrow> string option \<Rightarrow> string option
    \<Rightarrow> memory \<Rightarrow> memory_error + shard option" where
  "read_shard ctx now sc k namespace nodeId m =
     (let ns = or_string namespace ''default'' in
      if sc = SHARED \<and> truthy nodeId then
        (case findByKey ctx CACHED ns k (the nodeId) m of
           Inl e \<Rightarrow> Inl (Repo e)
         | Inr (Some c) \<Rightarrow>
             if row_deleted c = None \<and> fresh_row now c then Inr (Some c)
             else read_original ctx now sc k ns nodeId m
         | Inr None \<Rightarrow> read_original ctx now sc k ns nodeId m)
      else read_original ctx now sc k ns nodeId m)"

definition cache_shard :: "memory_env \<Rightarrow> request_context option \<Rightarrow> int \<Rightarrow> string \<Rightarrow> string \<Rightarrow> string \<Rightarrow> memory
    \<Rightarrow> (memory_error + shard option) \<times> memory" where
  "cache_shard env ctx now nodeId k ns m =
     (case findByKey ctx SHARED ns k [] m of
        Inl e \<Rightarrow> (Inl (Repo e), m)
      | Inr None \<Rightarrow> (Inr None, m)
      | Inr (Some src) \<Rightarrow>
          if row_deleted src \<noteq> None then (Inr None, m)
          else case put_shard env ctx now
                 \<lparr>sw_scope = CACHED, sw_namespace = Some ns, sw_key = k, sw_value = s_value (contents src),
                  sw_node = Some nodeId, sw_tags = Some (s_tags (contents src)),
                  sw_expires = Some (Some (now + CACHE_TTL_MS))\<rparr> m of
              (Inl e, m1) \<Rightarrow> (Inl e, m1)
            | (Inr r, m1) \<Rightarrow> (Inr (Some r), m1))"

definition list_shards :: "request_context option \<Rightarrow> memory_scope \<Rightarrow> string option \<Rightarrow> nat \<Rightarrow> memory
    \<Rightarrow> repo_error + shard list" where
  "list_shards ctx sc namespace n m = listScope ctx sc (if truthy namespace then namespace else None) n m"

section \<open>Pulling the log\<close>

record sync_pull =
  p_ops :: "sync_op list"
  p_cursor :: enat
  p_latest :: nat
  p_remaining :: nat

text \<open>\<open>Math.min(...scopes.map(...))\<close>: infinite without a scope.\<close>

definition scope_cursor :: "sync_state row list \<Rightarrow> memory_scope \<Rightarrow> nat" where
  "scope_cursor states sc =
     (case List.find (\<lambda>r. y_scope (contents r) = sc) states of None \<Rightarrow> 0 | Some r \<Rightarrow> y_last (contents r))"

definition least_cursor :: "sync_state row list \<Rightarrow> memory_scope list \<Rightarrow> enat" where
  "least_cursor states scopes = fold (\<lambda>sc acc. min acc (enat (scope_cursor states sc))) scopes \<infinity>"

definition finite_or_0 :: "enat \<Rightarrow> nat" where
  "finite_or_0 c = (case c of enat n \<Rightarrow> n | \<infinity> \<Rightarrow> 0)"

text \<open>\<open>Math.max(0, latest - advanced)\<close>.\<close>

definition still_behind :: "nat \<Rightarrow> enat \<Rightarrow> nat" where
  "still_behind latest advanced = (case advanced of enat n \<Rightarrow> latest - n | \<infinity> \<Rightarrow> 0)"

definition pull :: "memory_env \<Rightarrow> request_context option \<Rightarrow> int \<Rightarrow> string \<Rightarrow> memory_scope list \<Rightarrow> nat \<Rightarrow> memory
    \<Rightarrow> (repo_error + sync_pull) \<times> memory" where
  "pull env ctx now nodeId scopes n m =
     (case bindE (forNode ctx nodeId m) (\<lambda>states.
             let cursor = least_cursor states scopes in
             bindE (since ctx (finite_or_0 cursor) scopes n m) (\<lambda>ops.
             bindE (latestSequence ctx m) (\<lambda>latest.
             bindE (tenant ctx) (\<lambda>org. Inr (cursor, ops, latest, org))))) of
        Inl e \<Rightarrow> (Inl e, m)
      | Inr (cursor, ops, latest, org) \<Rightarrow>
          let advanced = (if ops \<noteq> [] then enat (sequence_of (last ops)) else cursor);
              remaining = still_behind latest advanced;
              m1 = fold (advance env org now nodeId (finite_or_0 advanced) remaining (remaining > 0)) scopes m
          in (Inr \<lparr>p_ops = ops, p_cursor = advanced, p_latest = latest, p_remaining = remaining\<rparr>,
              emit_event (MemorySyncCompleted nodeId (length ops) advanced remaining) m1))"

text \<open>The loop of \<open>recover\<close>, at most ten pulls; \<open>left\<close> counts the batches it may still fetch.\<close>

definition MAX_BATCHES :: nat where "MAX_BATCHES = 10"

fun recover_loop :: "memory_env \<Rightarrow> request_context option \<Rightarrow> int \<Rightarrow> string \<Rightarrow> nat \<Rightarrow> nat \<Rightarrow> nat \<Rightarrow> memory
    \<Rightarrow> (repo_error + nat \<times> nat) \<times> memory" where
  "recover_loop env ctx now nodeId 0 delivered remaining m = (Inr (delivered, remaining), m)"
| "recover_loop env ctx now nodeId (Suc left) delivered remaining m =
     (case pull env ctx now nodeId [SHARED, GLOBAL] PULL_BATCH m of
        (Inl e, m1) \<Rightarrow> (Inl e, m1)
      | (Inr p, m1) \<Rightarrow>
          if p_ops p = [] \<or> p_remaining p = 0
          then (Inr (delivered + length (p_ops p), p_remaining p), m1)
          else recover_loop env ctx now nodeId left (delivered + length (p_ops p)) (p_remaining p) m1)"

definition recover :: "memory_env \<Rightarrow> request_context option \<Rightarrow> int \<Rightarrow> string \<Rightarrow> memory
    \<Rightarrow> (repo_error + nat \<times> nat) \<times> memory" where
  "recover env ctx now nodeId m =
     (case findByIdOrFail NODES ctx nodeId no_options (fleet m) of
        Inl e \<Rightarrow> (Inl e, m)
      | Inr node \<Rightarrow>
          (case recover_loop env ctx now nodeId MAX_BATCHES 0 0 m of
             (Inl e, m1) \<Rightarrow> (Inl e, m1)
           | (Inr (delivered, remaining), m1) \<Rightarrow>
               (Inr (delivered, remaining),
                emit_event (MemorySyncRecovered nodeId (contents node) delivered remaining) m1)))"

record status_row =
  t_node :: string
  t_slug :: string
  t_scope :: memory_scope
  t_last :: nat
  t_latest :: nat
  t_lag :: nat
  t_recovering :: bool
  t_at :: "int option"

definition status_row_of :: "string row \<Rightarrow> nat \<Rightarrow> sync_state row \<Rightarrow> status_row" where
  "status_row_of node latest st =
     \<lparr>t_node = row_id node, t_slug = contents node, t_scope = y_scope (contents st), t_last = y_last (contents st),
      t_latest = latest, t_lag = latest - y_last (contents st), t_recovering = y_recovering (contents st),
      t_at = y_at (contents st)\<rparr>"

fun status_rows :: "request_context option \<Rightarrow> memory \<Rightarrow> nat \<Rightarrow> string row list \<Rightarrow> repo_error + status_row list" where
  "status_rows ctx m latest [] = Inr []"
| "status_rows ctx m latest (node # nodes) =
     bindE (forNode ctx (row_id node) m) (\<lambda>states.
     bindE (status_rows ctx m latest nodes) (\<lambda>rows. Inr (map (status_row_of node latest) states @ rows)))"

definition sync_status :: "request_context option \<Rightarrow> memory \<Rightarrow> repo_error + status_row list" where
  "sync_status ctx m =
     bindE (findMany NODES ctx [] (no_options\<lparr>orderBy := Some (\<lambda>r r'. ord3 (contents r) (contents r'))\<rparr>) (fleet m))
       (\<lambda>nodes. bindE (latestSequence ctx m) (\<lambda>latest. status_rows ctx m latest nodes))"

section \<open>Applying a remote write\<close>

record incoming_op =
  i_scope :: memory_scope
  i_namespace :: "string option"
  i_key :: string
  i_kind :: op_kind
  i_value :: "obj option"
  i_version :: int
  i_node :: string
  i_clock :: "clock option"
  i_written :: "int option"

datatype apply_outcome = Applied | Superseded | Conflict

record apply_result =
  a_outcome :: apply_outcome
  a_shard :: "shard option"
  a_reason :: string
  a_winner :: "winner option"

definition incoming_value :: "incoming_op \<Rightarrow> obj" where
  "incoming_value i = (case i_value i of None \<Rightarrow> [] | Some v \<Rightarrow> v)"

definition incoming_clock :: "incoming_op \<Rightarrow> clock" where
  "incoming_clock i = (case i_clock i of None \<Rightarrow> [(i_node i, i_version i)] | Some c \<Rightarrow> c)"

definition committed :: "memory_env \<Rightarrow> int \<Rightarrow> incoming_op \<Rightarrow> clock \<Rightarrow> shard \<Rightarrow> shard" where
  "committed env now i c r =
     (let d = contents r in
      if i_kind i = DELETE
      then r\<lparr>contents := d\<lparr>s_version := max (s_version d) (i_version i), s_clock := c,
               s_writer := Some (i_node i), s_updated := now\<rparr>,
             row_deleted := Some now\<rparr>
      else r\<lparr>contents := d\<lparr>s_value := incoming_value i, s_version := max (s_version d) (i_version i),
               s_checksum := value_checksum env (incoming_value i), s_clock := c,
               s_writer := Some (i_node i), s_updated := now\<rparr>,
             row_deleted := None\<rparr>)"

definition commit :: "memory_env \<Rightarrow> request_context option \<Rightarrow> int \<Rightarrow> shard \<Rightarrow> incoming_op \<Rightarrow> clock \<Rightarrow> memory
    \<Rightarrow> (memory_error + shard) \<times> memory" where
  "commit env ctx now existing i c m = update_shard ctx (row_id existing) (committed env now i c) m"

definition received_op :: "shard \<Rightarrow> incoming_op \<Rightarrow> obj \<Rightarrow> op_status \<Rightarrow> string \<Rightarrow> op_data" where
  "received_op x i extra st resolution =
     \<lparr>op_sequence = 0, op_shard = Some (row_id x), op_scope = i_scope i,
      op_namespace = or_string (i_namespace i) ''default'', op_key = i_key i, op_kind = i_kind i,
      op_payload = [(''value'', JObj (incoming_value i)), (''vectorClock'', clock_json (incoming_clock i))] @ extra,
      op_version = i_version i, op_node = i_node i, op_status = st, op_resolution = Some resolution,
      op_applied = None\<rparr>"

definition as_write :: "incoming_op \<Rightarrow> shard_write" where
  "as_write i =
     \<lparr>sw_scope = i_scope i, sw_namespace = Some (or_string (i_namespace i) ''default''), sw_key = i_key i,
      sw_value = incoming_value i, sw_node = Some (i_node i), sw_tags = None, sw_expires = None\<rparr>"

definition contest :: "int \<Rightarrow> incoming_op \<Rightarrow> shard \<Rightarrow> winner" where
  "contest now i x =
     resolveConcurrent
       \<lparr>cand_version = i_version i, cand_at = (case i_written i of None \<Rightarrow> now | Some t \<Rightarrow> t), cand_node = i_node i\<rparr>
       \<lparr>cand_version = s_version (contents x), cand_at = s_updated (contents x),
        cand_node = or_string (s_writer (contents x)) []\<rparr>"

definition winner_name :: "winner \<Rightarrow> string" where
  "winner_name w = (case w of Incoming \<Rightarrow> ''incoming'' | Existing \<Rightarrow> ''existing'')"

definition conflict_text :: "winner \<Rightarrow> incoming_op \<Rightarrow> shard \<Rightarrow> string" where
  "conflict_text w i x =
     (case w of
        Incoming \<Rightarrow> ''concurrent write from '' @ i_node i @ '' won; previous value kept in this op log''
      | Existing \<Rightarrow> ''concurrent write from '' @ i_node i @ '' lost to local version ''
                     @ show_int (s_version (contents x)))"

definition settle_conflict :: "memory_env \<Rightarrow> request_context option \<Rightarrow> int \<Rightarrow> incoming_op \<Rightarrow> shard \<Rightarrow> memory
    \<Rightarrow> (memory_error + apply_result) \<times> memory" where
  "settle_conflict env ctx now i x m =
     (let w = contest now i x;
          merged = merge (s_clock (contents x)) (incoming_clock i) in
      case appendOp env ctx now
             (received_op x i [(''discarded'', JBool (w = Existing))] CONFLICT (conflict_text w i x)) m of
        (Inl e, m1) \<Rightarrow> (Inl e, m1)
      | (Inr losing, m1) \<Rightarrow>
          (case (let m2 = emit_event (MemorySyncConflict (row_id x) (i_key i) (i_scope i) w (row_id losing)) m1 in
                 case w of
                   Incoming \<Rightarrow> commit env ctx now x i merged m2
                 | Existing \<Rightarrow> update_shard ctx (row_id x)
                     (\<lambda>r. r\<lparr>contents := (contents r)\<lparr>s_clock := merged, s_updated := now\<rparr>\<rparr>) m2) of
             (Inl e, m3) \<Rightarrow> (Inl e, m3)
           | (Inr r, m3) \<Rightarrow>
               (Inr \<lparr>a_outcome = Conflict, a_shard = Some r,
                     a_reason = ''concurrent writes on '' @ quoted (i_key i) @ ''; '' @ winner_name w @ '' won'',
                     a_winner = Some w\<rparr>, m3)))"

definition apply_incoming :: "memory_env \<Rightarrow> request_context option \<Rightarrow> int \<Rightarrow> incoming_op \<Rightarrow> memory
    \<Rightarrow> (memory_error + apply_result) \<times> memory" where
  "apply_incoming env ctx now i m =
     (case nodeKeyFor (i_scope i) (Some (i_node i)) of
        Inl e \<Rightarrow> (Inl (Rejected e), m)
      | Inr node \<Rightarrow>
          (case findByKey ctx (i_scope i) (or_string (i_namespace i) ''default'') (i_key i) node m of
             Inl e \<Rightarrow> (Inl (Repo e), m)
           | Inr None \<Rightarrow>
               if i_kind i = DELETE
               then (Inr \<lparr>a_outcome = Applied, a_shard = None, a_reason = ''delete of a record we never had'',
                         a_winner = None\<rparr>, m)
               else (case put_shard env ctx now (as_write i) m of
                       (Inl e, m1) \<Rightarrow> (Inl e, m1)
                     | (Inr r, m1) \<Rightarrow> (Inr \<lparr>a_outcome = Applied, a_shard = Some r, a_reason = ''new record'',
                                            a_winner = None\<rparr>, m1))
           | Inr (Some x) \<Rightarrow>
               if dominates (incoming_clock i) (s_clock (contents x))
               then (case commit env ctx now x i (incoming_clock i) m of
                       (Inl e, m1) \<Rightarrow> (Inl e, m1)
                     | (Inr r, m1) \<Rightarrow> (Inr \<lparr>a_outcome = Applied, a_shard = Some r,
                                            a_reason = ''incoming write descends from ours'', a_winner = None\<rparr>, m1))
               else if dominates (s_clock (contents x)) (incoming_clock i)
               then (case appendOp env ctx now (received_op x i [] SUPERSEDED
                            (''local version '' @ show_int (s_version (contents x)) @ '' already includes this write'')) m of
                       (Inl e, m1) \<Rightarrow> (Inl e, m1)
                     | (Inr _, m1) \<Rightarrow>
                         (Inr \<lparr>a_outcome = Superseded, a_shard = Some x,
                               a_reason = ''sender is behind (theirs v'' @ show_int (i_version i) @ '', ours v''
                                 @ show_int (s_version (contents x)) @ '')'',
                               a_winner = None\<rparr>, m1))
               else settle_conflict env ctx now i x m))"

section \<open>Operations as data\<close>

text \<open>
  Each operation is made in a request context. \<open>Elsewhere\<close> is the rest of the database taking
  sequence numbers and ids.
\<close>

datatype memory_op =
    Write int shard_write
  | Erase int memory_scope string "string option" "string option"
  | Copy int string string string
  | Receive int incoming_op
  | Fetch int string "memory_scope list" nat
  | CatchUp int string
  | Elsewhere nat nat

fun memory_step :: "memory_env \<Rightarrow> request_context option \<times> memory_op \<Rightarrow> memory \<Rightarrow> unit \<times> memory" where
  "memory_step env (ctx, Write now w) m = ((), snd (put_shard env ctx now w m))"
| "memory_step env (ctx, Erase now sc k ns node) m = ((), snd (remove_shard env ctx now sc k ns node m))"
| "memory_step env (ctx, Copy now node k ns) m = ((), snd (cache_shard env ctx now node k ns m))"
| "memory_step env (ctx, Receive now i) m = ((), snd (apply_incoming env ctx now i m))"
| "memory_step env (ctx, Fetch now node scopes n) m = ((), snd (pull env ctx now node scopes n m))"
| "memory_step env (ctx, CatchUp now node) m = ((), snd (recover env ctx now node m))"
| "memory_step env (ctx, Elsewhere a b) m =
     ((), m\<lparr>last_sequence := last_sequence m + a, issued := issued m + b\<rparr>)"

text \<open>A received write whose clock counts nothing negative and names no node twice.\<close>

fun sane :: "request_context option \<times> memory_op \<Rightarrow> bool" where
  "sane (ctx, Receive now i) \<longleftrightarrow> good_clock (incoming_clock i)"
| "sane _ \<longleftrightarrow> True"

section \<open>The invariant\<close>

definition natural :: "shard \<Rightarrow> string \<times> memory_scope \<times> string \<times> string \<times> string" where
  "natural r = (row_org r, s_scope (contents r), s_namespace (contents r), s_node (contents r), s_key (contents r))"

definition wf_shards :: "memory_env \<Rightarrow> memory \<Rightarrow> bool" where
  "wf_shards env m \<longleftrightarrow>
     unique_ids (shards m) \<and> distinct (map natural (shards m))
     \<and> (\<forall>r \<in> set (shards m). (\<exists>j < issued m. row_id r = cuid env j) \<and> good_clock (s_clock (contents r)))"

definition wf_log :: "memory \<Rightarrow> bool" where
  "wf_log m \<longleftrightarrow> sorted_wrt (<) (map sequence_of (log m)) \<and> (\<forall>r \<in> set (log m). sequence_of r \<le> last_sequence m)"

definition wf_memory :: "memory_env \<Rightarrow> memory \<Rightarrow> bool" where
  "wf_memory env m \<longleftrightarrow> wf_shards env m \<and> wf_log m"

text \<open>\<open>ahead\<close>: every shard is still there, and its version and its clock have not gone back.\<close>

definition follows :: "shard \<Rightarrow> shard \<Rightarrow> bool" where
  "follows r r' \<longleftrightarrow> row_id r' = row_id r \<and> natural r' = natural r
     \<and> s_version (contents r) \<le> s_version (contents r') \<and> sees (s_clock (contents r')) (s_clock (contents r))"

definition ahead :: "memory \<Rightarrow> memory \<Rightarrow> bool" where
  "ahead m m' \<longleftrightarrow> (\<forall>r \<in> set (shards m). \<exists>r' \<in> set (shards m'). follows r r')
     \<and> (\<exists>new. log m' = log m @ new)"

lemma follows_refl: "follows r r"
  by (simp add: follows_def clocks.seen_refl)

lemma follows_trans: "follows r r' \<Longrightarrow> follows r' r'' \<Longrightarrow> follows r r''"
  unfolding follows_def using clocks.seen_trans by fastforce

lemma ahead_refl: "ahead m m"
  by (auto simp: ahead_def intro: follows_refl)

lemma ahead_trans: "ahead m m' \<Longrightarrow> ahead m' m'' \<Longrightarrow> ahead m m''"
  unfolding ahead_def by (metis append.assoc follows_trans)

text \<open>A state change that is safe: it keeps the invariant and moves ahead.\<close>

definition safe :: "memory_env \<Rightarrow> memory \<Rightarrow> memory \<Rightarrow> bool" where
  "safe env m m' \<longleftrightarrow> (wf_memory env m \<longrightarrow> wf_memory env m' \<and> ahead m m')"

lemma safe_refl: "safe env m m"
  by (simp add: safe_def ahead_refl)

lemma safe_trans: "safe env m m' \<Longrightarrow> safe env m' m'' \<Longrightarrow> safe env m m''"
  by (auto simp: safe_def intro: ahead_trans)

lemma safe_same:
  assumes "shards m' = shards m" and "log m' = log m" and "last_sequence m \<le> last_sequence m'" and "issued m \<le> issued m'"
  shows "safe env m m'"
  using assms unfolding safe_def wf_memory_def wf_shards_def wf_log_def ahead_def
  by (auto intro: follows_refl dest: order_less_le_trans) (meson order_less_le_trans order_trans)+

lemma safe_emit: "safe env m (emit_event e m)"
  by (rule safe_same) (simp_all add: emit_event_def)

lemma safe_advance: "safe env m (advance env org now node n p b sc m)"
  by (rule safe_same) (auto simp: advance_def)

lemma safe_fold_advance: "safe env m (fold (advance env org now node n p b) scopes m)"
  by (induction scopes arbitrary: m) (auto intro: safe_refl safe_trans safe_advance)

text \<open>The log grows at its end, under a new number.\<close>

lemma safe_append: "safe env m (snd (appendOp env ctx now d m))"
proof (cases "tenant ctx")
  case (Inl e)
  then show ?thesis by (simp add: appendOp_def create_row_def safe_refl)
next
  case (Inr org)
  then obtain r where m': "snd (appendOp env ctx now d m) =
      m\<lparr>log := log m @ [r], last_sequence := Suc (last_sequence m), issued := Suc (issued m)\<rparr>"
    and r: "sequence_of r = Suc (last_sequence m)"
    by (auto simp: appendOp_def create_row_def sequence_of_def)
  let ?m = "m\<lparr>log := log m @ [r], last_sequence := Suc (last_sequence m), issued := Suc (issued m)\<rparr>"
  have "wf_shards env ?m" if "wf_shards env m"
    using that by (auto simp: wf_shards_def intro: less_SucI)
  moreover have "wf_log ?m" if "wf_log m"
    using that r by (auto simp: wf_log_def sorted_wrt_append le_imp_less_Suc intro: le_SucI)
  moreover have "ahead m ?m" by (auto simp: ahead_def intro: follows_refl)
  ultimately show ?thesis unfolding m' by (simp add: safe_def wf_memory_def)
qed

text \<open>Updating one shard by a function that moves it ahead.\<close>

lemma update_shard_other [simp]:
  "log (snd (update_shard ctx i f m)) = log m" "cursors (snd (update_shard ctx i f m)) = cursors m"
  "last_sequence (snd (update_shard ctx i f m)) = last_sequence m"
  "issued (snd (update_shard ctx i f m)) = issued m" "published (snd (update_shard ctx i f m)) = published m"
  by (auto simp: update_shard_def split: prod.split sum.split)

lemma update_shard_rows:
  assumes "unique_ids (shards m)" and "x \<in> set (shards m)"
  shows "shards (snd (update_shard ctx (row_id x) f m)) = shards m
       \<or> shards (snd (update_shard ctx (row_id x) f m)) = map (\<lambda>r. if r = x then f x else r) (shards m)"
proof (cases "tenant ctx")
  case (Inl e)
  then show ?thesis by (simp add: update_shard_def update_row_def)
next
  case (Inr org)
  let ?w = "scope SHARDS org False (by_id (row_id x)) :: shard_data conditions"
  have "shards (snd (update_shard ctx (row_id x) f m)) = snd (update_many ?w f (shards m))"
    using Inr by (auto simp: update_shard_def update_row_def split: prod.split sum.split)
  also have "\<dots> = map (\<lambda>r. if r = x then if satisfies_all ?w x then f x else x else r) (shards m)"
  proof -
    have "(if satisfies_all ?w r then f r else r) = (if r = x then if satisfies_all ?w x then f x else x else r)"
      if "r \<in> set (shards m)" for r
      using unique_idsD [OF assms(1) that assms(2)] by (auto simp: scope_by_id)
    then show ?thesis by (simp add: update_many_def)
  qed
  finally show ?thesis by (auto simp: map_idI)
qed

lemma safe_update:
  assumes "x \<in> set (shards m)" and "follows x (f x)"
    and "good_clock (s_clock (contents x)) \<Longrightarrow> good_clock (s_clock (contents (f x)))"
  shows "safe env m (snd (update_shard ctx (row_id x) f m))"
  unfolding safe_def
proof
  assume wf: "wf_memory env m"
  let ?m = "snd (update_shard ctx (row_id x) f m)"
  let ?t = "map (\<lambda>r. if r = x then f x else r) (shards m)"
  have u: "unique_ids (shards m)" using wf by (simp add: wf_memory_def wf_shards_def)
  have "row_id (f x) = row_id x" and "natural (f x) = natural x" using assms(2) by (simp_all add: follows_def)
  then have ids: "map row_id ?t = map row_id (shards m)" and nat: "map natural ?t = map natural (shards m)"
    by auto
  have t: "wf_shards env (m\<lparr>shards := ?t\<rparr>)"
    using wf assms ids nat unfolding wf_memory_def wf_shards_def unique_ids_def
    by (simp del: map_map) (auto simp: follows_def)
  have a: "\<forall>r \<in> set (shards m). \<exists>r' \<in> set ?t. follows r r'"
    using assms(2) by (auto intro: follows_refl)
  have shards: "shards ?m = shards m \<or> shards ?m = ?t" by (rule update_shard_rows [OF u assms(1)])
  then show "wf_memory env ?m \<and> ahead m ?m"
  proof
    assume "shards ?m = shards m"
    with safe_same [of ?m m env] wf show ?thesis by (simp add: safe_def)
  next
    assume s: "shards ?m = ?t"
    with t have "wf_shards env ?m" by (simp add: wf_shards_def)
    moreover have "wf_log ?m" using wf by (simp add: wf_memory_def wf_log_def)
    moreover have "ahead m ?m" using a s by (simp add: ahead_def)
    ultimately show ?thesis by (simp add: wf_memory_def)
  qed
qed

lemma findByKey_Some:
  "findByKey ctx sc ns k node m = Inr (Some x) \<Longrightarrow>
   x \<in> set (shards m) \<and> (\<exists>org. tenant ctx = Inr org \<and> natural x = (org, sc, ns, node, k))"
  by (auto simp: findByKey_def bindE_eq_Inr scope_def satisfies_all_def natural_def dest!: find_first_Some)

lemma findByKey_None:
  "findByKey ctx sc ns k node m = Inr None \<Longrightarrow>
   \<exists>org. tenant ctx = Inr org \<and> (org, sc, ns, node, k) \<notin> natural ` set (shards m)"
  by (auto simp: findByKey_def bindE_eq_Inr scope_def satisfies_all_def natural_def find_first_def find_None_iff)

lemma safe_create:
  assumes "inj (cuid env)" and "findByKey ctx (s_scope d) (s_namespace d) (s_key d) (s_node d) m = Inr None"
    and "good_clock (s_clock d)"
  shows "safe env m (snd (create_shard env ctx d m))"
  unfolding safe_def
proof
  assume wf: "wf_memory env m"
  from findByKey_None [OF assms(2)] obtain org where org: "tenant ctx = Inr org"
    and fresh: "(org, s_scope d, s_namespace d, s_node d, s_key d) \<notin> natural ` set (shards m)" by auto
  let ?r = "\<lparr>row_id = cuid env (issued m), row_org = org, row_deleted = None, contents = d\<rparr>"
  have m': "snd (create_shard env ctx d m) = m\<lparr>shards := shards m @ [?r], issued := Suc (issued m)\<rparr>"
    using org by (simp add: create_shard_def create_row_def)
  have "cuid env (issued m) \<notin> row_id ` set (shards m)"
    using wf assms(1) by (force simp: wf_memory_def wf_shards_def dest: injD)
  with wf fresh assms(3) have "wf_shards env (snd (create_shard env ctx d m))"
    unfolding m' by (auto simp: wf_memory_def wf_shards_def unique_ids_def natural_def less_Suc_eq)
  moreover have "wf_log (snd (create_shard env ctx d m))"
    using wf unfolding m' by (simp add: wf_memory_def wf_log_def)
  moreover have "ahead m (snd (create_shard env ctx d m))"
    unfolding m' by (auto simp: ahead_def intro: follows_refl)
  ultimately show "wf_memory env (snd (create_shard env ctx d m)) \<and> ahead m (snd (create_shard env ctx d m))"
    by (simp add: wf_memory_def)
qed

text \<open>The handlers are compositions of these steps.\<close>

lemma follows_overwrite: "follows r (overwrite env now w r)"
  by (simp add: follows_def overwrite_def natural_def Let_def clocks.adv_seen)

lemma good_overwrite:
  "good_clock (s_clock (contents r)) \<Longrightarrow> good_clock (s_clock (contents (overwrite env now w r)))"
  by (simp add: overwrite_def Let_def good_tick)

lemma follows_tombstone: "follows r (tombstone now node r)"
  by (simp add: follows_def tombstone_def natural_def clocks.seen_refl)

lemma good_nil [simp]: "good_clock []"
  by (simp add: good_clock_def counts_def count_def)

lemma safe_finish_put: "safe env m (snd (finish_put env ctx now w r m))"
  using safe_append [of env m ctx now "put_op r w"]
  by (auto simp: finish_put_def split: prod.split sum.split intro: safe_trans safe_emit)

lemma safe_put:
  assumes "inj (cuid env)"
  shows "safe env m (snd (put_shard env ctx now w m))"
proof (cases "nodeKeyFor (sw_scope w) (sw_node w)")
  case (Inr node)
  let ?ns = "or_string (sw_namespace w) ''default''"
  show ?thesis
  proof (cases "findByKey ctx (sw_scope w) ?ns (sw_key w) node m")
    case (Inr existing)
    let ?step = "case existing of Some x \<Rightarrow> update_shard ctx (row_id x) (overwrite env now w) m
                 | None \<Rightarrow> create_shard env ctx (new_shard env now w node) m"
    have "safe env m (snd ?step)"
    proof (cases existing)
      case None
      have "good_clock (s_clock (new_shard env now w node))" by (simp add: new_shard_def good_tick)
      moreover have "findByKey ctx (s_scope (new_shard env now w node)) (s_namespace (new_shard env now w node))
          (s_key (new_shard env now w node)) (s_node (new_shard env now w node)) m = Inr None"
        using Inr None by (simp add: new_shard_def)
      ultimately show ?thesis using None assms by (simp add: safe_create)
    next
      case (Some x)
      with Inr findByKey_Some have "x \<in> set (shards m)" by blast
      with Some show ?thesis by (simp add: safe_update follows_overwrite good_overwrite)
    qed
    then show ?thesis
      using \<open>nodeKeyFor (sw_scope w) (sw_node w) = Inr node\<close> Inr
      by (auto simp: put_shard_def split: prod.split sum.split intro: safe_trans safe_finish_put)
  qed (use Inr in \<open>simp add: put_shard_def safe_refl\<close>)
qed (simp add: put_shard_def safe_refl)

lemma safe_remove: "safe env m (snd (remove_shard env ctx now sc k namespace nodeId m))"
proof -
  have up: "safe env m m1"
    if "findByKey ctx sc ns k node m = Inr (Some x)" "update_shard ctx (row_id x) (tombstone now nodeId) m = (a, m1)"
    for ns node x a m1
  proof -
    from that(1) have "x \<in> set (shards m)" by (rule findByKey_Some [THEN conjunct1])
    then have "safe env m (snd (update_shard ctx (row_id x) (tombstone now nodeId) m))"
      by (rule safe_update [OF _ follows_tombstone]) (simp add: tombstone_def)
    with that(2) show ?thesis by simp
  qed
  have ap: "safe env m1 m2" if "appendOp env ctx now d m1 = (a, m2)" for d a m1 m2
    using safe_append [of env m1 ctx now d] that by simp
  show ?thesis
    unfolding remove_shard_def Let_def
    by (auto split: prod.split sum.split option.split intro: safe_refl dest!: up ap)
      (blast intro: safe_trans safe_emit)+
qed

lemma safe_cache: "inj (cuid env) \<Longrightarrow> safe env m (snd (cache_shard env ctx now node k ns m))"
  by (auto simp: cache_shard_def split: sum.split option.split prod.split intro: safe_refl)
    (metis safe_put snd_conv)+

lemma safe_pull: "safe env m (snd (pull env ctx now node scopes n m))"
  by (auto simp: pull_def Let_def split: sum.split prod.split
      intro: safe_refl safe_trans [OF safe_fold_advance safe_emit])

lemma safe_recover_loop: "safe env m (snd (recover_loop env ctx now node left d r m))"
proof (induction left arbitrary: d r m)
  case 0
  then show ?case by (simp add: safe_refl)
next
  case (Suc left)
  have "safe env m (snd (pull env ctx now node [SHARED, GLOBAL] PULL_BATCH m))" by (rule safe_pull)
  with Suc show ?case by (auto split: prod.split sum.split intro: safe_trans)
qed

lemma safe_recover: "safe env m (snd (recover env ctx now node m))"
proof -
  have "safe env m m1" if "recover_loop env ctx now node MAX_BATCHES 0 0 m = (a, m1)" for a m1
    using safe_recover_loop [of env m ctx now node MAX_BATCHES 0 0] that by simp
  then show ?thesis
    by (auto simp: recover_def split: prod.split sum.split intro: safe_refl safe_trans [OF _ safe_emit])
qed

text \<open>A commit takes a clock that has seen the one it replaces.\<close>

lemma safe_commit:
  assumes "x \<in> set (shards m)" and "sees c (s_clock (contents x))" and "good_clock c"
  shows "safe env m (snd (commit env ctx now x i c m))"
  unfolding commit_def
  by (rule safe_update) (use assms in \<open>auto simp: follows_def committed_def natural_def Let_def\<close>)

lemma safe_settle_conflict:
  assumes x: "x \<in> set (shards m)" and "good_clock (incoming_clock i)" and "good_clock (s_clock (contents x))"
  shows "safe env m (snd (settle_conflict env ctx now i x m))"
proof -
  let ?c = "merge (s_clock (contents x)) (incoming_clock i)"
  have c: "sees ?c (s_clock (contents x))" "good_clock ?c"
    using assms by (simp_all add: clocks.merged_seen clocks.merged_good)
  let ?op = "received_op x i [(''discarded'', JBool (contest now i x = Existing))] CONFLICT
    (conflict_text (contest now i x) i x)"
  obtain a m1 where a: "appendOp env ctx now ?op m = (a, m1)" by (cases "appendOp env ctx now ?op m")
  have 1: "safe env m m1" using safe_append [of env m ctx now ?op] a by simp
  have s1: "shards m1 = shards m"
    using a by (auto simp: appendOp_def create_row_def split: sum.splits)
  show ?thesis
  proof (cases a)
    case (Inl e)
    with a 1 show ?thesis by (simp add: settle_conflict_def Let_def)
  next
    case (Inr losing)
    let ?m2 = "emit_event (MemorySyncConflict (row_id x) (i_key i) (i_scope i) (contest now i x) (row_id losing)) m1"
    have x2: "x \<in> set (shards ?m2)" using x s1 by (simp add: emit_event_def)
    have 2: "safe env m ?m2" using 1 safe_emit by (rule safe_trans)
    have inc: "safe env ?m2 (snd (commit env ctx now x i ?c ?m2))" using x2 c by (rule safe_commit)
    have ex: "safe env ?m2 (snd (update_shard ctx (row_id x)
        (\<lambda>r. r\<lparr>contents := (contents r)\<lparr>s_clock := ?c, s_updated := now\<rparr>\<rparr>) ?m2))"
      using x2 by (rule safe_update) (use c in \<open>simp_all add: follows_def natural_def\<close>)
    from 2 inc ex a Inr show ?thesis
      by (cases "contest now i x") (auto simp: settle_conflict_def Let_def split: prod.split sum.split intro: safe_trans)
  qed
qed

lemma safe_apply:
  assumes "inj (cuid env)" and "good_clock (incoming_clock i)"
  shows "safe env m (snd (apply_incoming env ctx now i m))"
proof (cases "wf_memory env m")
  case False
  then show ?thesis by (simp add: safe_def)
next
  case True
  show ?thesis
  proof (cases "nodeKeyFor (i_scope i) (Some (i_node i))")
    case (Inr node)
    note n = this
    let ?find = "findByKey ctx (i_scope i) (or_string (i_namespace i) ''default'') (i_key i) node m"
    show ?thesis
    proof (cases ?find)
      case (Inr found)
      show ?thesis
      proof (cases found)
        case None
        with n Inr safe_put [OF assms(1), of m ctx now "as_write i"] show ?thesis
          by (auto simp: apply_incoming_def safe_refl split: prod.split sum.split)
      next
        case (Some x)
        with Inr have x: "x \<in> set (shards m)" by (auto dest: findByKey_Some)
        then have g: "good_clock (s_clock (contents x))" using True by (simp add: wf_memory_def wf_shards_def)
        have c: "safe env m (snd (commit env ctx now x i (incoming_clock i) m))"
          if "dominates (incoming_clock i) (s_clock (contents x))"
          by (rule safe_commit [OF x clocks.before_seen [OF that] assms(2)])
        show ?thesis
          using n Inr Some c safe_settle_conflict [OF x assms(2) g, of env ctx now]
            safe_append [of env m ctx now "received_op x i [] SUPERSEDED
              (''local version '' @ show_int (s_version (contents x)) @ '' already includes this write'')"]
          by (auto simp: apply_incoming_def split: prod.split sum.split)
      qed
    qed (use n in \<open>simp add: apply_incoming_def safe_refl\<close>)
  qed (simp add: apply_incoming_def safe_refl)
qed

lemma safe_step:
  assumes "inj (cuid env)" and "sane p"
  shows "safe env m (snd (memory_step env p m))"
proof -
  obtain ctx q where p: "p = (ctx, q)" by (cases p)
  show ?thesis
    using assms unfolding p
    by (cases q) (simp_all add: safe_put safe_remove safe_cache safe_apply safe_pull safe_recover, rule safe_same, simp_all)
qed

interpretation memory_kept: kept "\<lambda>m. inj (cuid env) \<and> wf_memory env m \<and> ahead m0 m" "memory_step env" sane
  for env m0
  by unfold_locales (use safe_step in \<open>auto simp: safe_def intro: ahead_trans\<close>)


text \<open>An environment and a memory for the examples.\<close>

definition plain_env :: memory_env where
  "plain_env = \<lparr>sha256_hex = id, number_text = (\<lambda>r. show_int (floor r)), cuid = show_nat\<rparr>"

definition empty_memory :: memory where
  "empty_memory = \<lparr>shards = [], log = [], cursors = [],
     fleet = [\<lparr>row_id = ''n1'', row_org = ''a'', row_deleted = None, contents = ''edge''\<rparr>],
     last_sequence = 0, issued = 0, published = []\<rparr>"

definition received :: "string \<Rightarrow> int \<Rightarrow> string \<Rightarrow> int \<Rightarrow> incoming_op" where
  "received node v text written =
     \<lparr>i_scope = SHARED, i_namespace = None, i_key = ''k'', i_kind = PUT, i_value = Some [(''v'', JStr text)],
      i_version = v, i_node = node, i_clock = Some [(node, v)], i_written = Some written\<rparr>"

definition write_k :: "string \<Rightarrow> shard_write" where
  "write_k text =
     \<lparr>sw_scope = SHARED, sw_namespace = None, sw_key = ''k'', sw_value = [(''v'', JStr text)], sw_node = None,
      sw_tags = None, sw_expires = None\<rparr>"

lemma inj_show_nat: "inj show_nat"
  by (metis dec_val_show_nat injI)

lemma inj_plain: "inj (cuid plain_env)"
  by (simp add: plain_env_def inj_show_nat)

lemma wf_empty: "wf_memory plain_env empty_memory"
  by (simp add: wf_memory_def wf_shards_def wf_log_def empty_memory_def unique_ids_def)

definition busy_ops :: "(request_context option \<times> memory_op) list" where
  "busy_ops = [(ctx_of ''a'', Write 1 (write_k ''x'')), (ctx_of ''a'', Receive 2 (received ''n1'' 3 ''y'' 1)),
     (ctx_of ''b'', Write 3 (write_k ''z'')), (ctx_of ''a'', Elsewhere 4 1), (ctx_of ''a'', Fetch 5 ''n1'' [SHARED] 200)]"


section \<open>Applying, branch by branch\<close>

lemma findByKey_unique:
  assumes "distinct (map natural (shards m))" and "x \<in> set (shards m)"
    and "tenant ctx = Inr org" and "natural x = (org, sc, ns, node, k)"
  shows "findByKey ctx sc ns k node m = Inr (Some x)"
proof -
  let ?w = "scope SHARDS org True
      [(''scope'', \<lambda>r. s_scope (contents r) = sc), (''namespace'', \<lambda>r. s_namespace (contents r) = ns),
       (''key'', \<lambda>r. s_key (contents r) = k), (''nodeId'', \<lambda>r. s_node (contents r) = node)]"
  have w: "satisfies_all ?w r \<longleftrightarrow> natural r = (org, sc, ns, node, k)" for r
    by (auto simp: scope_def satisfies_all_def natural_def)
  obtain y where y: "find_first ?w (shards m) = Some y"
    using assms(2,4) by (cases "find_first ?w (shards m)") (auto simp: find_first_def find_None_iff w)
  from find_first_Some [OF y] have "y \<in> set (shards m)" and "natural y = natural x"
    using assms(4) by (auto simp: w)
  with assms(1,2) have "y = x" by (auto simp: distinct_map dest: inj_onD)
  with y assms(3) show ?thesis by (simp add: findByKey_def)
qed

lemma wf_memoryD:
  assumes "wf_memory env m"
  shows "unique_ids (shards m)" "distinct (map natural (shards m))" "distinct (map row_id (shards m))"
  using assms by (simp_all add: wf_memory_def wf_shards_def unique_ids_def)

text \<open>\<open>update\<close> on a shard that is not deleted, and on a tombstone.\<close>

lemma update_shard_live:
  assumes "unique_ids (shards m)" and "x \<in> set (shards m)" and "tenant ctx = Inr (row_org x)"
    and "row_deleted x = None" and "row_id (f x) = row_id x" and "row_org (f x) = row_org x"
  shows "update_shard ctx (row_id x) f m =
     ((if row_deleted (f x) = None then Inr (f x) else Inl (Repo (not_found SHARDS (row_id x)))),
      m\<lparr>shards := map (\<lambda>r. if r = x then f x else r) (shards m)\<rparr>)"
proof -
  have "visible SHARDS (row_org x) False x" using assms(4) by (simp add: visible_def)
  from update_row_visible [where f = f, OF assms(3,1,2) this assms(5)] show ?thesis
    using assms(6) by (auto simp: update_shard_def visible_def SHARDS_def)
qed

lemma update_shard_dead:
  assumes "unique_ids (shards m)" and "x \<in> set (shards m)" and "tenant ctx = Inr org" and "row_deleted x \<noteq> None"
  shows "update_shard ctx (row_id x) f m = (Inl (Repo (not_found SHARDS (row_id x))), m)"
proof -
  have "\<not> visible SHARDS org False r" if "r \<in> set (shards m)" "row_id r = row_id x" for r
    using unique_idsD [OF assms(1) that(1) assms(2) that(2)] assms(4) by (auto simp: visible_def SHARDS_def)
  from update_row_invisible [OF assms(3) this] show ?thesis by (simp add: update_shard_def)
qed


definition one_shard :: memory where
  "one_shard = snd (put_shard plain_env (ctx_of ''a'') 1 (write_k ''x'') empty_memory)"


lemma find_after_update:
  assumes "distinct (map natural (shards m))" and "x \<in> set (shards m)" and "tenant ctx = Inr org"
    and "natural x = (org, sc, ns, node, k)" and "natural (f x) = natural x"
    and "shards m' = map (\<lambda>r. if r = x then f x else r) (shards m)"
  shows "findByKey ctx sc ns k node m' = Inr (Some (f x))"
proof (rule findByKey_unique [OF _ _ assms(3)])
  have "map natural (shards m') = map natural (shards m)" using assms(5,6) by auto
  with assms(1) show "distinct (map natural (shards m'))" by simp
qed (use assms in \<open>auto simp: image_iff\<close>)

lemma appendOp_tenant:
  assumes "tenant ctx = Inr org"
  obtains r where "appendOp env ctx now d m =
      (Inr r, m\<lparr>log := log m @ [r], last_sequence := Suc (last_sequence m), issued := Suc (issued m)\<rparr>)"
    and "contents r = d\<lparr>op_sequence := Suc (last_sequence m), op_applied := (if op_status d = APPLIED then Some now else None)\<rparr>"
  using assms by (simp add: appendOp_def create_row_def)

lemma apply_by_clocks:
  assumes "wf_memory env m" and "nodeKeyFor (i_scope i) (Some (i_node i)) = Inr node"
    and "findByKey ctx (i_scope i) (or_string (i_namespace i) ''default'') (i_key i) node m = Inr (Some x)"
    and "row_deleted x = None" and "i_kind i = PUT"
  shows "\<exists>r m' x' new. apply_incoming env ctx now i m = (Inr r, m')
     \<and> findByKey ctx (i_scope i) (or_string (i_namespace i) ''default'') (i_key i) node m' = Inr (Some x')
     \<and> log m' = log m @ new
     \<and> (if dominates (incoming_clock i) (s_clock (contents x))
        then a_outcome r = Applied \<and> new = [] \<and> s_value (contents x') = incoming_value i
             \<and> s_clock (contents x') = incoming_clock i
        else if dominates (s_clock (contents x)) (incoming_clock i)
        then a_outcome r = Superseded \<and> shards m' = shards m \<and> map (op_status \<circ> contents) new = [SUPERSEDED]
        else a_outcome r = Conflict \<and> a_winner r = Some (contest now i x)
             \<and> s_value (contents x') = (if contest now i x = Incoming then incoming_value i else s_value (contents x))
             \<and> s_clock (contents x') = merge (s_clock (contents x)) (incoming_clock i)
             \<and> map (\<lambda>e. (op_status (contents e), getp ''value'' (op_payload (contents e)))) new
                 = [(CONFLICT, JObj (incoming_value i))])"
proof -
  let ?ns = "or_string (i_namespace i) ''default''"
  let ?c = "incoming_clock i" and ?d = "s_clock (contents x)"
  note u = wf_memoryD [OF assms(1)]
  from findByKey_Some [OF assms(3)] obtain org where x: "x \<in> set (shards m)"
    and org: "tenant ctx = Inr org" and nx: "natural x = (org, i_scope i, ?ns, node, i_key i)" by blast
  then have ox: "tenant ctx = Inr (row_org x)" by (simp add: natural_def)
  have upd: "update_shard ctx (row_id x) f m1 = (Inr (f x), m1\<lparr>shards := map (\<lambda>r. if r = x then f x else r) (shards m)\<rparr>)"
    if "shards m1 = shards m" "row_deleted (f x) = None" "row_id (f x) = row_id x" "natural (f x) = natural x" for f m1
    using update_shard_live [of m1 x ctx f] that u(1) x ox assms(4) by (simp add: natural_def)
  have found: "findByKey ctx (i_scope i) ?ns (i_key i) node m1 = Inr (Some (f x))"
    if "shards m1 = map (\<lambda>r. if r = x then f x else r) (shards m)" "natural (f x) = natural x" for f m1
    by (rule find_after_update [where f = f, OF u(2) x org nx that(2,1)])
  have com: "row_deleted (committed env now i c x) = None" "row_id (committed env now i c x) = row_id x"
    "natural (committed env now i c x) = natural x" for c
    using assms(5) by (simp_all add: committed_def natural_def Let_def)
  have val: "s_value (contents (committed env now i c x)) = incoming_value i"
    "s_clock (contents (committed env now i c x)) = c" for c
    using assms(5) by (simp_all add: committed_def Let_def)
  show ?thesis
  proof (cases "dominates ?c ?d")
    case True
    have "commit env ctx now x i ?c m =
        (Inr (committed env now i ?c x), m\<lparr>shards := map (\<lambda>r. if r = x then committed env now i ?c x else r) (shards m)\<rparr>)"
      unfolding commit_def by (rule upd) (simp_all add: com)
    with True assms(2,3) found [of _ "committed env now i ?c"] show ?thesis
      by (auto simp: apply_incoming_def com val)
  next
    case nd: False
    show ?thesis
    proof (cases "dominates ?d ?c")
      case True
      let ?op = "received_op x i [] SUPERSEDED
        (''local version '' @ show_int (s_version (contents x)) @ '' already includes this write'')"
      obtain o1 where a: "appendOp env ctx now ?op m =
          (Inr o1, m\<lparr>log := log m @ [o1], last_sequence := Suc (last_sequence m), issued := Suc (issued m)\<rparr>)"
        and o1: "op_status (contents o1) = SUPERSEDED"
        by (rule appendOp_tenant [OF org, of env now ?op m]) (simp add: received_op_def)
      from findByKey_unique [OF _ _ org nx] u(2) x
      have "findByKey ctx (i_scope i) ?ns (i_key i) node
          (m\<lparr>log := log m @ [o1], last_sequence := Suc (last_sequence m), issued := Suc (issued m)\<rparr>) = Inr (Some x)"
        by simp
      with True nd a o1 assms(2,3) show ?thesis by (simp add: apply_incoming_def)
    next
      case False
      let ?w = "contest now i x" and ?mc = "merge ?d ?c"
      let ?op = "received_op x i [(''discarded'', JBool (?w = Existing))] CONFLICT (conflict_text ?w i x)"
      let ?f = "if ?w = Incoming then committed env now i ?mc
                else (\<lambda>r. r\<lparr>contents := (contents r)\<lparr>s_clock := ?mc, s_updated := now\<rparr>\<rparr>)"
      obtain o1 where a: "appendOp env ctx now ?op m =
          (Inr o1, m\<lparr>log := log m @ [o1], last_sequence := Suc (last_sequence m), issued := Suc (issued m)\<rparr>)"
        and o1: "op_status (contents o1) = CONFLICT" "getp ''value'' (op_payload (contents o1)) = JObj (incoming_value i)"
        by (rule appendOp_tenant [OF org, of env now ?op m]) (simp add: received_op_def getp_def)
      let ?m2 = "emit_event (MemorySyncConflict (row_id x) (i_key i) (i_scope i) ?w (row_id o1))
         (m\<lparr>log := log m @ [o1], last_sequence := Suc (last_sequence m), issued := Suc (issued m)\<rparr>)"
      let ?m3 = "?m2\<lparr>shards := map (\<lambda>r. if r = x then ?f x else r) (shards m)\<rparr>"
      have f: "row_deleted (?f x) = None" "row_id (?f x) = row_id x" "natural (?f x) = natural x"
        using com [of ?mc] assms(4) by (auto simp: natural_def)
      have s: "shards ?m2 = shards m" by (simp add: emit_event_def)
      have "(case ?w of Incoming \<Rightarrow> commit env ctx now x i ?mc ?m2
             | Existing \<Rightarrow> update_shard ctx (row_id x) (\<lambda>r. r\<lparr>contents := (contents r)\<lparr>s_clock := ?mc, s_updated := now\<rparr>\<rparr>) ?m2)
            = (Inr (?f x), ?m3)"
        using upd [where f = ?f, OF s f] by (cases ?w) (simp_all add: commit_def)
      then have ap: "apply_incoming env ctx now i m =
          (Inr \<lparr>a_outcome = Conflict, a_shard = Some (?f x),
             a_reason = ''concurrent writes on '' @ quoted (i_key i) @ ''; '' @ winner_name ?w @ '' won'',
             a_winner = Some ?w\<rparr>, ?m3)"
        using a nd False assms(2,3) by (simp add: apply_incoming_def settle_conflict_def Let_def)
      have f3: "findByKey ctx (i_scope i) ?ns (i_key i) node ?m3 = Inr (Some (?f x))"
        by (rule found [where f = ?f, OF _ f(3)]) simp
      have l3: "log ?m3 = log m @ [o1]" by (simp add: emit_event_def)
      have v: "s_value (contents (?f x)) = (if ?w = Incoming then incoming_value i else s_value (contents x))"
        "s_clock (contents (?f x)) = ?mc"
        using val [of ?mc] by auto
      obtain r where r: "apply_incoming env ctx now i m = (Inr r, ?m3)" "a_outcome r = Conflict" "a_winner r = Some ?w"
        using ap by simp
      show ?thesis
        by (rule exI [of _ r], rule exI [of _ ?m3], rule exI [of _ "?f x"], rule exI [of _ "[o1]"])
          (simp only: r f3 l3 v nd False o1 if_False list.map simp_thms)
    qed
  qed
qed


lemma wf_one_shard: "wf_memory plain_env one_shard"
  using safe_put [OF inj_plain, of empty_memory "ctx_of ''a''" 1 "write_k ''x''"] wf_empty
  by (simp add: safe_def one_shard_def)


section \<open>Replicas and the order of receipt\<close>

text \<open>\<open>POST sync/apply\<close> stamps the write with the time it is received.\<close>

definition apply_endpoint :: "memory_env \<Rightarrow> request_context option \<Rightarrow> int \<Rightarrow> incoming_op \<Rightarrow> memory
    \<Rightarrow> (memory_error + apply_result) \<times> memory" where
  "apply_endpoint env ctx now dto m = apply_incoming env ctx now (dto\<lparr>i_written := Some now\<rparr>) m"

definition stored :: "request_context option \<Rightarrow> incoming_op \<Rightarrow> memory \<Rightarrow> obj option" where
  "stored ctx i m =
     (case findByKey ctx (i_scope i) (or_string (i_namespace i) ''default'') (i_key i) [] m of
        Inr (Some x) \<Rightarrow> Some (s_value (contents x)) | _ \<Rightarrow> None)"

text \<open>A first write, as another node sends it: to a shared record, of version 1, seen by its writer only.\<close>

definition first_write :: "incoming_op \<Rightarrow> bool" where
  "first_write i \<longleftrightarrow> i_kind i = PUT \<and> i_scope i \<in> {SHARED, GLOBAL} \<and> i_version i = 1
     \<and> i_node i \<noteq> [] \<and> i_clock i = Some [(i_node i, 1)]"

definition same_record :: "incoming_op \<Rightarrow> incoming_op \<Rightarrow> bool" where
  "same_record i j \<longleftrightarrow> i_scope j = i_scope i \<and> i_key j = i_key i
     \<and> or_string (i_namespace j) ''default'' = or_string (i_namespace i) ''default''"

lemma apply_first:
  assumes "inj (cuid env)" and "wf_memory env m" and "tenant ctx = Inr org" and "first_write i" and "stored ctx i m = None"
  obtains r m' x where "apply_endpoint env ctx now i m = (Inr r, m')" and "wf_memory env m'"
    and "findByKey ctx (i_scope i) (or_string (i_namespace i) ''default'') (i_key i) [] m' = Inr (Some x)"
    and "row_deleted x = None" and "s_clock (contents x) = [(i_node i, 1)]" and "s_version (contents x) = 1"
    and "s_updated (contents x) = now" and "s_value (contents x) = incoming_value i"
proof -
  let ?i = "i\<lparr>i_written := Some now\<rparr>"
  let ?ns = "or_string (i_namespace i) ''default''"
  let ?w = "as_write ?i"
  have n: "nodeKeyFor (i_scope i) z = Inr []" for z using assms(4) by (auto simp: nodeKeyFor_def first_write_def)
  have none: "findByKey ctx (i_scope i) ?ns (i_key i) [] m = Inr None"
    using assms(3,5) by (auto simp: stored_def findByKey_def split: option.splits)
  let ?x = "\<lparr>row_id = cuid env (issued m), row_org = org, row_deleted = None, contents = new_shard env now ?w []\<rparr>"
  let ?m1 = "m\<lparr>shards := shards m @ [?x], issued := Suc (issued m)\<rparr>"
  have c: "create_shard env ctx (new_shard env now ?w []) m = (Inr ?x, ?m1)"
    using assms(3) by (simp add: create_shard_def create_row_def)
  obtain r1 where "appendOp env ctx now (put_op ?x ?w) ?m1 =
      (Inr r1, ?m1\<lparr>log := log ?m1 @ [r1], last_sequence := Suc (last_sequence ?m1), issued := Suc (issued ?m1)\<rparr>)"
    by (rule appendOp_tenant [OF assms(3)])
  then obtain m' where p: "put_shard env ctx now ?w m = (Inr ?x, m')" and s: "shards m' = shards m @ [?x]"
    using n none c by (simp add: put_shard_def as_write_def or_string_def finish_put_def emit_event_def)
  have w: "wf_memory env m'" using safe_put [OF assms(1), of m ctx now ?w] assms(2) p by (simp add: safe_def)
  have "natural ?x = (org, i_scope i, ?ns, [], i_key i)"
    by (simp add: natural_def new_shard_def as_write_def or_string_def)
  from findByKey_unique [OF wf_memoryD(2) [OF w] _ assms(3) this] s
  have f: "findByKey ctx (i_scope i) ?ns (i_key i) [] m' = Inr (Some ?x)" by simp
  have a: "apply_endpoint env ctx now i m = (Inr \<lparr>a_outcome = Applied, a_shard = Some ?x, a_reason = ''new record'', a_winner = None\<rparr>, m')"
    using n none p assms(4) by (simp add: apply_endpoint_def apply_incoming_def first_write_def as_write_def)
  show thesis
    by (rule that [OF a w f])
      (use assms(4) in \<open>simp_all add: new_shard_def as_write_def first_write_def tick_def count_def or_string_def incoming_value_def\<close>)
qed

lemma second_wins:
  assumes "inj (cuid env)" and "wf_memory env m" and "tenant ctx = Inr org" and "first_write i" and "first_write j"
    and "same_record i j" and "i_node i \<noteq> i_node j" and "stored ctx i m = None" and "t1 < t2"
  shows "stored ctx i (snd (apply_endpoint env ctx t2 j (snd (apply_endpoint env ctx t1 i m)))) = Some (incoming_value j)"
proof -
  let ?j = "j\<lparr>i_written := Some t2\<rparr>"
  obtain r m1 x where a: "apply_endpoint env ctx t1 i m = (Inr r, m1)" and w: "wf_memory env m1"
    and f: "findByKey ctx (i_scope i) (or_string (i_namespace i) ''default'') (i_key i) [] m1 = Inr (Some x)"
    and x: "row_deleted x = None" "s_clock (contents x) = [(i_node i, 1)]" "s_version (contents x) = 1"
      "s_updated (contents x) = t1"
    by (rule apply_first [OF assms(1-4,8)])
  have n: "nodeKeyFor (i_scope ?j) (Some (i_node ?j)) = Inr []"
    using assms(5) by (auto simp: nodeKeyFor_def first_write_def)
  have fj: "findByKey ctx (i_scope ?j) (or_string (i_namespace ?j) ''default'') (i_key ?j) [] m1 = Inr (Some x)"
    using f assms(6) by (simp add: same_record_def)
  have cj: "incoming_clock ?j = [(i_node j, 1)]" using assms(5) by (simp add: incoming_clock_def first_write_def)
  have nd: "\<not> dominates [(i_node j, 1)] [(i_node i, 1)]" "\<not> dominates [(i_node i, 1)] [(i_node j, 1)]"
    using assms(7) dominates_is_causal_order [of "[(i_node j, 1)]" "[(i_node i, 1)]"]
      dominates_is_causal_order [of "[(i_node i, 1)]" "[(i_node j, 1)]"]
    by (auto simp: count_def split: if_splits)
  have "contest t2 ?j x = Incoming"
    using assms(5,9) x by (simp add: contest_def resolveConcurrent_def first_write_def)
  with apply_by_clocks [OF w n fj x(1), of t2] assms(5) nd obtain r' m2 x'
    where "apply_incoming env ctx t2 ?j m1 = (Inr r', m2)"
      and "findByKey ctx (i_scope ?j) (or_string (i_namespace ?j) ''default'') (i_key ?j) [] m2 = Inr (Some x')"
      and "s_value (contents x') = incoming_value ?j"
    by (auto simp: cj x first_write_def)
  with a assms(6) show ?thesis by (simp add: apply_endpoint_def stored_def same_record_def incoming_value_def)
qed

text \<open>Replicas that receive the same two concurrent writes in different orders keep
  different values: through the endpoint, two first writes of one record by different nodes end with
  the value received last, on each replica. (The service documents that every node applying the same
  pair of writes reaches the same answer; the tie-break compares times of receipt.)\<close>

theorem receipt_order_decides:
  assumes "inj (cuid env)" and "wf_memory env m" and "tenant ctx = Inr org" and "first_write i" and "first_write j"
    and "same_record i j" and "i_node i \<noteq> i_node j" and "stored ctx i m = None" and "t1 < t2"
  shows "stored ctx i (snd (apply_endpoint env ctx t2 j (snd (apply_endpoint env ctx t1 i m)))) = Some (incoming_value j)
       \<and> stored ctx i (snd (apply_endpoint env ctx t2 i (snd (apply_endpoint env ctx t1 j m)))) = Some (incoming_value i)"
proof -
  have st: "stored ctx j m' = stored ctx i m'" for m' using assms(6) by (simp add: stored_def same_record_def)
  have sr: "same_record j i" using assms(6) by (simp add: same_record_def)
  have "stored ctx j (snd (apply_endpoint env ctx t2 i (snd (apply_endpoint env ctx t1 j m)))) = Some (incoming_value i)"
    by (rule second_wins [OF assms(1-3,5,4) sr]) (use assms st in auto)
  with second_wins [OF assms] st show ?thesis by simp
qed

lemma receipt_order_decides_witness:
  "let i = received ''n1'' 1 ''x'' 0; j = received ''n2'' 1 ''y'' 0;
       go = (\<lambda>p q. snd (apply_endpoint plain_env (ctx_of ''a'') 9 q (snd (apply_endpoint plain_env (ctx_of ''a'') 8 p empty_memory))))
   in stored (ctx_of ''a'') i (go i j) \<noteq> stored (ctx_of ''a'') i (go j i)"
proof -
  have t: "tenant (ctx_of ''a'') = Inr ''a''" by (simp add: ctx_of_def)
  have "stored (ctx_of ''a'') (received ''n1'' 1 ''x'' 0) empty_memory = None" by code_simp
  from receipt_order_decides [OF inj_plain wf_empty t _ _ _ _ this, of "received ''n2'' 1 ''y'' 0" 8 9]
  show ?thesis by (simp add: Let_def first_write_def received_def same_record_def incoming_value_def)
qed

section \<open>What a node pulls\<close>

text \<open>The entries of the log a node has not been given, oldest first, counted from the least of its
  cursors for the scopes it asks for.\<close>

definition states_of :: "string \<Rightarrow> string \<Rightarrow> memory \<Rightarrow> sync_state row list" where
  "states_of org node m = filter (\<lambda>r. row_org r = org \<and> y_node (contents r) = node) (cursors m)"

definition position :: "string \<Rightarrow> string \<Rightarrow> memory_scope list \<Rightarrow> memory \<Rightarrow> nat" where
  "position org node scopes m = finite_or_0 (least_cursor (states_of org node m) scopes)"

definition pending_from :: "string \<Rightarrow> memory_scope list \<Rightarrow> nat \<Rightarrow> memory \<Rightarrow> sync_op list" where
  "pending_from org scopes n m =
     filter (\<lambda>r. row_org r = org \<and> op_scope (contents r) \<in> set scopes \<and> n < sequence_of r) (log m)"

definition pending_ops :: "string \<Rightarrow> string \<Rightarrow> memory_scope list \<Rightarrow> memory \<Rightarrow> sync_op list" where
  "pending_ops org node scopes m = pending_from org scopes (position org node scopes m) m"

text \<open>The node's cursors are the organization's own, one for each scope.\<close>

definition own_cursors :: "string \<Rightarrow> string \<Rightarrow> memory \<Rightarrow> bool" where
  "own_cursors org node m \<longleftrightarrow>
     (\<forall>r \<in> set (cursors m). y_node (contents r) = node \<longrightarrow> row_org r = org)
     \<and> distinct (map (\<lambda>r. (y_node (contents r), y_scope (contents r))) (cursors m))"

lemma insert_by_first:
  "\<forall>y \<in> set ys. cmp x y \<le> 0 \<Longrightarrow> insert_by cmp x ys = x # ys"
  by (cases ys) auto

lemma sort_by_sorted: "sorted_wrt (\<lambda>x y. cmp x y \<le> 0) xs \<Longrightarrow> sort_by cmp xs = xs"
  by (induction xs) (simp_all add: sort_by_def insert_by_first)

lemma sorted_log_filter:
  assumes "wf_log m"
  shows "sorted_wrt (\<lambda>r r'. ord3 (sequence_of r) (sequence_of r') \<le> 0) (filter P (log m))"
proof -
  have "sorted_wrt (\<lambda>r r'. sequence_of r < sequence_of r') (log m)"
    using assms by (simp add: wf_log_def sorted_wrt_map)
  then have "sorted_wrt (\<lambda>r r'. sequence_of r < sequence_of r') (filter P (log m))" by (rule sorted_wrt_filter)
  then show ?thesis by (rule sorted_wrt_mono_rel [rotated]) (simp add: ord3_iff)
qed

lemma since_pending:
  assumes "tenant ctx = Inr org" and "wf_log m"
  shows "since ctx c scopes n m = Inr (take n (pending_from org scopes c m))"
proof -
  have w: "satisfies_all (scope OPS org False
      [(''sequence'', \<lambda>r. sequence_of r > c), (''scope'', \<lambda>r. op_scope (contents r) \<in> set scopes)]) r
      \<longleftrightarrow> row_org r = org \<and> op_scope (contents r) \<in> set scopes \<and> c < sequence_of r" for r
    by (auto simp: scope_def satisfies_all_def OPS_def)
  show ?thesis
    using assms(1) sort_by_sorted [OF sorted_log_filter [OF assms(2)]]
    by (simp add: since_def findMany_def select_rows_def no_options_def w pending_from_def cong: filter_cong)
qed

lemma forNode_states: "tenant ctx = Inr org \<Longrightarrow> forNode ctx node m = Inr (states_of org node m)"
  by (auto simp: forNode_def findMany_def select_rows_def no_options_def scope_def satisfies_all_def STATES_def
      states_of_def intro!: filter_cong)

interpretation descending: comparator "\<lambda>x y. ord3 (f y) (f x)" for f :: "'b \<Rightarrow> 'a::linorder"
  by unfold_locales (auto simp: ord3_def split: if_splits)

text \<open>The latest sequence number bounds what can be pending.\<close>

lemma latest_bounds:
  assumes "tenant ctx = Inr org" and "latestSequence ctx m = Inr n" and "r \<in> set (log m)" and "row_org r = org"
  shows "sequence_of r \<le> n"
proof -
  let ?cmp = "\<lambda>r r'. ord3 (sequence_of r') (sequence_of r)"
  let ?rs = "sort_by ?cmp (filter (satisfies_all (scope OPS org False [])) (log m))"
  have "satisfies_all (scope OPS org False []) r" using assms(4) by (simp add: scope_def satisfies_all_def OPS_def)
  with assms(3) have r: "r \<in> set ?rs" by simp
  then obtain y ys where y: "?rs = y # ys" by (cases ?rs) auto
  with descending.sorted_sort_by [of sequence_of "filter (satisfies_all (scope OPS org False [])) (log m)"] r
  have "sequence_of r \<le> sequence_of y" by (auto simp: ord3_iff)
  moreover have "n = sequence_of y"
    using assms(1,2) y by (simp add: latestSequence_def select_rows_def no_options_def)
  ultimately show ?thesis by simp
qed

text \<open>Moving the cursors.\<close>

lemma find_filter: "List.find P (filter Q xs) = List.find (\<lambda>x. Q x \<and> P x) xs"
  by (induction xs) auto

lemma find_map: "List.find P (map f xs) = map_option f (List.find (P \<circ> f) xs)"
  by (induction xs) auto

lemma find_SomeD: "List.find P xs = Some x \<Longrightarrow> P x \<and> x \<in> set xs"
  by (induction xs) (auto split: if_splits)

lemma find_cong: "(\<And>x. x \<in> set xs \<Longrightarrow> P x \<longleftrightarrow> Q x) \<Longrightarrow> List.find P xs = List.find Q xs"
  by (induction xs) auto

lemma scope_cursor_find:
  assumes "own_cursors org node m"
  shows "scope_cursor (states_of org node m) sc =
     (case List.find (cursor_row node sc) (cursors m) of None \<Rightarrow> 0 | Some r \<Rightarrow> y_last (contents r))"
proof -
  have "List.find (\<lambda>r. (row_org r = org \<and> y_node (contents r) = node) \<and> y_scope (contents r) = sc) (cursors m)
      = List.find (cursor_row node sc) (cursors m)"
    using assms by (intro find_cong) (auto simp: own_cursors_def cursor_row_def)
  then show ?thesis by (simp add: scope_cursor_def states_of_def find_filter)
qed

lemma advance_own:
  assumes "own_cursors org node m"
  shows "own_cursors org node (advance env org now node n p b sc m)"
proof (cases "list_ex (cursor_row node sc) (cursors m)")
  case True
  let ?f = "\<lambda>r. if cursor_row node sc r
     then r\<lparr>contents := (contents r)\<lparr>y_last := n, y_pending := p, y_recovering := b, y_at := Some now\<rparr>\<rparr> else r"
  have c: "cursors (advance env org now node n p b sc m) = map ?f (cursors m)"
    using True by (simp add: advance_def)
  have k: "map (\<lambda>r. (y_node (contents r), y_scope (contents r))) (map ?f (cursors m))
      = map (\<lambda>r. (y_node (contents r), y_scope (contents r))) (cursors m)" by auto
  have "\<forall>r \<in> set (map ?f (cursors m)). y_node (contents r) = node \<longrightarrow> row_org r = org"
    using assms by (auto simp: own_cursors_def)
  then show ?thesis using assms unfolding own_cursors_def c k by blast
next
  case False
  then have "(node, sc) \<notin> (\<lambda>r. (y_node (contents r), y_scope (contents r))) ` set (cursors m)"
    by (auto simp: list_ex_iff cursor_row_def)
  with assms False show ?thesis by (auto simp: own_cursors_def advance_def)
qed

lemma advance_scope_cursor:
  assumes "own_cursors org node m"
  shows "scope_cursor (states_of org node (advance env org now node n p b sc m)) sc' =
     (if sc' = sc then n else scope_cursor (states_of org node m) sc')"
proof -
  let ?m = "advance env org now node n p b sc m"
  have ff: "(case List.find (cursor_row node sc') (cursors ?m) of None \<Rightarrow> 0 | Some r \<Rightarrow> y_last (contents r))
      = (if sc' = sc then n else case List.find (cursor_row node sc') (cursors m) of None \<Rightarrow> 0 | Some r \<Rightarrow> y_last (contents r))"
  proof (cases "list_ex (cursor_row node sc) (cursors m)")
    case True
    let ?f = "\<lambda>r. if cursor_row node sc r
       then r\<lparr>contents := (contents r)\<lparr>y_last := n, y_pending := p, y_recovering := b, y_at := Some now\<rparr>\<rparr> else r"
    have f: "cursor_row node s (?f r) \<longleftrightarrow> cursor_row node s r" for s r by (simp add: cursor_row_def)
    have "List.find (cursor_row node sc') (cursors ?m) = map_option ?f (List.find (cursor_row node sc') (cursors m))"
      using True by (simp add: advance_def find_map comp_def f)
    moreover have "List.find (cursor_row node sc) (cursors m) \<noteq> None"
      using True by (auto simp: list_ex_iff find_None_iff)
    moreover have "cursor_row node sc' r" if "List.find (cursor_row node sc') (cursors m) = Some r" for r
      using that by (rule find_SomeD [THEN conjunct1])
    ultimately show ?thesis
      by (cases "List.find (cursor_row node sc') (cursors m)") (auto simp: cursor_row_def)
  next
    case False
    have none: "List.find (cursor_row node sc) (cursors m) = None"
      using False by (simp add: find_None_iff list_ex_iff)
    have app: "List.find P (xs @ [x]) = (case List.find P xs of None \<Rightarrow> if P x then Some x else None | Some y \<Rightarrow> Some y)"
      for P xs and x :: "sync_state row"
      by (induction xs) auto
    show ?thesis using False none by (auto simp: advance_def app cursor_row_def split: option.split)
  qed
  then show ?thesis
    using scope_cursor_find [OF assms] scope_cursor_find [OF advance_own [OF assms], of env now n p b sc]
    by simp
qed

lemma fold_advance:
  assumes "own_cursors org node m"
  shows "own_cursors org node (fold (advance env org now node n p b) scopes m)
       \<and> (\<forall>sc. scope_cursor (states_of org node (fold (advance env org now node n p b) scopes m)) sc =
            (if sc \<in> set scopes then n else scope_cursor (states_of org node m) sc))"
  using assms
proof (induction scopes arbitrary: m)
  case (Cons s scopes)
  from Cons.IH [OF advance_own [OF Cons.prems, of env now n p b s]]
  show ?case by (simp add: advance_scope_cursor [OF Cons.prems])
qed simp

lemma least_cursor_all:
  assumes "scopes \<noteq> []" and "\<forall>sc \<in> set scopes. scope_cursor st sc = n"
  shows "least_cursor st scopes = enat n"
proof -
  have "fold (\<lambda>sc acc. min acc (enat (scope_cursor st sc))) ss c = min c (enat n)"
    if "ss \<noteq> []" "\<forall>sc \<in> set ss. scope_cursor st sc = n" for ss c
    using that by (induction ss arbitrary: c) (auto split: if_splits, metis fold_simps(1) list.exhaust min.assoc min.idem)
  from this [OF assms] show ?thesis by (simp add: least_cursor_def)
qed

lemma fold_advance_log [simp]:
  "log (fold (advance env org now node n p b) scopes m) = log m"
  by (induction scopes arbitrary: m) (simp_all add: advance_def)

lemma emit_event_simps [simp]:
  "log (emit_event e m) = log m" "cursors (emit_event e m) = cursors m" "shards (emit_event e m) = shards m"
  by (simp_all add: emit_event_def)

lemma states_of_emit [simp]:
  "states_of org node (emit_event e m) = states_of org node m"
  "own_cursors org node (emit_event e m) = own_cursors org node m"
  by (simp_all add: states_of_def own_cursors_def)

lemma filter_above_last:
  assumes "sorted_wrt (\<lambda>x y. g x < g y) xs" and "0 < n" and "xs \<noteq> []"
  shows "filter (\<lambda>x. (g (last (take n xs)) :: nat) < g x) xs = drop n xs"
proof -
  let ?l = "last (take n xs)"
  have ne: "take n xs \<noteq> []" using assms(2,3) by simp
  have s: "sorted_wrt (\<lambda>x y. g x < g y) (take n xs)" and a: "\<forall>x \<in> set (take n xs). \<forall>y \<in> set (drop n xs). g x < g y"
    using assms(1) sorted_wrt_append [of "\<lambda>x y. g x < g y" "take n xs" "drop n xs"] by simp_all
  have "g x \<le> g ?l" if "x \<in> set (take n xs)" for x
  proof -
    have "take n xs = butlast (take n xs) @ [?l]" using ne by simp
    with s have "\<forall>x \<in> set (butlast (take n xs)). g x < g ?l" by (metis sorted_wrt_append list.set_intros(1))
    moreover have "x \<in> set (butlast (take n xs)) \<or> x = ?l"
      using that \<open>take n xs = butlast (take n xs) @ [?l]\<close> by (metis Un_iff empty_iff empty_set set_ConsD set_append)
    ultimately show ?thesis by auto
  qed
  then have 1: "filter (\<lambda>x. g ?l < g x) (take n xs) = []" by (simp add: filter_empty_conv not_less)
  have 2: "filter (\<lambda>x. g ?l < g x) (drop n xs) = drop n xs"
    using a ne by (simp add: filter_id_conv)
  from 1 2 show ?thesis by (metis append_take_drop_id append_Nil filter_append)
qed

lemma sorted_pending: "wf_log m \<Longrightarrow> sorted_wrt (\<lambda>r r'. sequence_of r < sequence_of r') (pending_from org scopes c m)"
  unfolding pending_from_def by (rule sorted_wrt_filter) (simp add: wf_log_def sorted_wrt_map)

lemma pending_from_above:
  "c \<le> c' \<Longrightarrow> pending_from org scopes c' m = filter (\<lambda>r. c' < sequence_of r) (pending_from org scopes c m)"
  by (auto simp: pending_from_def intro!: filter_cong)

lemma least_cursor_finite: "scopes \<noteq> [] \<Longrightarrow> \<exists>c. least_cursor st scopes = enat c"
proof -
  have "fold (\<lambda>sc acc. min acc (enat (scope_cursor st sc))) ss (enat c) \<noteq> \<infinity>" for ss c
    by (induction ss arbitrary: c) (auto simp: min_def)
  then show "scopes \<noteq> [] \<Longrightarrow> ?thesis"
    by (cases scopes) (auto simp: least_cursor_def min_def)
qed

lemma pull_next:
  assumes "tenant ctx = Inr org" and "wf_log m" and "own_cursors org node m" and "scopes \<noteq> []" and "0 < n"
  shows "\<exists>p m'. pull env ctx now node scopes n m = (Inr p, m')
     \<and> p_ops p = take n (pending_ops org node scopes m)
     \<and> pending_ops org node scopes m' = drop n (pending_ops org node scopes m)
     \<and> log m' = log m \<and> own_cursors org node m'
     \<and> (p_remaining p = 0 \<longrightarrow> pending_ops org node scopes m' = [])"
proof -
  let ?st = "states_of org node m"
  obtain c where c: "least_cursor ?st scopes = enat c" using least_cursor_finite [OF assms(4)] by blast
  let ?pend = "pending_from org scopes c m"
  have pend: "pending_ops org node scopes m = ?pend"
    by (simp add: pending_ops_def position_def c finite_or_0_def)
  let ?ops = "take n ?pend"
  define a where "a = (if ?ops \<noteq> [] then sequence_of (last ?ops) else c)"
  have "\<exists>latest. latestSequence ctx m = Inr latest"
    using assms(1) by (auto simp: latestSequence_def split: list.split)
  then obtain latest where l: "latestSequence ctx m = Inr latest" ..
  define rem where "rem = latest - a"
  let ?m1 = "fold (advance env org now node a rem (rem > 0)) scopes m"
  let ?m' = "emit_event (MemorySyncCompleted node (length ?ops) (enat a) rem) ?m1"
  let ?p = "\<lparr>p_ops = ?ops, p_cursor = enat a, p_latest = latest, p_remaining = rem\<rparr>"
  have "(if ?ops \<noteq> [] then enat (sequence_of (last ?ops)) else enat c) = enat a" by (simp add: a_def)
  then have pull: "pull env ctx now node scopes n m = (Inr ?p, ?m')"
    using assms(1) since_pending [OF assms(1,2)] forNode_states [OF assms(1)] l
    by (simp only: pull_def bindE_Inr c Let_def finite_or_0_def enat.simps sum.case prod.case still_behind_def rem_def)
  from fold_advance [OF assms(3), of env now a rem "rem > 0" scopes]
  have own: "own_cursors org node ?m1" and cur: "\<forall>sc \<in> set scopes. scope_cursor (states_of org node ?m1) sc = a" by auto
  have "c \<le> a"
  proof (cases "?ops = []")
    case False
    then have "last ?ops \<in> set ?pend" by (meson in_set_takeD last_in_set)
    with False show ?thesis by (simp add: a_def pending_from_def)
  qed (simp add: a_def)
  have "position org node scopes ?m' = a"
    using least_cursor_all [OF assms(4) cur] by (simp add: position_def finite_or_0_def)
  then have "pending_ops org node scopes ?m' = pending_from org scopes a m"
    by (simp add: pending_ops_def pending_from_def)
  also have "\<dots> = filter (\<lambda>r. a < sequence_of r) ?pend" by (rule pending_from_above [OF \<open>c \<le> a\<close>])
  also have "\<dots> = drop n ?pend"
  proof (cases "?pend = []")
    case False
    with filter_above_last [OF sorted_pending [OF assms(2)] assms(5) False] assms(5) show ?thesis
      by (simp add: a_def)
  qed simp
  finally have rest: "pending_ops org node scopes ?m' = drop n ?pend" .
  have "pending_ops org node scopes ?m' = []" if "rem = 0"
  proof -
    have "sequence_of r \<le> a" if "r \<in> set (log m)" "row_org r = org" for r
      using latest_bounds [OF assms(1) l that] \<open>rem = 0\<close> by (simp add: rem_def)
    then have "pending_from org scopes a m = []" by (auto simp: pending_from_def filter_empty_conv not_less)
    with \<open>pending_ops org node scopes ?m' = pending_from org scopes a m\<close> show ?thesis by simp
  qed
  with pull rest own pend show ?thesis by auto
qed

text \<open>A pull hands over exactly the next entries. For a node whose cursors are its own, it
  delivers, in order, the first \<open>take\<close> entries of the organization's log in the scopes asked for
  that lie beyond the least of the cursors, and moves the cursors so that exactly the entries after
  these are still to come; and if it reports that nothing remains, nothing does.\<close>

theorem pull_delivers_next:
  assumes "tenant ctx = Inr org" and "wf_log m" and "own_cursors org node m" and "scopes \<noteq> []" and "0 < n"
  shows "\<exists>p m'. pull env ctx now node scopes n m = (Inr p, m')
     \<and> p_ops p = take n (pending_ops org node scopes m)
     \<and> pending_ops org node scopes m' = drop n (pending_ops org node scopes m)
     \<and> log m' = log m \<and> own_cursors org node m'
     \<and> (p_remaining p = 0 \<longrightarrow> pending_ops org node scopes m' = [])"
  using assms by (rule pull_next)

definition log_of :: "nat \<Rightarrow> memory" where
  "log_of k = snd (run_ops (memory_step plain_env) (replicate k (ctx_of ''a'', Write 1 (write_k ''x''))) empty_memory)"

lemma log_of_3: "wf_log (log_of 3)" "own_cursors ''a'' ''n1'' (log_of 3)"
proof -
  have "map sequence_of (log (log_of 3)) = [1, 2, 3]" and "last_sequence (log_of 3) = 3" by code_simp+
  then show "wf_log (log_of 3)" by (auto simp: wf_log_def)
  have "cursors (log_of 3) = []" by code_simp
  then show "own_cursors ''a'' ''n1'' (log_of 3)" by (simp add: own_cursors_def)
qed

lemma pull_delivers_next_witness:
  "\<exists>p m'. pull plain_env (ctx_of ''a'') 5 ''n1'' [SHARED] 2 (log_of 3) = (Inr p, m')
     \<and> map sequence_of (p_ops p) = [1, 2] \<and> map sequence_of (pending_ops ''a'' ''n1'' [SHARED] m') = [3]"
proof -
  have "map sequence_of (pending_ops ''a'' ''n1'' [SHARED] (log_of 3)) = [1, 2, 3]" by code_simp
  moreover have "tenant (ctx_of ''a'') = Inr ''a''" by (simp add: ctx_of_def)
  from pull_delivers_next [OF this log_of_3, of "[SHARED]" 2 plain_env 5]
  obtain p m' where "pull plain_env (ctx_of ''a'') 5 ''n1'' [SHARED] 2 (log_of 3) = (Inr p, m')"
    and "p_ops p = take 2 (pending_ops ''a'' ''n1'' [SHARED] (log_of 3))"
    and "pending_ops ''a'' ''n1'' [SHARED] m' = drop 2 (pending_ops ''a'' ''n1'' [SHARED] (log_of 3))" by auto
  ultimately show ?thesis by (auto simp: take_map [symmetric] drop_map [symmetric])
qed

section \<open>Recovery\<close>

text \<open>The loop delivers what is pending, up to the batches it may still fetch.\<close>

lemma pull_log:
  assumes "pull env ctx now node scopes n m = (a, m')"
  shows "wf_log m' \<longleftrightarrow> wf_log m"
proof -
  have [simp]: "last_sequence (fold (advance env org now node k p b) scopes m) = last_sequence m" for org k p b
    by (induction scopes arbitrary: m) (simp_all add: advance_def)
  have "log m' = log m \<and> last_sequence m' = last_sequence m"
    using assms by (auto simp: pull_def Let_def emit_event_def split: sum.splits prod.splits)
  then show ?thesis by (simp add: wf_log_def)
qed

lemma recover_loop_delivers:
  assumes "tenant ctx = Inr org" and "wf_log m" and "own_cursors org node m"
    and "length (pending_ops org node [SHARED, GLOBAL] m) \<le> left * PULL_BATCH" and "0 < left"
  shows "\<exists>r m'. recover_loop env ctx now node left d rem m
       = (Inr (d + length (pending_ops org node [SHARED, GLOBAL] m), r), m')
     \<and> pending_ops org node [SHARED, GLOBAL] m' = [] \<and> log m' = log m \<and> own_cursors org node m'"
  using assms
proof (induction left arbitrary: d rem m)
  case (Suc left)
  let ?pend = "pending_ops org node [SHARED, GLOBAL]"
  have pos: "0 < PULL_BATCH" by (simp add: PULL_BATCH_def)
  obtain p m1 where p: "pull env ctx now node [SHARED, GLOBAL] PULL_BATCH m = (Inr p, m1)"
    and ops: "p_ops p = take PULL_BATCH (?pend m)" and rest: "?pend m1 = drop PULL_BATCH (?pend m)"
    and m1: "log m1 = log m" "own_cursors org node m1" and zero: "p_remaining p = 0 \<longrightarrow> ?pend m1 = []"
    using pull_next [OF Suc.prems(1,2,3) _ pos, of "[SHARED, GLOBAL]" env now] by auto
  show ?case
  proof (cases "p_ops p = [] \<or> p_remaining p = 0")
    case True
    have "?pend m1 = []" using True zero ops pos rest by auto
    moreover from this rest have "length (p_ops p) = length (?pend m)" using ops by simp
    ultimately show ?thesis using p True m1 by simp
  next
    case False
    show ?thesis
    proof (cases left)
      case 0
      then have "?pend m1 = []" using Suc.prems(4) rest by simp
      moreover have "length (p_ops p) = length (?pend m)" using 0 Suc.prems(4) ops by simp
      ultimately show ?thesis using p False m1 0 by simp
    next
      case (Suc l)
      have "wf_log m1" using pull_log [OF p] Suc.prems(2) by simp
      moreover have "length (?pend m1) \<le> left * PULL_BATCH" using Suc.prems(4) rest by simp
      ultimately obtain r m' where
        "recover_loop env ctx now node left (d + length (p_ops p)) (p_remaining p) m1
          = (Inr (d + length (p_ops p) + length (?pend m1), r), m')"
        and "?pend m' = []" "log m' = log m1" "own_cursors org node m'"
        using Suc.IH [OF Suc.prems(1) _ m1(2), of "d + length (p_ops p)" "p_remaining p"] Suc by auto
      moreover have "length (p_ops p) + length (?pend m1) = length (?pend m)"
        using ops rest by (metis append_take_drop_id length_append)
      ultimately show ?thesis using p False m1 by (auto simp: add.assoc)
    qed
  qed
qed simp

text \<open>Recovery catches up. A node of the organization that is at most 2000 log entries behind
  is given all of them by one call of \<open>recover\<close>, which reports their exact number, and nothing is
  pending for it afterwards, however long it was away.\<close>

theorem recover_catches_up:
  assumes "tenant ctx = Inr org" and "wf_log m" and "own_cursors org nodeId m"
    and "findByIdOrFail NODES ctx nodeId no_options (fleet m) = Inr node"
    and "length (pending_ops org nodeId [SHARED, GLOBAL] m) \<le> 2000"
  shows "\<exists>r m'. recover env ctx now nodeId m = (Inr (length (pending_ops org nodeId [SHARED, GLOBAL] m), r), m')
     \<and> pending_ops org nodeId [SHARED, GLOBAL] m' = [] \<and> log m' = log m"
proof -
  have "length (pending_ops org nodeId [SHARED, GLOBAL] m) \<le> MAX_BATCHES * PULL_BATCH" and "0 < MAX_BATCHES"
    using assms(5) by (simp_all add: MAX_BATCHES_def PULL_BATCH_def)
  from recover_loop_delivers [OF assms(1-3) this, of env now 0 0] assms(4)
  show ?thesis by (auto simp: recover_def pending_ops_def position_def pending_from_def)
qed

lemma recover_catches_up_witness:
  "\<exists>r m'. recover plain_env (ctx_of ''a'') 7 ''n1'' (log_of 3) = (Inr (3, r), m')
     \<and> pending_ops ''a'' ''n1'' [SHARED, GLOBAL] m' = []"
proof -
  have t: "tenant (ctx_of ''a'') = Inr ''a''" by (simp add: ctx_of_def)
  have n: "findByIdOrFail NODES (ctx_of ''a'') ''n1'' no_options (fleet (log_of 3)) = Inr (hd (fleet empty_memory))"
    by code_simp
  have l: "length (pending_ops ''a'' ''n1'' [SHARED, GLOBAL] (log_of 3)) = 3" by code_simp
  from recover_catches_up [OF t log_of_3 n, of plain_env 7] l show ?thesis by auto
qed

text \<open>
  Being caught up is not recognised when the organization's last entry is in a scope the node does
  not replicate: nothing is pending, yet the pull reports a remainder and marks the node as recovering.
\<close>

lemma caught_up_still_recovering:
  "let m = snd (put_shard plain_env (ctx_of ''a'') 1 ((write_k ''x'')\<lparr>sw_scope := LOCAL, sw_node := Some ''n1''\<rparr>) empty_memory);
       (p, m') = pull plain_env (ctx_of ''a'') 2 ''n1'' [SHARED, GLOBAL] 200 m
   in pending_ops ''a'' ''n1'' [SHARED, GLOBAL] m' = [] \<and> (case p of Inr q \<Rightarrow> p_remaining q | Inl e \<Rightarrow> 0) = 1
      \<and> map (y_recovering \<circ> contents) (cursors m') = [True, True]"
  by code_simp

text \<open>
  The cursor upsert is keyed by node and scope alone, so a pull by another organization for the same
  node moves the node's cursor past entries it was never given.
\<close>

lemma foreign_pull_skips_entries:
  "let m = snd (run_ops (memory_step plain_env)
             [(ctx_of ''a'', Fetch 1 ''n1'' [SHARED] 200), (ctx_of ''a'', Write 2 (write_k ''x'')),
              (ctx_of ''b'', Write 3 (write_k ''y'')), (ctx_of ''b'', Fetch 4 ''n1'' [SHARED] 200)] empty_memory)
   in map sequence_of (filter (\<lambda>r. row_org r = ''a'') (log m)) = [1]
      \<and> (case fst (pull plain_env (ctx_of ''a'') 5 ''n1'' [SHARED] 200 m) of Inr q \<Rightarrow> p_ops q | Inl e \<Rightarrow> []) = []"
  by code_simp

text \<open>A fast-forward changes a shard without a log entry, so no other node can pull the change.\<close>

lemma fast_forward_is_not_logged:
  "let (r, m) = apply_incoming plain_env (ctx_of ''a'') 2
        ((received ''n1'' 1 ''y'' 1)\<lparr>i_clock := Some [(''control-plane'', 1), (''n1'', 1)]\<rparr>) one_shard
   in stored (ctx_of ''a'') (received ''n1'' 1 ''y'' 1) m = Some [(''v'', JStr ''y'')]
      \<and> map (getp ''value'' \<circ> op_payload \<circ> contents) (log m) = [JObj [(''v'', JStr ''x'')]]"
  by code_simp

end
