(* ===== verification/AppendBuffer.thy ===== *)
theory AppendBuffer
  imports Simulation "HOL-Library.Multiset"
begin

text \<open>
  The write-behind buffer of \<open>src/backend/src/database/append-buffer.ts\<close> as a state machine: the
  calls of \<open>add\<close> and \<open>flush\<close>, the timer, the writes of a batch, and the resumption of the callers
  that wait, each an event of its own, so that every interleaving the event loop allows is a list of
  events. The calls of \<open>flush\<close>, awaited or not, are numbered; \<open>resolved\<close> lists those that have ended.
  A write that throws has written nothing.
\<close>

section \<open>The buffer\<close>

record options =
  maxRows :: nat
  maxDelayMs :: nat
  capacity :: nat

definition APPEND_BUFFER_DEFAULTS :: options where
  "APPEND_BUFFER_DEFAULTS = \<lparr>maxRows = 100, maxDelayMs = 250, capacity = 5000\<rparr>"

text \<open>
  A batch has the writes still to make, one for each tenant, and whether the first of them has failed
  once. A caller waits either for the flush it found under way, or for the batch it took itself.
\<close>

record 'r batch =
  groups :: "(string \<times> 'r list) list"
  retried :: bool

datatype wait = Joined nat | Owner nat

record 'r buffer =
  rows :: "(string \<times> 'r) list"
  timer :: bool
  inFlight :: "nat option"
  droppedRows :: nat
  batches :: "(nat \<times> 'r batch) list"
  next_batch :: nat
  next_call :: nat
  waiting :: "(nat \<times> wait) list"
  resolved :: "nat list"
  written :: "(string \<times> 'r list) list"
  lost :: "(string \<times> 'r list) list"

definition new_buffer :: "'r buffer" where
  "new_buffer = \<lparr>rows = [], timer = False, inFlight = None, droppedRows = 0, batches = [], next_batch = 0, next_call = 0,
     waiting = [], resolved = [], written = [], lost = []\<rparr>"

definition depth :: "'r buffer \<Rightarrow> nat" where
  "depth b = length (rows b)"

text \<open>The \<open>Map\<close> by tenant of \<open>writeBatch\<close>.\<close>

definition add_to_group :: "string \<times> 'r \<Rightarrow> (string \<times> 'r list) list \<Rightarrow> (string \<times> 'r list) list" where
  "add_to_group e m =
     (case map_of m (fst e) of
        Some existing \<Rightarrow> put (fst e) (existing @ [snd e]) m
      | None \<Rightarrow> put (fst e) [snd e] m)"

definition by_tenant :: "(string \<times> 'r) list \<Rightarrow> (string \<times> 'r list) list" where
  "by_tenant batch = fold add_to_group batch []"

text \<open>The second half of \<open>flush\<close>, from the clearing of the timer on.\<close>

definition take_rows :: "nat \<Rightarrow> 'r buffer \<Rightarrow> 'r buffer" where
  "take_rows c b =
     (let b1 = b\<lparr>timer := False\<rparr> in
      if rows b1 = [] then b1\<lparr>resolved := c # resolved b1\<rparr>
      else b1\<lparr>rows := [], inFlight := Some (next_batch b1),
              batches := (next_batch b1, \<lparr>groups = by_tenant (rows b1), retried = False\<rparr>) # batches b1,
              next_batch := Suc (next_batch b1), waiting := (c, Owner (next_batch b1)) # waiting b1\<rparr>)"

definition flush :: "'r buffer \<Rightarrow> 'r buffer" where
  "flush b =
     (let c = next_call b; b1 = b\<lparr>next_call := Suc c\<rparr> in
      case inFlight b1 of
        Some k \<Rightarrow> b1\<lparr>waiting := (c, Joined k) # waiting b1\<rparr>
      | None \<Rightarrow> take_rows c b1)"

text \<open>
  \<open>add\<close> resolves with the flush at capacity, and at once otherwise; a \<open>void\<close> flush goes on by itself.
\<close>

definition add :: "options \<Rightarrow> string \<Rightarrow> 'r \<Rightarrow> 'r buffer \<Rightarrow> 'r buffer" where
  "add opts org row b =
     (let b1 = b\<lparr>rows := rows b @ [(org, row)]\<rparr> in
      if length (rows b1) \<ge> capacity opts then flush b1
      else if length (rows b1) \<ge> maxRows opts then flush b1
      else b1\<lparr>timer := True\<rparr>)"

text \<open>One attempt to write the next tenant's rows of batch \<open>k\<close>.\<close>

definition attempt :: "bool \<Rightarrow> nat \<Rightarrow> 'r buffer \<Rightarrow> 'r buffer" where
  "attempt ok k b =
     (case map_of (batches b) k of
        None \<Rightarrow> b
      | Some t \<Rightarrow>
          (case groups t of
             [] \<Rightarrow> b
           | g # gs \<Rightarrow>
               if ok then b\<lparr>batches := put k \<lparr>groups = gs, retried = False\<rparr> (batches b), written := written b @ [g]\<rparr>
               else if \<not> retried t then b\<lparr>batches := put k (t\<lparr>retried := True\<rparr>) (batches b)\<rparr>
               else b\<lparr>batches := put k \<lparr>groups = gs, retried = False\<rparr> (batches b), lost := lost b @ [g],
                      droppedRows := droppedRows b + length (snd g)\<rparr>))"

text \<open>The end of \<open>writeBatch\<close>, with the \<open>finally\<close> that clears \<open>inFlight\<close> whatever it holds.\<close>

definition finish :: "nat \<Rightarrow> 'r buffer \<Rightarrow> 'r buffer" where
  "finish k b =
     (case map_of (batches b) k of
        None \<Rightarrow> b
      | Some t \<Rightarrow> if groups t = [] then b\<lparr>batches := del k (batches b), inFlight := None\<rparr> else b)"

text \<open>A caller goes on once the batch it waits for has ended.\<close>

definition resume_caller :: "nat \<Rightarrow> 'r buffer \<Rightarrow> 'r buffer" where
  "resume_caller c b =
     (case map_of (waiting b) c of
        None \<Rightarrow> b
      | Some (Owner k) \<Rightarrow>
          if map_of (batches b) k \<noteq> None then b
          else b\<lparr>waiting := del c (waiting b), resolved := c # resolved b\<rparr>
      | Some (Joined k) \<Rightarrow>
          if map_of (batches b) k \<noteq> None then b
          else let b1 = b\<lparr>waiting := del c (waiting b)\<rparr> in
               if rows b1 = [] then b1\<lparr>resolved := c # resolved b1\<rparr> else take_rows c b1)"

datatype 'r event =
    Add string 'r
  | Flush
  | TimerFires
  | Written nat
  | Failed nat
  | Finished nat
  | Resume nat

fun event_step :: "options \<Rightarrow> 'r event \<Rightarrow> 'r buffer \<Rightarrow> unit \<times> 'r buffer" where
  "event_step opts (Add org row) b = ((), add opts org row b)"
| "event_step opts Flush b = ((), flush b)"
| "event_step opts TimerFires b = ((), if timer b then flush (b\<lparr>timer := False\<rparr>) else b)"
| "event_step opts (Written k) b = ((), attempt True k b)"
| "event_step opts (Failed k) b = ((), attempt False k b)"
| "event_step opts (Finished k) b = ((), finish k b)"
| "event_step opts (Resume c) b = ((), resume_caller c b)"

definition after :: "options \<Rightarrow> 'r event list \<Rightarrow> 'r buffer \<Rightarrow> 'r buffer" where
  "after opts evs b = snd (run_ops (event_step opts) evs b)"

section \<open>Conservation of rows\<close>

fun added :: "'r event list \<Rightarrow> (string \<times> 'r) list" where
  "added [] = []"
| "added (Add org row # evs) = (org, row) # added evs"
| "added (_ # evs) = added evs"

definition rows_of :: "(string \<times> 'r list) list \<Rightarrow> (string \<times> 'r) list" where
  "rows_of gs = concat (map (\<lambda>g. map (Pair (fst g)) (snd g)) gs)"

definition pile :: "(nat \<times> 'r batch) list \<Rightarrow> (string \<times> 'r) multiset" where
  "pile bs = mset (concat (map (rows_of \<circ> groups \<circ> snd) bs))"

definition in_batches :: "'r buffer \<Rightarrow> (string \<times> 'r) multiset" where
  "in_batches b = pile (batches b)"

definition accounted :: "'r buffer \<Rightarrow> (string \<times> 'r) multiset" where
  "accounted b = mset (rows b) + in_batches b + mset (rows_of (written b)) + mset (rows_of (lost b))"

lemma rows_of_simps [simp]:
  "rows_of [] = []" "rows_of (g # gs) = map (Pair (fst g)) (snd g) @ rows_of gs"
  "rows_of (gs @ hs) = rows_of gs @ rows_of hs"
  by (simp_all add: rows_of_def)

lemma mset_rows_of_put:
  "wf_obj m \<Longrightarrow> map_of m k = Some rs \<Longrightarrow>
   mset (rows_of (put k (rs @ [x]) m)) = add_mset (k, x) (mset (rows_of m))"
proof (induction m)
  case (Cons e m)
  then show ?case by (cases e) (auto split: if_splits)
qed simp

lemma add_to_group_mset:
  "wf_obj m \<Longrightarrow> mset (rows_of (add_to_group e m)) = add_mset e (mset (rows_of m)) \<and> wf_obj (add_to_group e m)"
proof (cases "map_of m (fst e)")
  case None
  moreover assume "wf_obj m"
  moreover from None have "fst e \<notin> set (keys m)" by (simp add: map_of_eq_None_iff)
  ultimately show ?thesis by (simp add: add_to_group_def put_new)
next
  case (Some rs)
  assume "wf_obj m"
  with Some mset_rows_of_put [of m "fst e" rs "snd e"] show ?thesis by (simp add: add_to_group_def wf_put)
qed

lemma mset_by_tenant: "mset (rows_of (by_tenant batch)) = mset batch"
proof -
  have "wf_obj m \<Longrightarrow> mset (rows_of (fold add_to_group xs m)) = mset xs + mset (rows_of m)" for xs and m :: "(string \<times> 'a list) list"
    by (induction xs arbitrary: m) (simp_all add: add_to_group_mset)
  from this [of "[]" batch] show ?thesis by (simp add: by_tenant_def)
qed

text \<open>Each tenant is written once for a batch, with its rows in the order they were added.\<close>

lemma by_tenant_rows:
  "map_of (by_tenant batch) org =
     (let rs = map snd (filter (\<lambda>e. fst e = org) batch) in if rs = [] then None else Some rs)"
proof -
  have "map_of (fold add_to_group xs m) org =
      (let rs = map snd (filter (\<lambda>e. fst e = org) xs)
       in if rs = [] then map_of m org else Some ((case map_of m org of None \<Rightarrow> [] | Some qs \<Rightarrow> qs) @ rs))"
    for xs and m :: "(string \<times> 'a list) list"
  proof (induction xs arbitrary: m)
    case (Cons e xs)
    have "map_of (add_to_group e m) org =
        (if fst e = org then Some ((case map_of m org of None \<Rightarrow> [] | Some qs \<Rightarrow> qs) @ [snd e]) else map_of m org)"
      by (auto simp: add_to_group_def split: option.split)
    then show ?case by (simp add: Cons Let_def split: option.split)
  qed simp
  from this [of batch "[]"] show ?thesis by (simp add: by_tenant_def Let_def)
qed

text \<open>The batches under way have distinct numbers, all given out already.\<close>

definition wf_batches :: "'r buffer \<Rightarrow> bool" where
  "wf_batches b \<longleftrightarrow> wf_obj (batches b) \<and> (\<forall>k \<in> fst ` set (batches b). k < next_batch b)"

lemma pile_simps [simp]: "pile [] = {#}" "pile ((k, t) # bs) = mset (rows_of (groups t)) + pile bs"
  by (simp_all add: pile_def)

lemma wf_batches_other [simp]:
  "wf_batches (b\<lparr>written := x\<rparr>) = wf_batches b" "wf_batches (b\<lparr>lost := x\<rparr>) = wf_batches b"
  "wf_batches (b\<lparr>droppedRows := n\<rparr>) = wf_batches b" "wf_batches (b\<lparr>inFlight := q\<rparr>) = wf_batches b"
  "wf_batches (b\<lparr>waiting := w\<rparr>) = wf_batches b" "wf_batches (b\<lparr>rows := r\<rparr>) = wf_batches b"
  "wf_batches (b\<lparr>timer := t\<rparr>) = wf_batches b" "wf_batches (b\<lparr>next_call := n\<rparr>) = wf_batches b"
  "wf_batches (b\<lparr>resolved := l\<rparr>) = wf_batches b"
  by (simp_all add: wf_batches_def)

lemma mset_put_batch:
  assumes "wf_obj m" and "map_of m k = Some t" and "mset (rows_of (groups t)) = A + mset (rows_of (groups t'))"
  shows "pile m = A + pile (put k t' m)"
  using assms
proof (induction m)
  case (Cons e m)
  then show ?case by (cases e) (auto split: if_splits)
qed simp

lemma mset_del_batch:
  assumes "wf_obj m" and "map_of m k = Some t" and "groups t = []"
  shows "pile (del k m) = pile m"
  using assms
proof (induction m)
  case (Cons e m)
  show ?case
  proof (cases "fst e = k")
    case True
    with Cons.prems have "k \<notin> fst ` set m" by auto
    then have "del k m = m" by (auto simp: del_def filter_id_conv)
    moreover have "del k (e # m) = del k m" using True by (simp add: del_def)
    moreover have "groups (snd e) = []" using True Cons.prems by (cases e) auto
    ultimately show ?thesis by (cases e) simp
  next
    case False
    then have "map_of m k = Some t" using Cons.prems by (cases e) auto
    with Cons False show ?thesis by (cases e) (simp add: del_def)
  qed
qed simp

lemma accounted_take_rows:
  "accounted (take_rows c b) = accounted b \<and> (wf_batches b \<longrightarrow> wf_batches (take_rows c b))"
  by (auto simp: take_rows_def Let_def accounted_def in_batches_def mset_by_tenant wf_batches_def
      intro: less_SucI)

lemma accounted_flush: "accounted (flush b) = accounted b \<and> (wf_batches b \<longrightarrow> wf_batches (flush b))"
  using accounted_take_rows [of "next_call b" "b\<lparr>next_call := Suc (next_call b)\<rparr>"]
  by (auto simp: flush_def Let_def accounted_def in_batches_def wf_batches_def split: option.split)

lemma accounted_add: "accounted (add opts org row b) = add_mset (org, row) (accounted b)
   \<and> (wf_batches b \<longrightarrow> wf_batches (add opts org row b))"
  using accounted_flush [of "b\<lparr>rows := rows b @ [(org, row)]\<rparr>"]
  by (auto simp: add_def Let_def accounted_def in_batches_def wf_batches_def)

lemma accounted_attempt:
  assumes "wf_batches b"
  shows "accounted (attempt ok k b) = accounted b \<and> wf_batches (attempt ok k b)"
proof (cases "map_of (batches b) k")
  case None
  with assms show ?thesis by (simp add: attempt_def)
next
  case (Some t)
  then have k: "k \<in> fst ` set (batches b)" by (metis domI dom_map_of_conv_image_fst)
  have w: "wf_obj (batches b)" using assms by (simp add: wf_batches_def)
  have wf: "wf_batches (b\<lparr>batches := put k t' (batches b)\<rparr>)" for t'
    using assms k by (auto simp: wf_batches_def wf_put)
  show ?thesis
  proof (cases "groups t")
    case Nil
    with Some assms show ?thesis by (simp add: attempt_def)
  next
    case (Cons g gs)
    have 1: "pile (batches b) = mset (rows_of [g]) + pile (put k \<lparr>groups = gs, retried = False\<rparr> (batches b))"
      using Cons by (intro mset_put_batch [OF w Some]) simp
    have 2: "pile (batches b) = pile (put k (t\<lparr>retried := True\<rparr>) (batches b))"
      using mset_put_batch [OF w Some, of "{#}" "t\<lparr>retried := True\<rparr>"] by simp
    from Some Cons 1 2 wf show ?thesis
      by (simp add: attempt_def accounted_def in_batches_def ac_simps)
  qed
qed

lemma accounted_finish:
  assumes "wf_batches b"
  shows "accounted (finish k b) = accounted b \<and> wf_batches (finish k b)"
  using assms mset_del_batch [of "batches b" k]
  by (auto simp: finish_def accounted_def in_batches_def wf_batches_def del_def distinct_map inj_on_def
      split: option.split)

lemma accounted_resume:
  "accounted (resume_caller c b) = accounted b \<and> (wf_batches b \<longrightarrow> wf_batches (resume_caller c b))"
  using accounted_take_rows [of c "b\<lparr>waiting := del c (waiting b)\<rparr>"]
  by (auto simp: resume_caller_def Let_def accounted_def in_batches_def wf_batches_def split: option.split wait.split)

lemma dropped_step: "droppedRows b = length (rows_of (lost b)) \<Longrightarrow>
   droppedRows (snd (event_step opts ev b)) = length (rows_of (lost (snd (event_step opts ev b))))"
  by (cases ev)
    (auto simp: add_def flush_def take_rows_def attempt_def finish_def resume_caller_def Let_def
      split: option.split list.split wait.split)

lemma accounted_step:
  assumes "wf_batches b"
  shows "accounted (snd (event_step opts ev b)) = mset (added [ev]) + accounted b
       \<and> wf_batches (snd (event_step opts ev b))"
proof (cases ev)
  case TimerFires
  have "accounted (b\<lparr>timer := False\<rparr>) = accounted b \<and> wf_batches (b\<lparr>timer := False\<rparr>)"
    using assms by (simp add: accounted_def in_batches_def wf_batches_def)
  with TimerFires assms accounted_flush [of "b\<lparr>timer := False\<rparr>"] show ?thesis by simp
qed (use assms accounted_add [of opts _ _ b] accounted_flush [of b] accounted_attempt [OF assms] accounted_finish [OF assms]
      accounted_resume [of _ b] in \<open>simp_all\<close>)

lemma added_Cons: "mset (added (ev # evs)) = mset (added [ev]) + mset (added evs)"
  by (cases ev) simp_all

lemma rows_conserved:
  "mset (added evs) = accounted (after opts evs new_buffer)
   \<and> droppedRows (after opts evs new_buffer) = length (rows_of (lost (after opts evs new_buffer)))"
proof -
  have "wf_batches b \<Longrightarrow> accounted (snd (run_ops (event_step opts) evs b)) = mset (added evs) + accounted b" for b
  proof (induction evs arbitrary: b)
    case (Cons ev evs)
    from accounted_step [OF Cons.prems, of opts ev] Cons.IH [of "snd (event_step opts ev b)"]
    show ?case by (simp add: split_beta added_Cons [of ev evs])
  qed simp
  from this [of new_buffer] have 1: "mset (added evs) = accounted (after opts evs new_buffer)"
    by (simp add: after_def new_buffer_def wf_batches_def accounted_def in_batches_def)
  have "droppedRows b = length (rows_of (lost b)) \<Longrightarrow>
      droppedRows (snd (run_ops (event_step opts) evs b)) = length (rows_of (lost (snd (run_ops (event_step opts) evs b))))" for b
  proof (induction evs arbitrary: b)
    case (Cons ev evs)
    from Cons.IH [OF dropped_step [OF Cons.prems]] show ?case by (simp add: split_beta)
  qed simp
  from this [of new_buffer] 1 show ?thesis by (simp add: after_def new_buffer_def)
qed

text \<open>C37: No row is lost silently and none is written twice. Whatever calls, timer ticks,
  successful and failing writes and resumptions are interleaved, the rows added are exactly, with
  their tenants and multiplicities, those still buffered, those in a batch under way, those written
  and those given up after a failed retry, and \<open>dropped\<close> counts the last.\<close>

theorem rows_are_conserved:
  "mset (added evs) = accounted (after opts evs new_buffer)
   \<and> droppedRows (after opts evs new_buffer) = length (rows_of (lost (after opts evs new_buffer)))"
  by (rule rows_conserved)

section \<open>No row is stranded\<close>

text \<open>
  Buffered rows always have someone who will flush them: the timer, or a caller that joined a flush
  and takes what it finds when that ends.
\<close>

definition attended :: "'r buffer \<Rightarrow> bool" where
  "attended b \<longleftrightarrow>
     wf_batches b \<and> wf_obj (waiting b) \<and> (\<forall>c \<in> fst ` set (waiting b). c < next_call b)
     \<and> (\<forall>k. inFlight b = Some k \<longrightarrow> k \<in> fst ` set (batches b))
     \<and> (rows b \<noteq> [] \<longrightarrow> timer b \<or> (\<exists>c k. (c, Joined k) \<in> set (waiting b)))"

lemma attended_take_rows:
  assumes "wf_batches b" and "wf_obj (waiting b)" and "\<forall>c \<in> fst ` set (waiting b). c < next_call b"
    and "\<forall>k. inFlight b = Some k \<longrightarrow> k \<in> fst ` set (batches b)" and "c \<notin> fst ` set (waiting b)" and "c < next_call b"
  shows "attended (take_rows c b)"
  using assms accounted_take_rows [of c b]
  by (auto simp: attended_def take_rows_def Let_def)

lemma attended_flush:
  assumes "wf_batches b" and "wf_obj (waiting b)" and "\<forall>c \<in> fst ` set (waiting b). c < next_call b"
    and "\<forall>k. inFlight b = Some k \<longrightarrow> k \<in> fst ` set (batches b)"
  shows "attended (flush b)"
proof (cases "inFlight b")
  case None
  have "attended (take_rows (next_call b) (b\<lparr>next_call := Suc (next_call b)\<rparr>))"
    by (rule attended_take_rows) (use assms in \<open>auto intro: less_SucI\<close>)
  with None show ?thesis by (simp add: flush_def Let_def)
next
  case (Some k)
  with assms show ?thesis by (fastforce simp: flush_def Let_def attended_def)
qed

lemma set_del_entries: "set (del c m) = {e \<in> set m. fst e \<noteq> c}"
  by (auto simp: del_def)

lemma attended_resume:
  assumes "attended b"
  shows "attended (resume_caller c b)"
proof -
  let ?b = "b\<lparr>waiting := del c (waiting b)\<rparr>"
  have w: "wf_obj (del c (waiting b))" "\<forall>c' \<in> fst ` set (del c (waiting b)). c' < next_call b" "c \<notin> fst ` set (del c (waiting b))"
    using assms wf_del [of "waiting b" c] by (auto simp: attended_def set_del_entries)
  have take: "attended (take_rows c ?b)" if "c < next_call b"
    by (rule attended_take_rows) (use assms w that in \<open>auto simp: attended_def\<close>)
  have c: "c < next_call b" if "map_of (waiting b) c = Some x" for x
    using assms map_of_SomeD [OF that] by (force simp: attended_def)
  have o: "attended (b\<lparr>waiting := del c (waiting b), resolved := c # resolved b\<rparr>)"
    if "map_of (waiting b) c = Some (Owner k)" for k
  proof -
    have "(c', Joined j) \<in> set (del c (waiting b))" if "(c', Joined j) \<in> set (waiting b)" for c' j
    proof -
      have "map_of (waiting b) c' = Some (Joined j)" using assms that by (simp add: attended_def)
      with \<open>map_of (waiting b) c = Some (Owner k)\<close> have "c' \<noteq> c" by auto
      with that show ?thesis by (simp add: del_def)
    qed
    then have "(\<exists>c k. (c, Joined k) \<in> set (waiting b)) \<longrightarrow> (\<exists>c' k. (c', Joined k) \<in> set (del c (waiting b)))"
      by blast
    with assms w show ?thesis by (simp add: attended_def) blast
  qed
  have e: "attended (b\<lparr>waiting := del c (waiting b), resolved := c # resolved b\<rparr>)" if "rows b = []"
    using assms w that by (auto simp: attended_def)
  show ?thesis
    using assms take c o e by (auto simp: resume_caller_def Let_def split: option.split wait.split)
qed

lemma attempt_other [simp]:
  "rows (attempt ok k b) = rows b" "timer (attempt ok k b) = timer b" "waiting (attempt ok k b) = waiting b"
  "inFlight (attempt ok k b) = inFlight b" "next_call (attempt ok k b) = next_call b"
  by (auto simp: attempt_def split: option.split list.split)

lemma attempt_keys [simp]: "fst ` set (batches (attempt ok k b)) = fst ` set (batches b)"
proof (cases "map_of (batches b) k")
  case (Some t)
  then have "k \<in> fst ` set (batches b)" by (metis domI dom_map_of_conv_image_fst)
  with Some show ?thesis by (cases "groups t") (simp_all add: attempt_def insert_absorb)
qed (simp add: attempt_def)

lemma attended_attempt: "attended b \<Longrightarrow> attended (attempt ok k b)"
  unfolding attended_def using accounted_attempt [of b ok k] by simp

lemma attended_step:
  assumes "attended b"
  shows "attended (snd (event_step opts ev b))"
proof (cases ev)
  case (Add org row)
  have "attended (flush (b\<lparr>rows := rows b @ [(org, row)]\<rparr>))"
    by (rule attended_flush) (use assms in \<open>auto simp: attended_def\<close>)
  with Add assms show ?thesis by (auto simp: add_def Let_def attended_def)
next
  case Flush
  have "attended (flush b)" by (rule attended_flush) (use assms in \<open>auto simp: attended_def\<close>)
  with Flush show ?thesis by simp
next
  case TimerFires
  have "attended (flush (b\<lparr>timer := False\<rparr>))"
    by (rule attended_flush) (use assms in \<open>auto simp: attended_def\<close>)
  with TimerFires assms show ?thesis by simp
next
  case (Written k)
  with assms show ?thesis by (simp add: attended_attempt)
next
  case (Failed k)
  with assms show ?thesis by (simp add: attended_attempt)
next
  case (Finished k)
  have "wf_batches (finish k b)" using assms accounted_finish by (auto simp: attended_def)
  with Finished assms show ?thesis by (auto simp: finish_def attended_def split: option.split)
next
  case (Resume c)
  with attended_resume [OF assms] show ?thesis by simp
qed

interpretation attended: kept attended "event_step opts" "\<lambda>_. True" for opts :: options
  by unfold_locales (rule attended_step)

lemma attended_after: "attended (after opts evs new_buffer)"
  unfolding after_def
  by (rule attended.kept_run) (simp_all add: attended_def new_buffer_def wf_batches_def)

text \<open>A batch under way can be written out.\<close>

lemma after_Nil [simp]: "after opts [] b = b"
  by (simp add: after_def)

lemma after_Cons [simp]: "after opts (ev # evs) b = after opts evs (snd (event_step opts ev b))"
  by (simp add: after_def split_beta)

lemma after_append: "after opts (evs @ evs') b = after opts evs' (after opts evs b)"
  by (induction evs arbitrary: b) simp_all

definition like :: "'r buffer \<Rightarrow> 'r buffer \<Rightarrow> bool" where
  "like b b' \<longleftrightarrow> rows b' = rows b \<and> timer b' = timer b \<and> waiting b' = waiting b \<and> lost b' = lost b"

lemma added_append [simp]: "added (evs @ evs') = added evs @ added evs'"
  by (induction evs rule: added.induct) simp_all

lemma put_put [simp]: "put k v (put k v' m) = put k v m"
  by (induction m) auto

lemma del_put [simp]: "del k (put k v m) = del k m"
  by (induction m) (auto simp: del_def)

lemma batch_completes:
  assumes "map_of (batches b) k = Some t"
  shows "\<exists>evs. added evs = [] \<and> like b (after opts evs b) \<and> batches (after opts evs b) = del k (batches b)
           \<and> inFlight (after opts evs b) = None"
  using assms
proof (induction "groups t" arbitrary: t b)
  case Nil
  then show ?case
    by (intro exI [of _ "[Finished k]"]) (simp add: finish_def like_def)
next
  case (Cons g gs)
  let ?t = "\<lparr>groups = gs, retried = False\<rparr>"
  let ?b = "snd (event_step opts (Written k) b)"
  have b: "?b = b\<lparr>batches := put k ?t (batches b), written := written b @ [g]\<rparr>"
    using Cons.hyps(2) [symmetric] Cons.prems by (simp add: attempt_def)
  then have "map_of (batches ?b) k = Some ?t" by simp
  from Cons.hyps(1) [of ?t ?b, OF _ this] obtain evs where "added evs = []" and "like ?b (after opts evs ?b)"
    and "batches (after opts evs ?b) = del k (batches ?b)" and "inFlight (after opts evs ?b) = None" by auto
  with b show ?case by (intro exI [of _ "Written k # evs"]) (simp add: like_def)
qed

lemma batches_complete:
  assumes "\<forall>k. inFlight b = Some k \<longrightarrow> k \<in> fst ` set (batches b)"
  shows "\<exists>evs. added evs = [] \<and> like b (after opts evs b) \<and> batches (after opts evs b) = []
           \<and> inFlight (after opts evs b) = None"
  using assms
proof (induction "length (batches b)" arbitrary: b rule: less_induct)
  case less
  show ?case
  proof (cases "batches b")
    case Nil
    with less.prems have "inFlight b = None" by (cases "inFlight b") auto
    with Nil show ?thesis by (intro exI [of _ "[]"]) (simp add: like_def)
  next
    case (Cons e es)
    then have "map_of (batches b) (fst e) = Some (snd e)" by (cases e) simp
    from batch_completes [OF this, of opts] obtain evs where 1: "added evs = []" "like b (after opts evs b)"
      "batches (after opts evs b) = del (fst e) (batches b)" "inFlight (after opts evs b) = None" by blast
    have "length (del (fst e) (batches b)) < length (batches b)"
      using Cons by (simp add: del_def less_Suc_eq_le)
    with 1 less.hyps [of "after opts evs b"] obtain evs' where "added evs' = []"
      "like (after opts evs b) (after opts evs' (after opts evs b))" "batches (after opts evs' (after opts evs b)) = []"
      "inFlight (after opts evs' (after opts evs b)) = None" by auto
    with 1 show ?thesis by (intro exI [of _ "evs @ evs'"]) (simp add: after_append like_def)
  qed
qed

text \<open>With nothing under way and nothing buffered, every caller resolves.\<close>

lemma callers_resolve:
  assumes "batches b = []" and "rows b = []" and "wf_obj (waiting b)"
  shows "\<exists>evs. added evs = [] \<and> waiting (after opts evs b) = [] \<and> rows (after opts evs b) = []
           \<and> batches (after opts evs b) = [] \<and> lost (after opts evs b) = lost b"
  using assms
proof (induction "waiting b" arbitrary: b)
  case Nil
  then show ?case by (intro exI [of _ "[]"]) simp
next
  case (Cons e es)
  obtain c x where e: "e = (c, x)" by (cases e)
  have w: "waiting b = (c, x) # es" using Cons.hyps(2) e by simp
  then have "del c (waiting b) = es"
    using Cons.prems(3) by (auto simp: del_def filter_id_conv image_iff)
  then have r: "resume_caller c b = b\<lparr>waiting := es, resolved := c # resolved b\<rparr>"
    using Cons.prems w by (cases x) (simp_all add: resume_caller_def Let_def)
  with Cons.hyps(1) [of "resume_caller c b"] Cons.prems w obtain evs where "added evs = []"
    "waiting (after opts evs (resume_caller c b)) = []" "rows (after opts evs (resume_caller c b)) = []"
    "batches (after opts evs (resume_caller c b)) = []" "lost (after opts evs (resume_caller c b)) = lost b" by auto
  then show ?case by (intro exI [of _ "Resume c # evs"]) simp
qed


section \<open>A drain that returns early\<close>

text \<open>
  Two callers join the flush under way; when it ends, the first takes the rows added meanwhile and the
  second, finding none left, resolves while they are still being written. A read that forced this
  flush does not see the row added before it.
\<close>

lemma joined_flush_resolves_early:
  "let b = after APPEND_BUFFER_DEFAULTS
        [Add ''a'' (1 :: nat), Flush, Add ''a'' 2, Flush, Flush, Written 0, Finished 0, Resume 0, Resume 1, Resume 2]
        new_buffer
   in 2 \<in> set (resolved b) \<and> written b = [(''a'', [1])] \<and> lost b = []"
  by (simp add: Let_def add_def flush_def take_rows_def attempt_def finish_def resume_caller_def by_tenant_def
      add_to_group_def new_buffer_def del_def APPEND_BUFFER_DEFAULTS_def)

end
