(* ===== verification/EvolutionPolicy.thy ===== *)
theory EvolutionPolicy
  imports JsValue Repository
begin

text \<open>
  The limits an organization sets on its own evolution, \<open>src/backend/src/evolution/policy.service.ts\<close>:
  the policy with its defaults, the decision on a deployment candidate, the decision on an
  experiment, the approval rule and the deployment window.

  Times are milliseconds since the epoch. The policy table of the organization is what is stored for
  it, if anything; the counts of recent deployments and of running experiments are arguments.
\<close>

section \<open>The policy\<close>

datatype evolution_kind =
    PROMPT_OPTIMIZATION | MODEL_CHANGE | PROVIDER_CHANGE | TOOL_PERMISSION | MEMORY_STRATEGY
  | EXECUTION_LIMITS | WORKFLOW_STRUCTURE | WORKFLOW_PARALLELISM | WORKFLOW_SIMPLIFICATION
  | MISSION_TEMPLATE | PLANNING_STRATEGY

fun kind_name :: "evolution_kind \<Rightarrow> string" where
  "kind_name PROMPT_OPTIMIZATION = ''PROMPT_OPTIMIZATION''" | "kind_name MODEL_CHANGE = ''MODEL_CHANGE''"
| "kind_name PROVIDER_CHANGE = ''PROVIDER_CHANGE''" | "kind_name TOOL_PERMISSION = ''TOOL_PERMISSION''"
| "kind_name MEMORY_STRATEGY = ''MEMORY_STRATEGY''" | "kind_name EXECUTION_LIMITS = ''EXECUTION_LIMITS''"
| "kind_name WORKFLOW_STRUCTURE = ''WORKFLOW_STRUCTURE''" | "kind_name WORKFLOW_PARALLELISM = ''WORKFLOW_PARALLELISM''"
| "kind_name WORKFLOW_SIMPLIFICATION = ''WORKFLOW_SIMPLIFICATION''" | "kind_name MISSION_TEMPLATE = ''MISSION_TEMPLATE''"
| "kind_name PLANNING_STRATEGY = ''PLANNING_STRATEGY''"

datatype experiment_mode = SANDBOX | SHADOW | CANARY | AB

fun mode_name :: "experiment_mode \<Rightarrow> string" where
  "mode_name SANDBOX = ''SANDBOX''" | "mode_name SHADOW = ''SHADOW''" | "mode_name CANARY = ''CANARY''"
| "mode_name AB = ''AB''"

datatype risk_level = LOW | MEDIUM | HIGH | CRITICAL

definition RISK_ORDER :: "risk_level list" where
  "RISK_ORDER = [LOW, MEDIUM, HIGH, CRITICAL]"

text \<open>\<open>indexOf\<close>; every level is in the list.\<close>

fun index_of :: "'a \<Rightarrow> 'a list \<Rightarrow> int" where
  "index_of x [] = -1"
| "index_of x (y # ys) = (if x = y then 0 else let i = index_of x ys in if i = -1 then -1 else i + 1)"

record evolution_policy =
  enabled :: bool
  allowedKinds :: "evolution_kind list"
  requireApproval :: "evolution_kind list"
  allowedModes :: "experiment_mode list"
  autoApproveThreshold :: number
  maxUnattendedRisk :: risk_level
  minTrialsPerArm :: int
  maxConcurrentExperiments :: int
  maxDeploymentsPerDay :: int
  monitorWindowMinutes :: int
  autoRollbackThreshold :: number
  autoRollbackEnabled :: bool
  businessHoursStart :: "int option"
  businessHoursEnd :: "int option"
  businessDays :: "int list"

text \<open>\<open>DEFAULTS\<close>; the window columns take the defaults of the schema.\<close>

definition DEFAULTS :: evolution_policy where
  "DEFAULTS =
     \<lparr>enabled = True,
      allowedKinds = [PROMPT_OPTIMIZATION, EXECUTION_LIMITS, MEMORY_STRATEGY, MODEL_CHANGE, PROVIDER_CHANGE,
        PLANNING_STRATEGY],
      requireApproval = [PROVIDER_CHANGE, MODEL_CHANGE, TOOL_PERMISSION, WORKFLOW_STRUCTURE,
        WORKFLOW_PARALLELISM, WORKFLOW_SIMPLIFICATION, MISSION_TEMPLATE],
      allowedModes = [SANDBOX, SHADOW, CANARY],
      autoApproveThreshold = Fin (95 / 100),
      maxUnattendedRisk = LOW,
      minTrialsPerArm = 10,
      maxConcurrentExperiments = 3,
      maxDeploymentsPerDay = 5,
      monitorWindowMinutes = 60,
      autoRollbackThreshold = Fin (3 / 10),
      autoRollbackEnabled = True,
      businessHoursStart = None, businessHoursEnd = None, businessDays = []\<rparr>"

text \<open>\<open>get\<close>: the stored policy, or the defaults, which are stored by that.\<close>

definition get_policy :: "request_context option \<Rightarrow> evolution_policy option
    \<Rightarrow> (repo_error + evolution_policy) \<times> evolution_policy option" where
  "get_policy ctx st =
     (case tenant ctx of
        Inl e \<Rightarrow> (Inl e, st)
      | Inr org \<Rightarrow> (case st of Some p \<Rightarrow> (Inr p, st) | None \<Rightarrow> (Inr DEFAULTS, Some DEFAULTS)))"

text \<open>\<open>update\<close>; \<open>changes\<close> assigns the columns that are given.\<close>

definition update_policy :: "request_context option \<Rightarrow> (evolution_policy \<Rightarrow> evolution_policy)
    \<Rightarrow> evolution_policy option \<Rightarrow> (repo_error + evolution_policy) \<times> evolution_policy option" where
  "update_policy ctx changes st =
     (case get_policy ctx st of
        (Inl e, st1) \<Rightarrow> (Inl e, st1) | (Inr p, st1) \<Rightarrow> (Inr (changes p), Some (changes p)))"

section \<open>Pure rules\<close>

record candidate =
  c_kind :: evolution_kind
  c_risk :: risk_level
  c_confidence :: number

definition requiresApproval :: "evolution_policy \<Rightarrow> candidate \<Rightarrow> bool" where
  "requiresApproval p c =
     (if c_kind c \<in> set (requireApproval p) then True
      else if index_of (c_risk c) RISK_ORDER > index_of (maxUnattendedRisk p) RISK_ORDER then True
      else num_lt (c_confidence c) (autoApproveThreshold p))"

definition riskAtOrBelow :: "risk_level \<Rightarrow> risk_level \<Rightarrow> bool" where
  "riskAtOrBelow r limit \<longleftrightarrow> index_of r RISK_ORDER \<le> index_of limit RISK_ORDER"

definition utc_day :: "int \<Rightarrow> int" where
  "utc_day t = (t div 86400000 + 4) mod 7"

definition utc_hour :: "int \<Rightarrow> int" where
  "utc_hour t = (t div 3600000) mod 24"

definition inside_hours :: "int \<Rightarrow> int \<Rightarrow> int \<Rightarrow> bool" where
  "inside_hours start end hour =
     (if start \<le> end then hour \<ge> start \<and> hour < end else hour \<ge> start \<or> hour < end)"

text \<open>The en dash of the message is written with its Windows-1252 code.\<close>

definition withinWindow :: "evolution_policy \<Rightarrow> int \<Rightarrow> bool \<times> string option" where
  "withinWindow p t =
     (if businessDays p \<noteq> [] \<and> utc_day t \<notin> set (businessDays p)
      then (False, Some (''deployment is not permitted on day '' @ show_int (utc_day t) @ '' (UTC)''))
      else case (businessHoursStart p, businessHoursEnd p) of
          (Some start, Some end) \<Rightarrow>
            if inside_hours start end (utc_hour t) then (True, None)
            else (False, Some (''outside the deployment window ('' @ show_int start @ '':00'' @ [CHR 0x96]
                    @ show_int end @ '':00 UTC, now '' @ show_int (utc_hour t) @ '':00)''))
        | _ \<Rightarrow> (True, None))"

section \<open>Decisions\<close>

record policy_check =
  rule :: string
  passed :: bool
  detail :: "string option"

record policy_decision =
  satisfied :: bool
  reason :: "string option"
  needs_person :: bool
  checks :: "policy_check list"

definition decide :: "policy_check list \<Rightarrow> bool \<Rightarrow> policy_decision" where
  "decide cs person =
     (let failed = filter (\<lambda>c. \<not> passed c) cs in
      \<lparr>satisfied = (failed = []),
       reason = (if failed \<noteq> []
                 then Some (join ''; '' (map the (filter truthy (map detail failed)))) else None),
       needs_person = person, checks = cs\<rparr>)"

definition unless :: "bool \<Rightarrow> string \<Rightarrow> string option" where
  "unless ok text = (if ok then None else Some text)"

definition evaluate_policy :: "evolution_policy \<Rightarrow> candidate \<Rightarrow> int \<Rightarrow> int option \<Rightarrow> (int \<Rightarrow> int) \<Rightarrow> policy_decision" where
  "evaluate_policy p c t benchmarkTrials countSince =
     (let kindAllowed = (c_kind c \<in> set (allowedKinds p));
          inWindow = withinWindow p t;
          trials = (case benchmarkTrials of None \<Rightarrow> 0 | Some n \<Rightarrow> n);
          enough = (trials \<ge> minTrialsPerArm p);
          today = countSince (t - 86400000);
          underCap = (maxDeploymentsPerDay p = 0 \<or> today < maxDeploymentsPerDay p)
      in decide
         [\<lparr>rule = ''enabled'', passed = enabled p, detail = unless (enabled p) ''evolution deployment is switched off''\<rparr>,
          \<lparr>rule = ''allowed_kind'', passed = kindAllowed,
            detail = unless kindAllowed (kind_name (c_kind c) @ '' is not in this organization'' @ [CHR 0x27] @ ''s allowed kinds'')\<rparr>,
          \<lparr>rule = ''deployment_window'', passed = fst inWindow, detail = snd inWindow\<rparr>,
          \<lparr>rule = ''minimum_trials'', passed = enough,
            detail = unless enough (''only '' @ show_int trials @ '' trial(s) on the weaker arm; ''
              @ show_int (minTrialsPerArm p) @ '' required'')\<rparr>,
          \<lparr>rule = ''daily_cap'', passed = underCap,
            detail = unless underCap (show_int today @ '' deployment(s) in the last 24h; the cap is ''
              @ show_int (maxDeploymentsPerDay p))\<rparr>]
         (requiresApproval p c))"

definition evaluate :: "request_context option \<Rightarrow> candidate \<Rightarrow> int \<Rightarrow> int option \<Rightarrow> (int \<Rightarrow> int)
    \<Rightarrow> evolution_policy option \<Rightarrow> (repo_error + policy_decision) \<times> evolution_policy option" where
  "evaluate ctx c t benchmarkTrials countSince st =
     (case get_policy ctx st of
        (Inl e, st1) \<Rightarrow> (Inl e, st1)
      | (Inr p, st1) \<Rightarrow> (Inr (evaluate_policy p c t benchmarkTrials countSince), st1))"

definition canExperiment :: "request_context option \<Rightarrow> experiment_mode \<Rightarrow> int \<Rightarrow> evolution_policy option
    \<Rightarrow> (repo_error + policy_decision) \<times> evolution_policy option" where
  "canExperiment ctx mode running st =
     (case get_policy ctx st of
        (Inl e, st1) \<Rightarrow> (Inl e, st1)
      | (Inr p, st1) \<Rightarrow>
        let modeAllowed = (mode = SANDBOX \<or> mode \<in> set (allowedModes p));
            underCap = (running < maxConcurrentExperiments p)
        in (Inr (decide
              [\<lparr>rule = ''allowed_mode'', passed = modeAllowed,
                detail = unless modeAllowed (mode_name mode @ '' experiments are not permitted here'')\<rparr>,
               \<lparr>rule = ''concurrent_experiments'', passed = underCap,
                detail = unless underCap (show_int running @ '' experiment(s) already running; the cap is ''
                  @ show_int (maxConcurrentExperiments p))\<rparr>]
              False), st1))"

section \<open>The window on the clock\<close>

text \<open>The hours from \<open>start\<close> on, round the clock, up to and without \<open>end\<close>.\<close>

definition window_length :: "int \<Rightarrow> int \<Rightarrow> int" where
  "window_length start end = (if start \<le> end then end - start else 24 - (start - end))"

lemma inside_hours_circular:
  assumes "0 \<le> s" "s < 24" "0 \<le> e" "e \<le> 24" "0 \<le> h" "h < 24"
  shows "inside_hours s e h \<longleftrightarrow> (h - s) mod 24 < window_length s e"
proof (cases "s \<le> h")
  case True
  then have "(h - s) mod 24 = h - s" using assms by simp
  with True assms show ?thesis by (auto simp: inside_hours_def window_length_def)
next
  case False
  have "(h - s) mod 24 = (h - s + 24) mod 24" by simp
  also have "\<dots> = h - s + 24" using False assms by (intro mod_pos_pos_trivial) auto
  finally have "(h - s) mod 24 = h - s + 24" .
  with False assms show ?thesis by (auto simp: inside_hours_def window_length_def)
qed

lemma utc_hour_range: "0 \<le> utc_hour t" "utc_hour t < 24"
  by (simp_all add: utc_hour_def)

section \<open>What a decision says\<close>

lemma decide_satisfied: "satisfied (decide cs b) \<longleftrightarrow> (\<forall>c \<in> set cs. passed c)"
  by (auto simp: decide_def Let_def filter_empty_conv)

lemma join_not_Nil: "xs \<noteq> [] \<Longrightarrow> \<forall>x \<in> set xs. x \<noteq> [] \<Longrightarrow> join sep xs \<noteq> []"
  by (induction sep xs rule: join.induct) auto

text \<open>A refusal gives a reason that is not empty, which the constitution's policy law relies on.\<close>

lemma refusal_has_words: "reason (evaluate_policy p c t trials n) \<noteq> Some []"
proof -
  have w: "fst (withinWindow p t) \<or> truthy (snd (withinWindow p t))"
    by (auto simp: withinWindow_def split: option.split)
  have t: "truthy (unless ok x) \<longleftrightarrow> \<not> ok \<and> x \<noteq> []" for ok x by (simp add: unless_def)
  have words: "join ''; '' (map the (filter truthy (map detail cs))) \<noteq> []"
    if "cs \<noteq> []" "\<forall>c \<in> set cs. truthy (detail c)" for cs
  proof (rule join_not_Nil)
    have "filter truthy (map detail cs) = map detail cs" using that(2) by (simp add: filter_id_conv)
    then show "map the (filter truthy (map detail cs)) \<noteq> []" using that(1) by simp
    show "\<forall>x \<in> set (map the (filter truthy (map detail cs))). x \<noteq> []" by (auto elim!: truthy.elims dest: sym)
  qed
  have "\<forall>c \<in> set (filter (\<lambda>c. \<not> passed c) (checks (evaluate_policy p c t trials n))). truthy (detail c)"
    using w by (cases "fst (withinWindow p t)") (simp_all add: evaluate_policy_def decide_def Let_def t)
  moreover obtain cs b where "evaluate_policy p c t trials n = decide cs b"
    unfolding evaluate_policy_def Let_def by blast
  ultimately show ?thesis
    using words [of "filter (\<lambda>c. \<not> passed c) cs"] by (simp only: decide_def Let_def policy_decision.simps) simp
qed

definition window_open :: "evolution_policy \<Rightarrow> int \<Rightarrow> bool" where
  "window_open p t \<longleftrightarrow>
     (businessDays p = [] \<or> utc_day t \<in> set (businessDays p))
     \<and> (case (businessHoursStart p, businessHoursEnd p) of
          (Some s, Some e) \<Rightarrow> (utc_hour t - s) mod 24 < window_length s e
        | _ \<Rightarrow> True)"

definition hours_valid :: "evolution_policy \<Rightarrow> bool" where
  "hours_valid p \<longleftrightarrow> (\<forall>s. businessHoursStart p = Some s \<longrightarrow> 0 \<le> s \<and> s < 24)
     \<and> (\<forall>e. businessHoursEnd p = Some e \<longrightarrow> 0 \<le> e \<and> e \<le> 24)"

lemma withinWindow_iff: "hours_valid p \<Longrightarrow> fst (withinWindow p t) \<longleftrightarrow> window_open p t"
  by (auto simp: withinWindow_def window_open_def hours_valid_def inside_hours_circular utc_hour_range
      split: option.split)

text \<open>C39: The policy admits a candidate exactly when deployment is switched on, its kind is
  allowed, the time lies in the deployment window read on a 24-hour clock (so a window may wrap
  midnight, and one ending at 24 covers the last hour), the weaker arm has its trials, and the daily
  cap is not used up; in that case no reason is given, otherwise every failed rule contributes one.\<close>

theorem policy_admits_iff:
  assumes "tenant ctx = Inr org" and "hours_valid (case st of Some p \<Rightarrow> p | None \<Rightarrow> DEFAULTS)"
  shows "\<exists>d. fst (evaluate ctx c t trials countSince st) = Inr d
     \<and> (satisfied d \<longleftrightarrow>
          (let p = (case st of Some p \<Rightarrow> p | None \<Rightarrow> DEFAULTS) in
           enabled p \<and> c_kind c \<in> set (allowedKinds p) \<and> window_open p t
           \<and> (case trials of None \<Rightarrow> 0 | Some n \<Rightarrow> n) \<ge> minTrialsPerArm p
           \<and> (maxDeploymentsPerDay p = 0 \<or> countSince (t - 86400000) < maxDeploymentsPerDay p)))
     \<and> (reason d = None \<longleftrightarrow> satisfied d)
     \<and> length (checks d) = 5 \<and> list_all (\<lambda>k. (detail k = None) = passed k) (checks d)"
proof -
  define p where "p = (case st of Some p \<Rightarrow> p | None \<Rightarrow> DEFAULTS)"
  let ?d = "evaluate_policy p c t trials countSince"
  have e: "fst (evaluate ctx c t trials countSince st) = Inr ?d"
    using assms(1) by (simp add: evaluate_def get_policy_def p_def split: option.split)
  have w: "fst (withinWindow p t) \<longleftrightarrow> window_open p t" using assms(2) by (simp add: withinWindow_iff p_def)
  have dw: "(snd (withinWindow p t) = None) = fst (withinWindow p t)"
    by (auto simp: withinWindow_def split: option.split)
  have "satisfied ?d \<longleftrightarrow> enabled p \<and> c_kind c \<in> set (allowedKinds p) \<and> window_open p t
           \<and> (case trials of None \<Rightarrow> 0 | Some n \<Rightarrow> n) \<ge> minTrialsPerArm p
           \<and> (maxDeploymentsPerDay p = 0 \<or> countSince (t - 86400000) < maxDeploymentsPerDay p)"
    by (auto simp: evaluate_policy_def Let_def decide_satisfied w)
  moreover have "reason ?d = None \<longleftrightarrow> satisfied ?d"
    by (simp add: evaluate_policy_def decide_def Let_def)
  moreover have "length (checks ?d) = 5 \<and> list_all (\<lambda>k. (detail k = None) = passed k) (checks ?d)"
    by (simp add: evaluate_policy_def decide_def Let_def unless_def dw)
  ultimately show ?thesis using e by (simp add: p_def Let_def)
qed

definition small_change :: candidate where
  "small_change = \<lparr>c_kind = PROMPT_OPTIMIZATION, c_risk = LOW, c_confidence = Fin (97 / 100)\<rparr>"

lemma policy_admits_iff_witness:
  "\<exists>d. fst (evaluate (ctx_of ''a'') small_change 0 (Some 12) (\<lambda>_. 4) None) = Inr d \<and> satisfied d \<and> reason d = None"
proof -
  have "tenant (ctx_of ''a'') = Inr ''a''" by (simp add: ctx_of_def)
  from policy_admits_iff [OF this, of None small_change 0 "Some 12" "\<lambda>_. 4"]
  show ?thesis by (auto simp: hours_valid_def DEFAULTS_def window_open_def small_change_def)
qed

text \<open>What an organization that never configured evolution lets through without a person: under
  the default policy a candidate is admitted and needs no approval only if it is a prompt, limits,
  memory or planning change of low risk, with a confidence of at least 0.95 (or one that is not a number), ten trials on the weaker
  arm, and fewer than five deployments in the last day.\<close>

theorem default_policy_is_conservative:
  assumes "fst (evaluate ctx c t trials countSince None) = Inr d" and "satisfied d" and "\<not> needs_person d"
  shows "c_kind c \<in> {PROMPT_OPTIMIZATION, EXECUTION_LIMITS, MEMORY_STRATEGY, PLANNING_STRATEGY}
     \<and> c_risk c = LOW \<and> (num_le (Fin (95 / 100)) (c_confidence c) \<or> c_confidence c = NaN)
     \<and> (\<exists>n. trials = Some n \<and> 10 \<le> n) \<and> countSince (t - 86400000) < 5"
proof -
  from assms(1) have d: "d = evaluate_policy DEFAULTS c t trials countSince"
    by (auto simp: evaluate_def get_policy_def split: sum.splits)
  from assms(2) have a: "c_kind c \<in> set (allowedKinds DEFAULTS)"
    and tr: "(case trials of None \<Rightarrow> 0 | Some n \<Rightarrow> n) \<ge> 10" and n: "countSince (t - 86400000) < 5"
    unfolding d by (simp_all add: evaluate_policy_def Let_def decide_satisfied DEFAULTS_def)
  from assms(3) have r: "\<not> requiresApproval DEFAULTS c"
    unfolding d by (simp add: evaluate_policy_def Let_def decide_def)
  then have k: "c_kind c \<notin> set (requireApproval DEFAULTS)"
    and risk: "\<not> index_of (c_risk c) RISK_ORDER > index_of (maxUnattendedRisk DEFAULTS) RISK_ORDER"
    and conf: "\<not> num_lt (c_confidence c) (autoApproveThreshold DEFAULTS)"
    by (auto simp: requiresApproval_def split: if_splits)
  from a k have "c_kind c \<in> {PROMPT_OPTIMIZATION, EXECUTION_LIMITS, MEMORY_STRATEGY, PLANNING_STRATEGY}"
    by (cases "c_kind c") (simp_all add: DEFAULTS_def)
  moreover from risk have "c_risk c = LOW"
    by (cases "c_risk c") (simp_all add: DEFAULTS_def RISK_ORDER_def Let_def)
  moreover from conf have "num_le (Fin (95 / 100)) (c_confidence c) \<or> c_confidence c = NaN"
    by (cases "c_confidence c") (auto simp: DEFAULTS_def num_lt_def)
  ultimately show ?thesis using tr n by (cases trials) auto
qed

lemma default_policy_is_conservative_witness:
  "(\<exists>d. fst (evaluate (ctx_of ''a'') small_change 0 (Some 12) (\<lambda>_. 4) None) = Inr d \<and> satisfied d \<and> \<not> needs_person d)
   \<and> c_risk small_change = LOW"
proof -
  have e: "fst (evaluate (ctx_of ''a'') small_change 0 (Some 12) (\<lambda>_. 4) None)
      = Inr (evaluate_policy DEFAULTS small_change 0 (Some 12) (\<lambda>_. 4))"
    by (simp add: evaluate_def get_policy_def ctx_of_def)
  have s: "satisfied (evaluate_policy DEFAULTS small_change 0 (Some 12) (\<lambda>_. 4))" by code_simp
  have n: "\<not> needs_person (evaluate_policy DEFAULTS small_change 0 (Some 12) (\<lambda>_. 4))" by code_simp
  from default_policy_is_conservative [OF e s n] e s n show ?thesis by auto
qed

end
