(* ===== verification/StateError.thy ===== *)
theory StateError
  imports Simulation
begin

text \<open>
  Handlers that may throw and that change a state as they go: a computation takes the state and
  yields an error or a value, and the state it leaves either way. An error ends the handler and
  keeps what was written before it, as an exception of the sources does.
\<close>

type_synonym ('s, 'e, 'a) comp = "'s \<Rightarrow> ('e + 'a) \<times> 's"

definition bindS :: "('s, 'e, 'a) comp \<Rightarrow> ('a \<Rightarrow> ('s, 'e, 'b) comp) \<Rightarrow> ('s, 'e, 'b) comp" where
  "bindS m k s = (case m s of (Inl e, s1) \<Rightarrow> (Inl e, s1) | (Inr a, s1) \<Rightarrow> k a s1)"

definition doneS :: "'a \<Rightarrow> ('s, 'e, 'a) comp" where
  "doneS a s = (Inr a, s)"

definition throwS :: "'e \<Rightarrow> ('s, 'e, 'a) comp" where
  "throwS e s = (Inl e, s)"

text \<open>A read that leaves the state alone, and a write that cannot fail.\<close>

definition readS :: "('s \<Rightarrow> 'e + 'a) \<Rightarrow> ('s, 'e, 'a) comp" where
  "readS f s = (f s, s)"

definition changeS :: "('s \<Rightarrow> 's) \<Rightarrow> ('s, 'e, unit) comp" where
  "changeS f s = (Inr (), f s)"

text \<open>\<open>try { m } catch (e) { h e }\<close>.\<close>

definition catchS :: "('s, 'e, 'a) comp \<Rightarrow> ('e \<Rightarrow> ('s, 'e, 'a) comp) \<Rightarrow> ('s, 'e, 'a) comp" where
  "catchS m h s = (case m s of (Inl e, s1) \<Rightarrow> h e s1 | (Inr a, s1) \<Rightarrow> (Inr a, s1))"

text \<open>\<open>for (const x of xs) \<dots>\<close>.\<close>

fun eachS :: "('x \<Rightarrow> ('s, 'e, unit) comp) \<Rightarrow> 'x list \<Rightarrow> ('s, 'e, unit) comp" where
  "eachS f [] = doneS ()"
| "eachS f (x # xs) = bindS (f x) (\<lambda>_. eachS f xs)"

fun mapS :: "('x \<Rightarrow> ('s, 'e, 'y) comp) \<Rightarrow> 'x list \<Rightarrow> ('s, 'e, 'y list) comp" where
  "mapS f [] = doneS []"
| "mapS f (x # xs) = bindS (f x) (\<lambda>y. bindS (mapS f xs) (\<lambda>ys. doneS (y # ys)))"

section \<open>Evaluation\<close>

named_theorems comp_simps \<open>evaluation of computations\<close>

lemma comp_eval [comp_simps]:
  "doneS a s = (Inr a, s)" "throwS e s = (Inl e, s)" "readS f s = (f s, s)" "changeS g s = (Inr (), g s)"
  by (simp_all add: doneS_def throwS_def readS_def changeS_def)

lemma bindS_Inl: "m s = (Inl e, s1) \<Longrightarrow> bindS m k s = (Inl e, s1)"
  by (simp add: bindS_def)

lemma bindS_Inr: "m s = (Inr a, s1) \<Longrightarrow> bindS m k s = k a s1"
  by (simp add: bindS_def)

lemma bindS_InrE:
  assumes "bindS m k s = (Inr b, s2)"
  obtains a s1 where "m s = (Inr a, s1)" "k a s1 = (Inr b, s2)"
  using assms by (cases "m s"; cases "fst (m s)") (auto simp: bindS_def)

lemma bindS_cases:
  assumes "bindS m k s = (r, s2)"
  obtains (stop) e where "m s = (Inl e, s2)" "r = Inl e"
    | (go) a s1 where "m s = (Inr a, s1)" "k a s1 = (r, s2)"
  using assms by (cases "m s"; cases "fst (m s)") (auto simp: bindS_def)

lemma bind_comp_eval [comp_simps]:
  "bindS (doneS a) k s = k a s" "bindS (throwS e) k s = (Inl e, s)" "bindS (changeS g) k s = k () (g s)"
  by (simp_all add: bindS_def comp_eval)

lemma bind_readS_Inr: "f s = Inr a \<Longrightarrow> bindS (readS f) k s = k a s"
  by (simp add: bindS_def readS_def)

lemma bind_readS_Inl: "f s = Inl e \<Longrightarrow> bindS (readS f) k s = (Inl e, s)"
  by (simp add: bindS_def readS_def)

section \<open>What a computation leaves alone, and what it keeps\<close>

text \<open>\<open>leaves f m\<close>: the part \<open>f\<close> of the state is the same after \<open>m\<close>. \<open>keeps I m\<close>: \<open>I\<close> is an invariant of \<open>m\<close>.\<close>

definition leaves :: "('s \<Rightarrow> 'p) \<Rightarrow> ('s, 'e, 'a) comp \<Rightarrow> bool" where
  "leaves f m \<longleftrightarrow> (\<forall>s. f (snd (m s)) = f s)"

definition keeps :: "('s \<Rightarrow> bool) \<Rightarrow> ('s, 'e, 'a) comp \<Rightarrow> bool" where
  "keeps I m \<longleftrightarrow> (\<forall>s. I s \<longrightarrow> I (snd (m s)))"

named_theorems leaves_intros \<open>parts of the state that computations leave alone\<close>
named_theorems keeps_intros \<open>invariants of computations\<close>

lemma leavesD: "leaves f m \<Longrightarrow> m s = (r, s1) \<Longrightarrow> f s1 = f s"
  by (metis leaves_def snd_conv)

lemma keepsD: "keeps I m \<Longrightarrow> I s \<Longrightarrow> m s = (r, s1) \<Longrightarrow> I s1"
  by (metis keeps_def snd_conv)

lemma leaves_basic [leaves_intros]:
  "leaves f (doneS a)" "leaves f (throwS e)" "leaves f (readS g)"
  by (simp_all add: leaves_def comp_eval)

lemma leaves_change [leaves_intros]: "(\<And>s. f (g s) = f s) \<Longrightarrow> leaves f (changeS g)"
  by (simp add: leaves_def comp_eval)

lemma leaves_bind [leaves_intros]: "leaves f m \<Longrightarrow> (\<And>a. leaves f (k a)) \<Longrightarrow> leaves f (bindS m k)"
  unfolding leaves_def bindS_def by (auto split: prod.split sum.split) (metis snd_conv)+

lemma bindS_then_leaves:
  assumes "bindS m k s = (r, s')" and "m s = (x, s1)" and "\<And>a. leaves f (k a)"
  shows "f s' = f s1"
  using assms by (cases x) (auto simp: bindS_def dest: leavesD)

lemma leaves_catch [leaves_intros]: "leaves f m \<Longrightarrow> (\<And>e. leaves f (h e)) \<Longrightarrow> leaves f (catchS m h)"
  unfolding leaves_def catchS_def by (auto split: prod.split sum.split) (metis snd_conv)+

lemma leaves_each [leaves_intros]: "(\<And>x. leaves f (g x)) \<Longrightarrow> leaves f (eachS g xs)"
  by (induction xs) (auto intro: leaves_intros)

lemma leaves_map [leaves_intros]: "(\<And>x. leaves f (g x)) \<Longrightarrow> leaves f (mapS g xs)"
  by (induction xs) (auto intro: leaves_intros)

lemma leaves_if [leaves_intros]: "(b \<Longrightarrow> leaves f m) \<Longrightarrow> (\<not> b \<Longrightarrow> leaves f n) \<Longrightarrow> leaves f (if b then m else n)"
  by simp

lemma keeps_basic [keeps_intros]:
  "keeps I (doneS a)" "keeps I (throwS e)" "keeps I (readS g)"
  by (simp_all add: keeps_def comp_eval)

lemma keeps_change [keeps_intros]: "(\<And>s. I s \<Longrightarrow> I (g s)) \<Longrightarrow> keeps I (changeS g)"
  by (simp add: keeps_def comp_eval)

lemma keeps_bind [keeps_intros]: "keeps I m \<Longrightarrow> (\<And>a. keeps I (k a)) \<Longrightarrow> keeps I (bindS m k)"
  unfolding keeps_def bindS_def by (force split: prod.split sum.split)

lemma keeps_catch [keeps_intros]: "keeps I m \<Longrightarrow> (\<And>e. keeps I (h e)) \<Longrightarrow> keeps I (catchS m h)"
  unfolding keeps_def catchS_def by (force split: prod.split sum.split)

lemma keeps_each [keeps_intros]: "(\<And>x. keeps I (g x)) \<Longrightarrow> keeps I (eachS g xs)"
  by (induction xs) (auto intro: keeps_intros)

lemma keeps_map [keeps_intros]: "(\<And>x. keeps I (g x)) \<Longrightarrow> keeps I (mapS g xs)"
  by (induction xs) (auto intro: keeps_intros)

lemma keeps_if [keeps_intros]: "(b \<Longrightarrow> keeps I m) \<Longrightarrow> (\<not> b \<Longrightarrow> keeps I n) \<Longrightarrow> keeps I (if b then m else n)"
  by simp

text \<open>A part of the state that is left alone carries every invariant stated on it.\<close>

lemma keeps_of_leaves: "leaves f m \<Longrightarrow> keeps (\<lambda>s. P (f s)) m"
  by (simp add: leaves_def keeps_def)

text \<open>\<open>only_by f w m\<close>: whatever \<open>m\<close> does to the part \<open>f\<close>, it does in one run of \<open>w\<close>.\<close>

definition only_by :: "('s \<Rightarrow> 'p) \<Rightarrow> ('s, 'e, 'b) comp \<Rightarrow> ('s, 'e, 'a) comp \<Rightarrow> bool" where
  "only_by f w m \<longleftrightarrow>
     (\<forall>s. f (snd (m s)) = f s \<or> (\<exists>s1. f s1 = f s \<and> f (snd (m s)) = f (snd (w s1))))"

lemma only_by_self: "only_by f w w"
  by (auto simp: only_by_def)

lemma only_by_leaves: "leaves f m \<Longrightarrow> only_by f w m"
  by (simp add: only_by_def leaves_def)

lemma only_by_after:
  assumes "leaves f m" and "\<And>a. only_by f w (k a)"
  shows "only_by f w (bindS m k)"
  unfolding only_by_def
proof
  fix s
  obtain r s1 where m: "m s = (r, s1)" by (cases "m s")
  with assms(1) have s1: "f s1 = f s" by (rule leavesD)
  show "f (snd (bindS m k s)) = f s \<or> (\<exists>s1. f s1 = f s \<and> f (snd (bindS m k s)) = f (snd (w s1)))"
  proof (cases r)
    case (Inl e)
    with m s1 show ?thesis by (simp add: bindS_def)
  next
    case (Inr a)
    from assms(2) [of a] have "f (snd (k a s1)) = f s1 \<or> (\<exists>s2. f s2 = f s1 \<and> f (snd (k a s1)) = f (snd (w s2)))"
      by (simp add: only_by_def)
    with m s1 Inr show ?thesis by (simp add: bindS_def)
  qed
qed

lemma only_by_before:
  assumes "only_by f w m" and "\<And>a. leaves f (k a)"
  shows "only_by f w (bindS m k)"
proof -
  have "f (snd (bindS m k s)) = f (snd (m s))" for s
    using assms(2) by (auto simp: bindS_def leaves_def split: prod.split sum.split)
  with assms(1) show ?thesis by (simp add: only_by_def)
qed

lemma only_by_catch:
  assumes "only_by f w m" and "\<And>e. leaves f (h e)"
  shows "only_by f w (catchS m h)"
proof -
  have "f (snd (catchS m h s)) = f (snd (m s))" for s
    using assms(2) by (auto simp: catchS_def leaves_def split: prod.split sum.split)
  with assms(1) show ?thesis by (simp add: only_by_def)
qed

section \<open>Triples\<close>

text \<open>
  \<open>runs P m Q E\<close>: started in a state with \<open>P\<close>, \<open>m\<close> ends with \<open>Q\<close> of its value and the state, or throws
  and leaves a state with \<open>E\<close>.
\<close>

definition runs :: "('s \<Rightarrow> bool) \<Rightarrow> ('s, 'e, 'a) comp \<Rightarrow> ('a \<Rightarrow> 's \<Rightarrow> bool) \<Rightarrow> ('s \<Rightarrow> bool) \<Rightarrow> bool" where
  "runs P m Q E \<longleftrightarrow>
     (\<forall>s a s1. P s \<longrightarrow> m s = (Inr a, s1) \<longrightarrow> Q a s1) \<and> (\<forall>s e s1. P s \<longrightarrow> m s = (Inl e, s1) \<longrightarrow> E s1)"

lemma runsI:
  "(\<And>s a s1. P s \<Longrightarrow> m s = (Inr a, s1) \<Longrightarrow> Q a s1) \<Longrightarrow> (\<And>s e s1. P s \<Longrightarrow> m s = (Inl e, s1) \<Longrightarrow> E s1) \<Longrightarrow> runs P m Q E"
  by (simp add: runs_def)

lemma runsD: "runs P m Q E \<Longrightarrow> P s \<Longrightarrow> m s = (Inr a, s1) \<Longrightarrow> Q a s1"
  and runs_errorD: "runs P m Q E \<Longrightarrow> P s \<Longrightarrow> m s = (Inl e, s1) \<Longrightarrow> E s1"
  by (simp_all add: runs_def)

lemma runs_bind:
  assumes m: "runs P m R E" and k: "\<And>a. runs (R a) (k a) Q E"
  shows "runs P (bindS m k) Q E"
proof -
  have "case r of Inl e \<Rightarrow> E s1 | Inr a \<Rightarrow> Q a s1" if "P s" "bindS m k s = (r, s1)" for s r s1
    using that(2)
  proof (cases rule: bindS_cases)
    case (stop e)
    with m that(1) show ?thesis by (auto dest: runs_errorD)
  next
    case (go a s2)
    from runsD [OF m that(1) go(1)] k [of a] go(2) show ?thesis
      by (cases r) (auto dest: runsD runs_errorD)
  qed
  then show ?thesis by (fastforce intro: runsI)
qed

lemma runs_catch:
  assumes m: "runs P m Q F" and h: "\<And>e. runs F (h e) Q E"
  shows "runs P (catchS m h) Q E"
proof -
  have "case r of Inl e \<Rightarrow> E s1 | Inr a \<Rightarrow> Q a s1" if "P s" "catchS m h s = (r, s1)" for s r s1
  proof (cases "m s")
    case (Pair r2 s2)
    show ?thesis
    proof (cases r2)
      case (Inl e)
      with Pair that(2) have "h e s2 = (r, s1)" by (simp add: catchS_def)
      with runs_errorD [OF m that(1)] Pair Inl h [of e] show ?thesis by (cases r) (auto dest: runsD runs_errorD)
    next
      case (Inr a)
      with Pair that m show ?thesis by (auto simp: catchS_def dest: runsD)
    qed
  qed
  then show ?thesis by (fastforce intro: runsI)
qed

lemma runs_done: "(\<And>s. P s \<Longrightarrow> Q a s) \<Longrightarrow> runs P (doneS a) Q E"
  and runs_throw: "(\<And>s. P s \<Longrightarrow> E s) \<Longrightarrow> runs P (throwS e) Q E"
  and runs_change: "(\<And>s. P s \<Longrightarrow> R () (g s)) \<Longrightarrow> runs P (changeS g) R E"
  by (auto simp: runs_def comp_eval)

lemma runs_read: "(\<And>s a. P s \<Longrightarrow> f s = Inr a \<Longrightarrow> Q a s) \<Longrightarrow> (\<And>s. P s \<Longrightarrow> E s) \<Longrightarrow> runs P (readS f) Q E"
  by (auto simp: runs_def comp_eval)

lemma runs_if: "(b \<Longrightarrow> runs P m Q E) \<Longrightarrow> (\<not> b \<Longrightarrow> runs P n Q E) \<Longrightarrow> runs P (if b then m else n) Q E"
  by simp

lemma runs_each:
  assumes "\<And>x. x \<in> set xs \<Longrightarrow> runs P (g x) (\<lambda>_. P) E"
  shows "runs P (eachS g xs) (\<lambda>_. P) E"
  using assms
proof (induction xs)
  case Nil
  show ?case by (simp add: runs_done)
next
  case (Cons x xs)
  have first: "runs P (g x) (\<lambda>_. P) E" by (rule Cons.prems) simp
  have rest: "runs P (eachS g xs) (\<lambda>_. P) E" by (rule Cons.IH, rule Cons.prems) simp
  show ?case unfolding eachS.simps by (rule runs_bind [OF first]) (rule rest)
qed

lemma runs_weaken:
  assumes "runs P m Q E" and "\<And>s. P' s \<Longrightarrow> P s" and "\<And>a s. Q a s \<Longrightarrow> Q' a s" and "\<And>s. E s \<Longrightarrow> E' s"
  shows "runs P' m Q' E'"
proof (rule runsI)
  fix s a s1 assume "P' s" "m s = (Inr a, s1)"
  then show "Q' a s1" using assms(2,3) runsD [OF assms(1)] by blast
next
  fix s e s1 assume "P' s" "m s = (Inl e, s1)"
  then show "E' s1" using assms(2,4) runs_errorD [OF assms(1)] by blast
qed

lemma keeps_iff_runs: "keeps I m \<longleftrightarrow> runs I m (\<lambda>_. I) I"
proof
  assume "keeps I m"
  then show "runs I m (\<lambda>_. I) I" by (auto intro: runsI dest: keepsD)
next
  assume "runs I m (\<lambda>_. I) I"
  then show "keeps I m" unfolding keeps_def
    by (intro allI impI) (case_tac "m s"; case_tac "fst (m s)"; auto dest: runsD runs_errorD)
qed

end
