(* ===== verification/Versions.thy ===== *)
theory Versions
  imports Constitution EvolutionPolicy WorkflowData StateError "HOL-Library.Sublist"
begin

text \<open>
  The version history of everything that can evolve, \<open>src/backend/src/evolution/version.service.ts\<close>,
  with \<open>EntityVersionRepository\<close> of \<open>src/backend/src/database/repositories/evolution.repositories.ts\<close>:
  capturing a version, activating it, the baseline, the reads, and the live values of a subject.

  The state holds the tables of the subjects and the table of versions. A subject row is the object
  of its columns; \<open>id\<close>, \<open>organizationId\<close> and \<open>deletedAt\<close> are kept apart, and a date is the number
  of its milliseconds. The clock is read once per operation. Parameters: the supply of ids, what the
  database objects to in an update, the reading of a date from a string, and the texts of functions.
\<close>

section \<open>Data\<close>

datatype version_aspect = PROMPT | MODEL | TOOLS | MEMORY | LIMITS | GRAPH | STRATEGY

datatype version_origin = MANUAL | CANDIDATE | ROLLBACK | IMPORT

record version_data =
  v_subject :: subject
  v_subjectId :: string
  v_aspect :: version_aspect
  v_number :: nat
  v_payload :: obj
  v_previous :: obj
  v_label :: "string option"
  v_notes :: "string option"
  v_origin :: version_origin
  v_candidate :: "string option"
  v_benchmark :: "string option"
  v_active :: bool
  v_activated :: "int option"
  v_superseded :: "int option"
  v_creator :: "string option"
  v_created :: int

datatype evolution_event =
    EvolutionVersionCreated string subject string version_aspect nat
  | EvolutionVersionActivated string subject string version_aspect nat
  | EvolutionDeployed string string subject string evolution_kind string
  | EvolutionRolledBack string subject string string bool
  | ConstitutionViolated string "string option" string string
  | EvolutionDeploymentRefused string string "string list"
  | EvolutionDeploymentSettled string nat number

record subjects =
  workers :: "obj table"
  workflows :: "obj table"
  providers :: "obj table"
  graphs :: "json table"
  versions :: "version_data table"
  issued :: nat
  bus :: "evolution_event list"

datatype evolution_error = Repo repo_error | BadRequest string | Database string

text \<open>
  \<open>write_fault\<close> is what the database says against an update of a row of the subject's table by the
  given data: an unknown column, a value of the wrong type, a constraint of that table; \<open>enum_fault\<close>
  what it says against a value that is not one of an enum, \<open>unique_fault\<close> against a second row in a slot
  that must be unique.
\<close>

record evolution_env =
  cuid :: "nat \<Rightarrow> string"
  write_fault :: "subject \<Rightarrow> string \<Rightarrow> obj \<Rightarrow> obj table \<Rightarrow> string option"
  unique_fault :: "string \<Rightarrow> string"
  date_of :: "string \<Rightarrow> int"
  member_text :: "string \<Rightarrow> string"
  enum_fault :: "string \<Rightarrow> string"
  sha256 :: "string \<Rightarrow> string"
  value_text :: "json \<Rightarrow> string"

definition WORKERS :: model where "WORKERS = \<lparr>modelName = ''worker'', softDeletes = True\<rparr>"
definition WORKFLOWS :: model where "WORKFLOWS = \<lparr>modelName = ''workflow'', softDeletes = True\<rparr>"
definition PROVIDERS :: model where "PROVIDERS = \<lparr>modelName = ''provider'', softDeletes = True\<rparr>"
definition GRAPHS :: model where "GRAPHS = \<lparr>modelName = ''workflowVersion'', softDeletes = False\<rparr>"
definition VERSIONS :: model where "VERSIONS = \<lparr>modelName = ''entityVersion'', softDeletes = False\<rparr>"

section \<open>Columns of a subject\<close>

definition field_of :: "obj row \<Rightarrow> string \<Rightarrow> json" where
  "field_of r f =
     (if f = ''id'' then JStr (row_id r)
      else if f = ''organizationId'' then JStr (row_org r)
      else if f = ''deletedAt''
      then (case row_deleted r of None \<Rightarrow> Null | Some t \<Rightarrow> JNum (Fin (of_int t)))
      else getp f (contents r))"

text \<open>The columns an update assigns; \<open>undefined\<close> leaves a column as it is.\<close>

definition assign_field :: "evolution_env \<Rightarrow> string \<times> json \<Rightarrow> obj row \<Rightarrow> obj row" where
  "assign_field env e r =
     (case e of (f, v) \<Rightarrow>
        if v = Undef then r
        else if f = ''id'' then (case v of JStr s \<Rightarrow> r\<lparr>row_id := s\<rparr> | _ \<Rightarrow> r)
        else if f = ''organizationId'' then (case v of JStr s \<Rightarrow> r\<lparr>row_org := s\<rparr> | _ \<Rightarrow> r)
        else if f = ''deletedAt''
        then (case v of
                Null \<Rightarrow> r\<lparr>row_deleted := None\<rparr>
              | JStr s \<Rightarrow> r\<lparr>row_deleted := Some (date_of env s)\<rparr>
              | JNum (Fin x) \<Rightarrow> r\<lparr>row_deleted := Some (floor x)\<rparr>
              | _ \<Rightarrow> r)
        else r\<lparr>contents := put f v (contents r)\<rparr>)"

definition assign_fields :: "evolution_env \<Rightarrow> obj \<Rightarrow> obj row \<Rightarrow> obj row" where
  "assign_fields env ch r = fold (assign_field env) ch r"

section \<open>The repository\<close>

definition lift_repo :: "repo_error + 'a \<Rightarrow> evolution_error + 'a" where
  "lift_repo x = (case x of Inl e \<Rightarrow> Inl (Repo e) | Inr a \<Rightarrow> Inr a)"

definition of_lineage :: "subject \<Rightarrow> string \<Rightarrow> version_aspect \<Rightarrow> version_data conditions" where
  "of_lineage sub i a =
     [(''subject'', \<lambda>r. v_subject (contents r) = sub), (''subjectId'', \<lambda>r. v_subjectId (contents r) = i),
      (''aspect'', \<lambda>r. v_aspect (contents r) = a)]"

definition number_of :: "version_data row \<Rightarrow> nat" where
  "number_of r = v_number (contents r)"

definition newest_number :: "version_data row \<Rightarrow> version_data row \<Rightarrow> int" where
  "newest_number r r' = ord3 (number_of r') (number_of r)"

definition lineage :: "request_context option \<Rightarrow> subject \<Rightarrow> string \<Rightarrow> version_aspect \<Rightarrow> 's subjects_scheme
    \<Rightarrow> evolution_error + version_data row list" where
  "lineage ctx sub i a s =
     lift_repo (findMany VERSIONS ctx (of_lineage sub i a) (no_options\<lparr>orderBy := Some newest_number\<rparr>) (versions s))"

definition findActive :: "request_context option \<Rightarrow> subject \<Rightarrow> string \<Rightarrow> version_aspect \<Rightarrow> 's subjects_scheme
    \<Rightarrow> evolution_error + version_data row option" where
  "findActive ctx sub i a s =
     lift_repo (bindE (tenant ctx) (\<lambda>org. Inr (find_first
       (scope VERSIONS org False (of_lineage sub i a @ [(''isActive'', \<lambda>r. v_active (contents r))])) (versions s))))"

definition nextVersion :: "request_context option \<Rightarrow> subject \<Rightarrow> string \<Rightarrow> version_aspect \<Rightarrow> 's subjects_scheme
    \<Rightarrow> evolution_error + nat" where
  "nextVersion ctx sub i a s =
     lift_repo (bindE (tenant ctx) (\<lambda>org.
       case select_rows (scope VERSIONS org False (of_lineage sub i a))
              (no_options\<lparr>orderBy := Some newest_number\<rparr>) (versions s) of
         [] \<Rightarrow> Inr 1 | latest # _ \<Rightarrow> Inr (number_of latest + 1)))"

definition newest_created :: "version_data row \<Rightarrow> version_data row \<Rightarrow> int" where
  "newest_created r r' = ord3 (v_created (contents r')) (v_created (contents r))"

definition aspectsFor :: "request_context option \<Rightarrow> subject \<Rightarrow> string \<Rightarrow> 's subjects_scheme
    \<Rightarrow> evolution_error + version_data row list" where
  "aspectsFor ctx sub i s =
     lift_repo (findMany VERSIONS ctx
       [(''subject'', \<lambda>r. v_subject (contents r) = sub), (''subjectId'', \<lambda>r. v_subjectId (contents r) = i)]
       (no_options\<lparr>orderBy := Some newest_created, take_at_most := Some 200\<rparr>) (versions s))"

text \<open>The transaction of \<open>activate\<close>: the first update goes by lineage, the second by id alone.\<close>

definition deactivate :: "int \<Rightarrow> version_data row \<Rightarrow> version_data row" where
  "deactivate now r = r\<lparr>contents := (contents r)\<lparr>v_active := False, v_superseded := Some now\<rparr>\<rparr>"

definition make_active :: "int \<Rightarrow> version_data row \<Rightarrow> version_data row" where
  "make_active now r =
     r\<lparr>contents := (contents r)\<lparr>v_active := True, v_activated := Some now, v_superseded := None\<rparr>\<rparr>"

definition active_in :: "string \<Rightarrow> version_data row \<Rightarrow> version_data conditions" where
  "active_in org target =
     (''organizationId'', \<lambda>r. row_org r = org)
     # of_lineage (v_subject (contents target)) (v_subjectId (contents target)) (v_aspect (contents target))
     @ [(''isActive'', \<lambda>r. v_active (contents r))]"

definition activate_in :: "string \<Rightarrow> version_data row \<Rightarrow> int \<Rightarrow> version_data table \<Rightarrow> version_data table" where
  "activate_in org target now t =
     map (\<lambda>r. if row_id r = row_id target then make_active now r else r)
       (snd (update_many (active_in org target) (deactivate now) t))"

definition activate_row :: "request_context option \<Rightarrow> int \<Rightarrow> string
    \<Rightarrow> ('s subjects_scheme, evolution_error, version_data row) comp" where
  "activate_row ctx now i s =
     (case bindE (tenant ctx) (\<lambda>org.
             bindE (findByIdOrFail VERSIONS ctx i no_options (versions s)) (\<lambda>target. Inr (org, target))) of
        Inl e \<Rightarrow> (Inl (Repo e), s)
      | Inr (org, target) \<Rightarrow>
          let t = activate_in org target now (versions s)
          in (case find_first (by_id i) t of
                None \<Rightarrow> (Inl (Repo (not_found VERSIONS i)), s)
              | Some r \<Rightarrow> (Inr r, s\<lparr>versions := t\<rparr>)))"

section \<open>The service\<close>

definition publish :: "evolution_event \<Rightarrow> ('s subjects_scheme, evolution_error, unit) comp" where
  "publish e = changeS (\<lambda>s. s\<lparr>bus := bus s @ [e]\<rparr>)"

definition WORKER_ASPECTS :: "(string \<times> version_aspect) list" where
  "WORKER_ASPECTS =
     [(''systemPrompt'', PROMPT), (''defaultModel'', MODEL), (''providerId'', MODEL), (''temperature'', MODEL),
      (''toolPermissions'', TOOLS), (''maxIterations'', LIMITS), (''maxTokens'', LIMITS), (''timeoutMs'', LIMITS),
      (''costLimitUsd'', LIMITS), (''allowFailover'', LIMITS), (''nodeRequirements'', LIMITS),
      (''preferredNodeId'', LIMITS)]"

fun aspect_name :: "version_aspect \<Rightarrow> string" where
  "aspect_name PROMPT = ''PROMPT''" | "aspect_name MODEL = ''MODEL''" | "aspect_name TOOLS = ''TOOLS''"
| "aspect_name MEMORY = ''MEMORY''" | "aspect_name LIMITS = ''LIMITS''" | "aspect_name GRAPH = ''GRAPH''"
| "aspect_name STRATEGY = ''STRATEGY''"

text \<open>
  \<open>WORKER_ASPECTS[field]\<close>: an aspect, or one of the members every object inherits, which is truthy
  too.
\<close>

datatype aspect_value = Aspect version_aspect | Inherited string

definition aspect_of_field :: "string \<Rightarrow> aspect_value option" where
  "aspect_of_field f =
     (case map_of WORKER_ASPECTS f of
        Some a \<Rightarrow> Some (Aspect a)
      | None \<Rightarrow> if f \<in> set OBJECT_PROTOTYPE then Some (Inherited f) else None)"

fun aspect_text :: "evolution_env \<Rightarrow> aspect_value \<Rightarrow> string" where
  "aspect_text env (Aspect a) = aspect_name a"
| "aspect_text env (Inherited f) = member_text env f"

definition aspectForChange :: "evolution_env \<Rightarrow> subject \<Rightarrow> obj \<Rightarrow> evolution_error + aspect_value" where
  "aspectForChange env sub ch =
     (if sub = WORKFLOW then Inr (Aspect GRAPH)
      else if sub = PLANNING then Inr (Aspect STRATEGY)
      else
        let aspects = dedup (List.map_filter aspect_of_field (keys ch)) in
        if aspects = [] then Inl (BadRequest (''None of ['' @ join '', '' (keys ch) @ ''] is a versioned field''))
        else if length aspects > 1
        then Inl (BadRequest (''A change must belong to one aspect; this spans ''
               @ join '', '' (map (aspect_text env) aspects)
               @ ''. Split it so each part can be rolled back on its own.''))
        else Inr (hd aspects))"

definition fieldsFor :: "subject \<Rightarrow> version_aspect \<Rightarrow> string list" where
  "fieldsFor sub a =
     (if sub = WORKER then map fst (filter (\<lambda>(f, b). b = a) WORKER_ASPECTS)
      else if sub = WORKFLOW then (if a = GRAPH then [''steps'', ''activeVersionId''] else [])
      else [])"

definition pick :: "obj row \<Rightarrow> string list \<Rightarrow> obj \<Rightarrow> obj" where
  "pick r fs state = fold (\<lambda>f. put f (field_of r f)) fs state"

definition readCurrent :: "request_context option \<Rightarrow> subject \<Rightarrow> string \<Rightarrow> string list \<Rightarrow> 's subjects_scheme
    \<Rightarrow> evolution_error + obj" where
  "readCurrent ctx sub i fs s =
     (if sub = WORKER then
        lift_repo (bindE (findById WORKERS ctx i no_options (workers s)) (\<lambda>found.
          case found of None \<Rightarrow> Inr [] | Some w \<Rightarrow> Inr (pick w fs [])))
      else if sub = WORKFLOW then
        lift_repo (bindE (findById WORKFLOWS ctx i no_options (workflows s)) (\<lambda>found.
          case found of
            None \<Rightarrow> Inr []
          | Some w \<Rightarrow>
              bindE (case (''steps'' \<in> set fs, getp ''activeVersionId'' (contents w)) of
                       (True, JStr (c # cs)) \<Rightarrow>
                         bindE (findById GRAPHS ctx (c # cs) no_options (graphs s)) (\<lambda>version.
                           Inr [(''steps'', coalesce (case version of None \<Rightarrow> Undef | Some v \<Rightarrow> contents v) (JArr [])),
                                (''activeVersionId'', JStr (c # cs))])
                     | _ \<Rightarrow> Inr [])
                (\<lambda>state. Inr (pick w (filter (\<lambda>f. f \<noteq> ''steps'') fs) state))))
      else Inr [])"

record version_input =
  n_subject :: subject
  n_subjectId :: string
  n_aspect :: aspect_value
  n_payload :: obj
  n_previous :: "obj option"
  n_label :: "string option"
  n_notes :: "string option"
  n_origin :: "version_origin option"
  n_candidate :: "string option"
  n_benchmark :: "string option"

text \<open>The row of \<open>create\<close>.\<close>

definition create_version :: "evolution_env \<Rightarrow> request_context option \<Rightarrow> int \<Rightarrow> version_data
    \<Rightarrow> ('s subjects_scheme, evolution_error, version_data row) comp" where
  "create_version env ctx now d s =
     (case create_row VERSIONS ctx
             \<lparr>row_id = cuid env (issued s), row_org = [], row_deleted = None, contents = d\<rparr> (versions s) of
        (Inl e, t) \<Rightarrow> (Inl (Repo e), s)
      | (Inr r, t) \<Rightarrow> (Inr r, s\<lparr>versions := t, issued := Suc (issued s)\<rparr>))"

definition capture :: "evolution_env \<Rightarrow> request_context option \<Rightarrow> int \<Rightarrow> version_input
    \<Rightarrow> ('s subjects_scheme, evolution_error, version_data row) comp" where
  "capture env ctx now inp =
     (case n_aspect inp of
        Inherited f \<Rightarrow> throwS (Database (enum_fault env f))
      | Aspect a \<Rightarrow>
          bindS (readS (nextVersion ctx (n_subject inp) (n_subjectId inp) a)) (\<lambda>number.
          bindS (readS (\<lambda>s. case n_previous inp of
                   Some p \<Rightarrow> Inr p
                 | None \<Rightarrow> readCurrent ctx (n_subject inp) (n_subjectId inp) (keys (n_payload inp)) s)) (\<lambda>previous.
          bindS (create_version env ctx now
                   \<lparr>v_subject = n_subject inp, v_subjectId = n_subjectId inp, v_aspect = a, v_number = number,
                    v_payload = obj_column (n_payload inp), v_previous = obj_column previous,
                    v_label = n_label inp, v_notes = n_notes inp,
                    v_origin = (case n_origin inp of None \<Rightarrow> MANUAL | Some q \<Rightarrow> q),
                    v_candidate = n_candidate inp, v_benchmark = n_benchmark inp, v_active = False,
                    v_activated = None, v_superseded = None,
                    v_creator = map_option userId ctx, v_created = now\<rparr>) (\<lambda>created.
          bindS (publish (EvolutionVersionCreated (row_id created) (n_subject inp) (n_subjectId inp) a number)) (\<lambda>_.
          doneS created)))))"

definition activate :: "request_context option \<Rightarrow> int \<Rightarrow> string
    \<Rightarrow> ('s subjects_scheme, evolution_error, version_data row) comp" where
  "activate ctx now i =
     bindS (activate_row ctx now i) (\<lambda>r.
     bindS (publish (EvolutionVersionActivated i (v_subject (contents r)) (v_subjectId (contents r))
              (v_aspect (contents r)) (number_of r))) (\<lambda>_.
     doneS r))"

definition baseline_input :: "subject \<Rightarrow> string \<Rightarrow> version_aspect \<Rightarrow> obj \<Rightarrow> version_input" where
  "baseline_input sub i a payload =
     \<lparr>n_subject = sub, n_subjectId = i, n_aspect = Aspect a, n_payload = payload, n_previous = Some [],
      n_label = Some ''baseline'',
      n_notes = Some ''Captured automatically as the state before any evolution.'',
      n_origin = Some IMPORT, n_candidate = None, n_benchmark = None\<rparr>"

definition ensureBaseline :: "evolution_env \<Rightarrow> request_context option \<Rightarrow> int \<Rightarrow> subject \<Rightarrow> string \<Rightarrow> version_aspect
    \<Rightarrow> ('s subjects_scheme, evolution_error, version_data row) comp" where
  "ensureBaseline env ctx now sub i a =
     bindS (readS (findActive ctx sub i a)) (\<lambda>active.
     case active of
       Some r \<Rightarrow> doneS r
     | None \<Rightarrow>
         bindS (readS (readCurrent ctx sub i (fieldsFor sub a))) (\<lambda>payload.
         bindS (capture env ctx now (baseline_input sub i a payload)) (\<lambda>baseline.
         activate_row ctx now (row_id baseline))))"

section \<open>Lineages\<close>

definition line_of :: "version_data row \<Rightarrow> string \<times> subject \<times> string \<times> version_aspect" where
  "line_of r = (row_org r, v_subject (contents r), v_subjectId (contents r), v_aspect (contents r))"

abbreviation is_active :: "version_data row \<Rightarrow> bool" where
  "is_active r \<equiv> v_active (contents r)"

text \<open>What never changes about a version.\<close>

definition frozen :: "version_data row
    \<Rightarrow> string \<times> (string \<times> subject \<times> string \<times> version_aspect) \<times> nat \<times> obj \<times> obj \<times> version_origin" where
  "frozen r = (row_id r, line_of r, number_of r, v_payload (contents r), v_previous (contents r), v_origin (contents r))"

definition one_active :: "version_data table \<Rightarrow> bool" where
  "one_active t \<longleftrightarrow> (\<forall>r \<in> set t. \<forall>r' \<in> set t. line_of r = line_of r' \<longrightarrow> is_active r \<longrightarrow> is_active r' \<longrightarrow> r = r')"

definition numbered :: "version_data table \<Rightarrow> bool" where
  "numbered t \<longleftrightarrow>
     (\<forall>r \<in> set t. \<forall>r' \<in> set t. line_of r = line_of r' \<longrightarrow> number_of r = number_of r' \<longrightarrow> row_id r = row_id r')
     \<and> (\<forall>r \<in> set t. 1 \<le> number_of r
          \<and> (\<forall>k. 1 \<le> k \<and> k \<le> number_of r \<longrightarrow> (\<exists>r' \<in> set t. line_of r' = line_of r \<and> number_of r' = k)))"

definition fresh_ids :: "evolution_env \<Rightarrow> nat \<Rightarrow> 'a table \<Rightarrow> bool" where
  "fresh_ids env n t \<longleftrightarrow> unique_ids t \<and> (\<forall>r \<in> set t. \<exists>k < n. row_id r = cuid env k)"

definition lineages_ok :: "evolution_env \<Rightarrow> 's subjects_scheme \<Rightarrow> bool" where
  "lineages_ok env s \<longleftrightarrow> fresh_ids env (issued s) (versions s) \<and> one_active (versions s) \<and> numbered (versions s)"

interpretation newest: comparator newest_number
  by unfold_locales (auto simp: newest_number_def ord3_def split: if_splits)

lemma lift_repo_Inr [simp]: "lift_repo x = Inr a \<longleftrightarrow> x = Inr a"
  by (cases x) (simp_all add: lift_repo_def)

lemma scope_lineage:
  "satisfies_all (scope VERSIONS org False (of_lineage sub i a)) r \<longleftrightarrow> line_of r = (org, sub, i, a)"
  by (auto simp: scope_def VERSIONS_def of_lineage_def satisfies_all_def line_of_def Let_def)

lemma nextVersion_is_next:
  assumes "nextVersion ctx sub i a s = Inr n"
  obtains org where "tenant ctx = Inr org"
    and "\<forall>r \<in> set (versions s). line_of r = (org, sub, i, a) \<longrightarrow> number_of r < n"
    and "n = 1 \<or> (\<exists>r \<in> set (versions s). line_of r = (org, sub, i, a) \<and> number_of r + 1 = n)"
proof -
  from assms obtain org where t: "tenant ctx = Inr org"
    by (auto simp: nextVersion_def bindE_eq_Inr)
  let ?l = "filter (\<lambda>r. line_of r = (org, sub, i, a)) (versions s)"
  have sel: "select_rows (scope VERSIONS org False (of_lineage sub i a)) (no_options\<lparr>orderBy := Some newest_number\<rparr>) (versions s)
      = sort_by newest_number ?l"
    by (simp add: select_rows_def no_options_def scope_lineage [abs_def])
  show ?thesis
  proof (cases "sort_by newest_number ?l")
    case Nil
    then have "set ?l = {}" by (metis set_sort_by list.set(1))
    with Nil that [OF t] assms t show ?thesis by (simp add: nextVersion_def sel filter_empty_conv)
  next
    case (Cons latest rest)
    then have n: "n = number_of latest + 1" using assms t by (simp add: nextVersion_def sel)
    have l: "set ?l = insert latest (set rest)" by (metis Cons set_sort_by list.set(2))
    have "\<forall>x \<in> set rest. newest_number latest x \<le> 0"
      using newest.sorted_sort_by [of ?l] Cons by simp
    then have "\<forall>x \<in> set ?l. number_of x \<le> number_of latest"
      unfolding l by (auto simp: newest_number_def cmp_simps)
    then have "\<forall>r \<in> set (versions s). line_of r = (org, sub, i, a) \<longrightarrow> number_of r < n"
      using n by (auto simp: less_Suc_eq_le)
    moreover have "latest \<in> set ?l" using l by blast
    then have "\<exists>r \<in> set (versions s). line_of r = (org, sub, i, a) \<and> number_of r + 1 = n" using n by auto
    ultimately show ?thesis using that [OF t] by blast
  qed
qed

lemma fresh_ids_append:
  assumes "inj (cuid env)" and "fresh_ids env n t" and "row_id r = cuid env n"
  shows "fresh_ids env (Suc n) (t @ [r])"
proof -
  have "row_id x \<noteq> row_id r" if "x \<in> set t" for x
    using that assms by (metis fresh_ids_def injD less_irrefl)
  then have "row_id r \<notin> row_id ` set t" by (metis imageE)
  with assms show ?thesis unfolding fresh_ids_def unique_ids_def by (auto dest: less_SucI) (metis less_SucI)
qed

text \<open>A new version continues its lineage and is not active.\<close>

lemma create_version_row:
  assumes "create_version env ctx now d s = (Inr r, s')"
  obtains org where "tenant ctx = Inr org" and "versions s' = versions s @ [r]" and "issued s' = Suc (issued s)"
    and "r = \<lparr>row_id = cuid env (issued s), row_org = org, row_deleted = None, contents = d\<rparr>"
proof (cases "tenant ctx")
  case (Inr org)
  then show ?thesis using assms by (intro that [of org]) (auto simp: create_version_def create_row_def)
qed (use assms in \<open>simp add: create_version_def create_row_def\<close>)

lemma create_version_error: "create_version env ctx now d s = (Inl e, s') \<Longrightarrow> s' = s"
  by (auto simp: create_version_def create_row_def split: sum.splits prod.splits)

lemma numbered_append:
  assumes "numbered t" and "\<forall>x \<in> set t. line_of x = line_of r \<longrightarrow> number_of x < number_of r"
    and "number_of r = 1 \<or> (\<exists>x \<in> set t. line_of x = line_of r \<and> number_of x + 1 = number_of r)"
  shows "numbered (t @ [r])"
proof -
  have new: "\<exists>x \<in> set (t @ [r]). line_of x = line_of r \<and> number_of x = k" if k: "1 \<le> k" "k \<le> number_of r" for k
  proof (cases "k = number_of r")
    case False
    with k assms(3) obtain y where y: "y \<in> set t" "line_of y = line_of r" "k \<le> number_of y" by auto
    with assms(1) k(1) have "\<exists>x \<in> set t. line_of x = line_of y \<and> number_of x = k" unfolding numbered_def by blast
    with y(2) show ?thesis by auto
  qed simp
  have old: "\<exists>y \<in> set (t @ [r]). line_of y = line_of x \<and> number_of y = k"
    if "x \<in> set t" "1 \<le> k" "k \<le> number_of x" for x k
    using that assms(1) unfolding numbered_def by auto
  have pos: "1 \<le> number_of x" if "x \<in> set (t @ [r])" for x
    using that assms(1,3) unfolding numbered_def by auto
  have once: "row_id x = row_id y"
    if xy: "x \<in> set (t @ [r])" "y \<in> set (t @ [r])" and same: "line_of x = line_of y" "number_of x = number_of y" for x y
  proof -
    consider "x = r" "y = r" | "x = r" "y \<in> set t" | "x \<in> set t" "y = r" | "x \<in> set t" "y \<in> set t"
      using xy by auto
    then show ?thesis
    proof cases
      case 4
      with same assms(1) show ?thesis unfolding numbered_def by blast
    qed (use same assms(2) in auto)
  qed
  show ?thesis unfolding numbered_def
  proof (intro conjI ballI allI impI; (elim conjE)?)
    fix x k assume x: "x \<in> set (t @ [r])" "1 \<le> k" "k \<le> number_of x"
    then show "\<exists>r' \<in> set (t @ [r]). line_of r' = line_of x \<and> number_of r' = k"
      using new old by (cases "x = r") auto
  qed (rule once pos; assumption)+
qed

lemma keeps_create_version:
  assumes "inj (cuid env)" and "lineages_ok env s" and "\<not> v_active d"
    and "nextVersion ctx (v_subject d) (v_subjectId d) (v_aspect d) s = Inr (v_number d)"
    and "create_version env ctx now d s = (r, s')"
  shows "lineages_ok env s'"
proof (cases r)
  case (Inl e)
  with create_version_error assms show ?thesis by blast
next
  case (Inr row)
  from create_version_row [OF assms(5) [unfolded Inr]] obtain org where t: "tenant ctx = Inr org"
    and v: "versions s' = versions s @ [row]" and i: "issued s' = Suc (issued s)"
    and row: "row = \<lparr>row_id = cuid env (issued s), row_org = org, row_deleted = None, contents = d\<rparr>" by metis
  have l: "line_of row = (org, v_subject d, v_subjectId d, v_aspect d)" "number_of row = v_number d"
    by (simp_all add: row line_of_def number_of_def)
  from nextVersion_is_next [OF assms(4)] t l have "\<forall>x \<in> set (versions s). line_of x = line_of row \<longrightarrow> number_of x < number_of row"
    and "number_of row = 1 \<or> (\<exists>x \<in> set (versions s). line_of x = line_of row \<and> number_of x + 1 = number_of row)"
    by auto
  then have "numbered (versions s')" using assms(2) unfolding v by (intro numbered_append) (simp_all add: lineages_ok_def)
  moreover have "fresh_ids env (issued s') (versions s')"
    using assms(1,2) unfolding v i lineages_ok_def by (intro fresh_ids_append) (simp_all add: row)
  moreover have "one_active (versions s')"
    using assms(2,3) unfolding v lineages_ok_def one_active_def by (auto simp: row)
  ultimately show ?thesis by (simp add: lineages_ok_def)
qed

section \<open>Activation\<close>

lemma active_in_iff:
  "satisfies_all (active_in org target) r \<longleftrightarrow>
     row_org r = org \<and> v_subject (contents r) = v_subject (contents target)
     \<and> v_subjectId (contents r) = v_subjectId (contents target)
     \<and> v_aspect (contents r) = v_aspect (contents target) \<and> is_active r"
  by (auto simp: active_in_def of_lineage_def satisfies_all_def)

lemma activate_in_map:
  assumes "row_org target = org"
  shows "activate_in org target now t =
     map (\<lambda>r. if row_id r = row_id target then make_active now r
              else if line_of r = line_of target \<and> is_active r then deactivate now r else r) t"
  unfolding activate_in_def update_many_def snd_conv map_map
  by (rule map_cong [OF refl]) (use assms in \<open>auto simp: active_in_iff line_of_def make_active_def deactivate_def\<close>)

lemma switch_same [simp]:
  "row_id (make_active now r) = row_id r" "line_of (make_active now r) = line_of r"
  "number_of (make_active now r) = number_of r" "is_active (make_active now r)" "frozen (make_active now r) = frozen r"
  "row_id (deactivate now r) = row_id r" "line_of (deactivate now r) = line_of r"
  "number_of (deactivate now r) = number_of r" "\<not> is_active (deactivate now r)" "frozen (deactivate now r) = frozen r"
  by (simp_all add: make_active_def deactivate_def line_of_def number_of_def frozen_def)

lemma activate_row_Inr:
  assumes "activate_row ctx now i s = (Inr r, s')"
  obtains org target where "tenant ctx = Inr org" and "target \<in> set (versions s)" and "row_id target = i"
    and "row_org target = org" and "versions s' = activate_in org target now (versions s)"
    and "find_first (by_id i) (versions s') = Some r"
    and "s' = s\<lparr>versions := activate_in org target now (versions s)\<rparr>"
  using assms
  by (auto simp: activate_row_def bindE_eq_Inr findByIdOrFail_def findById_def scope_by_id Let_def
      split: sum.splits option.splits dest!: find_first_Some)

lemma activate_row_error: "activate_row ctx now i s = (Inl e, s') \<Longrightarrow> s' = s"
  by (auto simp: activate_row_def Let_def split: sum.splits option.splits)

lemma numbered_frozen:
  assumes "map frozen t = map frozen t'" and "numbered t"
  shows "numbered t'"
proof -
  have eq: "frozen ` set t = frozen ` set t'" using arg_cong [OF assms(1), of set] by simp
  have 1: "\<exists>r' \<in> set t'. frozen r' = frozen r" if "r \<in> set t" for r
    using imageI [OF that, of frozen] unfolding eq by auto
  have 2: "\<exists>r \<in> set t. frozen r = frozen r'" if "r' \<in> set t'" for r'
    using imageI [OF that, of frozen] unfolding eq [symmetric] by auto
  have f: "frozen r = frozen r' \<Longrightarrow> row_id r = row_id r' \<and> line_of r = line_of r' \<and> number_of r = number_of r'" for r r'
    by (simp add: frozen_def)
  show ?thesis unfolding numbered_def
  proof (intro conjI ballI allI impI; (elim conjE)?)
    fix x y assume x: "x \<in> set t'" "y \<in> set t'" "line_of x = line_of y" "number_of x = number_of y"
    obtain u where u: "u \<in> set t" "frozen u = frozen x" using 2 x(1) by blast
    obtain v where v: "v \<in> set t" "frozen v = frozen y" using 2 x(2) by blast
    have "line_of u = line_of v" "number_of u = number_of v" using f [OF u(2)] f [OF v(2)] x(3,4) by simp_all
    with assms(2) u(1) v(1) have "row_id u = row_id v" unfolding numbered_def by blast
    with f [OF u(2)] f [OF v(2)] show "row_id x = row_id y" by simp
  next
    fix x assume "x \<in> set t'"
    then obtain u where u: "u \<in> set t" "frozen u = frozen x" using 2 by blast
    from assms(2) u(1) have "1 \<le> number_of u" unfolding numbered_def by blast
    with f [OF u(2)] show "1 \<le> number_of x" by simp
  next
    fix x k assume x: "x \<in> set t'" "1 \<le> k" "k \<le> number_of x"
    obtain u where u: "u \<in> set t" "frozen u = frozen x" using 2 x(1) by blast
    have "k \<le> number_of u" using x(3) f [OF u(2)] by simp
    then obtain w where "w \<in> set t" "line_of w = line_of u" "number_of w = k"
      using assms(2) u(1) x(2) unfolding numbered_def by blast
    moreover obtain w' where "w' \<in> set t'" "frozen w' = frozen w" using 1 [OF \<open>w \<in> set t\<close>] by blast
    ultimately show "\<exists>r' \<in> set t'. line_of r' = line_of x \<and> number_of r' = k" using f [OF u(2)] f [of w' w] by auto
  qed
qed

lemma activate_in_frozen:
  "row_org target = org \<Longrightarrow> map frozen (activate_in org target now t) = map frozen t"
  by (auto simp: activate_in_map)

lemma one_active_activate:
  assumes "unique_ids t" and "one_active t" and "target \<in> set t" and "row_org target = org"
  shows "one_active (activate_in org target now t)"
proof -
  define g where "g r = (if row_id r = row_id target then make_active now r
              else if line_of r = line_of target \<and> is_active r then deactivate now r else r)" for r
  have "g x = g y" if x: "x \<in> set t" "y \<in> set t" and same: "line_of (g x) = line_of (g y)"
    and act: "is_active (g x)" "is_active (g y)" for x y
  proof -
    have id: "z = target" if "z \<in> set t" "row_id z = row_id target" for z
      using unique_idsD [OF assms(1) that(1) assms(3) that(2)] .
    consider "row_id x = row_id target" "row_id y = row_id target"
      | "row_id x = row_id target" "row_id y \<noteq> row_id target"
      | "row_id x \<noteq> row_id target" "row_id y = row_id target"
      | "row_id x \<noteq> row_id target" "row_id y \<noteq> row_id target" by blast
    then show ?thesis
    proof cases
      case 1
      with id [of x] id [of y] x show ?thesis by (simp add: g_def)
    next
      case 4
      then have "g x = x" "g y = y" "is_active x" "is_active y" "line_of x = line_of y"
        using act same by (auto simp: g_def split: if_splits)
      then have "x = y" using assms(2) x unfolding one_active_def by blast
      then show ?thesis by simp
    next
      case 2
      then have "x = target" using id x by blast
      with 2 act same show ?thesis by (auto simp: g_def split: if_splits)
    next
      case 3
      then have "y = target" using id x by blast
      with 3 act same show ?thesis by (auto simp: g_def split: if_splits)
    qed
  qed
  then have "one_active (map g t)" unfolding one_active_def by (simp only: set_map ball_simps) blast
  moreover have "activate_in org target now t = map g t" by (simp add: activate_in_map [OF assms(4)] g_def)
  ultimately show ?thesis by simp
qed

lemma keeps_activate_row: "keeps (lineages_ok env) (activate_row ctx now i)"
  unfolding keeps_def
proof (intro allI impI)
  fix s :: "'a subjects_scheme" assume ok: "lineages_ok env s"
  obtain r s' where a: "activate_row ctx now i s = (r, s')" by (cases "activate_row ctx now i s")
  show "lineages_ok env (snd (activate_row ctx now i s))"
  proof (cases r)
    case (Inl e)
    with a activate_row_error ok show ?thesis by (metis snd_conv)
  next
    case (Inr row)
    from activate_row_Inr [OF a [unfolded Inr]] obtain org target where t: "target \<in> set (versions s)"
      "row_org target = org" "s' = s\<lparr>versions := activate_in org target now (versions s)\<rparr>" by metis
    let ?t = "activate_in org target now (versions s)"
    have frz: "map frozen ?t = map frozen (versions s)" using t(2) by (rule activate_in_frozen)
    have ids: "map row_id ?t = map row_id (versions s)"
      using arg_cong [OF frz, of "map fst"] by (simp add: frozen_def comp_def)
    have idset: "row_id ` set ?t = row_id ` set (versions s)" using arg_cong [OF ids, of set] by simp
    with ids idset ok have "fresh_ids env (issued s) ?t"
      unfolding lineages_ok_def fresh_ids_def unique_ids_def by (metis image_iff)
    moreover have "numbered ?t" using frz ok unfolding lineages_ok_def by (metis numbered_frozen)
    moreover have "one_active ?t"
      using ok t unfolding lineages_ok_def fresh_ids_def by (metis one_active_activate)
    ultimately show ?thesis using a t(3) by (simp add: lineages_ok_def)
  qed
qed

section \<open>Operations on versions\<close>

lemma create_version_basic [leaves_intros]:
  "leaves workers (create_version env ctx now d)" "leaves workflows (create_version env ctx now d)"
  "leaves providers (create_version env ctx now d)" "leaves graphs (create_version env ctx now d)"
  by (auto simp: leaves_def create_version_def split: prod.split sum.split)

lemma activate_row_basic [leaves_intros]:
  "leaves workers (activate_row ctx now i)" "leaves workflows (activate_row ctx now i)"
  "leaves providers (activate_row ctx now i)" "leaves graphs (activate_row ctx now i)"
  "leaves issued (activate_row ctx now i)"
  by (auto simp: leaves_def activate_row_def Let_def split: prod.split sum.split option.split)

lemma lineages_ok_bus [simp]: "lineages_ok env (s\<lparr>bus := b\<rparr>) = lineages_ok env s"
  by (simp add: lineages_ok_def)

lemma keeps_publish [keeps_intros]: "keeps (lineages_ok env) (publish e)"
  unfolding publish_def by (rule keeps_change) simp

lemma capture_aspect:
  assumes "capture env ctx now inp s = (Inr r, s')"
  obtains a where "n_aspect inp = Aspect a"
  using assms by (auto simp: capture_def comp_eval split: aspect_value.splits)

lemma keeps_capture [keeps_intros]:
  assumes "inj (cuid env)"
  shows "keeps (lineages_ok env) (capture env ctx now inp)"
proof (cases "n_aspect inp")
  case (Inherited f)
  then show ?thesis by (simp add: capture_def keeps_intros)
next
  case (Aspect a)
  have "lineages_ok env s'" if ok: "lineages_ok env s"
    and c: "capture env ctx now inp s = (r, s')" for s s' :: "'a subjects_scheme" and r
    using c [unfolded capture_def Aspect aspect_value.case]
  proof (cases rule: bindS_cases)
    case (stop e)
    then show ?thesis using ok by (simp add: readS_def)
  next
    case (go n s1)
    from go(1) have n: "nextVersion ctx (n_subject inp) (n_subjectId inp) a s = Inr n" "s1 = s" by (auto simp: readS_def)
    from go(2) [unfolded n(2)] show ?thesis
    proof (cases rule: bindS_cases)
      case (stop e)
      then show ?thesis using ok by (simp add: readS_def)
    next
      case (go prev s2)
      from go(1) have "s2 = s" by (simp add: readS_def)
      from go(2) [unfolded this] show ?thesis
      proof (cases rule: bindS_cases)
        case (stop e)
        then show ?thesis using create_version_error ok by metis
      next
        case (go row s3)
        from keeps_create_version [OF assms ok _ _ go(1)] n(1) have "lineages_ok env s3" by simp
        with go(2) show ?thesis by (auto simp: bind_comp_eval publish_def comp_eval)
      qed
    qed
  qed
  then show ?thesis unfolding keeps_def by (metis prod.collapse)
qed

lemma keeps_activate [keeps_intros]: "keeps (lineages_ok env) (activate ctx now i)"
  unfolding activate_def by (intro keeps_intros keeps_activate_row)

lemma keeps_ensureBaseline [keeps_intros]:
  "inj (cuid env) \<Longrightarrow> keeps (lineages_ok env) (ensureBaseline env ctx now sub i a)"
  unfolding ensureBaseline_def by (intro keeps_intros keeps_activate_row) (auto intro!: keeps_intros keeps_activate_row split: option.split)

text \<open>The operations of the service that write, by any organization.\<close>

datatype version_op =
    Capture "request_context option" int version_input
  | Activate "request_context option" int string
  | Baseline "request_context option" int subject string version_aspect

fun version_step :: "evolution_env \<Rightarrow> version_op \<Rightarrow> 's subjects_scheme
    \<Rightarrow> (evolution_error + version_data row) \<times> 's subjects_scheme" where
  "version_step env (Capture ctx now inp) s = capture env ctx now inp s"
| "version_step env (Activate ctx now i) s = activate ctx now i s"
| "version_step env (Baseline ctx now sub i a) s = ensureBaseline env ctx now sub i a s"

interpretation lineages: kept "lineages_ok env" "version_step env" "\<lambda>_. inj (cuid env)" for env :: evolution_env
proof
  fix s :: "'a subjects_scheme" and p
  assume "lineages_ok env s" "inj (cuid env)"
  then show "lineages_ok env (snd (version_step env p s))"
    by (cases p) (auto simp: keeps_capture [unfolded keeps_def] keeps_activate [unfolded keeps_def]
        keeps_ensureBaseline [unfolded keeps_def])
qed

text \<open>The history only grows: what is frozen about the versions so far stays, in order.\<close>

definition history_from :: "(string \<times> (string \<times> subject \<times> string \<times> version_aspect) \<times> nat \<times> obj \<times> obj \<times> version_origin) list
    \<Rightarrow> 's subjects_scheme \<Rightarrow> bool" where
  "history_from h s \<longleftrightarrow> prefix h (map frozen (versions s))"

lemma history_create_version [keeps_intros]: "keeps (history_from h) (create_version env ctx now d)"
  by (auto simp: keeps_def history_from_def create_version_def create_row_def prefix_def split: sum.split)

lemma history_activate_row [keeps_intros]: "keeps (history_from h) (activate_row ctx now i)"
  unfolding keeps_def
proof (intro allI impI)
  fix s :: "'a subjects_scheme" assume h: "history_from h s"
  obtain r s' where a: "activate_row ctx now i s = (r, s')" by (cases "activate_row ctx now i s")
  show "history_from h (snd (activate_row ctx now i s))"
  proof (cases r)
    case (Inl e)
    with a activate_row_error h show ?thesis by (metis snd_conv)
  next
    case (Inr row)
    from activate_row_Inr [OF a [unfolded Inr]] obtain org target where
      "row_org target = org" "s' = s\<lparr>versions := activate_in org target now (versions s)\<rparr>" by metis
    with h a show ?thesis by (simp add: history_from_def activate_in_frozen)
  qed
qed

lemma history_publish [keeps_intros]: "keeps (history_from h) (publish e)"
  unfolding publish_def by (rule keeps_change) (simp add: history_from_def)

lemma history_capture [keeps_intros]: "keeps (history_from h) (capture env ctx now inp)"
  unfolding capture_def by (cases "n_aspect inp") (auto intro!: keeps_intros)

lemma history_activate [keeps_intros]: "keeps (history_from h) (activate ctx now i)"
  unfolding activate_def by (intro keeps_intros)

lemma history_ensureBaseline [keeps_intros]: "keeps (history_from h) (ensureBaseline env ctx now sub i a)"
  unfolding ensureBaseline_def by (auto intro!: keeps_intros split: option.split)

interpretation history: kept "history_from h" "version_step env" "\<lambda>_. True" for h and env :: evolution_env
proof
  fix s :: "'a subjects_scheme" and p
  assume "history_from h s"
  then show "history_from h (snd (version_step env p s))"
    by (cases p) (auto simp: history_capture [unfolded keeps_def] history_activate [unfolded keeps_def]
        history_ensureBaseline [unfolded keeps_def])
qed

end
