(* ===== verification/Deployments.thy ===== *)
theory Deployments
  imports Versions
begin

text \<open>
  Deployment of evolution candidates, \<open>src/backend/src/evolution/deployment.service.ts\<close>: approval, the
  review of a candidate by policy and constitution, deployment, refusal, rollback, monitoring and the
  sweep that settles. With it \<open>DeploymentRepository\<close> and the other repositories of
  \<open>src/backend/src/database/repositories/evolution.repositories.ts\<close> it reads, and \<open>setStatus\<close> of
  \<open>candidate.service.ts\<close>.

  The state extends that of \<open>Versions\<close> by the tables of evolution. The unique index of candidates by
  organization, kind, subject and status is part of the model: an update into a taken slot is an error.
\<close>

section \<open>Tables\<close>

datatype candidate_status = DRAFT | QUEUED | TESTING | VALIDATED | DEPLOYED | REJECTED | SUPERSEDED

fun candidate_status_lower :: "candidate_status \<Rightarrow> string" where
  "candidate_status_lower DRAFT = ''draft''" | "candidate_status_lower QUEUED = ''queued''"
| "candidate_status_lower TESTING = ''testing''" | "candidate_status_lower VALIDATED = ''validated''"
| "candidate_status_lower DEPLOYED = ''deployed''" | "candidate_status_lower REJECTED = ''rejected''"
| "candidate_status_lower SUPERSEDED = ''superseded''"

record candidate_data =
  k_kind :: evolution_kind
  k_subject :: subject
  k_subjectId :: string
  k_label :: string
  k_description :: string
  k_confidence :: number
  k_risk :: risk_level
  k_status :: candidate_status
  k_change :: obj
  k_rollback :: obj
  k_rejectedReason :: "string option"

record experiment_data =
  x_candidate :: string
  x_mode :: experiment_mode
  x_verdict :: "benchmark_verdict option"
  x_confidence :: number
  x_conclusion :: "string option"
  x_controlTrials :: int
  x_variantTrials :: int
  x_startedAt :: int

record benchmark_data =
  b_experiment :: string
  b_arm :: string
  b_trials :: int
  b_successRate :: number
  b_avgCostUsd :: number
  b_avgCompletionMs :: number

datatype deployment_status = PENDING | REFUSED | DEPLOYED | MONITORING | SETTLED | ROLLED_BACK | FAILED

fun deployment_status_lower :: "deployment_status \<Rightarrow> string" where
  "deployment_status_lower PENDING = ''pending''" | "deployment_status_lower REFUSED = ''refused''"
| "deployment_status_lower DEPLOYED = ''deployed''" | "deployment_status_lower MONITORING = ''monitoring''"
| "deployment_status_lower SETTLED = ''settled''" | "deployment_status_lower ROLLED_BACK = ''rolled_back''"
| "deployment_status_lower FAILED = ''failed''"

record deployment_data =
  d_candidate :: "string option"
  d_version :: "string option"
  d_subject :: subject
  d_subjectId :: string
  d_label :: string
  d_kind :: evolution_kind
  d_status :: deployment_status
  d_applied :: obj
  d_rollback :: obj
  d_constitution :: string
  d_passed :: bool
  d_lawVerdicts :: "law_verdict list"
  d_policySatisfied :: bool
  d_policyReason :: "string option"
  d_approvedBy :: "string option"
  d_approvedAt :: "int option"
  d_deployedBy :: "string option"
  d_monitorUntil :: "int option"
  d_trials :: nat
  d_failures :: nat
  d_healthy :: "bool option"
  d_rolledBackAt :: "int option"
  d_rolledBackBy :: "string option"
  d_rollbackReason :: "string option"
  d_automatic :: bool
  d_summary :: obj
  d_notes :: "string option"
  d_deployedAt :: "int option"
  d_createdAt :: int

record violation_data =
  w_law :: string
  w_reason :: string
  w_subject :: subject
  w_subjectId :: string
  w_kind :: evolution_kind
  w_candidate :: string
  w_deployment :: string
  w_intent :: obj
  w_constitution :: string
  w_actor :: string

record evolution = subjects +
  candidates :: "candidate_data table"
  experiments :: "experiment_data table"
  benchmarks :: "benchmark_data table"
  deployments :: "deployment_data table"
  violations_of :: "violation_data table"
  policies :: "(string \<times> evolution_policy) list"

type_synonym 'a evo = "(evolution, evolution_error, 'a) comp"

definition CANDIDATES :: model where "CANDIDATES = \<lparr>modelName = ''evolutionCandidate'', softDeletes = False\<rparr>"
definition EXPERIMENTS :: model where "EXPERIMENTS = \<lparr>modelName = ''evolutionExperiment'', softDeletes = False\<rparr>"
definition BENCHMARKS :: model where "BENCHMARKS = \<lparr>modelName = ''benchmark'', softDeletes = False\<rparr>"
definition DEPLOYMENTS :: model where "DEPLOYMENTS = \<lparr>modelName = ''deployment'', softDeletes = False\<rparr>"
definition VIOLATIONS :: model where "VIOLATIONS = \<lparr>modelName = ''constitutionViolation'', softDeletes = False\<rparr>"

text \<open>A row with the default columns of the schema.\<close>

definition blank_deployment :: "candidate_data row \<Rightarrow> deployment_data" where
  "blank_deployment k =
     \<lparr>d_candidate = Some (row_id k), d_version = None, d_subject = k_subject (contents k),
      d_subjectId = k_subjectId (contents k), d_label = k_label (contents k), d_kind = k_kind (contents k),
      d_status = PENDING, d_applied = [], d_rollback = [], d_constitution = [], d_passed = False,
      d_lawVerdicts = [], d_policySatisfied = False, d_policyReason = None, d_approvedBy = None,
      d_approvedAt = None, d_deployedBy = None, d_monitorUntil = None, d_trials = 0, d_failures = 0,
      d_healthy = None, d_rolledBackAt = None, d_rolledBackBy = None, d_rollbackReason = None,
      d_automatic = False, d_summary = [], d_notes = None, d_deployedAt = None, d_createdAt = 0\<rparr>"

section \<open>Repositories\<close>

definition find_candidate :: "request_context option \<Rightarrow> string \<Rightarrow> evolution \<Rightarrow> evolution_error + candidate_data row" where
  "find_candidate ctx i s = lift_repo (findByIdOrFail CANDIDATES ctx i no_options (candidates s))"

definition latest_started :: "experiment_data row \<Rightarrow> experiment_data row \<Rightarrow> int" where
  "latest_started r r' = ord3 (x_startedAt (contents r')) (x_startedAt (contents r))"

definition forCandidate :: "request_context option \<Rightarrow> string \<Rightarrow> evolution \<Rightarrow> evolution_error + experiment_data row list" where
  "forCandidate ctx i s =
     lift_repo (findMany EXPERIMENTS ctx [(''candidateId'', \<lambda>r. x_candidate (contents r) = i)]
       (no_options\<lparr>orderBy := Some latest_started\<rparr>) (experiments s))"

definition forExperiment :: "request_context option \<Rightarrow> string \<Rightarrow> evolution \<Rightarrow> evolution_error + benchmark_data row list" where
  "forExperiment ctx i s =
     lift_repo (findMany BENCHMARKS ctx [(''experimentId'', \<lambda>r. b_experiment (contents r) = i)]
       (no_options\<lparr>orderBy := Some (\<lambda>r r'. ord3 (b_arm (contents r)) (b_arm (contents r')))\<rparr>) (benchmarks s))"

definition latest_created :: "deployment_data row \<Rightarrow> deployment_data row \<Rightarrow> int" where
  "latest_created r r' = ord3 (d_createdAt (contents r')) (d_createdAt (contents r))"

definition history :: "request_context option \<Rightarrow> nat \<Rightarrow> evolution \<Rightarrow> evolution_error + deployment_data row list" where
  "history ctx n s =
     lift_repo (findMany DEPLOYMENTS ctx [] (no_options\<lparr>take_at_most := Some n, orderBy := Some latest_created\<rparr>)
       (deployments s))"

definition forSubject :: "request_context option \<Rightarrow> subject \<Rightarrow> string \<Rightarrow> evolution
    \<Rightarrow> evolution_error + deployment_data row list" where
  "forSubject ctx sub i s =
     lift_repo (findMany DEPLOYMENTS ctx
       [(''subject'', \<lambda>r. d_subject (contents r) = sub), (''subjectId'', \<lambda>r. d_subjectId (contents r) = i)]
       (no_options\<lparr>orderBy := Some latest_created\<rparr>) (deployments s))"

definition get_deployment :: "request_context option \<Rightarrow> string \<Rightarrow> evolution \<Rightarrow> evolution_error + deployment_data row" where
  "get_deployment ctx i s = lift_repo (findByIdOrFail DEPLOYMENTS ctx i no_options (deployments s))"

definition findSettleableUnscoped :: "int \<Rightarrow> evolution \<Rightarrow> deployment_data row list" where
  "findSettleableUnscoped now s =
     take 200 (filter (\<lambda>r. d_status (contents r) = MONITORING
       \<and> (case d_monitorUntil (contents r) of None \<Rightarrow> False | Some t \<Rightarrow> t < now)) (deployments s))"

definition countSince :: "request_context option \<Rightarrow> int \<Rightarrow> evolution \<Rightarrow> int" where
  "countSince ctx t s =
     (case count_rows DEPLOYMENTS ctx
             [(''status'', \<lambda>r. d_status (contents r) \<in> {DEPLOYED, MONITORING, SETTLED}),
              (''createdAt'', \<lambda>r. d_createdAt (contents r) \<ge> t)] (deployments s) of
        Inl e \<Rightarrow> 0 | Inr n \<Rightarrow> int n)"

definition create_deployment :: "evolution_env \<Rightarrow> request_context option \<Rightarrow> int \<Rightarrow> deployment_data \<Rightarrow> deployment_data row evo" where
  "create_deployment env ctx now d s =
     (case create_row DEPLOYMENTS ctx
             \<lparr>row_id = cuid env (issued s), row_org = [], row_deleted = None, contents = d\<lparr>d_createdAt := now\<rparr>\<rparr>
             (deployments s) of
        (Inl e, t) \<Rightarrow> (Inl (Repo e), s)
      | (Inr r, t) \<Rightarrow> (Inr r, s\<lparr>deployments := t, issued := Suc (issued s)\<rparr>))"

definition update_deployment :: "request_context option \<Rightarrow> string \<Rightarrow> (deployment_data \<Rightarrow> deployment_data)
    \<Rightarrow> deployment_data row evo" where
  "update_deployment ctx i f s =
     (case update_row DEPLOYMENTS ctx i (\<lambda>r. r\<lparr>contents := f (contents r)\<rparr>) (deployments s) of
        (Inl e, t) \<Rightarrow> (Inl (Repo e), s\<lparr>deployments := t\<rparr>)
      | (Inr r, t) \<Rightarrow> (Inr r, s\<lparr>deployments := t\<rparr>))"

definition create_violation :: "evolution_env \<Rightarrow> request_context option \<Rightarrow> violation_data \<Rightarrow> unit evo" where
  "create_violation env ctx d s =
     (case create_row VIOLATIONS ctx
             \<lparr>row_id = cuid env (issued s), row_org = [], row_deleted = None, contents = d\<rparr> (violations_of s) of
        (Inl e, t) \<Rightarrow> (Inl (Repo e), s)
      | (Inr r, t) \<Rightarrow> (Inr (), s\<lparr>violations_of := t, issued := Suc (issued s)\<rparr>))"

text \<open>The unique index \<open>[organizationId, kind, subjectId, status]\<close> on candidates.\<close>

definition same_slot :: "candidate_data row \<Rightarrow> candidate_data row \<Rightarrow> bool" where
  "same_slot r r' \<longleftrightarrow> row_org r = row_org r' \<and> k_kind (contents r) = k_kind (contents r')
     \<and> k_subjectId (contents r) = k_subjectId (contents r')"

definition slot_taken :: "string \<Rightarrow> string \<Rightarrow> candidate_status \<Rightarrow> candidate_data table \<Rightarrow> bool" where
  "slot_taken org i st t \<longleftrightarrow>
     list_ex (\<lambda>r. row_id r = i \<and> row_org r = org
       \<and> list_ex (\<lambda>r'. row_id r' \<noteq> i \<and> same_slot r r' \<and> k_status (contents r') = st) t) t"

text \<open>\<open>CandidateService.setStatus\<close> with its extra columns.\<close>

definition setStatus :: "evolution_env \<Rightarrow> request_context option \<Rightarrow> string \<Rightarrow> candidate_status
    \<Rightarrow> (candidate_data \<Rightarrow> candidate_data) \<Rightarrow> unit evo" where
  "setStatus env ctx i st extra s =
     (case tenant ctx of
        Inl e \<Rightarrow> (Inl (Repo e), s)
      | Inr org \<Rightarrow>
          if slot_taken org i st (candidates s) then (Inl (Database (unique_fault env i)), s)
          else (case update_row CANDIDATES ctx i
                       (\<lambda>r. r\<lparr>contents := extra ((contents r)\<lparr>k_status := st\<rparr>)\<rparr>) (candidates s) of
                  (Inl e, t) \<Rightarrow> (Inl (Repo e), s\<lparr>candidates := t\<rparr>)
                | (Inr r, t) \<Rightarrow> (Inr (), s\<lparr>candidates := t\<rparr>)))"

text \<open>The policy service on the policies of all organizations.\<close>

definition store_policy :: "string \<Rightarrow> evolution_policy option \<Rightarrow> evolution \<Rightarrow> evolution" where
  "store_policy org p s = (case p of None \<Rightarrow> s | Some q \<Rightarrow> s\<lparr>policies := put org q (policies s)\<rparr>)"

definition policy_here :: "request_context option \<Rightarrow> evolution_policy evo" where
  "policy_here ctx s =
     (case tenant ctx of
        Inl e \<Rightarrow> (Inl (Repo e), s)
      | Inr org \<Rightarrow> (case get_policy ctx (map_of (policies s) org) of
          (r, p) \<Rightarrow> (lift_repo r, store_policy org p s)))"

definition evaluate_here :: "request_context option \<Rightarrow> int \<Rightarrow> candidate_data \<Rightarrow> int \<Rightarrow> policy_decision evo" where
  "evaluate_here ctx now k trials s =
     (case tenant ctx of
        Inl e \<Rightarrow> (Inl (Repo e), s)
      | Inr org \<Rightarrow>
          (case EvolutionPolicy.evaluate ctx
                  \<lparr>c_kind = k_kind k, c_risk = k_risk k, c_confidence = k_confidence k\<rparr> now (Some trials)
                  (\<lambda>since. countSince ctx since s) (map_of (policies s) org) of
             (r, p) \<Rightarrow> (lift_repo r, store_policy org p s)))"

section \<open>Reading for a review\<close>

definition weakestArmTrials :: "request_context option \<Rightarrow> string \<Rightarrow> evolution \<Rightarrow> evolution_error + int" where
  "weakestArmTrials ctx i s =
     bindE (forCandidate ctx i s) (\<lambda>xs.
       Inr (case map (\<lambda>e. min (x_controlTrials (contents e)) (x_variantTrials (contents e))) xs of
              [] \<Rightarrow> 0 | n # ns \<Rightarrow> fold min ns n))"

definition concluded :: "experiment_data row \<Rightarrow> bool" where
  "concluded e \<longleftrightarrow> x_verdict (contents e) \<noteq> None"

definition benchmark_verdict_of :: "request_context option \<Rightarrow> string \<Rightarrow> evolution
    \<Rightarrow> evolution_error + benchmark_verdict option" where
  "benchmark_verdict_of ctx i s =
     bindE (forCandidate ctx i s) (\<lambda>xs.
       Inr (case List.find concluded xs of None \<Rightarrow> None | Some e \<Rightarrow> x_verdict (contents e)))"

fun verdict_name :: "benchmark_verdict \<Rightarrow> string" where
  "verdict_name BETTER = ''BETTER''" | "verdict_name WORSE = ''WORSE''"
| "verdict_name INCONCLUSIVE = ''INCONCLUSIVE''" | "verdict_name INSUFFICIENT_DATA = ''INSUFFICIENT_DATA''"

definition arm_summary :: "benchmark_data row \<Rightarrow> json" where
  "arm_summary a =
     JObj [(''arm'', JStr (b_arm (contents a))), (''trials'', JNum (Fin (of_int (b_trials (contents a))))),
       (''successRate'', JNum (b_successRate (contents a))), (''avgCostUsd'', JNum (b_avgCostUsd (contents a))),
       (''avgCompletionMs'', JNum (b_avgCompletionMs (contents a)))]"

definition benchmarkSummary :: "request_context option \<Rightarrow> string \<Rightarrow> evolution \<Rightarrow> evolution_error + obj" where
  "benchmarkSummary ctx i s =
     bindE (forCandidate ctx i s) (\<lambda>xs.
       case xs of
         [] \<Rightarrow> Inr []
       | e # _ \<Rightarrow>
           bindE (forExperiment ctx (row_id e) s) (\<lambda>arms.
             Inr [(''experimentId'', JStr (row_id e)), (''mode'', JStr (mode_name (x_mode (contents e)))),
               (''verdict'', case x_verdict (contents e) of None \<Rightarrow> Null | Some v \<Rightarrow> JStr (verdict_name v)),
               (''confidence'', JNum (x_confidence (contents e))),
               (''conclusion'', case x_conclusion (contents e) of None \<Rightarrow> Null | Some c \<Rightarrow> JStr c),
               (''arms'', JArr (map arm_summary arms))]))"

definition findApproval :: "request_context option \<Rightarrow> string \<Rightarrow> evolution
    \<Rightarrow> evolution_error + deployment_data row option" where
  "findApproval ctx i s =
     bindE (lift_repo (findMany DEPLOYMENTS ctx
         [(''candidateId'', \<lambda>r. d_candidate (contents r) = Some i), (''status'', \<lambda>r. d_status (contents r) = PENDING)]
         (no_options\<lparr>take_at_most := Some 1, orderBy := Some latest_created\<rparr>) (deployments s)))
       (\<lambda>pending. Inr (case pending of [] \<Rightarrow> None | d # _ \<Rightarrow> Some d))"

definition owner_in :: "model \<Rightarrow> request_context option \<Rightarrow> string \<Rightarrow> obj table \<Rightarrow> repo_error + string option" where
  "owner_in M ctx i t = bindE (findById M ctx i no_options t) (\<lambda>found. Inr (map_option row_org found))"

definition resolveOwner :: "request_context option \<Rightarrow> subject \<Rightarrow> string \<Rightarrow> evolution \<Rightarrow> evolution_error + string" where
  "resolveOwner ctx sub i s =
     lift_repo (bindE (require ctx) (\<lambda>c.
       bindE (case sub of
                WORKER \<Rightarrow> owner_in WORKERS ctx i (workers s)
              | WORKFLOW \<Rightarrow> owner_in WORKFLOWS ctx i (workflows s)
              | PROVIDER \<Rightarrow> owner_in PROVIDERS ctx i (providers s)
              | _ \<Rightarrow> Inr None)
         (\<lambda>found. Inr (case found of
              Some org \<Rightarrow> org
            | None \<Rightarrow> if sub = PLANNING \<or> sub = ORGANIZATION then Repository.organizationId c else ''unknown''))))"

text \<open>The intent \<open>verdictOf\<close> submits.\<close>

definition intent_of :: "request_context \<Rightarrow> candidate_data row \<Rightarrow> obj \<Rightarrow> policy_decision \<Rightarrow> deployment_data row option
    \<Rightarrow> string \<Rightarrow> benchmark_verdict option \<Rightarrow> deployment_intent" where
  "intent_of c k prior decision approval owner bv =
     \<lparr>deployment_intent.organizationId = row_org k, actorId = userId c,
      actorPermissions = Repository.permissions c, subject = k_subject (contents k),
      subjectId = k_subjectId (contents k), subjectOrganizationId = owner, kind = kind_name (k_kind (contents k)),
      change = k_change (contents k), rollback = prior,
      approvedById = (case approval of None \<Rightarrow> None | Some a \<Rightarrow> d_approvedBy (contents a)),
      approvedAt = (case approval of None \<Rightarrow> None | Some a \<Rightarrow> map_option nat (d_approvedAt (contents a))),
      policyRequiresApproval = needs_person decision, policySatisfied = satisfied decision,
      policyReason = EvolutionPolicy.reason decision, confidence = k_confidence (contents k),
      benchmarkVerdict = bv, auditable = True\<rparr>"

text \<open>Steps 1 to 3 of \<open>deploy\<close>, which \<open>preflight\<close> repeats: what there is, the policy, the constitution.\<close>

record reviewed =
  rv_before :: obj
  rv_decision :: policy_decision
  rv_approval :: "deployment_data row option"
  rv_verdict :: constitution_verdict

definition submit :: "evolution_env \<Rightarrow> request_context option \<Rightarrow> request_context \<Rightarrow> int \<Rightarrow> candidate_data row \<Rightarrow> reviewed evo" where
  "submit env ctx c now k =
     bindS (readS (readCurrent ctx (k_subject (contents k)) (k_subjectId (contents k)) (keys (k_change (contents k))))) (\<lambda>prior.
     bindS (readS (weakestArmTrials ctx (row_id k))) (\<lambda>trials.
     bindS (evaluate_here ctx now (contents k) trials) (\<lambda>decision.
     bindS (readS (findApproval ctx (row_id k))) (\<lambda>approval.
     bindS (readS (resolveOwner ctx (k_subject (contents k)) (k_subjectId (contents k)))) (\<lambda>owner.
     bindS (readS (benchmark_verdict_of ctx (row_id k))) (\<lambda>bv.
     doneS \<lparr>rv_before = prior, rv_decision = decision, rv_approval = approval,
            rv_verdict = review (sha256 env) (value_text env) (intent_of c k prior decision approval owner bv)\<rparr>))))))"

section \<open>Approval\<close>

definition approve :: "evolution_env \<Rightarrow> request_context option \<Rightarrow> int \<Rightarrow> string \<Rightarrow> string option \<Rightarrow> candidate_data row evo" where
  "approve env ctx now i notes =
     bindS (readS (\<lambda>_. lift_repo (require ctx))) (\<lambda>c.
     bindS (readS (find_candidate ctx i)) (\<lambda>k.
     bindS (readS (forCandidate ctx i)) (\<lambda>xs.
     if list_ex (\<lambda>e. x_verdict (contents e) = Some WORSE) (filter concluded xs)
     then throwS (BadRequest (''The benchmark found this change performs worse than what it replaces. '' @
            ''Re-propose it with different evidence rather than approving past the measurement.''))
     else if k_status (contents k) \<noteq> VALIDATED \<and> filter concluded xs = []
     then throwS (BadRequest (''This candidate is '' @ candidate_status_lower (k_status (contents k)) @
            '' and no experiment has concluded. Run one first '' @ dash @
            '' PRISM-X does not deploy unmeasured changes.''))
     else bindS (create_deployment env ctx now
            ((blank_deployment k)\<lparr>d_approvedBy := Some (userId c), d_approvedAt := Some now, d_notes := notes,
               d_applied := obj_column (k_change (contents k)), d_rollback := obj_column (k_rollback (contents k)),
               d_constitution := CONSTITUTION_VERSION (sha256 env) (value_text env)\<rparr>)) (\<lambda>_.
          doneS k))))"

section \<open>Writing to production\<close>

definition write_table :: "evolution_env \<Rightarrow> subject \<Rightarrow> model \<Rightarrow> request_context option \<Rightarrow> string \<Rightarrow> obj \<Rightarrow> obj table
    \<Rightarrow> (evolution_error + unit) \<times> obj table" where
  "write_table env sub M ctx i ch t =
     (case write_fault env sub i ch t of
        Some msg \<Rightarrow> (Inl (Database msg), t)
      | None \<Rightarrow> (case update_row M ctx i (assign_fields env ch) t of
                   (Inl e, t') \<Rightarrow> (Inl (Repo e), t') | (Inr r, t') \<Rightarrow> (Inr (), t')))"

definition write_subject :: "evolution_env \<Rightarrow> request_context option \<Rightarrow> subject \<Rightarrow> string \<Rightarrow> obj \<Rightarrow> unit evo" where
  "write_subject env ctx sub i ch s =
     (case sub of
        WORKER \<Rightarrow> (case write_table env sub WORKERS ctx i ch (workers s) of (r, t) \<Rightarrow> (r, s\<lparr>workers := t\<rparr>))
      | WORKFLOW \<Rightarrow> (case write_table env sub WORKFLOWS ctx i ch (workflows s) of (r, t) \<Rightarrow> (r, s\<lparr>workflows := t\<rparr>))
      | PROVIDER \<Rightarrow> (case write_table env sub PROVIDERS ctx i ch (providers s) of (r, t) \<Rightarrow> (r, s\<lparr>providers := t\<rparr>))
      | _ \<Rightarrow> (Inl (BadRequest (subject_name sub @ '' changes have no automatic form and must be made by a person.'')), s))"

section \<open>Deployment\<close>

record deploy_result =
  r_deployment :: "deployment_data row"
  r_deployed :: bool
  r_refusal :: "(string list \<times> string list) option"

fun error_message :: "evolution_error \<Rightarrow> string" where
  "error_message (Repo (Missing m)) = m"
| "error_message (Repo (Unusable m)) = m"
| "error_message (BadRequest m) = m"
| "error_message (Database m) = m"

text \<open>\<open>toISOString().slice(0, 10)\<close> of a time in milliseconds, for years of four digits.\<close>

definition civil :: "int \<Rightarrow> int \<times> int \<times> int" where
  "civil t =
     (let z = t div 86400000 + 719468; era = z div 146097; doe = z mod 146097;
          yoe = (doe - doe div 1460 + doe div 36524 - doe div 146096) div 365;
          doy = doe - (365 * yoe + yoe div 4 - yoe div 100); mp = (5 * doy + 2) div 153;
          m = (if mp < 10 then mp + 3 else mp - 9)
      in (yoe + era * 400 + (if m \<le> 2 then 1 else 0), m, doy - (153 * mp + 2) div 5 + 1))"

definition pad :: "nat \<Rightarrow> int \<Rightarrow> string" where
  "pad n i = (let s = show_int i in replicate (n - length s) (CHR ''0'') @ s)"

definition iso_day :: "int \<Rightarrow> string" where
  "iso_day t = (case civil t of (y, m, d) \<Rightarrow> pad 4 y @ ''-'' @ pad 2 m @ ''-'' @ pad 2 d)"

definition law_text :: "law_verdict \<Rightarrow> string" where
  "law_text v = lawId v @ '': '' @ (case law_verdict.reason v of None \<Rightarrow> ''undefined'' | Some r \<Rightarrow> r)"

definition reason_or_empty :: "law_verdict \<Rightarrow> string" where
  "reason_or_empty v = (case law_verdict.reason v of None \<Rightarrow> [] | Some r \<Rightarrow> r)"

fun risk_name :: "risk_level \<Rightarrow> string" where
  "risk_name LOW = ''LOW''" | "risk_name MEDIUM = ''MEDIUM''" | "risk_name HIGH = ''HIGH''"
| "risk_name CRITICAL = ''CRITICAL''"

definition violation_record :: "request_context \<Rightarrow> candidate_data row \<Rightarrow> reviewed \<Rightarrow> string \<Rightarrow> law_verdict \<Rightarrow> violation_data" where
  "violation_record c k rv dep v =
     \<lparr>w_law = lawId v, w_reason = reason_or_empty v, w_subject = k_subject (contents k),
      w_subjectId = k_subjectId (contents k), w_kind = k_kind (contents k), w_candidate = row_id k,
      w_deployment = dep,
      w_intent = obj_column [(''change'', JObj (k_change (contents k))),
        (''confidence'', JNum (k_confidence (contents k))), (''risk'', JStr (risk_name (k_risk (contents k))))],
      w_constitution = constitution_verdict.version (rv_verdict rv), w_actor = userId c\<rparr>"

definition report_violation :: "evolution_env \<Rightarrow> request_context option \<Rightarrow> request_context \<Rightarrow> candidate_data row \<Rightarrow> reviewed
    \<Rightarrow> string \<Rightarrow> law_verdict \<Rightarrow> unit evo" where
  "report_violation env ctx c k rv dep v =
     bindS (create_violation env ctx (violation_record c k rv dep v)) (\<lambda>_.
     publish (ConstitutionViolated (lawId v) (law_verdict.reason v) (row_id k) dep))"

definition refusal_record :: "request_context \<Rightarrow> candidate_data row \<Rightarrow> reviewed \<Rightarrow> deployment_data" where
  "refusal_record c k rv =
     (blank_deployment k)\<lparr>d_status := REFUSED, d_applied := obj_column (k_change (contents k)),
        d_rollback := obj_column (rv_before rv), d_constitution := constitution_verdict.version (rv_verdict rv),
        d_lawVerdicts := checked (rv_verdict rv), d_policySatisfied := satisfied (rv_decision rv),
        d_policyReason := EvolutionPolicy.reason (rv_decision rv), d_deployedBy := Some (userId c),
        d_notes := Some (join ''; '' (map law_text (violations (rv_verdict rv))))\<rparr>"

definition refuse :: "evolution_env \<Rightarrow> request_context option \<Rightarrow> request_context \<Rightarrow> int \<Rightarrow> candidate_data row \<Rightarrow> reviewed
    \<Rightarrow> deploy_result evo" where
  "refuse env ctx c now k rv =
     bindS (create_deployment env ctx now (refusal_record c k rv)) (\<lambda>dep.
     bindS (eachS (report_violation env ctx c k rv (row_id dep)) (violations (rv_verdict rv))) (\<lambda>_.
     bindS (publish (EvolutionDeploymentRefused (row_id dep) (row_id k) (map lawId (violations (rv_verdict rv))))) (\<lambda>_.
     doneS \<lparr>r_deployment = dep, r_deployed = False,
            r_refusal = Some (map lawId (violations (rv_verdict rv)), map reason_or_empty (violations (rv_verdict rv)))\<rparr>)))"

text \<open>Step 5 of \<open>deploy\<close> with its \<open>catch\<close>: the write, the activation, and the record of a failure.\<close>

definition apply_change :: "evolution_env \<Rightarrow> request_context option \<Rightarrow> int \<Rightarrow> candidate_data row \<Rightarrow> string \<Rightarrow> string \<Rightarrow> unit evo" where
  "apply_change env ctx now k ver dep =
     catchS
       (bindS (write_subject env ctx (k_subject (contents k)) (k_subjectId (contents k)) (k_change (contents k))) (\<lambda>_.
        bindS (activate ctx now ver) (\<lambda>_. doneS ())))
       (\<lambda>e. bindS (update_deployment ctx dep (\<lambda>d. d\<lparr>d_status := FAILED,
                     d_notes := Some (''Write failed: '' @ error_message e)\<rparr>)) (\<lambda>_.
            throwS e))"

definition candidate_version :: "candidate_data row \<Rightarrow> int \<Rightarrow> aspect_value \<Rightarrow> obj \<Rightarrow> version_input" where
  "candidate_version k now asp prior =
     \<lparr>n_subject = k_subject (contents k), n_subjectId = k_subjectId (contents k), n_aspect = asp,
      n_payload = k_change (contents k), n_previous = Some prior, n_label = Some (''deployed '' @ iso_day now),
      n_notes = Some (k_description (contents k)), n_origin = Some CANDIDATE, n_candidate = Some (row_id k),
      n_benchmark = None\<rparr>"

definition deployment_row :: "request_context \<Rightarrow> int \<Rightarrow> candidate_data row \<Rightarrow> reviewed \<Rightarrow> evolution_policy \<Rightarrow> string \<Rightarrow> obj
    \<Rightarrow> deployment_data" where
  "deployment_row c now k rv pol ver summary =
     (blank_deployment k)\<lparr>d_version := Some ver, d_applied := obj_column (k_change (contents k)),
        d_rollback := obj_column (rv_before rv), d_constitution := constitution_verdict.version (rv_verdict rv),
        d_passed := True, d_lawVerdicts := checked (rv_verdict rv),
        d_policySatisfied := satisfied (rv_decision rv),
        d_approvedBy := Option.bind (rv_approval rv) (\<lambda>a. d_approvedBy (contents a)),
        d_approvedAt := Option.bind (rv_approval rv) (\<lambda>a. d_approvedAt (contents a)),
        d_deployedBy := Some (userId c), d_monitorUntil := Some (now + monitorWindowMinutes pol * 60000),
        d_summary := summary\<rparr>"

definition put_into_production :: "evolution_env \<Rightarrow> request_context option \<Rightarrow> request_context \<Rightarrow> int \<Rightarrow> candidate_data row \<Rightarrow> reviewed
    \<Rightarrow> deploy_result evo" where
  "put_into_production env ctx c now k rv =
     bindS (policy_here ctx) (\<lambda>pol.
     bindS (readS (\<lambda>_. aspectForChange env (k_subject (contents k)) (k_change (contents k)))) (\<lambda>asp.
     bindS (capture env ctx now (candidate_version k now asp (rv_before rv))) (\<lambda>ver.
     bindS (readS (benchmarkSummary ctx (row_id k))) (\<lambda>summary.
     bindS (create_deployment env ctx now (deployment_row c now k rv pol (row_id ver) summary)) (\<lambda>dep.
     bindS (apply_change env ctx now k (row_id ver) (row_id dep)) (\<lambda>_.
     bindS (update_deployment ctx (row_id dep) (\<lambda>d. d\<lparr>d_status := MONITORING, d_deployedAt := Some now\<rparr>)) (\<lambda>deployed.
     bindS (setStatus env ctx (row_id k) candidate_status.DEPLOYED (\<lambda>d. d)) (\<lambda>_.
     bindS (publish (EvolutionDeployed (row_id deployed) (row_id k) (k_subject (contents k)) (k_subjectId (contents k))
              (k_kind (contents k)) (constitution_verdict.version (rv_verdict rv)))) (\<lambda>_.
     doneS \<lparr>r_deployment = deployed, r_deployed = True, r_refusal = None\<rparr>)))))))))"

definition deploy :: "evolution_env \<Rightarrow> request_context option \<Rightarrow> int \<Rightarrow> string \<Rightarrow> bool \<Rightarrow> deploy_result evo" where
  "deploy env ctx now i force =
     bindS (readS (\<lambda>_. lift_repo (require ctx))) (\<lambda>c.
     bindS (readS (find_candidate ctx i)) (\<lambda>k.
     if k_status (contents k) = candidate_status.DEPLOYED
     then throwS (BadRequest ''That candidate is already deployed'')
     else if k_status (contents k) \<noteq> VALIDATED \<and> \<not> force
     then throwS (BadRequest (''Only a validated candidate can be deployed; this one is '' @
            candidate_status_lower (k_status (contents k)) @ ''.''))
     else
       bindS (submit env ctx c now k) (\<lambda>rv.
       if \<not> permitted (rv_verdict rv) then refuse env ctx c now k rv
       else put_into_production env ctx c now k rv)))"

definition preflight :: "evolution_env \<Rightarrow> request_context option \<Rightarrow> int \<Rightarrow> string
    \<Rightarrow> (bool \<times> constitution_verdict \<times> policy_decision) evo" where
  "preflight env ctx now i =
     bindS (readS (\<lambda>_. lift_repo (require ctx))) (\<lambda>c.
     bindS (readS (find_candidate ctx i)) (\<lambda>k.
     bindS (submit env ctx c now k) (\<lambda>rv.
     doneS (permitted (rv_verdict rv) \<and> satisfied (rv_decision rv), rv_verdict rv, rv_decision rv))))"

section \<open>Rollback\<close>

definition rollback_version :: "deployment_data \<Rightarrow> string \<Rightarrow> aspect_value \<Rightarrow> version_input" where
  "rollback_version d why asp =
     \<lparr>n_subject = d_subject d, n_subjectId = d_subjectId d, n_aspect = asp, n_payload = d_rollback d,
      n_previous = Some (d_applied d), n_label = Some ''rollback'', n_notes = Some why, n_origin = Some ROLLBACK,
      n_candidate = d_candidate d, n_benchmark = None\<rparr>"

definition rolled_back :: "request_context option \<Rightarrow> int \<Rightarrow> string \<Rightarrow> bool \<Rightarrow> deployment_data \<Rightarrow> deployment_data" where
  "rolled_back ctx now why auto d =
     d\<lparr>d_status := ROLLED_BACK, d_rolledBackAt := Some now,
       d_rolledBackBy := (if auto then Some ''system'' else map_option userId ctx),
       d_rollbackReason := Some why, d_automatic := auto, d_healthy := Some False\<rparr>"

definition rollback_deployment :: "evolution_env \<Rightarrow> request_context option \<Rightarrow> int \<Rightarrow> string \<Rightarrow> string \<Rightarrow> bool
    \<Rightarrow> deployment_data row evo" where
  "rollback_deployment env ctx now i why auto =
     bindS (readS (get_deployment ctx i)) (\<lambda>r.
     let d = contents r in
     if d_status d \<noteq> MONITORING \<and> d_status d \<noteq> DEPLOYED \<and> d_status d \<noteq> SETTLED
     then throwS (BadRequest (''A '' @ deployment_status_lower (d_status d) @ '' deployment cannot be rolled back''))
     else if keys (d_rollback d) = []
     then throwS (BadRequest (''This deployment recorded no rollback state, which should have been impossible.''))
     else
       bindS (write_subject env ctx (d_subject d) (d_subjectId d) (d_rollback d)) (\<lambda>_.
       bindS (readS (\<lambda>_. aspectForChange env (d_subject d) (d_rollback d))) (\<lambda>asp.
       bindS (capture env ctx now (rollback_version d why asp)) (\<lambda>reverted.
       bindS (activate ctx now (row_id reverted)) (\<lambda>_.
       bindS (update_deployment ctx i (rolled_back ctx now why auto)) (\<lambda>back.
       bindS (case d_candidate d of
                None \<Rightarrow> doneS ()
              | Some k \<Rightarrow> if k = [] then doneS ()
                  else setStatus env ctx k REJECTED (\<lambda>x. x\<lparr>k_rejectedReason := Some (''Rolled back: '' @ why)\<rparr>)) (\<lambda>_.
       bindS (publish (EvolutionRolledBack i (d_subject d) (d_subjectId d) why auto)) (\<lambda>_.
       doneS back))))))))"

section \<open>Monitoring\<close>

definition ratio :: "nat \<Rightarrow> nat \<Rightarrow> number" where
  "ratio f n = round_double (of_nat f / of_nat n)"

text \<open>\<open>(x * 100).toFixed(0)\<close>, below 10^21.\<close>

fun fixed0 :: "number \<Rightarrow> string" where
  "fixed0 (Fin y) = (if y < 0 then ''-'' @ show_int (floor (- y + 1 / 2)) else show_int (floor (y + 1 / 2)))"
| "fixed0 PosInf = ''Infinity''" | "fixed0 NegInf = ''-Infinity''" | "fixed0 NaN = ''NaN''"

fun percent :: "number \<Rightarrow> string" where
  "percent (Fin x) = fixed0 (round_double (x * 100))"
| "percent x = fixed0 x"

text \<open>\<open>Number(x.toFixed(4))\<close> of a rate.\<close>

fun four_places :: "number \<Rightarrow> number" where
  "four_places (Fin x) = round_double (of_int (floor (x * 10000 + 1 / 2)) / 10000)"
| "four_places x = x"

definition failing :: "evolution_policy \<Rightarrow> nat \<Rightarrow> number \<Rightarrow> bool" where
  "failing pol trials rate \<longleftrightarrow>
     autoRollbackEnabled pol \<and> trials \<ge> 5 \<and> num_le (autoRollbackThreshold pol) rate"

definition observe :: "evolution_env \<Rightarrow> request_context option \<Rightarrow> int \<Rightarrow> string \<Rightarrow> bool \<Rightarrow> unit evo" where
  "observe env ctx now i succeeded =
     bindS (readS (\<lambda>s. lift_repo (findById DEPLOYMENTS ctx i no_options (deployments s)))) (\<lambda>found.
     case found of
       None \<Rightarrow> doneS ()
     | Some r \<Rightarrow>
         if d_status (contents r) \<noteq> MONITORING then doneS ()
         else
           let trials = d_trials (contents r) + 1;
               failures = d_failures (contents r) + (if succeeded then 0 else 1) in
           bindS (update_deployment ctx i (\<lambda>d. d\<lparr>d_trials := trials, d_failures := failures\<rparr>)) (\<lambda>_.
           bindS (policy_here ctx) (\<lambda>pol.
           if failing pol trials (ratio failures trials)
           then bindS (rollback_deployment env ctx now i
                  (''Automatic: '' @ show_nat failures @ '' of '' @ show_nat trials @
                   '' monitored executions failed, above the '' @ percent (autoRollbackThreshold pol) @ ''% threshold.'')
                  True) (\<lambda>_. doneS ())
           else doneS ())))"

text \<open>The context \<open>asOrganization\<close> runs in.\<close>

definition sweep_context :: "int \<Rightarrow> string \<Rightarrow> request_context" where
  "sweep_context now org =
     \<lparr>userId = ''system'', organizationId = org, roleKey = ''SYSTEM'', permissions = [''*''],
      requestId = ''deploy-sweep-'' @ show_int now, ip = None, userAgent = None\<rparr>"

definition failure_rate :: "deployment_data \<Rightarrow> number" where
  "failure_rate d = (if d_trials d > 0 then ratio (d_failures d) (d_trials d) else Fin 0)"

text \<open>One round of \<open>sweep\<close>, on the row as it was read: \<open>Inl\<close> settled, \<open>Inr\<close> rolled back.\<close>

definition settle_one :: "evolution_env \<Rightarrow> int \<Rightarrow> deployment_data row \<Rightarrow> (string + string) evo" where
  "settle_one env now r =
     (let ctx = Some (sweep_context now (row_org r)); d = contents r; rate = failure_rate d in
      bindS (policy_here ctx) (\<lambda>pol.
      if failing pol (d_trials d) rate
      then bindS (rollback_deployment env ctx now (row_id r)
             (''Automatic: '' @ percent rate @ ''% of monitored executions failed.'') True) (\<lambda>_.
           doneS (Inr (row_id r)))
      else
        bindS (update_deployment ctx (row_id r) (\<lambda>x. x\<lparr>d_status := SETTLED,
                 d_healthy := (if d_trials d > 0 then Some (num_lt rate (autoRollbackThreshold pol)) else None)\<rparr>)) (\<lambda>_.
        bindS (publish (EvolutionDeploymentSettled (row_id r) (d_trials d) (four_places rate))) (\<lambda>_.
        doneS (Inl (row_id r))))))"

definition sweep :: "evolution_env \<Rightarrow> int \<Rightarrow> (string list \<times> string list) evo" where
  "sweep env now =
     bindS (readS (\<lambda>s. Inr (findSettleableUnscoped now s))) (\<lambda>rows.
     bindS (mapS (settle_one env now) rows) (\<lambda>results.
     doneS (List.map_filter (\<lambda>x. case x of Inl i \<Rightarrow> Some i | Inr _ \<Rightarrow> None) results,
            List.map_filter (\<lambda>x. case x of Inl _ \<Rightarrow> None | Inr i \<Rightarrow> Some i) results)))"
end
