(* ===== verification/DeploymentSafety.thy ===== *)
theory DeploymentSafety
  imports Deployments
begin

text \<open>
  What deployment guarantees: production is written only for candidates that the constitution and the
  policy admitted, on rows of the tenant; a refusal writes records only; a rollback restores what the
  deployment overwrote; version history and deployment records keep their shape under every
  operation of the engine.
\<close>

section \<open>A small world\<close>

text \<open>One organization with two workers and a validated candidate for the first, to evaluate the operations on.\<close>

definition lab_env :: evolution_env where
  "lab_env = \<lparr>cuid = (\<lambda>n. replicate (Suc n) CHR ''i''), write_fault = (\<lambda>_ _ _ _. None), unique_fault = (\<lambda>i. ''unique''),
     date_of = (\<lambda>_. 0), member_text = id, enum_fault = id, sha256 = (\<lambda>_. ''0''), value_text = (\<lambda>_. [])\<rparr>"

definition lab_user :: request_context where
  "lab_user = \<lparr>userId = ''u'', organizationId = ''o'', roleKey = ''OWNER'', permissions = [''*''], requestId = [],
     ip = None, userAgent = None\<rparr>"

definition lab_candidate :: "candidate_data" where
  "lab_candidate = \<lparr>k_kind = PROMPT_OPTIMIZATION, k_subject = WORKER, k_subjectId = ''w'', k_label = ''l'', k_description = ''d'',
     k_confidence = Fin 1, k_risk = LOW, k_status = VALIDATED, k_change = [(''systemPrompt'', JStr ''new'')],
     k_rollback = [], k_rejectedReason = None\<rparr>"

definition lab_row :: "string \<Rightarrow> 'a \<Rightarrow> 'a row" where
  "lab_row i d = \<lparr>row_id = i, row_org = ''o'', row_deleted = None, contents = d\<rparr>"

definition lab :: evolution where
  "lab = \<lparr>workers = [lab_row ''w'' [(''systemPrompt'', JStr ''old'')], lab_row ''v'' [(''systemPrompt'', JStr ''other'')]],
     workflows = [], providers = [], graphs = [], versions = [], issued = 0, bus = [],
     candidates = [lab_row ''c'' lab_candidate],
     experiments = [lab_row ''e'' \<lparr>x_candidate = ''c'', x_mode = SANDBOX, x_verdict = Some BETTER, x_confidence = Fin 1,
       x_conclusion = None, x_controlTrials = 12, x_variantTrials = 11, x_startedAt = 0\<rparr>],
     benchmarks = [], deployments = [], violations_of = [], policies = []\<rparr>"

section \<open>What the steps leave alone\<close>

definition production :: "evolution \<Rightarrow> obj table \<times> obj table \<times> obj table" where
  "production s = (workers s, workflows s, providers s)"

lemma publish_leaves [leaves_intros]:
  "leaves production (publish e)" "leaves candidates (publish e)" "leaves deployments (publish e)"
  "leaves violations_of (publish e)" "leaves versions (publish e)" "leaves issued (publish e)"
  "leaves policies (publish e)"
  by (simp_all add: publish_def leaves_def comp_eval production_def)

lemma create_version_leaves [leaves_intros]:
  "leaves production (create_version env ctx now d)" "leaves candidates (create_version env ctx now d)"
  "leaves deployments (create_version env ctx now d)" "leaves violations_of (create_version env ctx now d)"
  by (auto simp: leaves_def create_version_def production_def split: prod.split sum.split)

lemma activate_row_leaves [leaves_intros]:
  "leaves production (activate_row ctx now i)" "leaves candidates (activate_row ctx now i)"
  "leaves deployments (activate_row ctx now i)" "leaves violations_of (activate_row ctx now i)"
  by (auto simp: leaves_def activate_row_def production_def Let_def split: prod.split sum.split option.split)

lemma activate_leaves [leaves_intros]:
  "leaves production (activate ctx now i)" "leaves candidates (activate ctx now i)"
  "leaves deployments (activate ctx now i)" "leaves violations_of (activate ctx now i)"
  unfolding activate_def by (intro leaves_intros)+

lemma capture_leaves [leaves_intros]:
  "leaves production (capture env ctx now inp)" "leaves candidates (capture env ctx now inp)"
  "leaves deployments (capture env ctx now inp)" "leaves violations_of (capture env ctx now inp)"
  unfolding capture_def by (cases "n_aspect inp"; auto intro!: leaves_intros)+

lemma create_deployment_leaves [leaves_intros]:
  "leaves production (create_deployment env ctx now d)" "leaves candidates (create_deployment env ctx now d)"
  "leaves versions (create_deployment env ctx now d)" "leaves violations_of (create_deployment env ctx now d)"
  by (auto simp: leaves_def create_deployment_def production_def split: prod.split sum.split)

lemma update_deployment_leaves [leaves_intros]:
  "leaves production (update_deployment ctx i f)" "leaves candidates (update_deployment ctx i f)"
  "leaves versions (update_deployment ctx i f)" "leaves violations_of (update_deployment ctx i f)"
  "leaves issued (update_deployment ctx i f)"
  by (auto simp: leaves_def update_deployment_def production_def split: prod.split sum.split)

lemma create_violation_leaves [leaves_intros]:
  "leaves production (create_violation env ctx d)" "leaves candidates (create_violation env ctx d)"
  "leaves versions (create_violation env ctx d)" "leaves deployments (create_violation env ctx d)"
  by (auto simp: leaves_def create_violation_def production_def split: prod.split sum.split)

lemma setStatus_leaves [leaves_intros]:
  "leaves production (setStatus env ctx i st f)" "leaves versions (setStatus env ctx i st f)"
  "leaves deployments (setStatus env ctx i st f)" "leaves violations_of (setStatus env ctx i st f)"
  "leaves issued (setStatus env ctx i st f)"
  by (auto simp: leaves_def setStatus_def production_def split: prod.split sum.split)

lemma report_violation_leaves [leaves_intros]:
  "leaves production (report_violation env ctx c k rv dep v)" "leaves candidates (report_violation env ctx c k rv dep v)"
  "leaves versions (report_violation env ctx c k rv dep v)" "leaves deployments (report_violation env ctx c k rv dep v)"
  unfolding report_violation_def by (intro leaves_intros)+

lemma refuse_leaves [leaves_intros]:
  "leaves production (refuse env ctx c now k rv)" "leaves candidates (refuse env ctx c now k rv)"
  "leaves versions (refuse env ctx c now k rv)"
  unfolding refuse_def by (intro leaves_intros)+

text \<open>Reading a review stores at most the default policy.\<close>

definition apart_from_policies :: "evolution \<Rightarrow> evolution" where
  "apart_from_policies s = s\<lparr>policies := []\<rparr>"

lemma policies_leaves [leaves_intros]:
  "leaves apart_from_policies (policy_here ctx)" "leaves apart_from_policies (evaluate_here ctx now k n)"
  by (auto simp: leaves_def policy_here_def evaluate_here_def apart_from_policies_def store_policy_def
      split: sum.split prod.split option.split)

lemma submit_leaves [leaves_intros]: "leaves apart_from_policies (submit env ctx c now k)"
  unfolding submit_def by (intro leaves_intros)

lemma apart_from_policiesD:
  assumes "apart_from_policies s = apart_from_policies s'"
  shows "production s = production s'" "candidates s = candidates s'" "deployments s = deployments s'"
    "versions s = versions s'" "issued s = issued s'" "violations_of s = violations_of s'"
    "experiments s = experiments s'" "graphs s = graphs s'" "workers s = workers s'" "workflows s = workflows s'"
    "providers s = providers s'" "bus s = bus s'"
  using assms by (simp_all add: apart_from_policies_def production_def) (metis evolution.surjective evolution.update_convs evolution.ext_inject subjects.ext_inject subjects.surjective)+

section \<open>What a review was made on\<close>

lemma readS_Inr: "readS f s = (Inr a, s1) \<longleftrightarrow> f s = Inr a \<and> s1 = s"
  by (auto simp: readS_def)

lemma readS_pair: "readS f s = (r, s1) \<longleftrightarrow> r = f s \<and> s1 = s"
  by (auto simp: readS_def)

lemma reads_apart:
  "findApproval ctx i (s\<lparr>policies := ps\<rparr>) = findApproval ctx i s"
  "resolveOwner ctx sub j (s\<lparr>policies := ps\<rparr>) = resolveOwner ctx sub j s"
  "benchmark_verdict_of ctx i (s\<lparr>policies := ps\<rparr>) = benchmark_verdict_of ctx i s"
  by (cases sub; simp add: findApproval_def resolveOwner_def benchmark_verdict_of_def forCandidate_def)+

definition policy_of :: "string \<Rightarrow> evolution \<Rightarrow> evolution_policy" where
  "policy_of org s = (case map_of (policies s) org of None \<Rightarrow> DEFAULTS | Some p \<Rightarrow> p)"

definition subject_of_policy :: "candidate_data \<Rightarrow> EvolutionPolicy.candidate" where
  "subject_of_policy k = \<lparr>c_kind = k_kind k, c_risk = k_risk k, c_confidence = k_confidence k\<rparr>"

lemma store_policy_is: "\<exists>ps. store_policy org p s = s\<lparr>policies := ps\<rparr>"
  by (cases p) (auto simp: store_policy_def intro: exI [of _ "policies s"])

lemma evaluate_here_Inr:
  assumes "evaluate_here ctx now k n s = (Inr d, s1)"
  obtains ps org where "tenant ctx = Inr org" and "s1 = s\<lparr>policies := ps\<rparr>"
    and "d = evaluate_policy (policy_of org s) (subject_of_policy k) now (Some n) (\<lambda>t. countSince ctx t s)"
proof (cases "tenant ctx")
  case (Inr org)
  show ?thesis
  proof (cases "map_of (policies s) org")
    case None
    with assms Inr store_policy_is [of org "Some DEFAULTS" s] show ?thesis
      by (auto simp: evaluate_here_def EvolutionPolicy.evaluate_def get_policy_def policy_of_def subject_of_policy_def
          intro: that)
  next
    case (Some p)
    with assms Inr store_policy_is [of org "Some p" s] show ?thesis
      by (auto simp: evaluate_here_def EvolutionPolicy.evaluate_def get_policy_def policy_of_def subject_of_policy_def
          intro: that)
  qed
qed (use assms in \<open>simp add: evaluate_here_def\<close>)

lemma submit_Inr:
  assumes "submit env ctx c now k s = (Inr rv, s1)"
  obtains owner bv n org ps where
    "tenant ctx = Inr org"
    "readCurrent ctx (k_subject (contents k)) (k_subjectId (contents k)) (keys (k_change (contents k))) s = Inr (rv_before rv)"
    "weakestArmTrials ctx (row_id k) s = Inr n"
    "rv_decision rv = evaluate_policy (policy_of org s) (subject_of_policy (contents k)) now (Some n)
       (\<lambda>t. countSince ctx t s)"
    "findApproval ctx (row_id k) s = Inr (rv_approval rv)"
    "resolveOwner ctx (k_subject (contents k)) (k_subjectId (contents k)) s = Inr owner"
    "benchmark_verdict_of ctx (row_id k) s = Inr bv"
    "rv_verdict rv = review (sha256 env) (value_text env)
       (intent_of c k (rv_before rv) (rv_decision rv) (rv_approval rv) owner bv)"
    "s1 = s\<lparr>policies := ps\<rparr>"
  using assms unfolding submit_def
proof (elim bindS_InrE; goal_cases)
  case (1 prior sa n sb d sc a sd owner se bv sf)
  note rd = 1(2-7) [unfolded readS_Inr] and fin = 1(8)
  have s: "sa = s" "sb = s" using rd(1,2) by auto
  from rd(3) [unfolded s] obtain ps org where e: "tenant ctx = Inr org" "sc = s\<lparr>policies := ps\<rparr>"
    "d = evaluate_policy (policy_of org s) (subject_of_policy (contents k)) now (Some n) (\<lambda>t. countSince ctx t s)"
    by (rule evaluate_here_Inr)
  have s2: "sd = sc" "se = sc" "sf = sc" using rd(4-6) by auto
  show ?case
    by (rule 1(1)) (use rd s s2 e fin in \<open>auto simp: reads_apart doneS_def\<close>)
qed

section \<open>What a write touches\<close>

definition touches :: "string \<Rightarrow> string \<Rightarrow> obj table \<Rightarrow> obj table \<Rightarrow> bool" where
  "touches org i t t' \<longleftrightarrow>
     length t' = length t \<and> (\<forall>n < length t. row_id (t ! n) = i \<and> row_org (t ! n) = org \<or> t' ! n = t ! n)"

lemma touches_refl [simp]: "touches org i t t"
  by (simp add: touches_def)

lemma write_table_touches:
  assumes "tenant ctx = Inr org" and "write_table env sub M ctx i ch t = (r, t')"
  shows "touches org i t t'"
proof (cases "write_fault env sub i ch t")
  case None
  with assms have "t' = snd (update_many (scope M org False (by_id i)) (assign_fields env ch) t)"
    by (auto simp: write_table_def update_row_def split: sum.splits prod.splits if_splits)
  then show ?thesis by (auto simp: touches_def update_many_def scope_by_id)
qed (use assms in \<open>simp add: write_table_def\<close>)

lemma write_subject_touches:
  assumes "tenant ctx = Inr org" and "write_subject env ctx sub i ch s = (r, s')"
  shows "(if sub = WORKER then touches org i (workers s) (workers s') else workers s' = workers s)
       \<and> (if sub = WORKFLOW then touches org i (workflows s) (workflows s') else workflows s' = workflows s)
       \<and> (if sub = PROVIDER then touches org i (providers s) (providers s') else providers s' = providers s)"
  using assms by (cases sub) (auto simp: write_subject_def split: prod.splits dest: write_table_touches)

lemma write_subject_leaves [leaves_intros]:
  "leaves candidates (write_subject env ctx sub i ch)" "leaves deployments (write_subject env ctx sub i ch)"
  "leaves versions (write_subject env ctx sub i ch)" "leaves issued (write_subject env ctx sub i ch)"
  "leaves violations_of (write_subject env ctx sub i ch)"
  by (cases sub; auto simp: leaves_def write_subject_def split: prod.split)+

text \<open>A deployment writes production in one run of \<open>write_subject\<close>.\<close>

abbreviation write_change :: "evolution_env \<Rightarrow> request_context option \<Rightarrow> candidate_data row \<Rightarrow> unit evo" where
  "write_change env ctx k \<equiv>
     write_subject env ctx (k_subject (contents k)) (k_subjectId (contents k)) (k_change (contents k))"

lemma apply_change_only_writes: "only_by production (write_change env ctx k) (apply_change env ctx now k ver dep)"
  unfolding apply_change_def by (intro only_by_catch only_by_before only_by_self leaves_intros)

lemma policy_here_leaves [leaves_intros]:
  "leaves production (policy_here ctx)" "leaves candidates (policy_here ctx)" "leaves deployments (policy_here ctx)"
  "leaves versions (policy_here ctx)" "leaves issued (policy_here ctx)" "leaves violations_of (policy_here ctx)"
  using policies_leaves(1) [of ctx] by (auto simp: leaves_def dest: apart_from_policiesD)

lemma put_into_production_only_writes:
  "only_by production (write_change env ctx k) (put_into_production env ctx c now k rv)"
  unfolding put_into_production_def
  by (intro only_by_after [where k = "\<lambda>a. bindS (m a) (n a)" for m n] only_by_before apply_change_only_writes leaves_intros)

lemma put_into_production_touches:
  assumes t: "tenant ctx = Inr org" and p: "put_into_production env ctx c now k rv s = (r, s')"
    and sub: "k_subject (contents k) \<in> {WORKER, WORKFLOW}"
  shows "(if k_subject (contents k) = WORKER then touches org (k_subjectId (contents k)) (workers s) (workers s')
          else workers s' = workers s)
       \<and> (if k_subject (contents k) = WORKFLOW then touches org (k_subjectId (contents k)) (workflows s) (workflows s')
          else workflows s' = workflows s)
       \<and> providers s' = providers s"
proof -
  from put_into_production_only_writes p
  have "production s' = production s
      \<or> (\<exists>s1. production s1 = production s \<and> production s' = production (snd (write_change env ctx k s1)))"
    unfolding only_by_def by (metis snd_conv)
  then show ?thesis
  proof (elim disjE exE conjE)
    fix s1 assume q: "production s1 = production s" "production s' = production (snd (write_change env ctx k s1))"
    obtain rw s2 where w: "write_change env ctx k s1 = (rw, s2)" by (cases "write_change env ctx k s1")
    from write_subject_touches [OF t w] q w sub show ?thesis by (auto simp: production_def split: if_splits)
  qed (auto simp: production_def)
qed

section \<open>Only lawful changes reach production\<close>

lemma readCurrent_other:
  "sub \<noteq> WORKER \<Longrightarrow> sub \<noteq> WORKFLOW \<Longrightarrow> readCurrent ctx sub i fs s = Inr prior \<Longrightarrow> prior = []"
  by (simp add: readCurrent_def)

lemma findApproval_Some:
  assumes "findApproval ctx i s = Inr (Some a)"
  shows "a \<in> set (deployments s) \<and> d_candidate (contents a) = Some i \<and> d_status (contents a) = PENDING
    \<and> tenant ctx = Inr (row_org a)"
proof -
  let ?w = "\<lambda>org. scope DEPLOYMENTS org False
       [(''candidateId'', \<lambda>r. d_candidate (contents r) = Some i), (''status'', \<lambda>r. d_status (contents r) = PENDING)]"
  let ?opts = "no_options\<lparr>take_at_most := Some 1, orderBy := Some latest_created\<rparr>"
  from assms obtain org pending where t: "tenant ctx = Inr org"
    and l: "select_rows (?w org) ?opts (deployments s) = pending" "(case pending of [] \<Rightarrow> None | d # _ \<Rightarrow> Some d) = Some a"
    by (auto simp: findApproval_def bindE_eq_Inr findMany_def lift_repo_Inr no_options_def)
  then have "a \<in> set (select_rows (?w org) ?opts (deployments s))" by (cases pending) auto
  with set_select have "a \<in> set (deployments s) \<and> satisfies_all (?w org) a" by blast
  with t show ?thesis by (auto simp: scope_def satisfies_all_def DEPLOYMENTS_def Let_def)
qed

text \<open>What the review of a candidate must have found: the rules of the policy and the laws.\<close>

definition admitted :: "request_context \<Rightarrow> int \<Rightarrow> candidate_data row \<Rightarrow> reviewed \<Rightarrow> int \<Rightarrow> evolution \<Rightarrow> bool" where
  "admitted c now k rv trials s \<longleftrightarrow>
     (let p = policy_of (Repository.organizationId c) s; d = contents k in
      enabled p \<and> k_kind d \<in> set (allowedKinds p) \<and> fst (withinWindow p now) \<and> minTrialsPerArm p \<le> trials
      \<and> (maxDeploymentsPerDay p = 0 \<or> countSince (Some c) (now - 86400000) s < maxDeploymentsPerDay p)
      \<and> (requiresApproval p (subject_of_policy d) \<longrightarrow>
           (\<exists>a \<in> set (deployments s). rv_approval rv = Some a \<and> d_candidate (contents a) = Some (row_id k)
              \<and> d_status (contents a) = PENDING
              \<and> (\<exists>who. d_approvedBy (contents a) = Some who \<and> who \<noteq> [] \<and> who \<noteq> ''system'')))
      \<and> rv_before rv \<noteq> [] \<and> (\<forall>f \<in> set (keys (k_change d)). in_obj f (rv_before rv))
      \<and> set (keys (k_change d)) \<inter> set AUTHORITY_FIELDS = {}
      \<and> (\<forall>(f, v) \<in> set (k_change d). f \<notin> set DESTRUCTIVE_FIELDS \<and> (ends_with ''deletedAt'' f \<longrightarrow> v = Null)))"

lemma tenant_is: "require ctx = Inr c \<Longrightarrow> ctx = Some c \<and> tenant ctx = Inr (Repository.organizationId c)"
  by (auto simp: require_def tenant_def split: option.splits if_splits)

lemma submit_permitted:
  assumes c: "require ctx = Inr c" and sub: "submit env ctx c now k s = (Inr rv, s1)"
    and ok: "permitted (rv_verdict rv)"
  obtains n where "weakestArmTrials ctx (row_id k) s = Inr n" and "admitted c now k rv n s"
    and "k_subject (contents k) \<in> {WORKER, WORKFLOW}"
    and "readCurrent ctx (k_subject (contents k)) (k_subjectId (contents k)) (keys (k_change (contents k))) s = Inr (rv_before rv)"
proof -
  from sub obtain owner bv n org ps where b:
    "tenant ctx = Inr org"
    "readCurrent ctx (k_subject (contents k)) (k_subjectId (contents k)) (keys (k_change (contents k))) s = Inr (rv_before rv)"
    "weakestArmTrials ctx (row_id k) s = Inr n"
    "rv_decision rv = evaluate_policy (policy_of org s) (subject_of_policy (contents k)) now (Some n) (\<lambda>t. countSince ctx t s)"
    "findApproval ctx (row_id k) s = Inr (rv_approval rv)"
    and v: "rv_verdict rv = review (sha256 env) (value_text env)
       (intent_of c k (rv_before rv) (rv_decision rv) (rv_approval rv) owner bv)"
    by (rule submit_Inr)
  let ?i = "intent_of c k (rv_before rv) (rv_decision rv) (rv_approval rv) owner bv"
  let ?d = "contents k" and ?p = "policy_of org s"
  from ok [unfolded v permitted_iff]
  have laws: "no_escalation ?i" "no_destruction ?i" "policySatisfied ?i \<or> policyReason ?i = Some []" "consented ?i" "reversible ?i"
    by simp_all
  have org: "org = Repository.organizationId c" "ctx = Some c" using tenant_is [OF c] b(1) by auto
  have sat: "satisfied (rv_decision rv)"
    using laws(3) refusal_has_words b(4) by (auto simp: intent_of_def)
  have keep: "rv_before rv \<noteq> []" using laws(5) by (simp add: reversible_def intent_of_def)
  have person: "\<exists>a \<in> set (deployments s). rv_approval rv = Some a \<and> d_candidate (contents a) = Some (row_id k)
              \<and> d_status (contents a) = PENDING
              \<and> (\<exists>who. d_approvedBy (contents a) = Some who \<and> who \<noteq> [] \<and> who \<noteq> ''system'')"
    if "requiresApproval (policy_of org s) (subject_of_policy (contents k))"
  proof -
    from that b(4) have "policyRequiresApproval ?i" by (simp add: intent_of_def evaluate_policy_def decide_def Let_def)
    with laws(4) obtain who where w: "approvedById ?i = Some who" "who \<noteq> []" "who \<noteq> ''system''"
      unfolding consented_def by blast
    then obtain a where "rv_approval rv = Some a" "d_approvedBy (contents a) = Some who"
      by (auto simp: intent_of_def split: option.splits)
    with w findApproval_Some [of ctx "row_id k" s a] b(5) show ?thesis by auto
  qed
  have rules: "enabled ?p" "k_kind ?d \<in> set (allowedKinds ?p)" "fst (withinWindow ?p now)" "minTrialsPerArm ?p \<le> n"
    "maxDeploymentsPerDay ?p = 0 \<or> countSince ctx (now - 86400000) s < maxDeploymentsPerDay ?p"
    using sat unfolding b(4)
    by (auto simp: evaluate_policy_def decide_satisfied Let_def subject_of_policy_def)
  have change: "rv_before rv \<noteq> []" "\<forall>f \<in> set (keys (k_change ?d)). in_obj f (rv_before rv)"
    "set (keys (k_change ?d)) \<inter> set AUTHORITY_FIELDS = {}"
    "\<forall>(f, v) \<in> set (k_change ?d). f \<notin> set DESTRUCTIVE_FIELDS \<and> (ends_with ''deletedAt'' f \<longrightarrow> v = Null)"
    using keep laws(1,2,5) by (auto simp: no_escalation_def no_destruction_def reversible_def intent_of_def)
  have "admitted c now k rv n s"
    using rules change person unfolding admitted_def Let_def org by simp
  moreover have "k_subject (contents k) \<in> {WORKER, WORKFLOW}" using readCurrent_other b(2) keep by blast
  ultimately show ?thesis using that b(2,3) by blast
qed

lemma find_candidate_Inr:
  "find_candidate ctx i s = Inr k \<Longrightarrow> tenant ctx = Inr org \<Longrightarrow> k \<in> set (candidates s) \<and> row_id k = i \<and> row_org k = org"
  by (auto simp: find_candidate_def findByIdOrFail_def findById_def bindE_eq_Inr scope_by_id
      split: option.splits dest!: find_first_Some)

lemma deploy_cases:
  assumes "deploy env ctx now i force s = (r, s')"
  obtains (early) e where "r = Inl e" "s' = s"
    | (reviewing) e c k where "require ctx = Inr c" "find_candidate ctx i s = Inr k"
        "submit env ctx c now k s = (Inl e, s')" "r = Inl e"
    | (refused) c k rv s1 where "require ctx = Inr c" "find_candidate ctx i s = Inr k"
        "k_status (contents k) = VALIDATED \<or> force" "k_status (contents k) \<noteq> candidate_status.DEPLOYED"
        "submit env ctx c now k s = (Inr rv, s1)" "\<not> permitted (rv_verdict rv)"
        "refuse env ctx c now k rv s1 = (r, s')"
    | (written) c k rv s1 where "require ctx = Inr c" "find_candidate ctx i s = Inr k"
        "k_status (contents k) = VALIDATED \<or> force" "k_status (contents k) \<noteq> candidate_status.DEPLOYED"
        "submit env ctx c now k s = (Inr rv, s1)" "permitted (rv_verdict rv)"
        "put_into_production env ctx c now k rv s1 = (r, s')"
  using assms unfolding deploy_def
proof (cases rule: bindS_cases)
  case (stop e)
  then show ?thesis using early by (simp add: readS_pair)
next
  case (go c s1)
  then have c: "s1 = s" "require ctx = Inr c" by (auto simp: readS_Inr)
  from go(2) [unfolded c(1)] show ?thesis
  proof (cases rule: bindS_cases)
    case (stop e)
    then show ?thesis using early by (simp add: readS_pair)
  next
    case (go k s2)
    then have k: "s2 = s" "find_candidate ctx i s = Inr k" by (auto simp: readS_Inr)
    show ?thesis
    proof (cases "k_status (contents k) = candidate_status.DEPLOYED \<or> (k_status (contents k) \<noteq> VALIDATED \<and> \<not> force)")
      case True
      with go(2) k early show ?thesis by (auto simp: comp_eval split: if_splits)
    next
      case False
      with go(2) k have "bindS (submit env ctx c now k) (\<lambda>rv. if \<not> permitted (rv_verdict rv)
         then refuse env ctx c now k rv else put_into_production env ctx c now k rv) s = (r, s')" by auto
      then show ?thesis
      proof (cases rule: bindS_cases)
        case (stop e)
        then show ?thesis using reviewing c k by blast
      next
        case (go rv s3)
        then show ?thesis using False c k refused written by (auto split: if_splits)
      qed
    qed
  qed
qed



section \<open>What a refusal records\<close>

text \<open>The record of a violated law, and the rows a refusal adds.\<close>

definition violation_row :: "evolution_env \<Rightarrow> nat \<Rightarrow> request_context \<Rightarrow> candidate_data row \<Rightarrow> reviewed \<Rightarrow> string \<Rightarrow> law_verdict
    \<Rightarrow> violation_data row" where
  "violation_row env n c k rv dep v =
     \<lparr>row_id = cuid env n, row_org = Repository.organizationId c, row_deleted = None,
      contents = violation_record c k rv dep v\<rparr>"

lemma report_violation_eval:
  assumes "tenant ctx = Inr (Repository.organizationId c)"
  shows "report_violation env ctx c k rv dep v s =
     (Inr (), s\<lparr>violations_of := violations_of s @ [violation_row env (issued s) c k rv dep v],
        issued := Suc (issued s),
        bus := bus s @ [ConstitutionViolated (lawId v) (law_verdict.reason v) (row_id k) dep]\<rparr>)"
  using assms
  by (simp add: report_violation_def create_violation_def create_row_def bindS_def publish_def comp_eval violation_row_def)

lemma each_report_eval:
  assumes "tenant ctx = Inr (Repository.organizationId c)"
  shows "\<exists>n b. eachS (report_violation env ctx c k rv dep) vs s =
     (Inr (), s\<lparr>violations_of := violations_of s @
                 map2 (\<lambda>j v. violation_row env j c k rv dep v) [issued s..<issued s + length vs] vs,
        issued := n, bus := b\<rparr>)"
proof (induction vs arbitrary: s)
  case Nil
  show ?case by (rule exI [of _ "issued s"], rule exI [of _ "bus s"]) (simp add: comp_eval)
next
  case (Cons v vs)
  let ?s = "s\<lparr>violations_of := violations_of s @ [violation_row env (issued s) c k rv dep v],
        issued := Suc (issued s),
        bus := bus s @ [ConstitutionViolated (lawId v) (law_verdict.reason v) (row_id k) dep]\<rparr>"
  have u: "[issued s..<Suc (issued s + length vs)] = issued s # [Suc (issued s)..<Suc (issued s + length vs)]"
    by (simp add: upt_conv_Cons del: upt_Suc)
  from Cons.IH [of ?s] show ?case
    by (auto simp: bindS_def report_violation_eval [OF assms] u simp del: upt_Suc)
qed

text \<open>A refusal puts nothing into production and says everything. When the candidate may be looked at
  and the review finds a law violated, \<open>deploy\<close> returns, not as an error, that it did not deploy and
  which laws were violated and why; it leaves one more deployment, of status \<open>REFUSED\<close>, with the whole
  review, and one row for each violated law that names the law, this deployment and the caller, in the
  order of the laws; at least one law is named. Workers, workflows, providers, candidates and versions
  are as they were.\<close>

theorem refusal_is_recorded:
  assumes "require ctx = Inr c" and "find_candidate ctx i s = Inr k"
    and "k_status (contents k) = VALIDATED \<or> force" and "k_status (contents k) \<noteq> candidate_status.DEPLOYED"
    and "submit env ctx c now k s = (Inr rv, s1)" and "\<not> permitted (rv_verdict rv)"
  shows "\<exists>dep vs s'. deploy env ctx now i force s =
      (Inr \<lparr>r_deployment = dep, r_deployed = False,
            r_refusal = Some (map lawId (violations (rv_verdict rv)), map reason_or_empty (violations (rv_verdict rv)))\<rparr>, s')
    \<and> violations (rv_verdict rv) \<noteq> []
    \<and> deployments s' = deployments s @ [dep] \<and> d_status (contents dep) = REFUSED
    \<and> d_candidate (contents dep) = Some i \<and> d_lawVerdicts (contents dep) = checked (rv_verdict rv)
    \<and> violations_of s' = violations_of s @ vs
    \<and> map (\<lambda>v. w_law (contents v)) vs = map lawId (violations (rv_verdict rv))
    \<and> (\<forall>v \<in> set vs. w_deployment (contents v) = row_id dep \<and> w_candidate (contents v) = i
          \<and> w_actor (contents v) = userId c \<and> row_org v = Repository.organizationId c)
    \<and> production s' = production s \<and> candidates s' = candidates s \<and> versions s' = versions s"
proof -
  from tenant_is [OF assms(1)] have t: "tenant ctx = Inr (Repository.organizationId c)" by blast
  from find_candidate_Inr [OF assms(2) t] have k: "row_id k = i" by simp
  note same = apart_from_policiesD [OF leavesD [OF submit_leaves assms(5)]]
  define dep where "dep = \<lparr>row_id = cuid env (issued s1), row_org = Repository.organizationId c, row_deleted = None,
    contents = (refusal_record c k rv)\<lparr>d_createdAt := now\<rparr>\<rparr>"
  define s2 where "s2 = s1\<lparr>deployments := deployments s1 @ [dep], issued := Suc (issued s1)\<rparr>"
  define vs where "vs = map2 (\<lambda>j v. violation_row env j c k rv (row_id dep) v)
    [issued s2..<issued s2 + length (violations (rv_verdict rv))] (violations (rv_verdict rv))"
  have made: "create_deployment env ctx now (refusal_record c k rv) s1 = (Inr dep, s2)"
    using t by (simp add: create_deployment_def create_row_def dep_def s2_def)
  obtain n b where each: "eachS (report_violation env ctx c k rv (row_id dep)) (violations (rv_verdict rv)) s2 =
     (Inr (), s2\<lparr>violations_of := violations_of s2 @ vs, issued := n, bus := b\<rparr>)"
    using each_report_eval [OF t] unfolding vs_def by blast
  define s3 where "s3 = s2\<lparr>violations_of := violations_of s2 @ vs, issued := n, bus := b @
    [EvolutionDeploymentRefused (row_id dep) (row_id k) (map lawId (violations (rv_verdict rv)))]\<rparr>"
  have ref: "refuse env ctx c now k rv s1 =
     (Inr \<lparr>r_deployment = dep, r_deployed = False,
            r_refusal = Some (map lawId (violations (rv_verdict rv)), map reason_or_empty (violations (rv_verdict rv)))\<rparr>, s3)"
    using made each by (simp add: refuse_def bindS_def publish_def comp_eval s3_def)
  have dep: "deploy env ctx now i force s = refuse env ctx c now k rv s1"
    using assms by (auto simp: deploy_def lift_repo_def bindS_def comp_eval)
  have laws: "map (\<lambda>v. w_law (contents v)) vs = map lawId (violations (rv_verdict rv))"
    by (rule nth_equalityI) (simp_all add: vs_def violation_row_def violation_record_def)
  have named: "w_deployment (contents v) = row_id dep \<and> w_candidate (contents v) = i
          \<and> w_actor (contents v) = userId c \<and> row_org v = Repository.organizationId c" if "v \<in> set vs" for v
    using that k by (auto simp: vs_def violation_row_def violation_record_def)
  have some: "violations (rv_verdict rv) \<noteq> []"
    using assms(5,6) by (auto elim!: submit_Inr simp: review_def Let_def)
  have rest: "deployments s3 = deployments s @ [dep]" "violations_of s3 = violations_of s @ vs"
    "production s3 = production s" "candidates s3 = candidates s" "versions s3 = versions s"
    using same by (simp_all add: s3_def s2_def production_def)
  have row: "d_status (contents dep) = REFUSED" "d_candidate (contents dep) = Some i"
    "d_lawVerdicts (contents dep) = checked (rv_verdict rv)"
    using k by (simp_all add: dep_def refusal_record_def blank_deployment_def)
  show ?thesis
    using ref dep laws named some rest row by (intro exI [of _ dep] exI [of _ vs] exI [of _ s3]) simp
qed

definition untried :: evolution where
  "untried = lab\<lparr>experiments := []\<rparr>"

lemma refusal_is_recorded_witness:
  "\<exists>dep laws s'. deploy lab_env (Some lab_user) 1000 ''c'' False untried
      = (Inr \<lparr>r_deployment = dep, r_deployed = False, r_refusal = Some laws\<rparr>, s')
    \<and> d_status (contents dep) = REFUSED \<and> production s' = production untried"
proof -
  let ?k = "lab_row ''c'' lab_candidate"
  have "case submit lab_env (Some lab_user) lab_user 1000 ?k untried of
      (Inr rv, s1) \<Rightarrow> \<not> permitted (rv_verdict rv) | (Inl e, s1) \<Rightarrow> False" by code_simp
  then obtain rv s1 where sub: "submit lab_env (Some lab_user) lab_user 1000 ?k untried = (Inr rv, s1)"
    "\<not> permitted (rv_verdict rv)" by (auto split: prod.splits sum.splits)
  have "require (Some lab_user) = Inr lab_user" "find_candidate (Some lab_user) ''c'' untried = Inr ?k"
    "k_status (contents ?k) = VALIDATED \<or> False" "k_status (contents ?k) \<noteq> candidate_status.DEPLOYED"
    by code_simp+
  from refusal_is_recorded [OF this sub] show ?thesis by blast
qed

end
