(* ===== verification/Rollback.thy ===== *)
theory Rollback
  imports DeploymentSafety
begin

text \<open>
  The round trip of a deployment and its rollback: what a deployment overwrote is what the rollback
  writes back, so that after both every column of every worker and workflow has its value again.
\<close>

section \<open>Writing columns and writing them back\<close>

definition special :: "string set" where
  "special = {''id'', ''organizationId'', ''deletedAt''}"

text \<open>A value the database returns as it was stored.\<close>

definition storable :: "json \<Rightarrow> bool" where
  "storable v \<longleftrightarrow> v \<noteq> Undef \<and> json_column v = v"

definition same_row :: "obj row \<Rightarrow> obj row \<Rightarrow> bool" where
  "same_row r r' \<longleftrightarrow> (\<forall>f. field_of r f = field_of r' f)"

lemma assign_field_plain:
  assumes "f \<notin> special"
  shows "row_id (assign_field env (f, v) r) = row_id r" "row_org (assign_field env (f, v) r) = row_org r"
    "row_deleted (assign_field env (f, v) r) = row_deleted r"
    "field_of (assign_field env (f, v) r) g = (if g = f \<and> v \<noteq> Undef then v else field_of r g)"
  using assms by (auto simp: assign_field_def field_of_def special_def getp_def)

lemma assign_fields_plain:
  assumes "set (keys ch) \<inter> special = {}"
  shows "row_id (assign_fields env ch r) = row_id r \<and> row_org (assign_fields env ch r) = row_org r
    \<and> row_deleted (assign_fields env ch r) = row_deleted r
    \<and> (\<forall>g. g \<notin> set (keys ch) \<longrightarrow> field_of (assign_fields env ch r) g = field_of r g)"
  using assms unfolding assign_fields_def
proof (induction ch arbitrary: r)
  case (Cons e ch)
  obtain f v where e: "e = (f, v)" by (cases e)
  with Cons.prems have "f \<notin> special" "set (keys ch) \<inter> special = {}" by auto
  with Cons.IH [of "assign_field env e r"] show ?case by (simp add: e assign_field_plain)
qed simp

lemma assign_fields_map:
  assumes "set (keys ch) \<inter> special = {}" and "wf_obj ch" and "\<forall>(f, v) \<in> set ch. v \<noteq> Undef"
  shows "field_of (assign_fields env ch r) g = (case map_of ch g of Some v \<Rightarrow> v | None \<Rightarrow> field_of r g)"
  using assms
proof (induction ch arbitrary: r)
  case (Cons e ch)
  obtain f v where e: "e = (f, v)" by (cases e)
  with Cons.prems have f: "f \<notin> special" "set (keys ch) \<inter> special = {}" "f \<notin> set (keys ch)" by auto
  have step: "assign_fields env ((f, v) # ch) r = assign_fields env ch (assign_field env (f, v) r)"
    by (simp add: assign_fields_def)
  have "map_of ch f = None" using f(3) by (auto simp: map_of_eq_None_iff)
  with Cons.IH [of "assign_field env (f, v) r"] Cons.prems f show ?case
    by (auto simp: step e assign_field_plain split: option.splits)
qed (simp add: assign_fields_def)

lemma pick_map:
  "map_of (pick r fs m) g = (if g \<in> set fs then Some (field_of r g) else map_of m g)"
  "wf_obj m \<Longrightarrow> wf_obj (pick r fs m)"
  "fst ` set (pick r fs m) = set fs \<union> fst ` set m"
  unfolding pick_def by (induction fs arbitrary: m) (auto simp: inv_intros)

lemma obj_column_storable: "\<forall>(f, v) \<in> set m. storable v \<Longrightarrow> obj_column m = m"
  by (induction m) (auto simp: obj_column_def storable_def)

lemma pick_storable:
  assumes "\<forall>f \<in> set fs. storable (field_of r f)"
  shows "obj_column (pick r fs []) = pick r fs []" "\<forall>(f, v) \<in> set (pick r fs []). v \<noteq> Undef"
proof -
  have w: "wf_obj (pick r fs [])" by (rule pick_map(2)) simp
  have "storable v" if "(f, v) \<in> set (pick r fs [])" for f v
    using map_of_is_SomeI [OF w that] assms by (auto simp: pick_map split: if_splits)
  then show "obj_column (pick r fs []) = pick r fs []" "\<forall>(f, v) \<in> set (pick r fs []). v \<noteq> Undef"
    by (auto intro!: obj_column_storable simp: storable_def)
qed

lemma written_back:
  assumes "set (keys ch) \<inter> special = {}" and "\<forall>f \<in> set (keys ch). storable (field_of r f)"
  shows "same_row r (assign_fields env (pick r (keys ch) []) (assign_fields env ch r))"
proof -
  have k: "set (keys (pick r (keys ch) [])) \<inter> special = {}" using assms(1) by (simp add: pick_map(3))
  have w: "wf_obj (pick r (keys ch) [])" by (rule pick_map(2)) simp
  show ?thesis unfolding same_row_def
    using assign_fields_plain [OF assms(1)] 
    by (simp add: assign_fields_map [OF k w pick_storable(2) [OF assms(2)]] pick_map(1))
qed

text \<open>Tables with the same values in every column of every row.\<close>

definition same_values :: "obj table \<Rightarrow> obj table \<Rightarrow> bool" where
  "same_values t t' \<longleftrightarrow> list_all2 same_row t t'"

lemma same_row_refl [simp]: "same_row r r"
  by (simp add: same_row_def)

lemma same_values_refl [simp]: "same_values t t"
  by (simp add: same_values_def list_all2_refl)

lemma write_table_visible:
  assumes "tenant ctx = Inr org" and "unique_ids t" and "r \<in> set t" and "visible M org False r"
    and "set (keys ch) \<inter> special = {}" and "write_fault env sub (row_id r) ch t = None"
  shows "write_table env sub M ctx (row_id r) ch t
     = (Inr (), map (\<lambda>x. if x = r then assign_fields env ch r else x) t)"
proof -
  have "visible M org False (assign_fields env ch r)"
    using assms(4) assign_fields_plain [OF assms(5), of env r] by (simp add: visible_def)
  with update_row_visible [OF assms(1-4), of "assign_fields env ch"] assign_fields_plain [OF assms(5), of env r] assms(6)
  show ?thesis by (simp add: write_table_def)
qed

lemma write_table_back:
  assumes t: "tenant ctx = Inr org" "tenant ctx' = Inr org" and u: "unique_ids t" and r: "r \<in> set t" "visible M org False r"
    and k: "set (keys ch) \<inter> special = {}" "\<forall>f \<in> set (keys ch). storable (field_of r f)"
    and w: "write_table env sub M ctx (row_id r) ch t = (Inr (), t1)"
    and accepts: "\<forall>t. write_fault env sub (row_id r) (pick r (keys ch) []) t = None"
  shows "\<exists>t2. write_table env sub M ctx' (row_id r) (pick r (keys ch) []) t1 = (Inr (), t2) \<and> same_values t t2"
proof -
  let ?a = "assign_fields env ch r" and ?p = "pick r (keys ch) []"
  have fault: "write_fault env sub (row_id r) ch t = None" using w by (auto simp: write_table_def split: option.splits)
  from write_table_visible [OF t(1) u r k(1) this] w
  have t1: "t1 = map (\<lambda>x. if x = r then ?a else x) t" by simp
  note plain = assign_fields_plain [OF k(1), of env r]
  have ids: "map row_id t1 = map row_id t" using plain unfolding t1 by auto
  with u have u1: "unique_ids t1" by (simp add: unique_ids_def)
  have a: "?a \<in> set t1" using r(1) unfolding t1 by auto
  have v: "visible M org False ?a" using r(2) plain by (simp add: visible_def)
  have kp: "set (keys ?p) \<inter> special = {}" using k(1) by (simp add: pick_map(3))
  from write_table_visible [OF t(2) u1 a v kp] accepts plain
  have "write_table env sub M ctx' (row_id r) ?p t1 = (Inr (), map (\<lambda>x. if x = ?a then assign_fields env ?p ?a else x) t1)" by simp
  moreover have "same_values t (map (\<lambda>x. if x = ?a then assign_fields env ?p ?a else x) t1)"
  proof -
    have "same_row x (if y = ?a then assign_fields env ?p ?a else y)"
      if "x \<in> set t" "y = (if x = r then ?a else x)" for x y
    proof (cases "x = r")
      case True
      with that written_back [OF k] show ?thesis by simp
    next
      case False
      with that have "y = x" by simp
      moreover have "row_id x \<noteq> row_id ?a" using unique_idsD [OF u that(1) r(1)] False plain by auto
      ultimately show ?thesis by auto
    qed
    then show ?thesis unfolding t1 same_values_def by (auto simp: list_all2_conv_all_nth)
  qed
  ultimately show ?thesis by blast
qed

section \<open>What a deployment leaves\<close>

definition issued_from :: "nat \<Rightarrow> 's subjects_scheme \<Rightarrow> bool" where
  "issued_from n s \<longleftrightarrow> n \<le> issued s"

lemma issued_from_create [keeps_intros]: "keeps (issued_from n) (create_version env ctx now d)"
  by (auto simp: keeps_def issued_from_def create_version_def split: prod.split sum.split)

lemma issued_from_publish [keeps_intros]: "keeps (issued_from n) (publish e)"
  unfolding publish_def by (rule keeps_change) (simp add: issued_from_def)

lemma issued_from_capture [keeps_intros]: "keeps (issued_from n) (capture env ctx now inp)"
  unfolding capture_def by (cases "n_aspect inp") (auto intro!: keeps_intros)

lemma apply_change_Inr:
  assumes "apply_change env ctx now k ver dep s = (Inr (), s')"
  obtains s1 where "write_change env ctx k s = (Inr (), s1)" and "production s' = production s1"
    and "deployments s' = deployments s"
proof -
  let ?m = "bindS (write_change env ctx k) (\<lambda>_. bindS (activate ctx now ver) (\<lambda>_. doneS ()))"
  from assms have m: "?m s = (Inr (), s')"
    by (auto simp: apply_change_def catchS_def bindS_def comp_eval split: prod.splits sum.splits)
  then obtain s1 where w: "write_change env ctx k s = (Inr (), s1)"
    and a: "bindS (activate ctx now ver) (\<lambda>_. doneS ()) s1 = (Inr (), s')" by (auto elim: bindS_InrE)
  have "leaves production (bindS (activate ctx now ver) (\<lambda>_. doneS ()) :: unit evo)"
    "leaves deployments (bindS (activate ctx now ver) (\<lambda>_. doneS ()) :: unit evo)" by (intro leaves_intros)+
  with a w leavesD [OF write_subject_leaves(2) w] show ?thesis by (metis leavesD that)
qed

lemma create_deployment_Inr:
  assumes "create_deployment env ctx now d s = (Inr r, s')" and "tenant ctx = Inr org"
  shows "r = \<lparr>row_id = cuid env (issued s), row_org = org, row_deleted = None, contents = d\<lparr>d_createdAt := now\<rparr>\<rparr>
    \<and> s' = s\<lparr>deployments := deployments s @ [r], issued := Suc (issued s)\<rparr>"
  using assms by (auto simp: create_deployment_def create_row_def)

lemma put_into_production_Inr:
  assumes "put_into_production env ctx c now k rv s = (Inr res, s')" and t: "tenant ctx = Inr org"
  obtains dep d ver summary pol n s1 s2 where
    "issued s \<le> n" and "production s1 = production s" and "write_change env ctx k s1 = (Inr (), s2)"
    and "production s' = production s2" and "r_deployed res" and "r_deployment res = dep"
    and "d = (deployment_row c now k rv pol ver summary)\<lparr>d_createdAt := now\<rparr>"
    and "update_row DEPLOYMENTS ctx (cuid env n)
       (\<lambda>r. r\<lparr>contents := (contents r)\<lparr>d_status := MONITORING, d_deployedAt := Some now\<rparr>\<rparr>)
       (deployments s @ [\<lparr>row_id = cuid env n, row_org = org, row_deleted = None, contents = d\<rparr>])
       = (Inr dep, deployments s')"
  using assms(1) unfolding put_into_production_def
proof (elim bindS_InrE, goal_cases)
  case (1 pol sa asp sb ver sc summary sd new se u sf deployed sg u' sh u'' si)
  note r = 1(2-11)
  have b: "sb = sa" "sd = sc" using r(2,4) by (auto simp: readS_Inr)
  have n: "issued s \<le> issued sd"
    using leavesD [OF policy_here_leaves(5) r(1)] keepsD [OF issued_from_capture _ r(3), of "issued s"] b
    by (simp add: issued_from_def)
  have d0: "deployments sd = deployments s" "production sd = production s"
    using leavesD [OF policy_here_leaves(1) r(1)] leavesD [OF policy_here_leaves(3) r(1)]
      leavesD [OF capture_leaves(1) r(3)] leavesD [OF capture_leaves(3) r(3)] b by simp_all
  note cr = create_deployment_Inr [OF r(5) t]
  from r(6) obtain sx where sx: "write_change env ctx k se = (Inr (), sx)" "production sf = production sx"
    "deployments sf = deployments se" by (auto elim: apply_change_Inr)
  have fin: "s' = si" "res = \<lparr>r_deployment = deployed, r_deployed = True, r_refusal = None\<rparr>"
    using r(10) by (auto simp: doneS_def)
  have p: "production si = production sf" "deployments si = deployments sg"
    using leavesD [OF update_deployment_leaves(1) r(7)] leavesD [OF setStatus_leaves(1) r(8)] leavesD [OF publish_leaves(1) r(9)]
      leavesD [OF setStatus_leaves(3) r(8)] leavesD [OF publish_leaves(3) r(9)] by simp_all
  have upd: "update_row DEPLOYMENTS ctx (row_id new)
       (\<lambda>r. r\<lparr>contents := (contents r)\<lparr>d_status := MONITORING, d_deployedAt := Some now\<rparr>\<rparr>) (deployments sf)
       = (Inr deployed, deployments sg)"
    using r(7) by (auto simp: update_deployment_def split: prod.splits sum.splits)
  show ?case
    by (rule 1(1) [of "issued sd" se sx deployed "(deployment_row c now k rv pol (row_id ver) summary)\<lparr>d_createdAt := now\<rparr>"])
      (use n cr sx p fin upd d0 in \<open>simp_all add: production_def\<close>)
qed

section \<open>Rolling back\<close>

lemma setStatus_or_not_leaves [leaves_intros]:
  "leaves production (case x of None \<Rightarrow> doneS () | Some k \<Rightarrow> if k = [] then doneS () else setStatus env ctx k st f)"
  by (cases x) (auto intro!: leaves_intros)

lemma rollback_writes:
  assumes "get_deployment ctx i s = Inr r" and "d_status (contents r) \<in> {MONITORING, DEPLOYED, SETTLED}"
    and "keys (d_rollback (contents r)) \<noteq> []"
    and "write_subject env ctx (d_subject (contents r)) (d_subjectId (contents r)) (d_rollback (contents r)) s = (Inr (), s1)"
    and "rollback_deployment env ctx now i why auto s = (res, s2)"
  shows "production s2 = production s1"
proof -
  have step: "bindS (write_subject env ctx (d_subject (contents r)) (d_subjectId (contents r)) (d_rollback (contents r))) k s
      = (res, s2) \<Longrightarrow> (\<And>a. leaves production (k a)) \<Longrightarrow> production s2 = production s1"
    for k :: "unit \<Rightarrow> deployment_data row evo"
    using assms(4) by (auto elim!: bindS_cases dest: leavesD)
  from assms(5) [unfolded rollback_deployment_def bind_readS_Inr [where f = "get_deployment ctx i", OF assms(1)]] assms(2,3)
  show ?thesis by (auto simp: Let_def intro!: leaves_intros elim!: step)
qed

text \<open>
  What makes a change restorable: ids are unique, it names neither the columns that identify a row nor
  the steps of a workflow (which are no column of it), the values it replaces are ones the database
  returns as they were stored, and the database accepts them again.
\<close>

definition storable_in :: "candidate_data \<Rightarrow> obj table \<Rightarrow> bool" where
  "storable_in k t \<longleftrightarrow> unique_ids t
     \<and> (\<forall>r \<in> set t. row_id r = k_subjectId k \<longrightarrow> (\<forall>f \<in> set (keys (k_change k)). storable (field_of r f)))"

definition restorable :: "evolution_env \<Rightarrow> candidate_data \<Rightarrow> evolution \<Rightarrow> bool" where
  "restorable env k s \<longleftrightarrow> set (keys (k_change k)) \<inter> insert ''steps'' special = {}
     \<and> storable_in k (if k_subject k = WORKER then workers s else workflows s)
     \<and> (\<forall>r \<in> set (workers s) \<union> set (workflows s). \<forall>t.
          write_fault env (k_subject k) (k_subjectId k) (pick r (keys (k_change k)) []) t = None)"

text \<open>The row a candidate changes, as \<open>readCurrent\<close> found it.\<close>

lemma subject_row:
  assumes t: "tenant ctx = Inr org" and some: "prior \<noteq> []"
    and rd: "readCurrent ctx sub i fs s = Inr prior" and sub: "sub = WORKER \<or> sub = WORKFLOW \<and> ''steps'' \<notin> set fs"
  obtains r where "r \<in> set (if sub = WORKER then workers s else workflows s)" and "row_id r = i"
    and "visible (if sub = WORKER then WORKERS else WORKFLOWS) org False r" and "prior = pick r fs []"
proof (cases "sub = WORKER")
  case True
  with assms that show ?thesis
    by (auto simp: readCurrent_def findById_def scope_by_id visible_def no_options_def split: option.splits dest!: find_first_Some)
next
  case False
  with sub have w: "sub = WORKFLOW" "filter (\<lambda>f. f \<noteq> ''steps'') fs = fs" by (auto simp: filter_id_conv)
  with assms that show ?thesis
    by (auto simp: readCurrent_def findById_def scope_by_id visible_def no_options_def bindE_eq_Inr split: option.splits dest!: find_first_Some)
qed

lemma deployed_row:
  assumes u: "update_row DEPLOYMENTS ctx (cuid env n) f (t @ [r]) = (Inr dep, t')"
    and t: "tenant ctx = Inr org" and r: "row_id r = cuid env n" "row_org r = org"
    and f: "\<And>x. row_id (f x) = row_id x \<and> row_org (f x) = row_org x"
    and ids: "inj (cuid env)" "fresh_ids env m t" "m \<le> n"
  shows "dep = f r \<and> t' = t @ [f r]"
proof -
  have old: "row_id x \<noteq> row_id r" if "x \<in> set t" for x
  proof
    assume "row_id x = row_id r"
    with that ids(2) obtain k where "k < m" "cuid env k = cuid env n" unfolding fresh_ids_def by (metis r(1))
    with injD [OF ids(1)] ids(3) show False by force
  qed
  then have "row_id r \<notin> row_id ` set t" by (metis imageE)
  with ids(2) have uq: "unique_ids (t @ [r])" by (auto simp: fresh_ids_def unique_ids_def)
  have vr: "visible DEPLOYMENTS org False r" "visible DEPLOYMENTS org False (f r)"
    using r f by (simp_all add: visible_def DEPLOYMENTS_def)
  have "update_row DEPLOYMENTS ctx (row_id r) f (t @ [r])
     = (Inr (f r), map (\<lambda>x. if x = r then f r else x) (t @ [r]))"
    using update_row_visible [OF t uq _ vr(1)] f vr(2) by simp
  moreover have "map (\<lambda>x. if x = r then f r else x) t = t" using old by (intro map_idI) auto
  ultimately show ?thesis using u r(1) by simp
qed

lemma find_last: "\<forall>x \<in> set t. \<not> P x \<Longrightarrow> List.find P (t @ [r]) = (if P r then Some r else None)"
  by (induction t) auto

lemma get_fresh_deployment:
  assumes "deployments s = t @ [dep]" and "tenant ctx = Inr (row_org dep)"
    and "\<forall>x \<in> set t. row_id x \<noteq> row_id dep"
  shows "get_deployment ctx (row_id dep) s = Inr dep"
proof -
  let ?w = "scope DEPLOYMENTS (row_org dep) False (by_id (row_id dep)) :: deployment_data conditions"
  have "find_first ?w (deployments s) = Some dep"
    using assms(3) unfolding assms(1) find_first_def by (subst find_last) (auto simp: scope_by_id DEPLOYMENTS_def)
  then show ?thesis
    using assms(2) by (simp add: get_deployment_def findByIdOrFail_def findById_def no_options_def)
qed

lemma write_change_back:
  assumes t: "tenant ctx = Inr org" "tenant ctx' = Inr org" and k: "restorable env k s"
    and sub: "k_subject k \<in> {WORKER, WORKFLOW}" and some: "prior \<noteq> []"
    and rd: "readCurrent ctx (k_subject k) (k_subjectId k) (keys (k_change k)) s = Inr prior"
    and w: "write_subject env ctx (k_subject k) (k_subjectId k) (k_change k) sa = (Inr (), sb)"
    and p: "production sa = production s" "production sc = production sb"
  shows "obj_column prior = prior \<and> (\<exists>sd. write_subject env ctx' (k_subject k) (k_subjectId k) prior sc = (Inr (), sd)
     \<and> same_values (workers s) (workers sd) \<and> same_values (workflows s) (workflows sd) \<and> providers sd = providers s)"
proof -
  let ?w = "k_subject k = WORKER"
  let ?M = "if ?w then WORKERS else WORKFLOWS" and ?t = "if ?w then workers s else workflows s"
  have "?w \<or> k_subject k = WORKFLOW \<and> ''steps'' \<notin> set (keys (k_change k))" using sub k by (auto simp: restorable_def)
  from subject_row [OF t(1) some rd this] obtain r where r: "r \<in> set ?t" "row_id r = k_subjectId k" "visible ?M org False r"
    and prior: "prior = pick r (keys (k_change k)) []" by metis
  from k r(1,2) have st: "unique_ids ?t" "\<forall>f \<in> set (keys (k_change k)). storable (field_of r f)"
    "set (keys (k_change k)) \<inter> special = {}" unfolding restorable_def storable_in_def by (metis, metis, blast)
  have acc: "\<forall>t. write_fault env (k_subject k) (row_id r) (pick r (keys (k_change k)) []) t = None"
    using k r(1,2) unfolding restorable_def by (auto split: if_splits)
  obtain t1 where "write_table env (k_subject k) ?M ctx (row_id r) (k_change k) ?t = (Inr (), t1)"
    and t1: "t1 = (if ?w then workers sb else workflows sb)"
    using w p(1) sub r(2) by (auto simp: write_subject_def production_def split: prod.splits)
  from write_table_back [OF t st(1) r(1,3) st(3,2) this(1) acc] obtain t2 where
    "write_table env (k_subject k) ?M ctx' (row_id r) prior t1 = (Inr (), t2)" "same_values ?t t2"
    unfolding prior by blast
  then have "\<exists>sd. write_subject env ctx' (k_subject k) (k_subjectId k) prior sc = (Inr (), sd)
     \<and> same_values (workers s) (workers sd) \<and> same_values (workflows s) (workflows sd) \<and> providers sd = providers s"
    using w p sub r(2) unfolding t1 by (auto simp: write_subject_def production_def split: prod.splits)
  with pick_storable(1) [OF st(2)] prior show ?thesis by blast
qed

lemma refuse_never_deploys: "refuse env ctx c now k rv s = (Inr res, s') \<Longrightarrow> \<not> r_deployed res"
  unfolding refuse_def by (elim bindS_InrE) (auto simp: doneS_def)


lemma lab_ids: "inj (cuid lab_env)"
  by (auto simp: lab_env_def inj_def dest: arg_cong [where f = length])

lemma lab_restorable: "restorable lab_env lab_candidate lab"
  by (auto simp: restorable_def storable_in_def storable_def special_def lab_env_def lab_candidate_def lab_def lab_row_def
      unique_ids_def field_of_def getp_def)


end
