(* ===== verification/EvolutionEngine.thy ===== *)
theory EvolutionEngine
  imports Rollback
begin

text \<open>
  The operations of the evolution engine in any order: what a record of a deployment holds in each
  status and how it moves, that the version history only grows, and what a taken slot does. The
  operations are those of \<open>Deployments\<close> and \<open>Versions\<close>, composed by \<open>evolution_step\<close>.
\<close>

section \<open>Records of deployments\<close>

text \<open>
  What a record of each status holds. A pending record is the approval of a person; no record is ever
  in status \<open>DEPLOYED\<close>, which the code reads and never writes.
\<close>

definition in_effect :: "deployment_data \<Rightarrow> bool" where
  "in_effect d \<longleftrightarrow> d_passed d \<and> list_all law_verdict.passed (d_lawVerdicts d) \<and> d_policySatisfied d
     \<and> d_version d \<noteq> None \<and> d_deployedBy d \<noteq> None \<and> d_monitorUntil d \<noteq> None"

definition sound :: "deployment_data \<Rightarrow> bool" where
  "sound d \<longleftrightarrow>
     (case d_status d of
        PENDING \<Rightarrow> d_approvedBy d \<noteq> None \<and> d_approvedAt d \<noteq> None \<and> d_version d = None \<and> \<not> d_passed d
      | REFUSED \<Rightarrow> \<not> d_passed d \<and> d_version d = None \<and> d_notes d \<noteq> None
          \<and> list_ex (\<lambda>v. \<not> law_verdict.passed v) (d_lawVerdicts d)
      | DEPLOYED \<Rightarrow> False
      | FAILED \<Rightarrow> in_effect d \<and> d_notes d \<noteq> None \<and> d_deployedAt d = None
      | MONITORING \<Rightarrow> in_effect d \<and> d_deployedAt d \<noteq> None \<and> d_rolledBackAt d = None
      | SETTLED \<Rightarrow> in_effect d \<and> d_deployedAt d \<noteq> None \<and> d_rolledBackAt d = None
      | ROLLED_BACK \<Rightarrow> in_effect d \<and> d_deployedAt d \<noteq> None \<and> d_rolledBackAt d \<noteq> None
          \<and> d_rollbackReason d \<noteq> None \<and> d_healthy d = Some False)"

fun moves :: "deployment_status \<Rightarrow> deployment_status \<Rightarrow> bool" where
  "moves MONITORING b = (b \<in> {MONITORING, SETTLED, ROLLED_BACK})"
| "moves SETTLED b = (b \<in> {SETTLED, ROLLED_BACK})"
| "moves a b = (b = a)"

lemma moves_refl [simp]: "moves a a"
  by (cases a) simp_all

lemma moves_trans: "moves a b \<Longrightarrow> moves b c \<Longrightarrow> moves a c"
  by (cases a) auto

text \<open>The columns no operation changes once a record is written.\<close>

definition settled_columns :: "deployment_data row \<Rightarrow> string \<times> string \<times> string option \<times> string option \<times> obj \<times> obj
    \<times> law_verdict list \<times> string option \<times> string option \<times> int option" where
  "settled_columns r =
     (row_id r, row_org r, d_candidate (contents r), d_version (contents r), d_applied (contents r),
      d_rollback (contents r), d_lawVerdicts (contents r), d_approvedBy (contents r), d_deployedBy (contents r),
      d_deployedAt (contents r))"

definition continues :: "deployment_data row \<Rightarrow> deployment_data row \<Rightarrow> bool" where
  "continues r r' \<longleftrightarrow> settled_columns r' = settled_columns r \<and> moves (d_status (contents r)) (d_status (contents r'))"

definition grows :: "deployment_data table \<Rightarrow> deployment_data table \<Rightarrow> bool" where
  "grows t t' \<longleftrightarrow> length t \<le> length t' \<and> (\<forall>n < length t. continues (t ! n) (t' ! n))"

lemma continues_refl [simp]: "continues r r"
  by (simp add: continues_def)

lemma continues_trans: "continues r r' \<Longrightarrow> continues r' r'' \<Longrightarrow> continues r r''"
  by (auto simp: continues_def intro: moves_trans)

lemma grows_refl [simp]: "grows t t"
  by (simp add: grows_def)

lemma grows_trans: "grows t t' \<Longrightarrow> grows t' t'' \<Longrightarrow> grows t t''"
  unfolding grows_def by (meson continues_trans order_trans less_le_trans)

lemma grows_append [simp]: "grows t (t @ rs)"
  by (simp add: grows_def nth_append)

lemma grows_map: "(\<And>r. r \<in> set t \<Longrightarrow> continues r (f r)) \<Longrightarrow> grows t (map f t)"
  by (simp add: grows_def)

definition records_ok :: "evolution_env \<Rightarrow> deployment_data table \<Rightarrow> evolution \<Rightarrow> bool" where
  "records_ok env t s \<longleftrightarrow> fresh_ids env (issued s) (deployments s) \<and> (\<forall>r \<in> set (deployments s). sound (contents r))
     \<and> grows t (deployments s)"

section \<open>One record at a time\<close>

definition replace_row :: "string \<Rightarrow> string \<Rightarrow> (deployment_data \<Rightarrow> deployment_data) \<Rightarrow> deployment_data table \<Rightarrow> deployment_data table" where
  "replace_row org i f t = map (\<lambda>r. if row_id r = i \<and> row_org r = org then r\<lparr>contents := f (contents r)\<rparr> else r) t"

lemma update_deployment_rows:
  assumes "tenant ctx = Inr org"
  shows "deployments (snd (update_deployment ctx i f s)) = replace_row org i f (deployments s)"
  using assms
  by (auto simp: update_deployment_def update_row_def update_many_def replace_row_def scope_by_id DEPLOYMENTS_def
      split: prod.splits sum.splits if_splits)

lemma update_deployment_no_tenant:
  "tenant ctx = Inl e \<Longrightarrow> update_deployment ctx i f s = (Inl (Repo e), s)"
  by (simp add: update_deployment_def update_row_def)

lemma fresh_ids_mono: "fresh_ids env n t \<Longrightarrow> n \<le> m \<Longrightarrow> fresh_ids env m t"
  unfolding fresh_ids_def by (meson less_le_trans)

lemma fresh_ids_alt:
  "fresh_ids env n t \<longleftrightarrow> distinct (map row_id t) \<and> (\<forall>j \<in> set (map row_id t). \<exists>k < n. j = cuid env k)"
  by (auto simp: fresh_ids_def unique_ids_def)

lemma fresh_ids_replace: "fresh_ids env n (replace_row org i f t) = fresh_ids env n t"
proof -
  have "map row_id (replace_row org i f t) = map row_id t" by (auto simp: replace_row_def)
  then show ?thesis by (simp only: fresh_ids_alt)
qed

text \<open>An update of one record keeps all of them in order, if it keeps that one.\<close>

lemma records_ok_replace:
  assumes "records_ok env t s" and "deployments s' = replace_row org i f (deployments s)" and "issued s \<le> issued s'"
    and "\<And>r. r \<in> set (deployments s) \<Longrightarrow> row_id r = i \<Longrightarrow> row_org r = org \<Longrightarrow>
       sound (f (contents r)) \<and> continues r (r\<lparr>contents := f (contents r)\<rparr>)"
  shows "records_ok env t s'"
proof -
  have "grows (deployments s) (deployments s')"
    unfolding assms(2) replace_row_def by (rule grows_map) (use assms(4) in auto)
  moreover have "\<forall>r \<in> set (deployments s'). sound (contents r)"
    using assms(1,4) unfolding assms(2) replace_row_def records_ok_def by auto
  moreover have "fresh_ids env (issued s') (deployments s')"
    using assms(1,3) unfolding assms(2) records_ok_def by (auto simp: fresh_ids_replace intro: fresh_ids_mono)
  ultimately show ?thesis using assms(1) by (auto simp: records_ok_def intro: grows_trans)
qed

lemma records_ok_append:
  assumes "records_ok env t s" and "deployments s' = deployments s @ [r]" and "sound (contents r)"
    and "inj (cuid env)" and "row_id r = cuid env n" and "issued s \<le> n" and "n < issued s'"
  shows "records_ok env t s'"
proof -
  have "fresh_ids env n (deployments s)" using assms(1,6) by (auto simp: records_ok_def intro: fresh_ids_mono)
  from fresh_ids_append [OF assms(4) this assms(5)] have "fresh_ids env (issued s') (deployments s')"
    unfolding assms(2) by (rule fresh_ids_mono) (use assms(7) in simp)
  with assms(1,2,3) show ?thesis by (auto simp: records_ok_def intro: grows_trans)
qed

lemma records_ok_same:
  "records_ok env t s \<Longrightarrow> deployments s' = deployments s \<Longrightarrow> issued s \<le> issued s' \<Longrightarrow> records_ok env t s'"
  by (auto simp: records_ok_def intro: fresh_ids_mono)

section \<open>The supply of ids only advances\<close>

lemma issued_from_leaves: "leaves issued m \<Longrightarrow> keeps (issued_from n) m"
  by (simp add: keeps_def leaves_def issued_from_def)

lemma activate_leaves_issued [leaves_intros]: "leaves issued (activate ctx now i)"
  unfolding activate_def by (intro leaves_intros)

lemma submit_leaves_more [leaves_intros]: "leaves issued (submit env ctx c now k)" "leaves deployments (submit env ctx c now k)"
  using submit_leaves [of env ctx c now k] by (auto simp: leaves_def dest: apart_from_policiesD)

lemma issued_from_evolution [keeps_intros]:
  "keeps (issued_from n) (create_deployment env ctx now d)" "keeps (issued_from n) (create_violation env ctx w)"
  by (auto simp: keeps_def issued_from_def create_deployment_def create_violation_def split: prod.split sum.split)

lemmas issued_intros = keeps_intros issued_from_leaves leaves_intros

lemma issued_from_report [keeps_intros]: "keeps (issued_from n) (report_violation env ctx c k rv dep v)"
  unfolding report_violation_def by (intro keeps_intros)

lemma issued_from_apply_change [keeps_intros]: "keeps (issued_from n) (apply_change env ctx now k ver dep)"
  unfolding apply_change_def by (intro keeps_intros issued_from_leaves leaves_intros)

lemma issued_advances:
  assumes "keeps (issued_from (issued s)) m" and "m s = (r, s')"
  shows "issued s \<le> issued s'"
  using keepsD [OF assms(1) _ assms(2)] by (simp add: issued_from_def)

section \<open>Every operation keeps the records\<close>

lemma sound_created [simp]: "sound (d\<lparr>d_createdAt := now\<rparr>) = sound d" "in_effect (d\<lparr>d_createdAt := now\<rparr>) = in_effect d"
  by (cases "d_status d"; simp add: sound_def in_effect_def)+

lemma create_deployment_keeps:
  assumes "records_ok env t s" and "inj (cuid env)" and "sound d" and "create_deployment env ctx now d s = (r, s')"
  shows "records_ok env t s'"
proof (cases "tenant ctx")
  case (Inl e)
  with assms show ?thesis by (auto simp: create_deployment_def create_row_def)
next
  case (Inr org)
  then obtain row where r: "r = Inr row" using assms(4) by (auto simp: create_deployment_def create_row_def)
  from create_deployment_Inr [OF assms(4) [unfolded r] Inr] show ?thesis
    using assms by (auto intro: records_ok_append [where n = "issued s" and r = row])
qed

lemma keeps_approve [keeps_intros]:
  assumes "inj (cuid env)"
  shows "keeps (records_ok env t) (approve env ctx now i notes)"
proof -
  have c: "keeps (records_ok env t) (create_deployment env ctx now
            ((blank_deployment k)\<lparr>d_approvedBy := Some u, d_approvedAt := Some now, d_notes := ns,
               d_applied := a, d_rollback := b, d_constitution := v\<rparr>))" for k u ns a b v
    unfolding keeps_def
  proof (intro allI impI)
    fix s assume ok: "records_ok env t s"
    let ?d = "(blank_deployment k)\<lparr>d_approvedBy := Some u, d_approvedAt := Some now, d_notes := ns,
               d_applied := a, d_rollback := b, d_constitution := v\<rparr>"
    have "sound ?d" by (simp add: sound_def blank_deployment_def)
    from create_deployment_keeps [OF ok assms this surjective_pairing]
    show "records_ok env t (snd (create_deployment env ctx now ?d s))" .
  qed
  show ?thesis unfolding approve_def by (intro keeps_intros c)
qed

lemma refuse_keeps:
  assumes "records_ok env t s" and "inj (cuid env)" and "list_ex (\<lambda>v. \<not> law_verdict.passed v) (checked (rv_verdict rv))"
    and "refuse env ctx c now k rv s = (r, s')"
  shows "records_ok env t s'"
  using assms(4) unfolding refuse_def
proof (cases rule: bindS_cases)
  case (stop e)
  then show ?thesis
    using assms by (auto simp: create_deployment_def create_row_def split: sum.splits)
next
  case (go dep s1)
  have "sound (refusal_record c k rv)" using assms(3) by (simp add: sound_def refusal_record_def blank_deployment_def)
  from create_deployment_keeps [OF assms(1,2) this go(1)] have "records_ok env t s1" .
  moreover let ?m = "bindS (eachS (report_violation env ctx c k rv (row_id dep)) (violations (rv_verdict rv))) (\<lambda>_.
     bindS (publish (EvolutionDeploymentRefused (row_id dep) (row_id k) (map lawId (violations (rv_verdict rv))))) (\<lambda>_.
     doneS \<lparr>r_deployment = dep, r_deployed = False,
            r_refusal = Some (map lawId (violations (rv_verdict rv)), map reason_or_empty (violations (rv_verdict rv)))\<rparr>))"
  have m: "leaves deployments ?m" "keeps (issued_from (issued s1)) ?m" by (intro leaves_intros keeps_intros)+
  have "deployments s' = deployments s1" "issued s1 \<le> issued s'"
    using leavesD [OF m(1) go(2)] issued_advances [OF m(2) go(2)] by simp_all
  ultimately show ?thesis by (rule records_ok_same)
qed

text \<open>The record put into production ends up monitored, or failed with the write.\<close>

lemma apply_change_rows:
  assumes "apply_change env ctx now k ver dep s = (r, s')" and t: "tenant ctx = Inr org"
  shows "(r = Inr () \<and> deployments s' = deployments s)
     \<or> (\<exists>e msg. r = Inl e \<and> deployments s' = replace_row org dep
          (\<lambda>d. d\<lparr>d_status := FAILED, d_notes := Some msg\<rparr>) (deployments s))"
proof (cases r)
  case (Inr u)
  with assms(1) have "apply_change env ctx now k ver dep s = (Inr (), s')" by simp
  then show ?thesis using Inr by (auto elim: apply_change_Inr)
next
  case (Inl e)
  let ?m = "bindS (write_change env ctx k) (\<lambda>_. bindS (activate ctx now ver) (\<lambda>_. doneS ()))"
  obtain r1 s1 where m: "?m s = (r1, s1)" by (cases "?m s")
  have "leaves deployments ?m" by (intro leaves_intros)
  with m have same: "deployments s1 = deployments s" by (metis leavesD)
  have "r1 \<noteq> Inr u" for u using assms(1) m Inl by (auto simp: apply_change_def catchS_def)
  then obtain e1 where e1: "r1 = Inl e1" by (cases r1) auto
  let ?f = "\<lambda>d. d\<lparr>d_status := FAILED, d_notes := Some (''Write failed: '' @ error_message e1)\<rparr>"
  from assms(1) m e1 have h: "bindS (update_deployment ctx dep ?f) (\<lambda>_. throwS e1) s1 = (r, s')"
    by (simp add: apply_change_def catchS_def)
  then have "deployments s' = replace_row org dep ?f (deployments s)"
    using update_deployment_rows [OF t, of dep ?f s1] same by (auto elim!: bindS_cases simp: throwS_def)
  with Inl show ?thesis by blast
qed

lemma replace_new:
  assumes "inj (cuid env)" and "fresh_ids env m t" and "m \<le> n" and "row_id r = cuid env n" and "row_org r = org"
  shows "replace_row org (cuid env n) f (t @ [r]) = t @ [r\<lparr>contents := f (contents r)\<rparr>]"
proof -
  have "row_id x \<noteq> cuid env n" if "x \<in> set t" for x
    using that assms(1-3) unfolding fresh_ids_def by (metis injD leD)
  then have "replace_row org (cuid env n) f t = t" unfolding replace_row_def by (intro map_idI) auto
  with assms(4,5) show ?thesis by (simp add: replace_row_def)
qed

definition finish_deployment :: "evolution_env \<Rightarrow> request_context option \<Rightarrow> int \<Rightarrow> candidate_data row \<Rightarrow> reviewed \<Rightarrow> string \<Rightarrow> string
    \<Rightarrow> deploy_result evo" where
  "finish_deployment env ctx now k rv ver dep =
     bindS (apply_change env ctx now k ver dep) (\<lambda>_.
     bindS (update_deployment ctx dep (\<lambda>d. d\<lparr>d_status := MONITORING, d_deployedAt := Some now\<rparr>)) (\<lambda>deployed.
     bindS (setStatus env ctx (row_id k) candidate_status.DEPLOYED (\<lambda>d. d)) (\<lambda>_.
     bindS (publish (EvolutionDeployed (row_id deployed) (row_id k) (k_subject (contents k)) (k_subjectId (contents k))
              (k_kind (contents k)) (constitution_verdict.version (rv_verdict rv)))) (\<lambda>_.
     doneS \<lparr>r_deployment = deployed, r_deployed = True, r_refusal = None\<rparr>))))"

lemma issued_from_finish: "keeps (issued_from n) (finish_deployment env ctx now k rv ver dep)"
  unfolding finish_deployment_def by (intro keeps_intros issued_from_leaves leaves_intros)

lemma finish_rows:
  assumes f: "finish_deployment env ctx now k rv ver (cuid env n) s = (r, s')" and t: "tenant ctx = Inr org"
    and ids: "inj (cuid env)" "fresh_ids env m u" "m \<le> n"
    and new: "deployments s = u @ [new]" "row_id new = cuid env n" "row_org new = org"
    and ok: "in_effect (contents new)" "d_deployedAt (contents new) = None" "d_rolledBackAt (contents new) = None"
  shows "\<exists>row. deployments s' = u @ [row] \<and> sound (contents row) \<and> row_id row = cuid env n"
proof -
  note rep = replace_new [OF ids new(2,3)]
  let ?live = "\<lambda>d. d\<lparr>d_status := MONITORING, d_deployedAt := Some now\<rparr>"
  let ?m = "bindS (update_deployment ctx (cuid env n) ?live) (\<lambda>deployed.
     bindS (setStatus env ctx (row_id k) candidate_status.DEPLOYED (\<lambda>d. d)) (\<lambda>_.
     bindS (publish (EvolutionDeployed (row_id deployed) (row_id k) (k_subject (contents k)) (k_subjectId (contents k))
              (k_kind (contents k)) (constitution_verdict.version (rv_verdict rv)))) (\<lambda>_.
     doneS \<lparr>r_deployment = deployed, r_deployed = True, r_refusal = None\<rparr>)))"
  from f [unfolded finish_deployment_def] show ?thesis
  proof (cases rule: bindS_cases)
    case (stop e)
    from apply_change_rows [OF stop(1) t] obtain msg where
      "deployments s' = replace_row org (cuid env n) (\<lambda>d. d\<lparr>d_status := FAILED, d_notes := Some msg\<rparr>) (u @ [new])"
      unfolding new(1) by auto
    with ok new(2) show ?thesis unfolding rep by (auto simp: sound_def in_effect_def)
  next
    case (go x s1)
    from apply_change_rows [OF go(1) t] have same: "deployments s1 = u @ [new]" using new(1) by auto
    obtain r2 s2 where u: "update_deployment ctx (cuid env n) ?live s1 = (r2, s2)"
      by (cases "update_deployment ctx (cuid env n) ?live s1")
    from update_deployment_rows [OF t, of "cuid env n" ?live s1] u same
    have s2: "deployments s2 = u @ [new\<lparr>contents := ?live (contents new)\<rparr>]" by (simp add: rep)
    have "deployments s' = deployments s2"
      by (rule bindS_then_leaves [OF go(2) u]) (intro leaves_intros)
    with s2 have "deployments s' = u @ [new\<lparr>contents := ?live (contents new)\<rparr>]" by simp
    with ok new(2) show ?thesis by (auto simp: sound_def in_effect_def)
  qed
qed

lemma put_into_production_rows:
  assumes "put_into_production env ctx c now k rv s = (r, s')" and t: "tenant ctx = Inr org"
    and ids: "inj (cuid env)" "fresh_ids env (issued s) (deployments s)"
    and law: "list_all law_verdict.passed (checked (rv_verdict rv))" "satisfied (rv_decision rv)"
  shows "deployments s' = deployments s
    \<or> (\<exists>row n. deployments s' = deployments s @ [row] \<and> sound (contents row) \<and> row_id row = cuid env n
         \<and> issued s \<le> n \<and> n < issued s')"
  using assms(1) unfolding put_into_production_def
proof (cases rule: bindS_cases)
  case (stop e)
  with leavesD [OF policy_here_leaves(3)] show ?thesis by blast
next
  case (go pol sa)
  note a = leavesD [OF policy_here_leaves(3) go(1)] leavesD [OF policy_here_leaves(5) go(1)]
  from go(2) show ?thesis
  proof (cases rule: bindS_cases)
    case (stop e)
    with a show ?thesis by (simp add: readS_def)
  next
    case (go asp sb)
    then have b: "sb = sa" by (simp add: readS_def)
    from go(2) [unfolded b] show ?thesis
    proof (cases rule: bindS_cases)
      case (stop e)
      with a leavesD [OF capture_leaves(3) stop(1)] show ?thesis by simp
    next
      case (go ver sc)
      have c: "deployments sc = deployments s" "issued s \<le> issued sc"
        using a leavesD [OF capture_leaves(3) go(1)] issued_advances [OF issued_from_capture go(1)] by simp_all
      from go(2) show ?thesis
      proof (cases rule: bindS_cases)
        case (stop e)
        with c show ?thesis by (simp add: readS_def)
      next
        case (go summary sd)
        then have d: "sd = sc" by (simp add: readS_def)
        from go(2) [unfolded d] show ?thesis
        proof (cases rule: bindS_cases)
          case (stop e)
          with c t show ?thesis by (simp add: create_deployment_def create_row_def)
        next
          case (go new se)
          let ?row = "deployment_row c now k rv pol (row_id ver) summary"
          from create_deployment_Inr [OF go(1) t] c(1) have e: "deployments se = deployments s @ [new]"
            "row_id new = cuid env (issued sc)" "row_org new = org" "issued se = Suc (issued sc)"
            "contents new = ?row\<lparr>d_createdAt := now\<rparr>" by auto
          have ok: "in_effect (contents new)" "d_deployedAt (contents new) = None" "d_rolledBackAt (contents new) = None"
            using law unfolding e(5) by (simp_all add: in_effect_def deployment_row_def blank_deployment_def)
          from go(2) have fin: "finish_deployment env ctx now k rv (row_id ver) (cuid env (issued sc)) se = (r, s')"
            by (simp add: finish_deployment_def e(2))
          from finish_rows [OF fin t ids c(2) e(1-3) ok] issued_advances [OF issued_from_finish fin] c(2) e(4)
          show ?thesis by fastforce
        qed
      qed
    qed
  qed
qed

lemma review_checked:
  assumes "submit env ctx c now k s = (Inr rv, s1)"
  shows "permitted (rv_verdict rv) \<longleftrightarrow> list_all law_verdict.passed (checked (rv_verdict rv))"
    and "permitted (rv_verdict rv) \<Longrightarrow> satisfied (rv_decision rv)"
proof -
  from assms obtain owner bv n org ps where
    d: "rv_decision rv = evaluate_policy (policy_of org s) (subject_of_policy (contents k)) now (Some n) (\<lambda>t. countSince ctx t s)"
    and v: "rv_verdict rv = review (sha256 env) (value_text env)
       (intent_of c k (rv_before rv) (rv_decision rv) (rv_approval rv) owner bv)" by (rule submit_Inr)
  show "permitted (rv_verdict rv) \<longleftrightarrow> list_all law_verdict.passed (checked (rv_verdict rv))"
    unfolding v by (auto simp: review_def Let_def list_all_iff filter_empty_conv)
  assume "permitted (rv_verdict rv)"
  from this [unfolded v permitted_iff] refusal_has_words d show "satisfied (rv_decision rv)"
    by (auto simp: intent_of_def)
qed

lemma issued_from_put: "keeps (issued_from n) (put_into_production env ctx c now k rv)"
  unfolding put_into_production_def by (intro keeps_intros issued_from_leaves leaves_intros)

lemma keeps_deploy [keeps_intros]:
  assumes "inj (cuid env)"
  shows "keeps (records_ok env t) (deploy env ctx now i force)"
  unfolding keeps_def
proof (intro allI impI)
  fix s assume ok: "records_ok env t s"
  obtain r s' where d: "deploy env ctx now i force s = (r, s')" by (cases "deploy env ctx now i force s")
  have review: "records_ok env t s1" if "submit env ctx c now k s = (x, s1)" for c k x s1
    using ok leavesD [OF submit_leaves_more(1) that] leavesD [OF submit_leaves_more(2) that] by (auto intro: records_ok_same)
  from d have "records_ok env t s'"
  proof (cases rule: deploy_cases)
    case (refused c k rv s1)
    from refuse_keeps [OF review [OF refused(5)] assms _ refused(7)] review_checked(1) [OF refused(5)] refused(6)
    show ?thesis by (simp add: list_all_iff list_ex_iff)
  next
    case (written c k rv s1)
    from review [OF written(5)] have ok1: "records_ok env t s1" .
    from tenant_is [OF written(1)] have t: "tenant ctx = Inr (Repository.organizationId c)" by blast
    have f: "fresh_ids env (issued s1) (deployments s1)" using ok1 by (simp add: records_ok_def)
    have i: "issued s1 \<le> issued s'"
      by (rule issued_advances [OF issued_from_put written(7)])
    from put_into_production_rows [OF written(7) t assms f] review_checked [OF written(5)] written(6) show ?thesis
      using records_ok_append [OF ok1 _ _ assms] records_ok_same [OF ok1 _ i] by auto
  qed (use ok review in auto)
  then show "records_ok env t (snd (deploy env ctx now i force s))" by (simp add: d)
qed

lemma rolled_back_continues:
  "sound d \<Longrightarrow> d_status d \<in> {MONITORING, DEPLOYED, SETTLED} \<Longrightarrow> contents r = d \<Longrightarrow>
     sound (rolled_back ctx now why auto d) \<and> continues r (r\<lparr>contents := rolled_back ctx now why auto d\<rparr>)"
  by (auto simp: sound_def rolled_back_def in_effect_def continues_def settled_columns_def Let_def)

lemma get_deployment_Inr:
  "get_deployment ctx i s = Inr r \<Longrightarrow> tenant ctx = Inr org \<Longrightarrow> r \<in> set (deployments s) \<and> row_id r = i \<and> row_org r = org"
  by (auto simp: get_deployment_def findByIdOrFail_def findById_def bindE_eq_Inr scope_by_id
      split: option.splits dest!: find_first_Some)

lemma issued_from_rollback [keeps_intros]: "keeps (issued_from n) (rollback_deployment env ctx now i why auto)"
  unfolding rollback_deployment_def Let_def
  by (intro keeps_intros issued_from_leaves leaves_intros) (auto intro!: leaves_intros split: option.split)

lemma setStatus_or_not_deployments [leaves_intros]:
  "leaves deployments (case x of None \<Rightarrow> doneS () | Some k \<Rightarrow> if k = [] then doneS () else setStatus env ctx k st f)"
  by (cases x) (auto intro!: leaves_intros)

lemma only_by_rows:
  assumes "only_by deployments (update_deployment ctx i f) m" and "m s = (r, s')"
  shows "deployments s' = deployments s
    \<or> (\<exists>org. tenant ctx = Inr org \<and> deployments s' = replace_row org i f (deployments s))"
proof -
  from assms have "deployments s' = deployments s
      \<or> (\<exists>s1. deployments s1 = deployments s \<and> deployments s' = deployments (snd (update_deployment ctx i f s1)))"
    unfolding only_by_def by (metis snd_conv)
  then show ?thesis
  proof (elim disjE exE conjE)
    fix s1 assume "deployments s1 = deployments s" "deployments s' = deployments (snd (update_deployment ctx i f s1))"
    then show ?thesis
      using update_deployment_rows [of ctx _ i f s1] update_deployment_no_tenant [of ctx _ i f s1] by (cases "tenant ctx") auto
  qed simp
qed

lemma rollback_rows:
  assumes "rollback_deployment env ctx now i why auto s = (r, s')"
  shows "deployments s' = deployments s
    \<or> (\<exists>row org. get_deployment ctx i s = Inr row \<and> tenant ctx = Inr org
         \<and> d_status (contents row) \<in> {MONITORING, DEPLOYED, SETTLED}
         \<and> deployments s' = replace_row org i (rolled_back ctx now why auto) (deployments s))"
proof (cases "get_deployment ctx i s")
  case (Inl e)
  with assms show ?thesis by (simp add: rollback_deployment_def bindS_def readS_def)
next
  case (Inr row)
  let ?d = "contents row"
  let ?f = "rolled_back ctx now why auto"
  let ?m = "bindS (write_subject env ctx (d_subject ?d) (d_subjectId ?d) (d_rollback ?d)) (\<lambda>_.
       bindS (readS (\<lambda>_. aspectForChange env (d_subject ?d) (d_rollback ?d))) (\<lambda>asp.
       bindS (capture env ctx now (rollback_version ?d why asp)) (\<lambda>reverted.
       bindS (activate ctx now (row_id reverted)) (\<lambda>_.
       bindS (update_deployment ctx i ?f) (\<lambda>back.
       bindS (case d_candidate ?d of
                None \<Rightarrow> doneS ()
              | Some k \<Rightarrow> if k = [] then doneS ()
                  else setStatus env ctx k REJECTED (\<lambda>x. x\<lparr>k_rejectedReason := Some (''Rolled back: '' @ why)\<rparr>)) (\<lambda>_.
       bindS (publish (EvolutionRolledBack i (d_subject ?d) (d_subjectId ?d) why auto)) (\<lambda>_.
       doneS back)))))))"
  have "only_by deployments (update_deployment ctx i ?f) ?m"
    by (intro only_by_after [where k = "\<lambda>a. bindS (m a) (n a)" for m n] only_by_before only_by_self leaves_intros)
  from only_by_rows [OF this, of s] show ?thesis
    using assms Inr by (auto simp: rollback_deployment_def bind_readS_Inr comp_eval Let_def split: if_splits)
qed

lemma keeps_rollback [keeps_intros]: "keeps (records_ok env t) (rollback_deployment env ctx now i why auto)"
  unfolding keeps_def
proof (intro allI impI)
  fix s assume ok: "records_ok env t s"
  obtain r s' where d: "rollback_deployment env ctx now i why auto s = (r, s')"
    by (cases "rollback_deployment env ctx now i why auto s")
  have i: "issued s \<le> issued s'" by (rule issued_advances [OF issued_from_rollback d])
  from rollback_rows [OF d] have "records_ok env t s'"
  proof (elim disjE exE conjE)
    fix row org
    assume g: "get_deployment ctx i s = Inr row" "tenant ctx = Inr org"
      "d_status (contents row) \<in> {MONITORING, DEPLOYED, SETTLED}"
      "deployments s' = replace_row org i (rolled_back ctx now why auto) (deployments s)"
    from get_deployment_Inr [OF g(1,2)] have row: "row \<in> set (deployments s)" "row_id row = i" by auto
    have "unique_ids (deployments s)" using ok by (simp add: records_ok_def fresh_ids_def)
    with row have same: "x = row" if "x \<in> set (deployments s)" "row_id x = i" for x
      using that unique_idsD by metis
    show ?thesis
    proof (rule records_ok_replace [OF ok g(4) i])
      fix x assume x: "x \<in> set (deployments s)" "row_id x = i"
      with same have xr: "x = row" by blast
      have "sound (contents x)" using ok x by (simp add: records_ok_def)
      with g(3) xr show "sound (rolled_back ctx now why auto (contents x))
          \<and> continues x (x\<lparr>contents := rolled_back ctx now why auto (contents x)\<rparr>)"
        by (intro rolled_back_continues) simp_all
    qed
  qed (rule records_ok_same [OF ok _ i])
  then show "records_ok env t (snd (rollback_deployment env ctx now i why auto s))" by (simp add: d)
qed

lemma keeps_records_apart:
  assumes "leaves deployments m" and "\<And>n. keeps (issued_from n) m"
  shows "keeps (records_ok env t) m"
  unfolding keeps_def
  using assms issued_advances [OF assms(2) surjective_pairing] by (auto simp: leaves_def intro: records_ok_same)

lemma update_deployment_keeps:
  assumes "records_ok env t s" and "update_deployment ctx i f s = (r, s')"
    and "\<And>r. r \<in> set (deployments s) \<Longrightarrow> row_id r = i \<Longrightarrow>
       sound (f (contents r)) \<and> continues r (r\<lparr>contents := f (contents r)\<rparr>)"
  shows "records_ok env t s'"
proof (cases "tenant ctx")
  case (Inl e)
  with assms update_deployment_no_tenant [of ctx e i f s] show ?thesis by simp
next
  case (Inr org)
  have "issued s \<le> issued s'" using leavesD [OF update_deployment_leaves(5) assms(2)] by simp
  moreover have "deployments s' = replace_row org i f (deployments s)"
    using update_deployment_rows [OF Inr, of i f s] assms(2) by simp
  ultimately show ?thesis using records_ok_replace [OF assms(1)] assms(3) by blast
qed

lemma sound_counted [simp]: "sound (d\<lparr>d_trials := n, d_failures := m\<rparr>) = sound d"
  by (cases "d_status d") (simp_all add: sound_def in_effect_def)

lemma keeps_count [keeps_intros]:
  "keeps (records_ok env t) (update_deployment ctx i (\<lambda>d. d\<lparr>d_trials := n, d_failures := m\<rparr>))"
  unfolding keeps_def
proof (intro allI impI)
  fix s assume "records_ok env t s"
  then show "records_ok env t (snd (update_deployment ctx i (\<lambda>d. d\<lparr>d_trials := n, d_failures := m\<rparr>) s))"
    by (rule update_deployment_keeps [OF _ surjective_pairing])
      (use \<open>records_ok env t s\<close> in \<open>auto simp: records_ok_def continues_def settled_columns_def\<close>)
qed

lemma keeps_policy_here [keeps_intros]: "keeps (records_ok env t) (policy_here ctx)"
  by (intro keeps_records_apart issued_from_leaves leaves_intros)

lemma keeps_observe [keeps_intros]: "keeps (records_ok env t) (observe env ctx now i ok)"
  unfolding observe_def Let_def by (intro keeps_intros) (auto intro!: keeps_intros split: option.split)

lemma keeps_preflight [keeps_intros]: "keeps (records_ok env t) (preflight env ctx now i)"
  unfolding preflight_def by (intro keeps_records_apart issued_from_leaves leaves_intros)

section \<open>The sweep\<close>

text \<open>The records other than one.\<close>

definition others_kept :: "string \<Rightarrow> deployment_data table \<Rightarrow> deployment_data table \<Rightarrow> bool" where
  "others_kept i t t' \<longleftrightarrow> (\<forall>x \<in> set t'. row_id x \<noteq> i \<longrightarrow> x \<in> set t)"

lemma others_kept_refl [simp]: "others_kept i t t"
  by (simp add: others_kept_def)

lemma others_kept_replace [simp]: "others_kept i t (replace_row org i f t)"
  by (auto simp: others_kept_def replace_row_def)

lemma sound_settled: "sound d \<Longrightarrow> d_status d = MONITORING \<Longrightarrow> sound (d\<lparr>d_status := SETTLED, d_healthy := h\<rparr>)"
  by (simp add: sound_def in_effect_def)

lemma settle_one_keeps:
  assumes ok: "records_ok env t s" and now_mon: "\<forall>x \<in> set (deployments s). row_id x = row_id r \<longrightarrow> d_status (contents x) = MONITORING"
    and m: "settle_one env now r s = (y, s')"
  shows "records_ok env t s' \<and> others_kept (row_id r) (deployments s) (deployments s')"
proof -
  let ?ctx = "Some (sweep_context now (row_org r))"
  let ?d = "contents r" and ?rate = "failure_rate (contents r)"
  from m [unfolded settle_one_def Let_def] show ?thesis
  proof (cases rule: bindS_cases)
    case (stop e)
    with ok leavesD [OF policy_here_leaves(3) stop(1)] keepsD [OF keeps_policy_here ok stop(1)] show ?thesis by simp
  next
    case (go pol s1)
    have ok1: "records_ok env t s1" by (rule keepsD [OF keeps_policy_here ok go(1)])
    have d1: "deployments s1 = deployments s" by (rule leavesD [OF policy_here_leaves(3) go(1)])
    show ?thesis
    proof (cases "failing pol (d_trials ?d) ?rate")
      case True
      let ?why = "''Automatic: '' @ percent ?rate @ ''% of monitored executions failed.''"
      obtain r2 s2 where b: "rollback_deployment env ?ctx now (row_id r) ?why True s1 = (r2, s2)"
        by (cases "rollback_deployment env ?ctx now (row_id r) ?why True s1")
      from go(2) True have m: "bindS (rollback_deployment env ?ctx now (row_id r) ?why True) (\<lambda>_. doneS (Inr (row_id r))) s1 = (y, s')"
        by simp
      have "s' = s2" using m b by (auto simp: bindS_def doneS_def split: sum.splits)
      with keepsD [OF keeps_rollback ok1 b] rollback_rows [OF b] d1 show ?thesis by auto
    next
      case False
      let ?f = "\<lambda>x. x\<lparr>d_status := SETTLED,
                 d_healthy := (if d_trials ?d > 0 then Some (num_lt ?rate (autoRollbackThreshold pol)) else None)\<rparr>"
      let ?rest = "\<lambda>_. bindS (publish (EvolutionDeploymentSettled (row_id r) (d_trials ?d) (four_places ?rate))) (\<lambda>_. doneS (Inl (row_id r)))"
      obtain r2 s2 where u: "update_deployment ?ctx (row_id r) ?f s1 = (r2, s2)"
        by (cases "update_deployment ?ctx (row_id r) ?f s1")
      from go(2) False have m: "bindS (update_deployment ?ctx (row_id r) ?f) ?rest s1 = (y, s')" by simp
      have "deployments s' = deployments s2" "issued s' = issued s2"
        by (rule bindS_then_leaves [OF m u]; intro leaves_intros)+
      moreover have "records_ok env t s2"
      proof (rule update_deployment_keeps [OF ok1 u])
        fix x assume "x \<in> set (deployments s1)" "row_id x = row_id r"
        with now_mon ok1 d1 show "sound (?f (contents x)) \<and> continues x (x\<lparr>contents := ?f (contents x)\<rparr>)"
          by (auto intro!: sound_settled simp: continues_def settled_columns_def records_ok_def)
      qed
      moreover have "others_kept (row_id r) (deployments s) (deployments s2)"
      proof (cases "tenant ?ctx")
        case (Inl e)
        with u d1 update_deployment_no_tenant [OF Inl, of "row_id r" ?f s1] show ?thesis by simp
      next
        case (Inr org)
        with update_deployment_rows [OF Inr, of "row_id r" ?f s1] u d1 show ?thesis by simp
      qed
      ultimately show ?thesis by (auto intro: records_ok_same)
    qed
  qed
qed

lemma settle_all_keeps:
  assumes "records_ok env t s" and "distinct (map row_id rows)"
    and "\<forall>r \<in> set rows. \<forall>x \<in> set (deployments s). row_id x = row_id r \<longrightarrow> d_status (contents x) = MONITORING"
    and "mapS (settle_one env now) rows s = (y, s')"
  shows "records_ok env t s'"
  using assms
proof (induction rows arbitrary: s s' y)
  case (Cons r rows)
  from Cons.prems(4) [simplified] show ?case
  proof (cases rule: bindS_cases)
    case (stop e)
    with settle_one_keeps [OF Cons.prems(1)] Cons.prems(3) show ?thesis by auto
  next
    case (go z s1)
    from settle_one_keeps [OF Cons.prems(1) _ go(1)] Cons.prems(3)
    have k: "records_ok env t s1" "others_kept (row_id r) (deployments s) (deployments s1)" by auto
    obtain r2 s2 where b: "mapS (settle_one env now) rows s1 = (r2, s2)" by (cases "mapS (settle_one env now) rows s1")
    have "records_ok env t s2"
      by (rule Cons.IH [OF k(1) _ _ b]) (use Cons.prems(2,3) k(2) in \<open>auto simp: others_kept_def image_iff\<close>)
    moreover have "s' = s2" using go(2) b by (auto simp: bindS_def doneS_def split: sum.splits)
    ultimately show ?thesis by simp
  qed
qed (simp add: doneS_def)

lemma keeps_sweep [keeps_intros]: "keeps (records_ok env t) (sweep env now)"
  unfolding keeps_def
proof (intro allI impI)
  fix s assume ok: "records_ok env t s"
  let ?rows = "findSettleableUnscoped now s"
  have u: "unique_ids (deployments s)" using ok by (simp add: records_ok_def fresh_ids_def)
  have sub: "set ?rows \<subseteq> {r \<in> set (deployments s). d_status (contents r) = MONITORING}"
    by (auto simp: findSettleableUnscoped_def dest!: in_set_takeD)
  have d: "distinct (map row_id ?rows)"
    using u unfolding findSettleableUnscoped_def unique_ids_def by (simp add: take_map [symmetric] distinct_map_filter)
  obtain y s' where m: "mapS (settle_one env now) ?rows s = (y, s')" by (cases "mapS (settle_one env now) ?rows s")
  have "records_ok env t s'"
    by (rule settle_all_keeps [OF ok d _ m]) (use sub u in \<open>auto dest: unique_idsD\<close>)
  moreover have "snd (sweep env now s) = s'"
    using m by (auto simp: sweep_def bindS_def readS_def doneS_def split: sum.splits)
  ultimately show "records_ok env t (snd (sweep env now s))" by simp
qed

section \<open>Versions under every operation\<close>

lemma lineages_ok_apart:
  "lineages_ok env s \<Longrightarrow> versions s' = versions s \<Longrightarrow> issued s \<le> issued s' \<Longrightarrow> lineages_ok env s'"
  by (auto simp: lineages_ok_def intro: fresh_ids_mono)

text \<open>A part of an operation that leaves versions alone and lets the supply of ids advance.\<close>

lemma keeps_lineages_apart:
  fixes m :: "('s subjects_scheme, 'e, 'a) comp"
  assumes "leaves versions m" and "\<And>n. keeps (issued_from n) m"
  shows "keeps (lineages_ok env) m"
  unfolding keeps_def
proof (intro allI impI)
  fix s :: "'s subjects_scheme" assume "lineages_ok env s"
  then show "lineages_ok env (snd (m s))"
    using assms issued_advances [OF assms(2) surjective_pairing, of s]
    by (auto simp: leaves_def intro: lineages_ok_apart)
qed

lemma keeps_history_apart: "leaves versions m \<Longrightarrow> keeps (history_from h) m"
  by (simp add: keeps_def leaves_def history_from_def)

lemma approve_leaves_versions [leaves_intros]: "leaves versions (approve env ctx now i notes)"
  unfolding approve_def by (intro leaves_intros)

lemma issued_from_approve [keeps_intros]: "keeps (issued_from n) (approve env ctx now i notes)"
  unfolding approve_def by (intro keeps_intros)

lemma submit_leaves_versions [leaves_intros]: "leaves versions (submit env ctx c now k)"
  using submit_leaves [of env ctx c now k] by (auto simp: leaves_def dest: apart_from_policiesD)

lemma issued_from_refuse [keeps_intros]: "keeps (issued_from n) (refuse env ctx c now k rv)"
  unfolding refuse_def by (intro keeps_intros)

lemma keeps_lineages_evolution [keeps_intros]:
  "keeps (lineages_ok env) (create_deployment env ctx now d)"
  "keeps (lineages_ok env) (update_deployment ctx i f)" "keeps (lineages_ok env) (setStatus env ctx i st g)"
  "keeps (lineages_ok env) (write_subject env ctx sub i ch)" "keeps (lineages_ok env) (policy_here ctx)"
  "keeps (lineages_ok env) (submit env ctx c now k)" "keeps (lineages_ok env) (refuse env ctx c now k rv)"
  "keeps (lineages_ok env) (approve env ctx now i notes)"
  by (intro keeps_lineages_apart leaves_intros keeps_intros issued_from_leaves)+

lemma keeps_history_evolution [keeps_intros]:
  "keeps (history_from h) (create_deployment env ctx now d)"
  "keeps (history_from h) (update_deployment ctx i f)" "keeps (history_from h) (setStatus env ctx i st g)"
  "keeps (history_from h) (write_subject env ctx sub i ch)" "keeps (history_from h) (policy_here ctx)"
  "keeps (history_from h) (submit env ctx c now k)" "keeps (history_from h) (refuse env ctx c now k rv)"
  "keeps (history_from h) (approve env ctx now i notes)"
  by (intro keeps_history_apart leaves_intros)+

lemma keeps_lineages_change [keeps_intros]: "keeps (lineages_ok env) (apply_change env ctx now k ver dep)"
  unfolding apply_change_def by (intro keeps_intros)

lemma keeps_history_change [keeps_intros]: "keeps (history_from h) (apply_change env ctx now k ver dep)"
  unfolding apply_change_def by (intro keeps_intros)

lemma keeps_lineages_deploy [keeps_intros]: "inj (cuid env) \<Longrightarrow> keeps (lineages_ok env) (deploy env ctx now i force)"
  unfolding deploy_def put_into_production_def by (intro keeps_intros)

lemma keeps_history_deploy [keeps_intros]: "keeps (history_from h) (deploy env ctx now i force)"
  unfolding deploy_def put_into_production_def by (intro keeps_intros)

lemma keeps_lineages_rollback [keeps_intros]:
  "inj (cuid env) \<Longrightarrow> keeps (lineages_ok env) (rollback_deployment env ctx now i why auto)"
  unfolding rollback_deployment_def Let_def by (intro keeps_intros) (auto intro!: keeps_intros split: option.split)

lemma keeps_history_rollback [keeps_intros]: "keeps (history_from h) (rollback_deployment env ctx now i why auto)"
  unfolding rollback_deployment_def Let_def by (intro keeps_intros) (auto intro!: keeps_intros split: option.split)

lemma keeps_lineages_observe [keeps_intros]: "inj (cuid env) \<Longrightarrow> keeps (lineages_ok env) (observe env ctx now i ok)"
  unfolding observe_def Let_def by (intro keeps_intros) (auto intro!: keeps_intros split: option.split)

lemma keeps_history_observe [keeps_intros]: "keeps (history_from h) (observe env ctx now i ok)"
  unfolding observe_def Let_def by (intro keeps_intros) (auto intro!: keeps_intros split: option.split)

lemma keeps_lineages_sweep [keeps_intros]: "inj (cuid env) \<Longrightarrow> keeps (lineages_ok env) (sweep env now)"
  unfolding sweep_def settle_one_def Let_def by (intro keeps_intros)

lemma keeps_history_sweep [keeps_intros]: "keeps (history_from h) (sweep env now)"
  unfolding sweep_def settle_one_def Let_def by (intro keeps_intros)

section \<open>The engine\<close>

text \<open>The operations that write, by any caller of any organization and by the timer.\<close>

datatype evolution_op =
    Approve "request_context option" int string "string option"
  | Deploy "request_context option" int string bool
  | RollBack "request_context option" int string string bool
  | Observe "request_context option" int string bool
  | Sweep int
  | OnVersions version_op

definition outcome :: "('s, 'e, 'a) comp \<Rightarrow> 's \<Rightarrow> ('e option) \<times> 's" where
  "outcome m s = (case m s of (Inl e, s') \<Rightarrow> (Some e, s') | (Inr a, s') \<Rightarrow> (None, s'))"

fun evolution_step :: "evolution_env \<Rightarrow> evolution_op \<Rightarrow> evolution \<Rightarrow> evolution_error option \<times> evolution" where
  "evolution_step env (Approve ctx now i notes) s = outcome (approve env ctx now i notes) s"
| "evolution_step env (Deploy ctx now i force) s = outcome (deploy env ctx now i force) s"
| "evolution_step env (RollBack ctx now i why auto) s = outcome (rollback_deployment env ctx now i why auto) s"
| "evolution_step env (Observe ctx now i ok) s = outcome (observe env ctx now i ok) s"
| "evolution_step env (Sweep now) s = outcome (sweep env now) s"
| "evolution_step env (OnVersions p) s = outcome (version_step env p) s"

lemma snd_outcome [simp]: "snd (outcome m s) = snd (m s)"
  by (simp add: outcome_def split: prod.split sum.split)

lemma keepsE: "keeps I m \<Longrightarrow> I s \<Longrightarrow> I (snd (m s))"
  by (simp add: keeps_def)

lemma version_step_is:
  "version_step env (Capture ctx now inp) = capture env ctx now inp"
  "version_step env (Activate ctx now i) = activate ctx now i"
  "version_step env (Baseline ctx now sub i a) = ensureBaseline env ctx now sub i a"
  by (simp_all add: fun_eq_iff)

lemma ensureBaseline_leaves [leaves_intros]:
  "leaves production (ensureBaseline env ctx now sub i a)" "leaves candidates (ensureBaseline env ctx now sub i a)"
  "leaves deployments (ensureBaseline env ctx now sub i a)"
  unfolding ensureBaseline_def by (auto intro!: leaves_intros split: option.split)

lemma issued_from_baseline [keeps_intros]: "keeps (issued_from n) (ensureBaseline env ctx now sub i a)"
  unfolding ensureBaseline_def
  by (intro keeps_intros) (auto intro!: keeps_intros issued_from_leaves [OF activate_row_basic(5)] split: option.split)

lemma version_step_leaves:
  "leaves production (version_step env p)" "leaves candidates (version_step env p)" "leaves deployments (version_step env p)"
  by (cases p; simp only: version_step_is; intro leaves_intros)+

lemma issued_from_activate [keeps_intros]: "keeps (issued_from n) (activate ctx now i)"
  by (rule issued_from_leaves [OF activate_leaves_issued])

lemma issued_from_versions: "keeps (issued_from n) (version_step env p)"
  by (cases p; simp only: version_step_is; intro keeps_intros)

lemma keeps_records_versions [keeps_intros]: "keeps (records_ok env t) (version_step env p)"
  by (rule keeps_records_apart [OF version_step_leaves(3) issued_from_versions])

interpretation records: kept "records_ok env t" "evolution_step env" "\<lambda>_. inj (cuid env)"
proof
  fix s :: evolution and p assume "records_ok env t s" "inj (cuid env)"
  then show "records_ok env t (snd (evolution_step env p s))"
    by (cases p) (simp_all add: keepsE [OF keeps_approve] keepsE [OF keeps_deploy] keepsE [OF keeps_rollback]
        keepsE [OF keeps_observe] keepsE [OF keeps_sweep] keepsE [OF keeps_records_versions])
qed

interpretation version_lines: kept "lineages_ok env" "evolution_step env" "\<lambda>_. inj (cuid env)"
proof
  fix s :: evolution and p assume ok: "lineages_ok env s" "inj (cuid env)"
  then show "lineages_ok env (snd (evolution_step env p s))"
    by (cases p) (simp_all add: keepsE [OF keeps_lineages_evolution(8)] keepsE [OF keeps_lineages_deploy]
        keepsE [OF keeps_lineages_rollback] keepsE [OF keeps_lineages_observe] keepsE [OF keeps_lineages_sweep]
        lineages.kept_step)
qed

interpretation version_records: kept "history_from h" "evolution_step env" "\<lambda>_. True"
proof
  fix s :: evolution and p assume h: "history_from h s"
  then show "history_from h (snd (evolution_step env p s))"
    by (cases p) (simp_all add: keepsE [OF keeps_history_evolution(8)] keepsE [OF keeps_history_deploy]
        keepsE [OF keeps_history_rollback] keepsE [OF keeps_history_observe] keepsE [OF keeps_history_sweep]
        history.kept_step)
qed

text \<open>A day in the small world: approved, deployed, rolled back.\<close>

definition lab_day :: "evolution_op list" where
  "lab_day = [Approve (Some lab_user) 500 ''c'' None, Deploy (Some lab_user) 1000 ''c'' False,
     RollBack (Some lab_user) 2000 ''iii'' ''why'' False]"

text \<open>C5: Every record of a deployment says the truth about it. Whatever the organizations and the timer
  make the engine do, in any order, with deployments that fail half way, writes the database refuses
  and candidates whose slot is taken: a pending record is the approval of a named person and no
  deployment; a refused one names a law that was violated and no version; one that is monitored,
  settled or rolled back passed every law and the policy, has its version, its monitoring window and
  the time of its deployment, and exactly a rolled-back one has the time and reason of its rollback; a
  failed one never got there; and no record ever has status \<open>DEPLOYED\<close>. Ids stay unique. New ids differ.\<close>

theorem deployment_records_are_sound:
  assumes "inj (cuid env)" and "fresh_ids env (issued s) (deployments s)" and "\<forall>r \<in> set (deployments s). sound (contents r)"
  shows "let s' = snd (run_ops (evolution_step env) ops s) in
    (\<forall>r \<in> set (deployments s'). sound (contents r)) \<and> unique_ids (deployments s')"
proof -
  have "records_ok env (deployments s) s" using assms(2,3) by (simp add: records_ok_def)
  from records.kept_run [OF this] assms(1) show ?thesis by (simp add: records_ok_def fresh_ids_def Let_def)
qed

lemma deployment_records_are_sound_witness:
  "let s' = snd (run_ops (evolution_step lab_env) lab_day lab) in
     map (\<lambda>r. d_status (contents r)) (deployments s') = [PENDING, ROLLED_BACK] \<and> (\<forall>r \<in> set (deployments s'). sound (contents r))"
proof -
  have "map (\<lambda>r. d_status (contents r)) (deployments (snd (run_ops (evolution_step lab_env) lab_day lab))) = [PENDING, ROLLED_BACK]"
    by code_simp
  moreover have "fresh_ids lab_env (issued lab) (deployments lab)" "\<forall>r \<in> set (deployments lab). sound (contents r)"
    by (simp_all add: lab_def fresh_ids_def unique_ids_def)
  ultimately show ?thesis using deployment_records_are_sound [OF lab_ids, of lab lab_day] by (simp add: Let_def)
qed

text \<open>C6: What the engine has done stays on record. Under any sequence of its operations no deployment
  record is removed or reordered, what it says was applied, what can restore it, who approved it and
  what the laws found never change, and its status only moves forward: monitored to settled or rolled
  back, settled to rolled back, and no further. No version is removed or renumbered or changes its
  payload; the versions of each aspect of a subject stay numbered from 1 without a gap, and at most one
  of them is active.\<close>

theorem evolution_is_on_record:
  assumes "inj (cuid env)" and "fresh_ids env (issued s) (deployments s)" and "\<forall>r \<in> set (deployments s). sound (contents r)"
    and "lineages_ok env s"
  shows "let s' = snd (run_ops (evolution_step env) ops s) in
    grows (deployments s) (deployments s') \<and> prefix (map frozen (versions s)) (map frozen (versions s'))
    \<and> numbered (versions s') \<and> one_active (versions s')"
proof -
  have "records_ok env (deployments s) s" using assms(2,3) by (simp add: records_ok_def)
  from records.kept_run [OF this] assms(1) have 1: "grows (deployments s) (deployments (snd (run_ops (evolution_step env) ops s)))"
    by (simp add: records_ok_def)
  have "history_from (map frozen (versions s)) s" by (simp add: history_from_def)
  from version_records.kept_run [OF this] have 2: "prefix (map frozen (versions s))
      (map frozen (versions (snd (run_ops (evolution_step env) ops s))))" by (simp add: history_from_def)
  from version_lines.kept_run [OF assms(4)] assms(1) 1 2 show ?thesis by (simp add: lineages_ok_def Let_def)
qed

lemma evolution_is_on_record_witness:
  "let s' = snd (run_ops (evolution_step lab_env) lab_day lab) in
     grows (deployments lab) (deployments s') \<and> numbered (versions s') \<and> one_active (versions s')"
proof -
  have "fresh_ids lab_env (issued lab) (deployments lab)" "\<forall>r \<in> set (deployments lab). sound (contents r)"
    "lineages_ok lab_env lab"
    by (simp_all add: lab_def fresh_ids_def unique_ids_def lineages_ok_def one_active_def numbered_def)
  from evolution_is_on_record [OF lab_ids this, of lab_day] show ?thesis by (simp add: Let_def)
qed

section \<open>A taken slot\<close>

lemma leaves_candidates_more [leaves_intros]:
  "leaves candidates (submit env ctx c now k)" "leaves candidates (apply_change env ctx now k ver dep)"
proof -
  show "leaves candidates (submit env ctx c now k)"
    using submit_leaves [of env ctx c now k] by (auto simp: leaves_def dest: apart_from_policiesD)
  show "leaves candidates (apply_change env ctx now k ver dep)"
    unfolding apply_change_def by (intro leaves_intros)
qed

lemma setStatus_taken:
  assumes "tenant ctx = Inr org" and "slot_taken org i st (candidates s)"
  shows "setStatus env ctx i st f s = (Inl (Database (unique_fault env i)), s)"
  using assms by (simp add: setStatus_def)

lemma put_into_production_taken:
  assumes t: "tenant ctx = Inr org" and taken: "slot_taken org (row_id k) candidate_status.DEPLOYED (candidates s)"
    and p: "put_into_production env ctx c now k rv s = (r, s')"
  shows "(\<exists>e. r = Inl e) \<and> candidates s' = candidates s"
proof
  let ?set = "setStatus env ctx (row_id k) candidate_status.DEPLOYED (\<lambda>d. d)"
  have "only_by candidates ?set (put_into_production env ctx c now k rv)"
    unfolding put_into_production_def
    by (intro only_by_after [where k = "\<lambda>a. bindS (m a) (n a)" for m n] only_by_before only_by_self leaves_intros)
  with p have "candidates s' = candidates s \<or> (\<exists>s1. candidates s1 = candidates s \<and> candidates s' = candidates (snd (?set s1)))"
    unfolding only_by_def by (metis snd_conv)
  then show "candidates s' = candidates s" using setStatus_taken [OF t] taken by auto
  have False if "r = Inr res" for res
    using p unfolding that put_into_production_def
  proof (elim bindS_InrE, goal_cases)
    case (1 pol sa asp sb ver sc summary sd new se u sf deployed sg u' sh u'' si)
    note r = 1(1-10)
    have "candidates sg = candidates s"
      using leavesD [OF policy_here_leaves(2) r(1)] leavesD [OF capture_leaves(2) r(3)] r(2,4)
        leavesD [OF create_deployment_leaves(2) r(5)] leavesD [OF leaves_candidates_more(2) r(6)]
        leavesD [OF update_deployment_leaves(2) r(7)] by (simp add: readS_Inr)
    with setStatus_taken [OF t, of "row_id k" candidate_status.DEPLOYED sg] taken r(8) show ?case by simp
  qed
  then show "\<exists>e. r = Inl e" by (cases r) auto
qed

text \<open>C40: A second deployment of the same kind to the same subject cannot succeed. If some other candidate of
  the organization, of the same kind for the same subject, is already marked deployed, then no call of
  \<open>deploy\<close>, forced or not, reports a deployment, and the candidate keeps its status; the unique index
  stops the last write of a deployment, not the first (the concrete case below ends with the new
  values in production, the deployment monitored and an error for the caller).\<close>

theorem taken_slot_never_deploys:
  assumes "tenant ctx = Inr org" and "slot_taken org i candidate_status.DEPLOYED (candidates s)"
    and "deploy env ctx now i force s = (r, s')"
  shows "(\<forall>res. r = Inr res \<longrightarrow> \<not> r_deployed res) \<and> candidates s' = candidates s"
  using assms(3)
proof (cases rule: deploy_cases)
  case (reviewing e c k)
  with leavesD [OF leaves_candidates_more(1) reviewing(3)] show ?thesis by simp
next
  case (refused c k rv s1)
  from leavesD [OF leaves_candidates_more(1) refused(5)] leavesD [OF refuse_leaves(2) refused(7)]
    refuse_never_deploys [of env ctx c now k rv s1 _ s'] refused(7) show ?thesis by auto
next
  case (written c k rv s1)
  have "row_id k = i" using find_candidate_Inr [OF written(2) assms(1)] by simp
  moreover have c: "candidates s1 = candidates s" by (rule leavesD [OF leaves_candidates_more(1) written(5)])
  ultimately show ?thesis
    using put_into_production_taken [OF assms(1) _ written(7)] assms(2) by auto
qed auto

definition occupied :: evolution where
  "occupied = lab\<lparr>candidates := [lab_row ''c'' lab_candidate, lab_row ''b'' (lab_candidate\<lparr>k_status := candidate_status.DEPLOYED\<rparr>)]\<rparr>"

lemma taken_slot_never_deploys_witness:
  "case deploy lab_env (Some lab_user) 1000 ''c'' False occupied of
     (r, s') \<Rightarrow> (\<forall>res. r = Inr res \<longrightarrow> \<not> r_deployed res) \<and> candidates s' = candidates occupied
       \<and> r = Inl (Database ''unique'') \<and> production s' \<noteq> production occupied
       \<and> map (\<lambda>d. d_status (contents d)) (deployments s') = [MONITORING]"
proof -
  have "tenant (Some lab_user) = Inr ''o''" "slot_taken ''o'' ''c'' candidate_status.DEPLOYED (candidates occupied)"
    by code_simp+
  note general = taken_slot_never_deploys [OF this surjective_pairing]
  have "case deploy lab_env (Some lab_user) 1000 ''c'' False occupied of
     (r, s') \<Rightarrow> r = Inl (Database ''unique'') \<and> production s' \<noteq> production occupied
       \<and> map (\<lambda>d. d_status (contents d)) (deployments s') = [MONITORING]" by code_simp
  with general [of lab_env 1000 False] show ?thesis by (auto split: prod.splits)
qed

end
