(* ===== verification/Manifest.thy ===== *)
theory Manifest
  imports Capabilities SemVer VectorClock WorkflowData
begin

text \<open>
  The extension manifest, \<open>src/backend/src/platform/manifest.ts\<close>: validation of untrusted input, the
  limits of the sandbox, the digest that is signed, the analysis of an upgrade, and the check of
  supplied settings.

  A manifest that validated is a record: its config definitions, contributions and migration steps are
  objects and its dependencies strings, which validation has established. Parameters: \<open>str\<close> is
  \<open>String(v)\<close> of what is not a string, \<open>member_text\<close> the text of what every object inherits,
  \<open>lcmp\<close> is \<open>localeCompare\<close>, \<open>number_text\<close> the text of a number, \<open>sha256_hex\<close> the digest of \<open>node:crypto\<close>.
\<close>

section \<open>Limits\<close>

text \<open>The arrow U+2192 of the messages.\<close>

abbreviation arrow :: string where "arrow \<equiv> ''->''"

definition PLATFORM_API_VERSION :: string where "PLATFORM_API_VERSION = ''1.0.0''"

record sandbox_limits =
  timeoutMs :: int
  callsPerMinute :: int
  httpRequestsPerMinute :: int
  storageBytes :: int
  storageKeys :: int

definition PLATFORM_LIMITS :: sandbox_limits where
  "PLATFORM_LIMITS = \<lparr>timeoutMs = 30000, callsPerMinute = 600, httpRequestsPerMinute = 120,
     storageBytes = 5000000, storageKeys = 5000\<rparr>"

definition DEFAULT_LIMITS :: sandbox_limits where
  "DEFAULT_LIMITS = \<lparr>timeoutMs = 10000, callsPerMinute = 120, httpRequestsPerMinute = 30,
     storageBytes = 1000000, storageKeys = 1000\<rparr>"

text \<open>\<open>clamp\<close>; a property that is absent takes the default, which is the fallback too.\<close>

definition clamp :: "json \<Rightarrow> int \<Rightarrow> int \<Rightarrow> int" where
  "clamp value fallback most =
     (let n = (case value of JNum (Fin x) \<Rightarrow> floor x | _ \<Rightarrow> fallback) in max 1 (min n most))"

definition resolveLimits :: "obj option \<Rightarrow> sandbox_limits" where
  "resolveLimits requested =
     (let r = (case requested of None \<Rightarrow> [] | Some m \<Rightarrow> m) in
      \<lparr>timeoutMs = clamp (getp ''timeoutMs'' r) (timeoutMs DEFAULT_LIMITS) (timeoutMs PLATFORM_LIMITS),
       callsPerMinute = clamp (getp ''callsPerMinute'' r) (callsPerMinute DEFAULT_LIMITS) (callsPerMinute PLATFORM_LIMITS),
       httpRequestsPerMinute = clamp (getp ''httpRequestsPerMinute'' r) (httpRequestsPerMinute DEFAULT_LIMITS)
         (httpRequestsPerMinute PLATFORM_LIMITS),
       storageBytes = clamp (getp ''storageBytes'' r) (storageBytes DEFAULT_LIMITS) (storageBytes PLATFORM_LIMITS),
       storageKeys = clamp (getp ''storageKeys'' r) (storageKeys DEFAULT_LIMITS) (storageKeys PLATFORM_LIMITS)\<rparr>)"

section \<open>The manifest\<close>

record manifest =
  slug :: string
  mname :: string
  version :: string
  mdescription :: "string option"
  author :: "string option"
  publisher :: "string option"
  license :: "string option"
  homepage :: "string option"
  capabilities :: "string list"
  subscribes :: "string list"
  dependencies :: "(string \<times> string) list"
  engine :: "string option"
  config :: "(string \<times> obj) list"
  workers :: "obj list"
  tools :: "obj list"
  triggers :: "obj list"
  limits :: sandbox_limits
  migrations :: "obj list"

record manifest_issue =
  issue_field :: string
  issue_message :: string

record manifest_validation =
  ok :: bool
  errors :: "manifest_issue list"
  warnings :: "manifest_issue list"
  result_manifest :: "manifest option"
  manifest_risk :: capability_risk
  digest :: string

definition issue_if :: "bool \<Rightarrow> string \<Rightarrow> string \<Rightarrow> manifest_issue list" where
  "issue_if b f m = (if b then [\<lparr>issue_field = f, issue_message = m\<rparr>] else [])"

section \<open>Reading untrusted values\<close>

definition asRecord :: "json \<Rightarrow> obj option" where
  "asRecord v = (case v of JObj m \<Rightarrow> Some m | _ \<Rightarrow> None)"

definition trimmed_text :: "string \<Rightarrow> obj \<Rightarrow> string option" where
  "trimmed_text k given = (case getp k given of JStr s \<Rightarrow> Some (trim s) | _ \<Rightarrow> None)"

definition own_text :: "string \<Rightarrow> obj \<Rightarrow> string option" where
  "own_text k given = (case getp k given of JStr s \<Rightarrow> Some s | _ \<Rightarrow> None)"

definition or_empty :: "string option \<Rightarrow> string" where
  "or_empty x = (case x of None \<Rightarrow> [] | Some s \<Rightarrow> s)"

definition str_of :: "(json \<Rightarrow> string) \<Rightarrow> json \<Rightarrow> string" where
  "str_of str v = (case v of JStr s \<Rightarrow> s | _ \<Rightarrow> str v)"

fun strings_in :: "json list \<Rightarrow> string list" where
  "strings_in [] = []"
| "strings_in (JStr s # vs) = s # strings_in vs"
| "strings_in (v # vs) = strings_in vs"

definition array_of :: "json \<Rightarrow> json list" where
  "array_of v = (case v of JArr vs \<Rightarrow> vs | _ \<Rightarrow> [])"

definition is_array :: "json \<Rightarrow> bool" where
  "is_array v \<longleftrightarrow> (case v of JArr vs \<Rightarrow> True | _ \<Rightarrow> False)"

definition blank :: "json \<Rightarrow> bool" where
  "blank v \<longleftrightarrow> (case v of JStr s \<Rightarrow> trim s = [] | _ \<Rightarrow> True)"

text \<open>The patterns \<open>SLUG\<close> and \<open>KEY\<close>: runs of lower-case letters and digits, single separators between.\<close>

definition lower_alnum :: "char \<Rightarrow> bool" where
  "lower_alnum c \<longleftrightarrow> is_digit c \<or> is_lower c"

fun segments :: "(char \<Rightarrow> bool) \<Rightarrow> string \<Rightarrow> string \<Rightarrow> string list" where
  "segments p acc [] = [rev acc]"
| "segments p acc (c # cs) = (if p c then rev acc # segments p [] cs else segments p (c # acc) cs)"

definition runs_separated :: "(char \<Rightarrow> bool) \<Rightarrow> string \<Rightarrow> bool" where
  "runs_separated p s \<longleftrightarrow> list_all (\<lambda>w. w \<noteq> [] \<and> list_all lower_alnum w) (segments p [] s)"

definition SLUG :: "string \<Rightarrow> bool" where
  "SLUG s \<longleftrightarrow> runs_separated (\<lambda>c. c = CHR ''-'') s"

definition KEY :: "string \<Rightarrow> bool" where
  "KEY s \<longleftrightarrow> runs_separated (\<lambda>c. c = CHR ''.'' \<or> c = CHR ''_'' \<or> c = CHR ''-'') s"

section \<open>Validation\<close>

definition identity_issues :: "string \<Rightarrow> string \<Rightarrow> string \<Rightarrow> manifest_issue list" where
  "identity_issues slug0 name0 version0 =
     issue_if (\<not> SLUG slug0) ''slug'' ''slug must be lower-case words separated by single hyphens'' @
     issue_if (length name0 < 2 \<or> length name0 > 120) ''name'' ''name must be between 2 and 120 characters'' @
     issue_if (\<not> isValid version0) ''version'' (quoted version0 @ '' is not a valid semantic version'')"

definition engine_errors :: "string option \<Rightarrow> manifest_issue list result" where
  "engine_errors e =
     (case e of
        None \<Rightarrow> Inr []
      | Some rng \<Rightarrow>
          bindE (isValidRange rng) (\<lambda>valid.
          if \<not> valid then Inr (issue_if True ''engine'' (quoted rng @ '' is not a valid version range''))
          else bindE (satisfies PLATFORM_API_VERSION rng) (\<lambda>sat.
            Inr (issue_if (\<not> sat) ''engine'' (''requires platform API '' @ rng @ '', but this platform is '' @ PLATFORM_API_VERSION)))))"

definition engine_warnings :: "string option \<Rightarrow> manifest_issue list" where
  "engine_warnings e =
     issue_if (e = None) ''engine'' ''No engine range declared; the extension will be pinned to the current major''"

definition capability_errors :: "json \<Rightarrow> manifest_issue list" where
  "capability_errors v =
     issue_if (\<not> is_array v) ''capabilities'' ''capabilities must be an array (use [] for none)'' @
     concat (map (\<lambda>c. issue_if (\<not> isCapability c) ''capabilities''
       (quoted c @ '' is not a capability this platform grants'')) (strings_in (array_of v)))"

fun dependency_errors :: "(json \<Rightarrow> string) \<Rightarrow> string \<Rightarrow> obj \<Rightarrow> manifest_issue list result" where
  "dependency_errors str slug0 [] = Inr []"
| "dependency_errors str slug0 ((dep, rng) # ds) =
     (let f = ''dependencies.'' @ dep in
      bindE (case rng of JStr r \<Rightarrow> isValidRange r | _ \<Rightarrow> Inr False) (\<lambda>valid.
      bindE (dependency_errors str slug0 ds) (\<lambda>rest.
      Inr (issue_if (\<not> SLUG dep) f ''dependency name must be a valid slug'' @
           issue_if (\<not> valid) f (quoted (str_of str rng) @ '' is not a valid version range'') @
           issue_if (dep = slug0) f ''an extension cannot depend on itself'' @ rest))))"

definition CONFIG_TYPES :: "string list" where
  "CONFIG_TYPES = [''string'', ''number'', ''boolean'', ''secret'', ''enum'']"

definition field_errors :: "string \<times> json \<Rightarrow> manifest_issue list" where
  "field_errors e =
     (case e of (f, definition0) \<Rightarrow>
        (case asRecord definition0 of
           None \<Rightarrow> issue_if True (''config.'' @ f) ''field definition must be an object''
         | Some shape \<Rightarrow>
             let t = getp ''type'' shape in
             issue_if (case t of JStr s \<Rightarrow> s \<notin> set CONFIG_TYPES | _ \<Rightarrow> True) (''config.'' @ f)
               ''type must be one of string, number, boolean, secret, enum'' @
             issue_if (t = JStr ''enum'' \<and> array_of (getp ''options'' shape) = []) (''config.'' @ f)
               ''enum fields must list their options'' @
             issue_if (t = JStr ''secret'' \<and> getp ''default'' shape \<noteq> Undef) (''config.'' @ f)
               ''secret fields must not carry a default value''))"

text \<open>\<open>readContributions\<close>: the loop over one section, with the keys seen in it.\<close>

definition at_index :: "string \<Rightarrow> nat \<Rightarrow> string" where
  "at_index section0 i = ''contributes.'' @ section0 @ ''['' @ show_nat i @ '']''"

fun read_entries :: "string \<Rightarrow> bool \<Rightarrow> nat \<Rightarrow> string list \<Rightarrow> json list \<Rightarrow> manifest_issue list \<times> obj list" where
  "read_entries section0 described i seen [] = ([], [])"
| "read_entries section0 described i seen (entry # es) =
     (case asRecord entry of
        None \<Rightarrow>
          (case read_entries section0 described (Suc i) seen es of
             (iss, rows) \<Rightarrow> (issue_if True (at_index section0 i) ''contribution must be an object'' @ iss, rows))
      | Some shape \<Rightarrow>
          let key = or_empty (own_text ''key'' shape) in
          (case read_entries section0 described (Suc i) (key # seen) es of
             (iss, rows) \<Rightarrow>
               (issue_if (\<not> KEY key) (at_index section0 i @ ''.key'') ''key must be lower-case alphanumeric'' @
                issue_if (key \<in> set seen) (at_index section0 i @ ''.key'') (''duplicate contribution key '' @ quoted key) @
                issue_if (blank (getp ''name'' shape)) (at_index section0 i @ ''.name'') ''name is required'' @
                issue_if (described \<and> blank (getp ''description'' shape)) (at_index section0 i @ ''.description'')
                  (''description is required '' @ dash @ '' it is what the model reads to decide when to call this'') @ iss,
                shape # rows)))"

definition readContributions :: "string \<Rightarrow> bool \<Rightarrow> obj \<Rightarrow> manifest_issue list \<times> obj list" where
  "readContributions section0 described contributes =
     (case getp section0 contributes of
        Undef \<Rightarrow> ([], [])
      | JArr vs \<Rightarrow> read_entries section0 described 0 [] vs
      | _ \<Rightarrow> (issue_if True (''contributes.'' @ section0) (section0 @ '' must be an array''), []))"

definition held_errors :: "(json \<Rightarrow> string) \<Rightarrow> string list \<Rightarrow> string \<Rightarrow> string \<Rightarrow> json \<Rightarrow> manifest_issue list" where
  "held_errors str requested f why c =
     (case c of
        JStr s \<Rightarrow>
          if \<not> isCapability s then issue_if True f (quoted s @ '' is not a capability'')
          else issue_if (s \<notin> set requested) f (quoted s @ '' is not requested by the extension, so '' @ why)
      | _ \<Rightarrow> issue_if True f (quoted (str c) @ '' is not a capability''))"

definition worker_errors :: "(json \<Rightarrow> string) \<Rightarrow> string list \<Rightarrow> nat \<times> obj \<Rightarrow> manifest_issue list" where
  "worker_errors str requested e =
     (case e of (i, worker) \<Rightarrow>
        concat (map (held_errors str requested (at_index ''workers'' i @ ''.capabilities'')
                       ''a contributed worker cannot hold it'')
                  (array_of (getp ''capabilities'' worker))))"

definition tool_errors :: "(json \<Rightarrow> string) \<Rightarrow> string list \<Rightarrow> nat \<times> obj \<Rightarrow> manifest_issue list" where
  "tool_errors str requested e =
     (case e of (i, tool) \<Rightarrow>
        if getp ''capability'' tool = Undef then []
        else held_errors str requested (at_index ''tools'' i @ ''.capability'') ''its tool cannot require it''
               (getp ''capability'' tool))"

definition migration_errors :: "string \<Rightarrow> nat \<times> json \<Rightarrow> manifest_issue list result" where
  "migration_errors version0 e =
     (case e of (i, entry) \<Rightarrow>
        let f = ''migrations['' @ show_nat i @ '']'' in
        (case asRecord entry of
           None \<Rightarrow> Inr (issue_if True f ''migration must be an object'')
         | Some shape \<Rightarrow>
             bindE (case getp ''to'' shape of
                      JStr t \<Rightarrow>
                        if \<not> isValid t then Inr (issue_if True (f @ ''.to'') ''to must be a semantic version'')
                        else if version0 \<noteq> [] \<and> isValid version0
                        then bindE (gt t version0) (\<lambda>ahead. Inr (issue_if ahead (f @ ''.to'')
                               (''migrates to '' @ t @ '', which is ahead of this release ('' @ version0 @ '')'')))
                        else Inr []
                    | _ \<Rightarrow> Inr (issue_if True (f @ ''.to'') ''to must be a semantic version''))
               (\<lambda>to_issues. Inr (to_issues @
                  issue_if (blank (getp ''description'' shape)) (f @ ''.description'') ''description is required''))))"

fun collect :: "('a \<Rightarrow> 'b list result) \<Rightarrow> 'a list \<Rightarrow> 'b list result" where
  "collect f [] = Inr []"
| "collect f (x # xs) = bindE (f x) (\<lambda>ys. bindE (collect f xs) (\<lambda>zs. Inr (ys @ zs)))"

definition advice :: "string list \<Rightarrow> string list \<Rightarrow> obj list \<Rightarrow> obj list \<Rightarrow> manifest_issue list" where
  "advice known subs tool_rows worker_rows =
     issue_if (subs \<noteq> [] \<and> ''can_read_events'' \<notin> set known) ''subscribes''
       (''Events are subscribed to but '' @ quoted ''can_read_events'' @ '' was not requested; delivery will be denied'') @
     issue_if (tool_rows \<noteq> [] \<and> ''can_register_tools'' \<notin> set known) ''contributes.tools''
       (''Tools are contributed but '' @ quoted ''can_register_tools'' @ '' was not requested; they will not be registered'') @
     issue_if (worker_rows \<noteq> [] \<and> ''can_register_workers'' \<notin> set known) ''contributes.workers''
       (''Workers are contributed but '' @ quoted ''can_register_workers'' @ '' was not requested; they will not be registered'') @
     concat (map (\<lambda>c. issue_if (case describe c of None \<Rightarrow> False | Some d \<Rightarrow> atLeast_risk (risk d) CRITICAL) ''capabilities''
       (quoted c @ '' is a critical capability and will require review'')) known)"

section \<open>The digest\<close>

text \<open>\<open>canonical\<close>: keys sorted, entries that are \<open>undefined\<close> left out.\<close>

function canonical_text :: "(rat \<Rightarrow> string) \<Rightarrow> json \<Rightarrow> string" where
  "canonical_text number_text Undef = ''null''"
| "canonical_text number_text Null = ''null''"
| "canonical_text number_text (JBool b) = (if b then ''true'' else ''false'')"
| "canonical_text number_text (JNum x) = (case x of Fin r \<Rightarrow> number_text r | _ \<Rightarrow> ''null'')"
| "canonical_text number_text (JStr s) = json_quote s"
| "canonical_text number_text (JArr vs) = ''['' @ join '','' (map (canonical_text number_text) vs) @ '']''"
| "canonical_text number_text (JObj m) =
     ''{'' @ join '','' (map (\<lambda>e. json_quote (fst e) @ '':'' @ canonical_text number_text (snd e))
       (sort_by by_key (filter (\<lambda>e. snd e \<noteq> Undef) m))) @ ''}''"
  by pat_completeness auto
termination
proof (relation "measure (\<lambda>(f, v). size v)")
  fix number_text :: "rat \<Rightarrow> string" and vs :: "json list" and v
  assume "v \<in> set vs"
  then show "((number_text, v), number_text, JArr vs) \<in> measure (\<lambda>(f, v). size v)"
    by (induction vs) auto
next
  fix number_text :: "rat \<Rightarrow> string" and m :: obj and e
  assume "e \<in> set (sort_by by_key (filter (\<lambda>e. snd e \<noteq> Undef) m))"
  then have "e \<in> set m" by simp
  then have "size (snd e) < size (JObj m)" by (induction m) auto
  then show "((number_text, snd e), number_text, JObj m) \<in> measure (\<lambda>(f, v). size v)" by simp
qed simp

definition key_of :: "obj \<Rightarrow> string" where
  "key_of entry = or_empty (own_text ''key'' entry)"

definition sorted_keys :: "obj list \<Rightarrow> json" where
  "sorted_keys rows = JArr (map JStr (sort_str (map key_of rows)))"

definition limits_value :: "sandbox_limits \<Rightarrow> json" where
  "limits_value l =
     JObj [(''timeoutMs'', JNum (Fin (of_int (timeoutMs l)))), (''callsPerMinute'', JNum (Fin (of_int (callsPerMinute l)))),
       (''httpRequestsPerMinute'', JNum (Fin (of_int (httpRequestsPerMinute l)))),
       (''storageBytes'', JNum (Fin (of_int (storageBytes l)))), (''storageKeys'', JNum (Fin (of_int (storageKeys l))))]"

definition digest_material :: "(string \<Rightarrow> string \<Rightarrow> int) \<Rightarrow> manifest \<Rightarrow> json" where
  "digest_material lcmp m =
     JObj [(''slug'', JStr (slug m)), (''version'', JStr (version m)),
       (''capabilities'', JArr (map JStr (sort_str (capabilities m)))),
       (''dependencies'', JArr (map (\<lambda>(k, v). JArr [JStr k, JStr v])
          (sort_by (\<lambda>a b. lcmp (fst a) (fst b)) (dependencies m)))),
       (''engine'', JStr (or_empty (engine m))),
       (''contributes'', JObj [(''workers'', sorted_keys (workers m)), (''tools'', sorted_keys (tools m)),
          (''triggers'', sorted_keys (triggers m))]),
       (''limits'', limits_value (limits m))]"

definition digestOf :: "(string \<Rightarrow> string) \<Rightarrow> (rat \<Rightarrow> string) \<Rightarrow> (string \<Rightarrow> string \<Rightarrow> int) \<Rightarrow> manifest \<Rightarrow> string" where
  "digestOf sha256_hex number_text lcmp m = sha256_hex (canonical_text number_text (digest_material lcmp m))"

section \<open>The whole of \<open>validate\<close>\<close>

record manifest_env =
  str :: "json \<Rightarrow> string"
  member_text :: "string \<Rightarrow> string"
  lcmp :: "string \<Rightarrow> string \<Rightarrow> int"
  number_text :: "rat \<Rightarrow> string"
  sha256_hex :: "string \<Rightarrow> string"

definition digest_of :: "manifest_env \<Rightarrow> manifest \<Rightarrow> string" where
  "digest_of env = digestOf (sha256_hex env) (number_text env) (lcmp env)"

definition record_or_empty :: "json \<Rightarrow> obj" where
  "record_or_empty v = (case asRecord v of None \<Rightarrow> [] | Some m \<Rightarrow> m)"

definition not_record :: "json \<Rightarrow> bool" where
  "not_record v \<longleftrightarrow> v \<noteq> Undef \<and> asRecord v = None"

text \<open>The normalised manifest.\<close>

definition normalise :: "manifest_env \<Rightarrow> obj \<Rightarrow> manifest" where
  "normalise env given =
     (let contributes = record_or_empty (getp ''contributes'' given) in
      \<lparr>slug = or_empty (trimmed_text ''slug'' given), mname = or_empty (trimmed_text ''name'' given),
       version = or_empty (trimmed_text ''version'' given), mdescription = own_text ''description'' given,
       author = own_text ''author'' given, publisher = own_text ''publisher'' given,
       license = own_text ''license'' given, homepage = own_text ''homepage'' given,
       capabilities = dedup (filter isCapability (strings_in (array_of (getp ''capabilities'' given)))),
       subscribes = strings_in (array_of (getp ''subscribes'' given)),
       dependencies = map (\<lambda>(k, v). (k, str_of (str env) v)) (record_or_empty (getp ''dependencies'' given)),
       engine = trimmed_text ''engine'' given,
       config = map (\<lambda>(k, v). (k, record_or_empty v)) (record_or_empty (getp ''config'' given)),
       workers = map record_or_empty (array_of (getp ''workers'' contributes)),
       tools = map record_or_empty (array_of (getp ''tools'' contributes)),
       triggers = map record_or_empty (array_of (getp ''triggers'' contributes)),
       limits = resolveLimits (asRecord (getp ''limits'' given)),
       migrations = map record_or_empty (array_of (getp ''migrations'' given))\<rparr>)"

text \<open>The errors in the order they are found; a range whose bound does not parse throws.\<close>

definition manifest_errors :: "manifest_env \<Rightarrow> obj \<Rightarrow> manifest_issue list result" where
  "manifest_errors env given =
     (let slug0 = or_empty (trimmed_text ''slug'' given);
          version0 = or_empty (trimmed_text ''version'' given);
          known = filter isCapability (strings_in (array_of (getp ''capabilities'' given)));
          contributes = record_or_empty (getp ''contributes'' given);
          (w_issues, w_rows) = readContributions ''workers'' False contributes;
          (t_issues, t_rows) = readContributions ''tools'' True contributes;
          (g_issues, g_rows) = readContributions ''triggers'' False contributes;
          migs = getp ''migrations'' given in
      bindE (engine_errors (trimmed_text ''engine'' given)) (\<lambda>e_engine.
      bindE (dependency_errors (str env) slug0 (record_or_empty (getp ''dependencies'' given))) (\<lambda>e_deps.
      bindE (collect (migration_errors version0) (List.enumerate 0 (array_of migs))) (\<lambda>e_migs.
      Inr (identity_issues slug0 (or_empty (trimmed_text ''name'' given)) version0 @ e_engine @
           capability_errors (getp ''capabilities'' given) @
           issue_if (not_record (getp ''dependencies'' given)) ''dependencies'' (''dependencies must be an object of slug '' @ arrow @ '' range'') @
           e_deps @
           issue_if (not_record (getp ''config'' given)) ''config'' (''config must be an object of field name '' @ arrow @ '' definition'') @
           concat (map field_errors (record_or_empty (getp ''config'' given))) @
           w_issues @ t_issues @ g_issues @
           concat (map (worker_errors (str env) known) (List.enumerate 0 w_rows)) @
           concat (map (tool_errors (str env) known) (List.enumerate 0 t_rows)) @
           issue_if (migs \<noteq> Undef \<and> \<not> is_array migs) ''migrations'' ''migrations must be an array'' @ e_migs)))))"

definition manifest_warnings :: "obj \<Rightarrow> manifest_issue list" where
  "manifest_warnings given =
     (let caps = strings_in (array_of (getp ''capabilities'' given));
          contributes = record_or_empty (getp ''contributes'' given) in
      engine_warnings (trimmed_text ''engine'' given) @
      issue_if (length (dedup caps) \<noteq> length caps) ''capabilities''
        ''Duplicate capabilities were requested and have been collapsed'' @
      advice (filter isCapability caps) (strings_in (array_of (getp ''subscribes'' given)))
        (snd (readContributions ''tools'' True contributes)) (snd (readContributions ''workers'' False contributes)))"

definition validate :: "manifest_env \<Rightarrow> json \<Rightarrow> manifest_validation result" where
  "validate env input =
     (case asRecord input of
        None \<Rightarrow> Inr \<lparr>ok = False, errors = issue_if True ''manifest'' ''Manifest must be an object'', warnings = [],
                     result_manifest = None, manifest_risk = LOW, digest = []\<rparr>
      | Some given \<Rightarrow>
          bindE (manifest_errors env given) (\<lambda>errs.
          let known = filter isCapability (strings_in (array_of (getp ''capabilities'' given)));
              m = normalise env given in
          Inr (if errs \<noteq> []
               then \<lparr>ok = False, errors = errs, warnings = manifest_warnings given, result_manifest = None,
                     manifest_risk = highestRisk known, digest = []\<rparr>
               else \<lparr>ok = True, errors = [], warnings = manifest_warnings given, result_manifest = Some m,
                     manifest_risk = highestRisk known, digest = digest_of env m\<rparr>)))"

section \<open>Upgrades\<close>

datatype change_severity = BLOCKING | BREAKING | NOTICE

record manifest_change =
  severity :: change_severity
  change_code :: string
  change_message :: string

record upgrade_analysis =
  from_version :: string
  to_version :: string
  release :: release_kind
  changes :: "manifest_change list"
  blocked :: bool
  breaking :: bool
  addedCapabilities :: "string list"
  removedCapabilities :: "string list"
  upgrade_migrations :: "obj list"

definition change_if :: "bool \<Rightarrow> change_severity \<Rightarrow> string \<Rightarrow> string \<Rightarrow> manifest_change list" where
  "change_if b sev c m = (if b then [\<lparr>severity = sev, change_code = c, change_message = m\<rparr>] else [])"

text \<open>\<open>o[k]\<close> finds what every object inherits; \<open>None\<close> is \<open>undefined\<close>, \<open>Some None\<close> an inherited member.\<close>

definition look_up :: "string \<Rightarrow> (string \<times> 'a) list \<Rightarrow> 'a option option" where
  "look_up k m = (case map_of m k of Some v \<Rightarrow> Some (Some v) | None \<Rightarrow> if k \<in> set OBJECT_PROTOTYPE then Some None else None)"

fun release_lower :: "release_kind \<Rightarrow> string" where
  "release_lower MAJOR = ''major''" | "release_lower MINOR = ''minor''" | "release_lower PATCH = ''patch''"
| "release_lower PRERELEASE = ''prerelease''" | "release_lower NONE = ''none''"

definition version_changes :: "manifest \<Rightarrow> manifest \<Rightarrow> manifest_change list" where
  "version_changes cur cand =
     (if \<not> (isValid (version cur) \<and> isValid (version cand))
      then change_if True BLOCKING ''invalid_version'' ''One of the versions is not a valid semantic version''
      else if lt (version cand) (version cur) = Inr True
      then change_if True BLOCKING ''downgrade'' (version cand @ '' is older than the installed '' @ version cur @
             ''; use rollback rather than upgrade'')
      else change_if (eq (version cand) (version cur) = Inr True) BLOCKING ''same_version''
             (version cand @ '' is already installed''))"

definition engine_changes :: "manifest \<Rightarrow> manifest_change list result" where
  "engine_changes cand =
     (case engine cand of
        None \<Rightarrow> Inr []
      | Some e \<Rightarrow>
          if e = [] then Inr []
          else bindE (satisfies PLATFORM_API_VERSION e) (\<lambda>sat. Inr (change_if (\<not> sat) BLOCKING ''engine_incompatible''
                 (''Requires platform API '' @ e @ ''; this platform is '' @ PLATFORM_API_VERSION))))"

definition capability_changes :: "string list \<Rightarrow> string list \<Rightarrow> manifest_change list" where
  "capability_changes added removed =
     map (\<lambda>c. \<lparr>severity = BREAKING, change_code = ''capability_added'', change_message = ''Now asks for '' @ quoted c @
            (case describe c of None \<Rightarrow> [] | Some d \<Rightarrow> '' '' @ dash @ '' '' @ description d)\<rparr>) added @
     map (\<lambda>c. \<lparr>severity = NOTICE, change_code = ''capability_removed'', change_message = ''No longer asks for '' @ quoted c\<rparr>) removed"

definition section_changes :: "string \<times> (manifest \<Rightarrow> obj list) \<Rightarrow> manifest \<Rightarrow> manifest \<Rightarrow> manifest_change list" where
  "section_changes sec cur cand =
     (let single = butlast (fst sec); old = dedup (map key_of (snd sec cur)); new = dedup (map key_of (snd sec cand)) in
      map (\<lambda>k. \<lparr>severity = BREAKING, change_code = ''contribution_removed'', change_message = ''Removes the '' @ single @ '' '' @ quoted k @
             ''; anything configured to use it will stop working''\<rparr>) (filter (\<lambda>k. k \<notin> set new) old) @
      map (\<lambda>k. \<lparr>severity = NOTICE, change_code = ''contribution_added'', change_message = ''Adds the '' @ single @ '' '' @ quoted k\<rparr>)
        (filter (\<lambda>k. k \<notin> set old) new))"

definition SECTIONS :: "(string \<times> (manifest \<Rightarrow> obj list)) list" where
  "SECTIONS = [(''workers'', workers), (''tools'', tools), (''triggers'', triggers)]"

text \<open>One field of the candidate's config; an inherited member has no \<open>type\<close> and is not \<open>required\<close>.\<close>

definition config_change :: "(json \<Rightarrow> string) \<Rightarrow> (string \<times> obj) list \<Rightarrow> string \<times> obj \<Rightarrow> manifest_change list" where
  "config_change text cur e =
     (case e of (f, d) \<Rightarrow>
        (case look_up f cur of
           None \<Rightarrow>
             if jtruthy (getp ''required'' d) \<and> getp ''default'' d = Undef
             then change_if True BREAKING ''config_required_added'' (''Adds a required setting '' @ quoted f @
                    '' with no default; it must be supplied before the upgrade completes'')
             else change_if True NOTICE ''config_added'' (''Adds the optional setting '' @ quoted f)
         | Some existing \<Rightarrow>
             let ex = (case existing of None \<Rightarrow> [] | Some x \<Rightarrow> x) in
             if getp ''type'' ex \<noteq> getp ''type'' d
             then change_if True BREAKING ''config_type_changed'' (''Setting '' @ quoted f @ '' changes from '' @
                    str_of text (getp ''type'' ex) @ '' to '' @ str_of text (getp ''type'' d) @
                    ''; the stored value will not carry over'')
             else change_if (\<not> jtruthy (getp ''required'' ex) \<and> jtruthy (getp ''required'' d)) BREAKING ''config_now_required''
                    (''Setting '' @ quoted f @ '' is now required'')))"

definition config_changes :: "(json \<Rightarrow> string) \<Rightarrow> manifest \<Rightarrow> manifest \<Rightarrow> manifest_change list" where
  "config_changes text cur cand =
     concat (map (config_change text (config cur)) (config cand)) @
     map (\<lambda>f. \<lparr>severity = NOTICE, change_code = ''config_removed'', change_message = ''Drops the setting '' @ quoted f @
            ''; its stored value will be discarded''\<rparr>)
       (filter (\<lambda>f. look_up f (config cand) = None) (keys (config cur)))"

text \<open>\<open>!deps[k]\<close>: absent, or an empty range; an inherited member is neither.\<close>

definition missing_dep :: "string \<Rightarrow> (string \<times> string) list \<Rightarrow> bool" where
  "missing_dep k deps \<longleftrightarrow> look_up k deps = None \<or> look_up k deps = Some (Some [])"

definition dependency_change :: "(string \<Rightarrow> string) \<Rightarrow> (string \<times> string) list \<Rightarrow> string \<times> string \<Rightarrow> manifest_change list" where
  "dependency_change inherited cur e =
     (case e of (k, rng) \<Rightarrow>
        if missing_dep k cur then change_if True BREAKING ''dependency_added'' (''Now depends on '' @ quoted k @ '' '' @ rng)
        else change_if (look_up k cur \<noteq> Some (Some rng)) NOTICE ''dependency_changed''
               (''Dependency '' @ quoted k @ '' moves from '' @
                (case look_up k cur of Some (Some r) \<Rightarrow> r | _ \<Rightarrow> inherited k) @ '' to '' @ rng))"

definition dependency_changes :: "(string \<Rightarrow> string) \<Rightarrow> manifest \<Rightarrow> manifest \<Rightarrow> manifest_change list" where
  "dependency_changes inherited cur cand =
     concat (map (dependency_change inherited (dependencies cur)) (dependencies cand)) @
     map (\<lambda>k. \<lparr>severity = NOTICE, change_code = ''dependency_removed'', change_message = ''No longer depends on '' @ quoted k\<rparr>)
       (filter (\<lambda>k. missing_dep k (dependencies cand)) (keys (dependencies cur)))"

definition step_to :: "obj \<Rightarrow> string" where
  "step_to step = or_empty (own_text ''to'' step)"

definition migration_order :: "obj \<Rightarrow> obj \<Rightarrow> int" where
  "migration_order a b = (case compare (step_to a) (step_to b) of Inr c \<Rightarrow> c | Inl e \<Rightarrow> 0)"

definition due_migrations :: "manifest \<Rightarrow> manifest \<Rightarrow> obj list" where
  "due_migrations cur cand =
     sort_by migration_order (filter (\<lambda>step. isValid (step_to step) \<and> isValid (version cur) \<and> isValid (version cand)
         \<and> gt (step_to step) (version cur) = Inr True \<and> gte (version cand) (step_to step) = Inr True)
       (migrations cand))"

definition analyseUpgrade :: "manifest_env \<Rightarrow> manifest \<Rightarrow> manifest \<Rightarrow> upgrade_analysis result" where
  "analyseUpgrade env cur cand =
     (let bothValid = (isValid (version cur) \<and> isValid (version cand));
          rel = (if bothValid then (case classify (version cur) (version cand) of Inr r \<Rightarrow> r | Inl e \<Rightarrow> NONE) else NONE);
          added = sort_str (filter (\<lambda>c. c \<notin> set (capabilities cur)) (dedup (capabilities cand)));
          removed = sort_str (filter (\<lambda>c. c \<notin> set (capabilities cand)) (dedup (capabilities cur))) in
      bindE (engine_changes cand) (\<lambda>e.
      let cs = change_if (slug cur \<noteq> slug cand) BLOCKING ''slug_mismatch''
                 (''Candidate is '' @ quoted (slug cand) @ '' but '' @ quoted (slug cur) @ '' is installed'') @
               version_changes cur cand @ e @ capability_changes added removed @
               concat (map (\<lambda>sec. section_changes sec cur cand) SECTIONS) @
               config_changes (str env) cur cand @ dependency_changes (member_text env) cur cand @
               change_if (bothValid \<and> isBreakingUpgrade (version cur) (version cand) = Inr True) BREAKING ''major_release''
                 (version cur @ '' '' @ arrow @ '' '' @ version cand @
                  '' is a breaking release by the publisher'' @ [CHR 0x27] @ ''s own versioning'') @
               change_if (bothValid \<and> added \<noteq> [] \<and> (rel = PATCH \<or> rel = PRERELEASE)) BREAKING ''undeclared_capability_change''
                 (''A '' @ release_lower rel @ '' release should not change capabilities, but this one adds '' @ join '', '' added) in
      Inr \<lparr>from_version = version cur, to_version = version cand, release = rel, changes = cs,
           blocked = list_ex (\<lambda>c. severity c = BLOCKING) cs, breaking = list_ex (\<lambda>c. severity c = BREAKING) cs,
           addedCapabilities = added, removedCapabilities = removed,
           upgrade_migrations = due_migrations cur cand\<rparr>))"

section \<open>Settings\<close>

text \<open>\<open>Number(v)\<close>.\<close>

definition to_num :: "(json \<Rightarrow> string) \<Rightarrow> json \<Rightarrow> number" where
  "to_num text v =
     (case v of JNum x \<Rightarrow> x | JStr s \<Rightarrow> js_number s | JBool b \<Rightarrow> Fin (if b then 1 else 0)
      | Null \<Rightarrow> Fin 0 | Undef \<Rightarrow> NaN | _ \<Rightarrow> js_number (text v))"

text \<open>\<open>supplied[field] ?? definition.default\<close>; an inherited member behaves like its text below.\<close>

definition setting_value :: "manifest_env \<Rightarrow> obj \<Rightarrow> string \<Rightarrow> obj \<Rightarrow> json" where
  "setting_value env supplied f d =
     (case look_up f supplied of
        Some None \<Rightarrow> JStr (member_text env f)
      | Some (Some v) \<Rightarrow> coalesce v (getp ''default'' d)
      | None \<Rightarrow> getp ''default'' d)"

definition check_setting :: "manifest_env \<Rightarrow> obj \<Rightarrow> string \<times> obj \<Rightarrow> manifest_issue list \<times> obj" where
  "check_setting env supplied e =
     (case e of (f, d) \<Rightarrow>
        let v = setting_value env supplied f d; t = getp ''type'' d in
        if v = Undef \<or> v = Null \<or> v = JStr []
        then (issue_if (jtruthy (getp ''required'' d)) f (quoted f @ '' is required''), [])
        else if t = JStr ''number'' then
          (case to_num (str env) v of
             Fin x \<Rightarrow> ([], [(f, JNum (Fin x))])
           | _ \<Rightarrow> (issue_if True f (quoted f @ '' must be a number''), []))
        else if t = JStr ''boolean'' then
          (case v of
             JBool b \<Rightarrow> ([], [(f, JBool b)])
           | JStr s \<Rightarrow> if s = ''true'' \<or> s = ''false'' then ([], [(f, JBool (s = ''true''))])
                       else (issue_if True f (quoted f @ '' must be true or false''), [])
           | _ \<Rightarrow> (issue_if True f (quoted f @ '' must be true or false''), []))
        else if t = JStr ''enum'' then
          (let options0 = array_of (getp ''options'' d) in
           if JStr (str_of (str env) v) \<notin> set options0
           then (issue_if True f (quoted f @ '' must be one of '' @ join '', '' (map (join_elem (str env)) options0)), [])
           else ([], [(f, JStr (str_of (str env) v))]))
        else ([], [(f, JStr (str_of (str env) v))]))"

record config_check =
  check_ok :: bool
  check_errors :: "manifest_issue list"
  check_values :: obj

definition validateConfig :: "manifest_env \<Rightarrow> manifest \<Rightarrow> obj \<Rightarrow> config_check" where
  "validateConfig env m supplied =
     (let found = map (check_setting env supplied) (config m);
          errs = concat (map fst found) @
                 concat (map (\<lambda>f. issue_if (look_up f (config m) = None) f
                   (quoted f @ '' is not a setting this extension declares'')) (keys supplied)) in
      \<lparr>check_ok = (errs = []), check_errors = errs, check_values = concat (map snd found)\<rparr>)"

definition secretFields :: "manifest \<Rightarrow> string list" where
  "secretFields m = keys (filter (\<lambda>(f, d). getp ''type'' d = JStr ''secret'') (config m))"

section \<open>What validation establishes\<close>

lemma issue_if_Nil [simp]: "issue_if b f m = [] \<longleftrightarrow> \<not> b"
  by (simp add: issue_if_def)

text \<open>A contribution asks for nothing the extension does not ask for.\<close>

definition worker_within :: "string list \<Rightarrow> obj \<Rightarrow> bool" where
  "worker_within caps w \<longleftrightarrow> (\<forall>c \<in> set (array_of (getp ''capabilities'' w)). \<exists>s \<in> set caps. c = JStr s)"

definition tool_within :: "string list \<Rightarrow> obj \<Rightarrow> bool" where
  "tool_within caps t \<longleftrightarrow> (getp ''capability'' t = Undef \<or> (\<exists>s \<in> set caps. getp ''capability'' t = JStr s))"

definition limits_ok :: "sandbox_limits \<Rightarrow> bool" where
  "limits_ok l \<longleftrightarrow>
     1 \<le> timeoutMs l \<and> timeoutMs l \<le> timeoutMs PLATFORM_LIMITS
     \<and> 1 \<le> callsPerMinute l \<and> callsPerMinute l \<le> callsPerMinute PLATFORM_LIMITS
     \<and> 1 \<le> httpRequestsPerMinute l \<and> httpRequestsPerMinute l \<le> httpRequestsPerMinute PLATFORM_LIMITS
     \<and> 1 \<le> storageBytes l \<and> storageBytes l \<le> storageBytes PLATFORM_LIMITS
     \<and> 1 \<le> storageKeys l \<and> storageKeys l \<le> storageKeys PLATFORM_LIMITS"

definition contributions_ok :: "obj list \<Rightarrow> bool" where
  "contributions_ok rows \<longleftrightarrow> distinct (map key_of rows) \<and> list_all KEY (map key_of rows)"

definition setting_ok :: "obj \<Rightarrow> bool" where
  "setting_ok d \<longleftrightarrow> (\<exists>t \<in> set CONFIG_TYPES. getp ''type'' d = JStr t)
     \<and> (getp ''type'' d = JStr ''enum'' \<longrightarrow> array_of (getp ''options'' d) \<noteq> [])
     \<and> (getp ''type'' d = JStr ''secret'' \<longrightarrow> getp ''default'' d = Undef)"

definition sound_manifest :: "manifest \<Rightarrow> bool" where
  "sound_manifest m \<longleftrightarrow>
     SLUG (slug m) \<and> 2 \<le> length (mname m) \<and> length (mname m) \<le> 120 \<and> isValid (version m)
     \<and> (\<forall>e. engine m = Some e \<longrightarrow> isValidRange e = Inr True \<and> satisfies PLATFORM_API_VERSION e = Inr True)
     \<and> distinct (capabilities m) \<and> set (capabilities m) \<subseteq> set CAPABILITY_IDS
     \<and> (\<forall>(k, r) \<in> set (dependencies m). SLUG k \<and> isValidRange r = Inr True \<and> k \<noteq> slug m)
     \<and> (\<forall>(f, d) \<in> set (config m). setting_ok d)
     \<and> contributions_ok (workers m) \<and> contributions_ok (tools m) \<and> contributions_ok (triggers m)
     \<and> (\<forall>w \<in> set (workers m). worker_within (capabilities m) w) \<and> (\<forall>t \<in> set (tools m). tool_within (capabilities m) t)
     \<and> limits_ok (limits m)
     \<and> (\<forall>s \<in> set (migrations m). isValid (step_to s) \<and> gt (step_to s) (version m) = Inr False)"

lemma clamp_bounds: "1 \<le> most \<Longrightarrow> 1 \<le> clamp v d most \<and> clamp v d most \<le> most"
  by (auto simp: clamp_def Let_def)

lemma resolveLimits_ok: "limits_ok (resolveLimits r)"
  unfolding limits_ok_def resolveLimits_def Let_def sandbox_limits.simps
  by (intro conjI; rule clamp_bounds [THEN conjunct1] clamp_bounds [THEN conjunct2]; simp add: PLATFORM_LIMITS_def)

lemma engine_errors_Nil:
  "engine_errors e = Inr [] \<Longrightarrow> e = Some rng \<Longrightarrow> isValidRange rng = Inr True \<and> satisfies PLATFORM_API_VERSION rng = Inr True"
  by (auto simp: engine_errors_def bindE_eq_Inr split: if_splits)

lemma dependency_errors_Nil:
  "dependency_errors st slug0 ds = Inr [] \<Longrightarrow> (k, v) \<in> set ds \<Longrightarrow>
     SLUG k \<and> k \<noteq> slug0 \<and> (\<exists>r. v = JStr r \<and> isValidRange r = Inr True)"
  by (induction ds) (auto simp: bindE_eq_Inr Let_def split: json.splits)

lemma capability_errors_Nil:
  "capability_errors v = [] \<Longrightarrow> filter isCapability (strings_in (array_of v)) = strings_in (array_of v)"
  by (auto simp: capability_errors_def filter_id_conv)

lemma field_errors_Nil:
  "field_errors (f, v) = [] \<Longrightarrow> setting_ok (record_or_empty v)"
  by (auto simp: field_errors_def setting_ok_def record_or_empty_def Let_def split: option.splits json.splits)

lemma read_entries_Nil:
  "read_entries sec b i seen es = ([], rows) \<Longrightarrow>
     rows = map record_or_empty es \<and> distinct (map key_of rows) \<and> set (map key_of rows) \<inter> set seen = {} \<and> list_all KEY (map key_of rows)"
proof (induction sec b i seen es arbitrary: rows rule: read_entries.induct)
  case (2 sec b i seen entry es)
  show ?case
  proof (cases "asRecord entry")
    case None
    with "2.prems" show ?thesis by (auto split: prod.splits)
  next
    case (Some shape)
    obtain iss rs where r: "read_entries sec b (Suc i) (or_empty (own_text ''key'' shape) # seen) es = (iss, rs)"
      by (cases "read_entries sec b (Suc i) (or_empty (own_text ''key'' shape) # seen) es")
    from "2.prems" Some r have "iss = []" "rows = shape # rs" "KEY (or_empty (own_text ''key'' shape))"
      "or_empty (own_text ''key'' shape) \<notin> set seen" by (auto simp: Let_def)
    moreover have "record_or_empty entry = shape" "key_of shape = or_empty (own_text ''key'' shape)"
      using Some by (simp_all add: record_or_empty_def key_of_def)
    ultimately show ?thesis using "2.IH"(2) [OF Some refl, of rs] r by (auto; blast)
  qed
qed simp

lemma readContributions_Nil:
  assumes "readContributions sec b contributes = ([], rows)"
  shows "rows = map record_or_empty (array_of (getp sec contributes)) \<and> contributions_ok rows"
  using assms read_entries_Nil [of sec b 0 "[]"]
  by (auto simp: readContributions_def array_of_def contributions_ok_def split: json.splits)

lemma held_errors_Nil:
  "held_errors st req f why c = [] \<Longrightarrow> \<exists>s \<in> set req. c = JStr s"
  by (auto simp: held_errors_def split: json.splits if_splits)

lemma worker_errors_Nil: "worker_errors st req (i, w) = [] \<Longrightarrow> worker_within req w"
  by (auto simp: worker_errors_def worker_within_def dest: held_errors_Nil)

lemma tool_errors_Nil: "tool_errors st req (i, t) = [] \<Longrightarrow> tool_within req t"
  by (auto simp: tool_errors_def tool_within_def dest: held_errors_Nil split: if_splits)

lemma collect_Nil: "collect f xs = Inr [] \<Longrightarrow> x \<in> set xs \<Longrightarrow> f x = Inr []"
  by (induction xs) (auto simp: bindE_eq_Inr)

lemma gt_total: "isValid a \<Longrightarrow> isValid b \<Longrightarrow> \<exists>r. gt a b = Inr r"
  by (auto simp: gt_def compare_def parseOrThrow_def isValid_def bindE_def split: option.splits)

lemma empty_not_valid: "parse [] = None"
  by code_simp

lemma migration_errors_Nil:
  "migration_errors v (i, entry) = Inr [] \<Longrightarrow> isValid v \<Longrightarrow>
     isValid (step_to (record_or_empty entry)) \<and> gt (step_to (record_or_empty entry)) v = Inr False"
  using gt_total
  by (auto simp: migration_errors_def Let_def record_or_empty_def step_to_def own_text_def or_empty_def bindE_eq_Inr isValid_def
      empty_not_valid split: option.splits json.splits if_splits)

lemma engine_of_errors:
  "engine_errors e = Inr [] \<Longrightarrow> \<forall>rng. e = Some rng \<longrightarrow> isValidRange rng = Inr True \<and> satisfies PLATFORM_API_VERSION rng = Inr True"
  using engine_errors_Nil by blast

lemma contributes_rows:
  assumes "fst (readContributions sec b c) = []"
  shows "snd (readContributions sec b c) = map record_or_empty (array_of (getp sec c))"
    and "contributions_ok (map record_or_empty (array_of (getp sec c)))"
  using readContributions_Nil [of sec b c "snd (readContributions sec b c)"] assms
  by (metis prod.collapse)+

lemma enumerated: "x \<in> set xs \<Longrightarrow> \<exists>i. (i, x) \<in> set (List.enumerate 0 xs)"
proof -
  assume "x \<in> set xs"
  then obtain i where "i < length xs" "xs ! i = x" by (auto simp: in_set_conv_nth)
  then show ?thesis by (intro exI [of _ i]) (simp add: in_set_enumerate_eq)
qed

lemma enumerated_Nil: "concat (map f (List.enumerate 0 xs)) = [] \<Longrightarrow> x \<in> set xs \<Longrightarrow> \<exists>i. f (i, x) = []"
  using enumerated [of x xs] by auto

lemma normalise_sound:
  assumes "manifest_errors env given = Inr []"
  shows "sound_manifest (normalise env given)"
proof -
  let ?slug = "or_empty (trimmed_text ''slug'' given)" and ?version = "or_empty (trimmed_text ''version'' given)"
  let ?name = "or_empty (trimmed_text ''name'' given)" and ?known = "filter isCapability (strings_in (array_of (getp ''capabilities'' given)))"
  let ?c = "record_or_empty (getp ''contributes'' given)"
  let ?w = "readContributions ''workers'' False ?c" and ?t = "readContributions ''tools'' True ?c"
    and ?g = "readContributions ''triggers'' False ?c"
  from assms have e:
    "identity_issues ?slug ?name ?version = []" "engine_errors (trimmed_text ''engine'' given) = Inr []"
    "dependency_errors (str env) ?slug (record_or_empty (getp ''dependencies'' given)) = Inr []"
    "concat (map field_errors (record_or_empty (getp ''config'' given))) = []"
    "fst ?w = []" "fst ?t = []" "fst ?g = []"
    "concat (map (worker_errors (str env) ?known) (List.enumerate 0 (snd ?w))) = []"
    "concat (map (tool_errors (str env) ?known) (List.enumerate 0 (snd ?t))) = []"
    "collect (migration_errors ?version) (List.enumerate 0 (array_of (getp ''migrations'' given))) = Inr []"
    by (auto simp: manifest_errors_def Let_def bindE_eq_Inr split: prod.splits)
  note id = e(1) [unfolded identity_issues_def append_is_Nil_conv issue_if_Nil]
  have deps: "\<forall>(k, r) \<in> set (dependencies (normalise env given)). SLUG k \<and> isValidRange r = Inr True \<and> k \<noteq> ?slug"
    using dependency_errors_Nil [OF e(3)] by (fastforce simp: normalise_def Let_def str_of_def)
  have conf: "\<forall>(f, d) \<in> set (config (normalise env given)). setting_ok d"
    using e(4) by (auto simp: normalise_def Let_def intro!: field_errors_Nil)
  have ws: "\<forall>w \<in> set (map record_or_empty (array_of (getp ''workers'' ?c))). worker_within ?known w"
    using enumerated_Nil [OF e(8)] worker_errors_Nil unfolding contributes_rows(1) [OF e(5)] by blast
  have ts: "\<forall>t \<in> set (map record_or_empty (array_of (getp ''tools'' ?c))). tool_within ?known t"
    using enumerated_Nil [OF e(9)] tool_errors_Nil unfolding contributes_rows(1) [OF e(6)] by blast
  have ms: "\<forall>s \<in> set (migrations (normalise env given)). isValid (step_to s) \<and> gt (step_to s) ?version = Inr False"
  proof
    fix s assume "s \<in> set (migrations (normalise env given))"
    then obtain entry where entry: "entry \<in> set (array_of (getp ''migrations'' given))" "s = record_or_empty entry"
      by (auto simp: normalise_def Let_def)
    from enumerated [OF entry(1)] obtain i where "(i, entry) \<in> set (List.enumerate 0 (array_of (getp ''migrations'' given)))" ..
    from collect_Nil [OF e(10) this] migration_errors_Nil entry(2) id
    show "isValid (step_to s) \<and> gt (step_to s) ?version = Inr False" by blast
  qed
  have known: "set (dedup ?known) \<subseteq> set CAPABILITY_IDS" by (auto simp: isCapability_iff)
  have within: "worker_within (dedup ?known) = worker_within ?known" "tool_within (dedup ?known) = tool_within ?known"
    by (auto simp: fun_eq_iff worker_within_def tool_within_def)
  show ?thesis
    using id engine_of_errors [OF e(2)] deps conf contributes_rows(2) [OF e(5)] contributes_rows(2) [OF e(6)]
      contributes_rows(2) [OF e(7)] ws ts ms known resolveLimits_ok
    unfolding sound_manifest_def by (simp add: normalise_def Let_def within)
qed

text \<open>C7: A manifest that validates may be relied on. Whatever was given, validation succeeds exactly when
  it found no error, and only then yields a manifest, with its digest; and that manifest has a proper
  slug, name and version, runs on this platform, asks only for capabilities of the catalogue and each
  once, depends on other extensions only and by valid ranges, declares settings of known types with
  options where they are enums and no default where they are secret, has distinct well-formed keys in
  each section, contributes no worker or tool that holds or requires a capability the extension does
  not itself ask for, stays within the limits of the platform in every dimension, and migrates to no
  version ahead of its own.\<close>

theorem validated_manifest_is_sound:
  assumes "validate env input = Inr v"
  shows "(ok v \<longleftrightarrow> errors v = []) \<and> (ok v \<longleftrightarrow> result_manifest v \<noteq> None)
    \<and> (\<forall>m. result_manifest v = Some m \<longrightarrow> sound_manifest m \<and> digest v = digest_of env m)"
proof (cases "asRecord input")
  case (Some given)
  with assms obtain errs where "manifest_errors env given = Inr errs" by (auto simp: validate_def bindE_eq_Inr)
  with assms Some normalise_sound [of env given] show ?thesis by (cases "errs = []") (auto simp: validate_def Let_def)
qed (use assms in \<open>auto simp: validate_def\<close>)

definition sample_given :: obj where
  "sample_given = [(''slug'', JStr ''mail-sorter''), (''name'', JStr ''Mail''), (''version'', JStr ''1.2.0''),
     (''capabilities'', JArr [JStr ''can_read_events'', JStr ''can_register_tools'']),
     (''contributes'', JObj [(''tools'', JArr [JObj [(''key'', JStr ''sort''), (''name'', JStr ''Sort''),
        (''description'', JStr ''Sorts''), (''capability'', JStr ''can_read_events'')]])]),
     (''limits'', JObj [(''timeoutMs'', JNum (Fin 900000))])]"

definition sample_manifest :: json where
  "sample_manifest = JObj sample_given"

definition sample_env :: manifest_env where
  "sample_env = \<lparr>str = (\<lambda>_. []), member_text = id, lcmp = ord3, number_text = (\<lambda>x. show_int (floor x)), sha256_hex = id\<rparr>"

lemma sample_version: "isValid ''1.2.0''"
proof -
  have "vstr 1 2 0 = ''1.2.0''" by code_simp
  then show ?thesis using parse_vstr [of 1 2 0] by (simp add: isValid_def)
qed

lemma sample_identity: "identity_issues ''mail-sorter'' ''Mail'' ''1.2.0'' = []"
proof -
  have "SLUG ''mail-sorter''" by code_simp
  with sample_version show ?thesis by (simp add: identity_issues_def)
qed
lemma sample_errors: "manifest_errors sample_env sample_given = Inr []"
proof -
  have t: "trimmed_text ''slug'' sample_given = Some ''mail-sorter''" "trimmed_text ''version'' sample_given = Some ''1.2.0''"
    "trimmed_text ''name'' sample_given = Some ''Mail''" "trimmed_text ''engine'' sample_given = None"
    "getp ''dependencies'' sample_given = Undef" "getp ''config'' sample_given = Undef" "getp ''migrations'' sample_given = Undef"
    by code_simp+
  have r: "readContributions ''workers'' False (record_or_empty (getp ''contributes'' sample_given)) = ([], [])"
    "readContributions ''triggers'' False (record_or_empty (getp ''contributes'' sample_given)) = ([], [])" by code_simp+
  obtain rows where rows: "readContributions ''tools'' True (record_or_empty (getp ''contributes'' sample_given)) = ([], rows)"
    and within: "concat (map (tool_errors (str sample_env) (filter isCapability (strings_in (array_of (getp ''capabilities'' sample_given)))))
       (List.enumerate 0 rows)) = []"
  proof
    show "readContributions ''tools'' True (record_or_empty (getp ''contributes'' sample_given)) = ([], 
      [[(''key'', JStr ''sort''), (''name'', JStr ''Sort''),
        (''description'', JStr ''Sorts''), (''capability'', JStr ''can_read_events'')]])" by code_simp
    show "concat (map (tool_errors (str sample_env) (filter isCapability (strings_in (array_of (getp ''capabilities'' sample_given)))))
       (List.enumerate 0 [[(''key'', JStr ''sort''), (''name'', JStr ''Sort''),
        (''description'', JStr ''Sorts''), (''capability'', JStr ''can_read_events'')]])) = []" by code_simp
  qed
  have u: "record_or_empty Undef = []" "array_of Undef = []" "\<not> not_record Undef" by code_simp+
  have c: "capability_errors (getp ''capabilities'' sample_given) = []" by code_simp
  show ?thesis using sample_identity by (simp add: manifest_errors_def Let_def t r rows within c engine_errors_def u or_empty_def issue_if_def)
qed
lemma validated_manifest_is_sound_witness:
  "\<exists>v m. validate sample_env sample_manifest = Inr v \<and> result_manifest v = Some m \<and> sound_manifest m \<and> slug m = ''mail-sorter''"
proof -
  let ?m = "normalise sample_env sample_given"
  obtain v where v: "validate sample_env sample_manifest = Inr v" "result_manifest v = Some ?m"
    using sample_errors by (simp add: validate_def sample_manifest_def asRecord_def Let_def)
  have "slug ?m = or_empty (trimmed_text ''slug'' sample_given)" by (simp add: normalise_def Let_def)
  also have "\<dots> = ''mail-sorter''" by code_simp
  finally show ?thesis using v validated_manifest_is_sound [OF v(1)] by blast
qed

section \<open>What an upgrade may change without asking\<close>

lemma change_if_sev [simp]: "list_ex (\<lambda>c. severity c = s) (change_if b s' k m) \<longleftrightarrow> b \<and> s = s'"
  by (auto simp: change_if_def)

lemma valid_compare:
  assumes "isValid a" and "isValid b"
  obtains c where "compare a b = Inr c" "compare b a = Inr (- c)" "lt a b = Inr (c < 0)" "lt b a = Inr (0 < c)" "eq a b = Inr (c = 0)"
proof -
  from assms obtain x y where xy: "parse a = Some x" "parse b = Some y" by (auto simp: isValid_def)
  have "compareV y x = - compareV x y" by (rule prec.cmp_swap)
  with xy show ?thesis
    by (intro that [of "compareV x y"]) (auto simp: compare_def lt_def eq_def parseOrThrow_def)
qed

text \<open>What an operator agreed to: the candidate may not ask for more, take away what is used, require a
  setting, or bring in another extension.\<close>

definition same_deal :: "manifest \<Rightarrow> manifest \<Rightarrow> bool" where
  "same_deal cur cand \<longleftrightarrow>
     set (capabilities cand) \<subseteq> set (capabilities cur)
     \<and> (\<forall>sec \<in> set SECTIONS. key_of ` set (snd sec cur) \<subseteq> key_of ` set (snd sec cand))
     \<and> (\<forall>(f, d) \<in> set (config cand). jtruthy (getp ''required'' d) \<and> getp ''default'' d = Undef \<longrightarrow>
          (\<exists>ex. map_of (config cur) f = Some ex \<and> jtruthy (getp ''required'' ex) \<and> getp ''type'' ex = getp ''type'' d)
          \<or> map_of (config cur) f = None \<and> f \<in> set OBJECT_PROTOTYPE)
     \<and> (\<forall>(k, r) \<in> set (dependencies cand). \<not> missing_dep k (dependencies cur))"

lemma no_change [simp]: "\<not> list_ex (\<lambda>c. severity c = s) (change_if b s k m) \<longleftrightarrow> \<not> b"
  by simp

lemma strictly_newer:
  assumes "isValid a" and "isValid b" and "lt b a \<noteq> Inr True" and "eq b a \<noteq> Inr True"
  shows "lt a b = Inr True"
  by (rule valid_compare [OF assms(1,2)], rule valid_compare [OF assms(2,1)]) (use assms in auto)

lemma list_ex_map [simp]: "list_ex p (map f xs) \<longleftrightarrow> list_ex (\<lambda>x. p (f x)) xs"
  by (induction xs) auto

lemma none_in_parts: "\<not> list_ex p (concat (map f xs)) \<Longrightarrow> x \<in> set xs \<Longrightarrow> \<not> list_ex p (f x)"
  by (induction xs) auto

lemma dependency_kept:
  assumes "\<not> list_ex (\<lambda>c. severity c = BREAKING) (dependency_change inherited cur (k, r))"
  shows "\<not> missing_dep k cur"
  using assms by (auto simp: dependency_change_def split: if_splits)

lemma section_kept:
  assumes "\<not> list_ex (\<lambda>c. severity c = BREAKING) (section_changes sec cur cand)"
  shows "key_of ` set (snd sec cur) \<subseteq> key_of ` set (snd sec cand)"
  using assms by (simp add: section_changes_def Let_def list_ex_iff ball_Un) blast

lemma config_kept:
  assumes "\<not> list_ex (\<lambda>c. severity c = BREAKING) (config_change text cur (f, d))"
    and "jtruthy (getp ''required'' d)" and "getp ''default'' d = Undef"
  shows "(\<exists>ex. map_of cur f = Some ex \<and> jtruthy (getp ''required'' ex) \<and> getp ''type'' ex = getp ''type'' d)
    \<or> map_of cur f = None \<and> f \<in> set OBJECT_PROTOTYPE"
  using assms by (auto simp: config_change_def look_up_def Let_def split: option.splits if_splits)

lemma capability_kept:
  assumes "\<not> list_ex (\<lambda>c. severity c = BREAKING) (capability_changes added removed)"
  shows "added = []"
  using assms by (cases added) (simp_all add: capability_changes_def)

text \<open>An upgrade that is applied without asking the operator again keeps the deal that was agreed to.
  When the analysis is neither blocked nor breaking, both manifests are of the same extension, both
  versions are valid and the candidate's is strictly newer and not a breaking release of the installed
  one, the platform satisfies the candidate's engine range, and the candidate asks for no capability
  the installed one did not ask for, still contributes every worker, tool and trigger, requires no
  setting without a default that was not already required with the same type (but for names that every
  JavaScript object inherits), and depends on no extension the installed one did not depend on.\<close>

theorem silent_upgrade_keeps_the_deal:
  assumes "analyseUpgrade env cur cand = Inr a" and "\<not> blocked a" and "\<not> breaking a"
  shows "slug cand = slug cur \<and> isValid (version cur) \<and> isValid (version cand)
    \<and> lt (version cur) (version cand) = Inr True \<and> isBreakingUpgrade (version cur) (version cand) \<noteq> Inr True
    \<and> (\<forall>e. engine cand = Some e \<and> e \<noteq> [] \<longrightarrow> satisfies PLATFORM_API_VERSION e = Inr True)
    \<and> addedCapabilities a = [] \<and> same_deal cur cand"
proof -
  let ?valid = "isValid (version cur) \<and> isValid (version cand)"
  let ?added = "sort_str (filter (\<lambda>c. c \<notin> set (capabilities cur)) (dedup (capabilities cand)))"
  let ?removed = "sort_str (filter (\<lambda>c. c \<notin> set (capabilities cand)) (dedup (capabilities cur)))"
  from assms(1) obtain e where e: "engine_changes cand = Inr e" and added: "addedCapabilities a = ?added"
    by (auto simp: analyseUpgrade_def Let_def bindE_eq_Inr)
  have none: "slug cur = slug cand"
    "\<not> list_ex (\<lambda>c. severity c = BLOCKING) (version_changes cur cand)" "\<not> list_ex (\<lambda>c. severity c = BLOCKING) e"
    "\<not> list_ex (\<lambda>c. severity c = BREAKING) (capability_changes ?added ?removed)"
    "\<forall>sec \<in> set SECTIONS. \<not> list_ex (\<lambda>c. severity c = BREAKING) (section_changes sec cur cand)"
    "\<not> list_ex (\<lambda>c. severity c = BREAKING) (config_changes (str env) cur cand)"
    "\<not> list_ex (\<lambda>c. severity c = BREAKING) (dependency_changes (member_text env) cur cand)"
    "\<not> (?valid \<and> isBreakingUpgrade (version cur) (version cand) = Inr True)"
    using assms e unfolding analyseUpgrade_def Let_def by (auto simp: SECTIONS_def)
  have valid: ?valid using none(2) by (auto simp: version_changes_def split: if_splits)
  have newer: "lt (version cur) (version cand) = Inr True"
    using strictly_newer [of "version cur" "version cand"] none(2) valid by (auto simp: version_changes_def split: if_splits)
  have engine0: "\<forall>e. engine cand = Some e \<and> e \<noteq> [] \<longrightarrow> satisfies PLATFORM_API_VERSION e = Inr True"
    using none(3) e by (auto simp: engine_changes_def bindE_eq_Inr)
  have fresh: "?added = []" using none(4) by (rule capability_kept)
  then have caps: "set (capabilities cand) \<subseteq> set (capabilities cur)"
    by (auto simp: filter_empty_conv dest: arg_cong [of _ _ set])
  from none(7) have "\<not> list_ex (\<lambda>c. severity c = BREAKING)
    (concat (map (dependency_change (member_text env) (dependencies cur)) (dependencies cand)))"
    by (simp add: dependency_changes_def)
  then have deps: "\<forall>(k, r) \<in> set (dependencies cand). \<not> missing_dep k (dependencies cur)"
    by (blast dest: none_in_parts dependency_kept)
  from none(6) have "\<not> list_ex (\<lambda>c. severity c = BREAKING) (concat (map (config_change (str env) (config cur)) (config cand)))"
    by (simp add: config_changes_def)
  then have conf: "\<forall>e \<in> set (config cand). \<not> list_ex (\<lambda>c. severity c = BREAKING) (config_change (str env) (config cur) e)"
    by (blast dest: none_in_parts)
  have "same_deal cur cand"
    unfolding same_deal_def using caps deps section_kept none(5) config_kept conf by blast
  with none(1,8) valid newer engine0 fresh added show ?thesis by simp
qed

definition plain_manifest :: "string \<Rightarrow> manifest" where
  "plain_manifest v = \<lparr>slug = ''mail'', mname = ''Mail'', version = v, mdescription = None, author = None, publisher = None,
     license = None, homepage = None, capabilities = [''can_read_events''], subscribes = [], dependencies = [], engine = None,
     config = [], workers = [], tools = [[(''key'', JStr ''sort'')]], triggers = [], limits = DEFAULT_LIMITS, migrations = []\<rparr>"

lemma plain_manifest_sel [simp]:
  "slug (plain_manifest v) = ''mail''" "version (plain_manifest v) = v" "engine (plain_manifest v) = None"
  "capabilities (plain_manifest v) = [''can_read_events'']" "config (plain_manifest v) = []" "dependencies (plain_manifest v) = []"
  "workers (plain_manifest v) = []" "tools (plain_manifest v) = [[(''key'', JStr ''sort'')]]" "triggers (plain_manifest v) = []"
  by (simp_all add: plain_manifest_def)

lemma sample_lt: "lt (vstr 1 3 0) (vstr 1 2 0) = Inr False" "eq (vstr 1 3 0) (vstr 1 2 0) = Inr False"
  by (simp_all add: lt_def eq_def compare_def parseOrThrow_def parse_vstr compareV_def ver_def)

lemma sample_valid: "isValid (vstr 1 2 0)" "isValid (vstr 1 3 0)"
  by (simp_all add: isValid_def parse_vstr)

lemma silent_upgrade_keeps_the_deal_witness:
  "\<exists>a. analyseUpgrade sample_env (plain_manifest (vstr 1 2 0)) (plain_manifest (vstr 1 3 0)) = Inr a
     \<and> same_deal (plain_manifest (vstr 1 2 0)) (plain_manifest (vstr 1 3 0)) \<and> addedCapabilities a = []"
proof -
  let ?cur = "plain_manifest (vstr 1 2 0)" and ?cand = "plain_manifest (vstr 1 3 0)"
  have part: "engine_changes ?cand = Inr []" "concat (map (\<lambda>sec. section_changes sec ?cur ?cand) SECTIONS) = []"
    "config_changes (str sample_env) ?cur ?cand = []" "dependency_changes (member_text sample_env) ?cur ?cand = []"
    by (simp_all add: engine_changes_def SECTIONS_def section_changes_def config_changes_def dependency_changes_def dedup_def)
  have none: "sort_str [] = []" by code_simp
  have same: "version_changes ?cur ?cand = []"
    using sample_lt sample_valid by (simp add: version_changes_def change_if_def)
  have "isBreakingUpgrade (vstr 1 2 0) (vstr 1 3 0) = Inr False"
    by (simp add: isBreakingUpgrade_def parseOrThrow_def parse_vstr breakingV_def ver_def zero_enat_def)
  then obtain a where "analyseUpgrade sample_env ?cur ?cand = Inr a" "changes a = []" "\<not> blocked a" "\<not> breaking a"
    unfolding analyseUpgrade_def Let_def part same by (auto simp: none capability_changes_def change_if_def)
  with silent_upgrade_keeps_the_deal [of sample_env ?cur ?cand a] show ?thesis by blast
qed

section \<open>What the digest does not see\<close>

text \<open>The digest that is signed is blind to part of what a contribution may do. Replacing every
  contributed worker, tool and trigger by one with the same key - with other capabilities for the
  worker, another required capability for the tool - and changing the settings, the subscriptions or the
  migrations leaves the digest as it is, whatever the hash function; the digest is of slug, version,
  capabilities, dependencies, engine, limits and the keys contributed alone.\<close>

theorem digest_sees_only_keys_of_contributions:
  "digest_of env (m\<lparr>workers := map (\<lambda>(k, rest). (''key'', JStr k) # rest) ws, tools := map (\<lambda>(k, rest). (''key'', JStr k) # rest) ts,
       config := cfg, subscribes := subs, migrations := steps\<rparr>) =
   digest_of env (m\<lparr>workers := map (\<lambda>(k, rest). [(''key'', JStr k)]) ws, tools := map (\<lambda>(k, rest). [(''key'', JStr k)]) ts\<rparr>)"
  by (simp add: digest_of_def digestOf_def digest_material_def sorted_keys_def key_of_def own_text_def getp_def or_empty_def
      comp_def case_prod_unfold)

section \<open>Settings that pass the check\<close>

text \<open>The type a stored value has for the type its field declares.\<close>

definition typed_as :: "obj \<Rightarrow> json \<Rightarrow> bool" where
  "typed_as d v \<longleftrightarrow>
     (if getp ''type'' d = JStr ''number'' then \<exists>x. v = JNum (Fin x)
      else if getp ''type'' d = JStr ''boolean'' then \<exists>b. v = JBool b
      else if getp ''type'' d = JStr ''enum'' then (\<exists>s. v = JStr s) \<and> v \<in> set (array_of (getp ''options'' d))
      else \<exists>s. v = JStr s)"

lemma check_setting_typed:
  "(g, v) \<in> set (snd (check_setting env supplied (f, d))) \<Longrightarrow> g = f \<and> typed_as d v"
  by (auto simp: check_setting_def typed_as_def Let_def split: if_splits number.splits json.splits)

lemma check_setting_required:
  "fst (check_setting env supplied (f, d)) = [] \<Longrightarrow> jtruthy (getp ''required'' d) \<Longrightarrow> f \<in> set (keys (snd (check_setting env supplied (f, d))))"
  by (auto simp: check_setting_def Let_def issue_if_def split: if_splits number.splits json.splits)

text \<open>Settings that pass the check are what the extension declared. When the check of supplied settings
  succeeds, every value kept belongs to a declared field and has its type (a finite number, a boolean, one
  of the options, or a string), every required field has a value, and nothing undeclared was supplied but
  for names every object inherits.\<close>

theorem checked_settings_are_typed:
  assumes "check_ok (validateConfig env m supplied)"
  shows "(\<forall>(f, v) \<in> set (check_values (validateConfig env m supplied)). \<exists>d. (f, d) \<in> set (config m) \<and> typed_as d v)
    \<and> (\<forall>(f, d) \<in> set (config m). jtruthy (getp ''required'' d) \<longrightarrow> f \<in> set (keys (check_values (validateConfig env m supplied))))
    \<and> (\<forall>f \<in> set (keys supplied). f \<in> set (keys (config m)) \<or> f \<in> set OBJECT_PROTOTYPE)"
proof -
  let ?r = "validateConfig env m supplied"
  have values0: "check_values ?r = concat (map snd (map (check_setting env supplied) (config m)))"
    by (simp add: validateConfig_def Let_def)
  from assms have fields: "\<forall>e \<in> set (config m). fst (check_setting env supplied e) = []"
    and known: "\<forall>f \<in> set (keys supplied). look_up f (config m) \<noteq> None"
    by (auto simp: validateConfig_def Let_def)
  have "\<forall>(f, v) \<in> set (check_values ?r). \<exists>d. (f, d) \<in> set (config m) \<and> typed_as d v"
    using check_setting_typed by (fastforce simp: values0)
  moreover have "\<forall>(f, d) \<in> set (config m). jtruthy (getp ''required'' d) \<longrightarrow> f \<in> set (keys (check_values ?r))"
    using fields check_setting_required by (fastforce simp: values0)
  moreover have "\<forall>f \<in> set (keys supplied). f \<in> set (keys (config m)) \<or> f \<in> set OBJECT_PROTOTYPE"
  proof
    fix f assume "f \<in> set (keys supplied)"
    with known have "look_up f (config m) \<noteq> None" by blast
    then show "f \<in> set (keys (config m)) \<or> f \<in> set OBJECT_PROTOTYPE"
      by (auto simp: look_up_def dest!: map_of_SomeD split: option.splits if_splits intro: rev_image_eqI)
  qed
  ultimately show ?thesis by blast
qed

definition sample_fields :: manifest where
  "sample_fields = (plain_manifest ''1.0.0'')\<lparr>config := [(''limit'', [(''type'', JStr ''number''), (''required'', JBool True)]),
     (''mode'', [(''type'', JStr ''enum''), (''options'', JArr [JStr ''fast'', JStr ''slow''])])]\<rparr>"

lemma checked_settings_are_typed_witness:
  "check_values (validateConfig sample_env sample_fields [(''limit'', JStr ''12''), (''mode'', JStr ''slow'')]) =
     [(''limit'', JNum (Fin 12)), (''mode'', JStr ''slow'')]
   \<and> ''limit'' \<in> set (keys (check_values (validateConfig sample_env sample_fields [(''limit'', JStr ''12''), (''mode'', JStr ''slow'')])))"
proof -
  let ?r = "validateConfig sample_env sample_fields [(''limit'', JStr ''12''), (''mode'', JStr ''slow'')]"
  have "check_ok ?r" "check_values ?r = [(''limit'', JNum (Fin 12)), (''mode'', JStr ''slow'')]" by code_simp+
  moreover have "(''limit'', [(''type'', JStr ''number''), (''required'', JBool True)]) \<in> set (config sample_fields)"
    "jtruthy (getp ''required'' [(''type'', JStr ''number''), (''required'', JBool True)])" by code_simp+
  ultimately show ?thesis
    using checked_settings_are_typed [of sample_env sample_fields "[(''limit'', JStr ''12''), (''mode'', JStr ''slow'')]"] by blast
qed

end
