(* ===== verification/Contributions.thy ===== *)
theory Contributions
  imports Manifest Repository BoundedMap StateError
begin

text \<open>
  The tables of installed extensions and what extensions contribute to the platform:
  \<open>src/backend/src/platform/contribution.service.ts\<close> over the repositories of
  \<open>src/backend/src/database/repositories/platform.repositories.ts\<close> and \<open>tenant.repositories.ts\<close>.

  The state of the platform holds the tables of one database, the modules a process has loaded, the
  events published, and the runs of extension code, with the grant each ran under. Extension code is a
  parameter; of these tables it reaches, through the host, workers and its own keyspace. A value of a
  contribution that is used as text and is not text is an error of the database or of the language.
  Left out are the columns that hold durations and the bounded copy of an event's detail.
\<close>

section \<open>Tables\<close>

datatype extension_status = INSTALLED | ENABLED | DISABLED | PENDING_REVIEW | FAILED | QUARANTINED

datatype extension_phase =
    INSTALL | VALIDATE | REGISTER | INITIALIZE | RUN | UPDATE | MIGRATE | DISABLE | ENABLE | QUARANTINE
  | ROLLBACK | UNINSTALL

datatype lifecycle_outcome = STARTED | SUCCEEDED | FAILED | REFUSED

datatype contribution_kind = WORKER | TOOL | TRIGGER

datatype upgrade_outcome = PENDING | BLOCKED | AWAITING_CONSENT | APPLIED | FAILED | ROLLED_BACK

record extension_data =
  e_name :: string
  e_slug :: string
  e_version :: string
  e_status :: extension_status
  e_manifest :: manifest
  e_subscribes :: "string list"
  e_description :: "string option"
  e_author :: "string option"
  e_license :: "string option"
  e_homepage :: "string option"
  e_publisher :: "string option"
  e_listing :: "string option"
  e_requested :: "string list"
  e_capabilities :: "string list"
  e_withheld :: "(string \<times> string list) list"
  e_capabilityVersion :: string
  e_risk :: capability_risk
  e_config :: obj
  e_secrets :: obj
  e_limits :: sandbox_limits
  e_engine :: "string option"
  e_dependencies :: "(string \<times> string) list"
  e_digest :: string
  e_signature :: "string option"
  e_signatureVerified :: bool
  e_installedBy :: "string option"
  e_pendingVersion :: "string option"
  e_lastError :: "string option"
  e_initializedAt :: "int option"
  e_lastRunAt :: "int option"
  e_createdAt :: int

record lifecycle_data =
  l_extension :: string
  l_phase :: extension_phase
  l_outcome :: lifecycle_outcome
  l_from :: extension_status
  l_to :: "extension_status option"
  l_version :: string
  l_message :: "string option"
  l_actor :: "string option"

record contribution_data =
  c_extension :: string
  c_kind :: contribution_kind
  c_key :: string
  c_name :: string
  c_description :: "string option"
  c_definition :: obj
  c_capabilities :: "string list"
  c_enabled :: bool
  c_worker :: "string option"
  c_trigger :: "string option"
  c_invocations :: nat
  c_failures :: nat
  c_lastInvokedAt :: "int option"

text \<open>A worker row; extension code may write others of its kind.\<close>

record worker_data =
  wk_name :: string
  wk_role :: string
  wk_status :: string
  wk_prompt :: string
  wk_tools :: "string list"
  wk_dna :: obj

record keyspace_data =
  y_extension :: string
  y_key :: string
  y_value :: json
  y_bytes :: int

text \<open>What an upgrade keeps of the version before it.\<close>

record extension_snapshot =
  s_name :: string
  s_version :: string
  s_manifest :: manifest
  s_subscribes :: "string list"
  s_requested :: "string list"
  s_capabilities :: "string list"
  s_withheld :: "(string \<times> string list) list"
  s_capabilityVersion :: string
  s_risk :: capability_risk
  s_limits :: sandbox_limits
  s_engine :: "string option"
  s_dependencies :: "(string \<times> string) list"
  s_config :: obj
  s_candidate :: manifest

record upgrade_data =
  u_extension :: string
  u_from :: string
  u_to :: string
  u_release :: release_kind
  u_outcome :: upgrade_outcome
  u_breaking :: bool
  u_blocked :: bool
  u_changes :: "manifest_change list"
  u_added :: "string list"
  u_removed :: "string list"
  u_migrations :: "obj list"
  u_snapshot :: extension_snapshot
  u_consentedBy :: "string option"
  u_consentedAt :: "int option"
  u_appliedAt :: "int option"
  u_rolledBackAt :: "int option"
  u_error :: "string option"
  u_createdAt :: int

datatype extension_event =
    ExtensionInstalled string string string
  | ExtensionCapabilitiesGranted string "string list" capability_risk
  | ExtensionCapabilitiesWithheld string "(string \<times> string list) list"
  | ContributionRegistered string "string list"
  | ExtensionInitialized string string
  | ExtensionEnabled string string
  | ExtensionDisabled string string
  | ExtensionQuarantined string string string
  | ExtensionUninstalled string string
  | ExtensionUpgradeBlocked string string string
  | ExtensionUpgradeProposed string string bool "string list"
  | ExtensionUpgraded string string string bool
  | ExtensionRolledBack string string

text \<open>The entry points of an extension's module, and the context its code is handed.\<close>

datatype hook =
    Initialize | Activate | Deactivate
  | Migrate string string obj
  | OnEvent string obj
  | OnToolCall string obj
  | OnWorkerRun string string obj

record extension_context =
  x_id :: string
  x_slug :: string
  x_name :: string
  x_version :: string
  x_capabilities :: "string list"
  x_config :: obj
  x_limits :: sandbox_limits
  x_contribution :: "string option"

record code_run =
  run_extension :: string
  run_org :: string
  run_status :: extension_status
  run_hook :: hook
  run_context :: extension_context

record 'm platform =
  extensions :: "extension_data table"
  lifecycle :: "lifecycle_data table"
  contributed :: "contribution_data table"
  upgrades :: "upgrade_data table"
  worker_rows :: "worker_data table"
  keyspace :: "keyspace_data table"
  loaded :: "(string, 'm) bounded_map"
  next_id :: nat
  published :: "extension_event list"
  ran :: "code_run list"

datatype extension_error =
    Repo repo_error
  | BadRequest string
  | Invalid string "manifest_issue list" "manifest_issue list"
  | Conflict string
  | Database string
  | Thrown string

fun error_message :: "extension_error \<Rightarrow> string" where
  "error_message (Repo (Missing m)) = m"
| "error_message (Repo (Unusable m)) = m"
| "error_message (BadRequest m) = m"
| "error_message (Invalid m es ws) = m"
| "error_message (Conflict m) = m"
| "error_message (Database m) = m"
| "error_message (Thrown m) = m"

text \<open>
  \<open>load_module\<close> is the loader of extensions at a time, \<open>implements\<close> whether a module has an entry point,
  \<open>call_hook\<close> its code, \<open>unload_fault\<close> what unloading throws; \<open>seal\<close> the encryption of a secret,
  \<open>unique_fault\<close> what the database says against a second row of a unique index, \<open>type_fault\<close> what is
  said against a value of the wrong type.
\<close>

type_synonym outside = "worker_data table \<times> keyspace_data table"

record 'm extension_env =
  new_id :: "nat \<Rightarrow> string"
  load_module :: "int \<Rightarrow> manifest \<Rightarrow> string + 'm"
  implements :: "'m \<Rightarrow> hook \<Rightarrow> bool"
  call_hook :: "'m \<Rightarrow> hook \<Rightarrow> extension_context \<Rightarrow> outside \<Rightarrow> (string + json) \<times> outside"
  unload_fault :: "string \<Rightarrow> string option"
  seal :: "string \<Rightarrow> json"
  unique_fault :: "string \<Rightarrow> string"
  type_fault :: "json \<Rightarrow> string"
  catalogue_version :: string
  reading :: manifest_env

type_synonym ('m, 'a) ext = "('m platform, extension_error, 'a) comp"

definition EXTENSIONS :: model where "EXTENSIONS = \<lparr>modelName = ''extension'', softDeletes = True\<rparr>"
definition LIFECYCLE :: model where "LIFECYCLE = \<lparr>modelName = ''extensionLifecycleEvent'', softDeletes = False\<rparr>"
definition CONTRIBUTIONS :: model where "CONTRIBUTIONS = \<lparr>modelName = ''extensionContribution'', softDeletes = False\<rparr>"
definition KEYSPACE :: model where "KEYSPACE = \<lparr>modelName = ''extensionState'', softDeletes = False\<rparr>"
definition UPGRADES :: model where "UPGRADES = \<lparr>modelName = ''extensionUpgrade'', softDeletes = False\<rparr>"
definition EXT_WORKERS :: model where "EXT_WORKERS = \<lparr>modelName = ''worker'', softDeletes = True\<rparr>"

section \<open>Repositories\<close>

definition in_repo :: "repo_error + 'a \<Rightarrow> extension_error + 'a" where
  "in_repo x = (case x of Inl e \<Rightarrow> Inl (Repo e) | Inr a \<Rightarrow> Inr a)"

definition new_row :: "'m extension_env \<Rightarrow> 'm platform \<Rightarrow> 'a \<Rightarrow> 'a row" where
  "new_row env s d = \<lparr>row_id = new_id env (next_id s), row_org = [], row_deleted = None, contents = d\<rparr>"

definition announce :: "extension_event \<Rightarrow> ('m, unit) ext" where
  "announce e = changeS (\<lambda>s. s\<lparr>published := published s @ [e]\<rparr>)"

definition find_extension :: "request_context option \<Rightarrow> string \<Rightarrow> 'm platform \<Rightarrow> extension_error + extension_data row" where
  "find_extension ctx i s = in_repo (findByIdOrFail EXTENSIONS ctx i no_options (extensions s))"

definition findBySlug :: "request_context option \<Rightarrow> string \<Rightarrow> 'm platform \<Rightarrow> extension_error + extension_data row option" where
  "findBySlug ctx sl s =
     in_repo (bindE (tenant ctx) (\<lambda>org. Inr (find_first
       (scope EXTENSIONS org False [(''slug'', \<lambda>r. e_slug (contents r) = sl)]) (extensions s))))"

text \<open>The unique index \<open>[organizationId, slug]\<close> covers the rows that are soft-deleted too.\<close>

definition slug_taken :: "string \<Rightarrow> string \<Rightarrow> extension_data table \<Rightarrow> bool" where
  "slug_taken org sl t \<longleftrightarrow> list_ex (\<lambda>r. row_org r = org \<and> e_slug (contents r) = sl) t"

definition create_extension :: "'m extension_env \<Rightarrow> request_context option \<Rightarrow> extension_data
    \<Rightarrow> ('m, extension_data row) ext" where
  "create_extension env ctx d s =
     (case tenant ctx of
        Inl e \<Rightarrow> (Inl (Repo e), s)
      | Inr org \<Rightarrow>
          if slug_taken org (e_slug d) (extensions s) then (Inl (Database (unique_fault env (e_slug d))), s)
          else (case create_row EXTENSIONS ctx (new_row env s d) (extensions s) of
                  (Inl e, t) \<Rightarrow> (Inl (Repo e), s)
                | (Inr r, t) \<Rightarrow> (Inr r, s\<lparr>extensions := t, next_id := Suc (next_id s)\<rparr>)))"

definition update_extension :: "request_context option \<Rightarrow> string \<Rightarrow> (extension_data \<Rightarrow> extension_data)
    \<Rightarrow> ('m, extension_data row) ext" where
  "update_extension ctx i f s =
     (case update_row EXTENSIONS ctx i (\<lambda>r. r\<lparr>contents := f (contents r)\<rparr>) (extensions s) of
        (r, t) \<Rightarrow> (in_repo r, s\<lparr>extensions := t\<rparr>))"

definition findByKey :: "request_context option \<Rightarrow> contribution_kind \<Rightarrow> string \<Rightarrow> 'm platform
    \<Rightarrow> extension_error + contribution_data row option" where
  "findByKey ctx kind key s =
     in_repo (bindE (tenant ctx) (\<lambda>org. Inr (find_first
       (scope CONTRIBUTIONS org False [(''kind'', \<lambda>r. c_kind (contents r) = kind), (''key'', \<lambda>r. c_key (contents r) = key)])
       (contributed s))))"

definition of_extension :: "string \<Rightarrow> contribution_data conditions" where
  "of_extension i = [(''extensionId'', \<lambda>r. c_extension (contents r) = i)]"

definition by_contribution_key :: "contribution_data row \<Rightarrow> contribution_data row \<Rightarrow> int" where
  "by_contribution_key r r' = ord3 (c_key (contents r)) (c_key (contents r'))"

definition byExtension :: "request_context option \<Rightarrow> string \<Rightarrow> 'm platform
    \<Rightarrow> extension_error + contribution_data row list" where
  "byExtension ctx i s =
     in_repo (findMany CONTRIBUTIONS ctx (of_extension i) (no_options\<lparr>orderBy := Some by_contribution_key\<rparr>) (contributed s))"

definition setEnabled :: "request_context option \<Rightarrow> string \<Rightarrow> bool \<Rightarrow> ('m, nat) ext" where
  "setEnabled ctx i on s =
     (case tenant ctx of
        Inl e \<Rightarrow> (Inl (Repo e), s)
      | Inr org \<Rightarrow>
          (case update_many (scope CONTRIBUTIONS org False (of_extension i))
                  (\<lambda>r. r\<lparr>contents := (contents r)\<lparr>c_enabled := on\<rparr>\<rparr>) (contributed s) of
             (n, t) \<Rightarrow> (Inr n, s\<lparr>contributed := t\<rparr>)))"

definition removeForExtension :: "request_context option \<Rightarrow> string \<Rightarrow> ('m, nat) ext" where
  "removeForExtension ctx i s =
     (case tenant ctx of
        Inl e \<Rightarrow> (Inl (Repo e), s)
      | Inr org \<Rightarrow>
          (case delete_many (scope CONTRIBUTIONS org False (of_extension i)) (contributed s) of
             (n, t) \<Rightarrow> (Inr n, s\<lparr>contributed := t\<rparr>)))"

definition recordInvocation :: "request_context option \<Rightarrow> int \<Rightarrow> string \<Rightarrow> bool \<Rightarrow> ('m, unit) ext" where
  "recordInvocation ctx tm i failed s =
     (case tenant ctx of
        Inl e \<Rightarrow> (Inl (Repo e), s)
      | Inr org \<Rightarrow>
          (Inr (), s\<lparr>contributed := snd (update_many (scope CONTRIBUTIONS org False (by_id i))
             (\<lambda>r. r\<lparr>contents := (contents r)\<lparr>c_invocations := c_invocations (contents r) + 1,
                 c_failures := c_failures (contents r) + (if failed then 1 else 0), c_lastInvokedAt := Some tm\<rparr>\<rparr>)
             (contributed s))\<rparr>))"

definition update_contribution :: "request_context option \<Rightarrow> string \<Rightarrow> (contribution_data \<Rightarrow> contribution_data)
    \<Rightarrow> ('m, contribution_data row) ext" where
  "update_contribution ctx i f s =
     (case update_row CONTRIBUTIONS ctx i (\<lambda>r. r\<lparr>contents := f (contents r)\<rparr>) (contributed s) of
        (r, t) \<Rightarrow> (in_repo r, s\<lparr>contributed := t\<rparr>))"

definition create_contribution :: "'m extension_env \<Rightarrow> request_context option \<Rightarrow> contribution_data
    \<Rightarrow> ('m, contribution_data row) ext" where
  "create_contribution env ctx d s =
     (case create_row CONTRIBUTIONS ctx (new_row env s d) (contributed s) of
        (Inl e, t) \<Rightarrow> (Inl (Repo e), s)
      | (Inr r, t) \<Rightarrow> (Inr r, s\<lparr>contributed := t, next_id := Suc (next_id s)\<rparr>))"

definition create_worker :: "'m extension_env \<Rightarrow> request_context option \<Rightarrow> worker_data \<Rightarrow> ('m, worker_data row) ext" where
  "create_worker env ctx d s =
     (case create_row EXT_WORKERS ctx (new_row env s d) (worker_rows s) of
        (Inl e, t) \<Rightarrow> (Inl (Repo e), s)
      | (Inr r, t) \<Rightarrow> (Inr r, s\<lparr>worker_rows := t, next_id := Suc (next_id s)\<rparr>))"

definition remove_worker :: "request_context option \<Rightarrow> int \<Rightarrow> string \<Rightarrow> ('m, unit) ext" where
  "remove_worker ctx tm i s =
     (case remove_row EXT_WORKERS ctx tm i (worker_rows s) of (r, t) \<Rightarrow> (in_repo r, s\<lparr>worker_rows := t\<rparr>))"

text \<open>\<open>dropAll\<close>.\<close>

definition dropAll :: "request_context option \<Rightarrow> string \<Rightarrow> ('m, nat) ext" where
  "dropAll ctx i s =
     (case tenant ctx of
        Inl e \<Rightarrow> (Inl (Repo e), s)
      | Inr org \<Rightarrow>
          (case delete_many (scope KEYSPACE org False [(''extensionId'', \<lambda>r. y_extension (contents r) = i)]) (keyspace s) of
             (n, t) \<Rightarrow> (Inr n, s\<lparr>keyspace := t\<rparr>)))"

section \<open>Registration\<close>

definition liftS :: "'e + 'a \<Rightarrow> ('s, 'e, 'a) comp" where
  "liftS x = readS (\<lambda>_. x)"

definition namespaced :: "string \<Rightarrow> string \<Rightarrow> string" where
  "namespaced sl key = sl @ ''.'' @ key"

definition has_dot :: "string \<Rightarrow> bool" where
  "has_dot s \<longleftrightarrow> CHR ''.'' \<in> set s"

text \<open>What the database stores of a value in a column of text that may be null.\<close>

definition text_column :: "'m extension_env \<Rightarrow> json \<Rightarrow> extension_error + string option" where
  "text_column env v =
     (case v of Undef \<Rightarrow> Inr None | Null \<Rightarrow> Inr None | JStr s \<Rightarrow> Inr (Some s)
      | _ \<Rightarrow> Inl (Database (type_fault env v)))"

fun text_columns :: "'m extension_env \<Rightarrow> json list \<Rightarrow> extension_error + string list" where
  "text_columns env [] = Inr []"
| "text_columns env (v # vs) =
     (case v of JStr s \<Rightarrow> bindE (text_columns env vs) (\<lambda>ss. Inr (s # ss)) | _ \<Rightarrow> Inl (Database (type_fault env v)))"

text \<open>\<open>new Set(subset)\<close> of what a worker says it wants, the whole grant when it says nothing.\<close>

definition wanted_of :: "'m extension_env \<Rightarrow> string list \<Rightarrow> json \<Rightarrow> extension_error + string list" where
  "wanted_of env own_caps v =
     (case v of Undef \<Rightarrow> Inr own_caps | Null \<Rightarrow> Inr own_caps | JArr vs \<Rightarrow> Inr (strings_in vs)
      | JStr s \<Rightarrow> Inr (map (\<lambda>c. [c]) s) | _ \<Rightarrow> Inl (Thrown (type_fault env v)))"

definition tool_permission :: "'m extension_env \<Rightarrow> string \<Rightarrow> json \<Rightarrow> extension_error + json" where
  "tool_permission env sl v =
     (case v of
        JStr t \<Rightarrow> Inr (JStr (if has_dot t then t else namespaced sl t))
      | JArr vs \<Rightarrow> Inr (if arr_includes vs (JStr ''.'') then v else JStr (namespaced sl (str (reading env) v)))
      | _ \<Rightarrow> Inl (Thrown (type_fault env v)))"

fun tool_permissions :: "'m extension_env \<Rightarrow> string \<Rightarrow> json list \<Rightarrow> extension_error + json list" where
  "tool_permissions env sl [] = Inr []"
| "tool_permissions env sl (v # vs) =
     bindE (tool_permission env sl v) (\<lambda>p. bindE (tool_permissions env sl vs) (\<lambda>ps. Inr (p # ps)))"

definition toolPermissions :: "'m extension_env \<Rightarrow> string \<Rightarrow> obj \<Rightarrow> extension_error + json list" where
  "toolPermissions env sl w =
     (case coalesce (getp ''tools'' w) (JArr []) of
        JArr vs \<Rightarrow> tool_permissions env sl vs
      | v \<Rightarrow> Inl (Thrown (type_fault env v)))"

definition name_of :: "obj \<Rightarrow> string" where
  "name_of c = or_empty (own_text ''name'' c)"

definition worker_columns :: "'m extension_env \<Rightarrow> obj \<Rightarrow> json list \<Rightarrow> extension_error + string \<times> string list" where
  "worker_columns env w ps =
     bindE (text_column env (coalesce (getp ''systemPrompt'' w) (JStr (''You are '' @ name_of w @ ''.'')))) (\<lambda>prompt.
     bindE (text_columns env ps) (\<lambda>ts. Inr (or_empty prompt, ts)))"

definition upsert :: "'m extension_env \<Rightarrow> request_context option \<Rightarrow> contribution_data \<Rightarrow> json
    \<Rightarrow> ('m, contribution_data row) ext" where
  "upsert env ctx d desc =
     bindS (readS (findByKey ctx (c_kind d) (c_key d))) (\<lambda>existing.
     bindS (liftS (text_column env desc)) (\<lambda>text.
     case existing of
       Some r \<Rightarrow> update_contribution ctx (row_id r) (\<lambda>c. c\<lparr>c_extension := c_extension d, c_kind := c_kind d,
           c_key := c_key d, c_name := c_name d, c_description := text, c_definition := c_definition d,
           c_capabilities := c_capabilities d, c_enabled := True, c_worker := c_worker d, c_trigger := None\<rparr>)
     | None \<Rightarrow> create_contribution env ctx (d\<lparr>c_description := text\<rparr>)))"

definition contribution_of :: "string \<Rightarrow> string \<Rightarrow> contribution_kind \<Rightarrow> obj \<Rightarrow> string list \<Rightarrow> string option
    \<Rightarrow> contribution_data" where
  "contribution_of i sl kind c caps worker =
     \<lparr>c_extension = i, c_kind = kind, c_key = namespaced sl (key_of c), c_name = name_of c, c_description = None,
      c_definition = c, c_capabilities = caps, c_enabled = True, c_worker = worker, c_trigger = None,
      c_invocations = 0, c_failures = 0, c_lastInvokedAt = None\<rparr>"

definition registerWorker :: "'m extension_env \<Rightarrow> request_context option \<Rightarrow> string \<Rightarrow> string \<Rightarrow> string list \<Rightarrow> obj
    \<Rightarrow> ('m, contribution_data row) ext" where
  "registerWorker env ctx i sl own_caps w =
     bindS (liftS (wanted_of env own_caps (getp ''capabilities'' w))) (\<lambda>wanted.
     bindS (liftS (toolPermissions env sl w)) (\<lambda>ps.
     bindS (liftS (worker_columns env w ps)) (\<lambda>(prompt, ts).
     bindS (create_worker env ctx
              \<lparr>wk_name = name_of w, wk_role = ''SPECIALIST'', wk_status = ''ACTIVE'', wk_prompt = prompt, wk_tools = ts,
               wk_dna = [(''contributedBy'', JStr sl), (''contributionKey'', JStr (namespaced sl (key_of w)))]\<rparr>) (\<lambda>row.
     upsert env ctx (contribution_of i sl WORKER w (attenuate own_caps wanted) (Some (row_id row))) (getp ''description'' w)))))"

definition registerTool :: "'m extension_env \<Rightarrow> request_context option \<Rightarrow> string \<Rightarrow> string \<Rightarrow> string list \<Rightarrow> obj
    \<Rightarrow> ('m, contribution_data row) ext" where
  "registerTool env ctx i sl own_caps c =
     upsert env ctx
       (contribution_of i sl TOOL c
          (attenuate own_caps (if jtruthy (getp ''capability'' c) then strings_in [getp ''capability'' c] else own_caps)) None)
       (getp ''description'' c)"

definition registerTrigger :: "'m extension_env \<Rightarrow> request_context option \<Rightarrow> string \<Rightarrow> string \<Rightarrow> string list \<Rightarrow> obj
    \<Rightarrow> ('m, contribution_data row) ext" where
  "registerTrigger env ctx i sl own_caps c =
     upsert env ctx
       (contribution_of i sl TRIGGER c (attenuate own_caps [''can_register_triggers'', ''can_execute_missions'']) None)
       (getp ''description'' c)"

text \<open>What became of one contribution: skipped with a reason, or registered.\<close>

type_synonym registration = "(string \<times> string) + contribution_data row"

definition register_if :: "string list \<Rightarrow> string \<Rightarrow> obj \<Rightarrow> ('m, contribution_data row) ext \<Rightarrow> ('m, registration) ext" where
  "register_if own_caps need c m =
     (if need \<notin> set own_caps then doneS (Inl (key_of c, need @ '' was not granted''))
      else bindS m (\<lambda>row. doneS (Inr row)))"

definition register_tool :: "'m extension_env \<Rightarrow> request_context option \<Rightarrow> string \<Rightarrow> string \<Rightarrow> string list \<Rightarrow> obj
    \<Rightarrow> ('m, registration) ext" where
  "register_tool env ctx i sl own_caps c =
     (let cap = getp ''capability'' c in
      if ''can_register_tools'' \<in> set own_caps \<and> jtruthy cap \<and> cap \<notin> JStr ` set own_caps
      then doneS (Inl (key_of c, ''requires '' @ quoted (str_of (str (reading env)) cap) @ '', which was withheld''))
      else register_if own_caps ''can_register_tools'' c (registerTool env ctx i sl own_caps c))"

definition register :: "'m extension_env \<Rightarrow> request_context option \<Rightarrow> string \<Rightarrow> string \<Rightarrow> manifest \<Rightarrow> string list
    \<Rightarrow> ('m, contribution_data row list \<times> (string \<times> string) list) ext" where
  "register env ctx i sl m own_caps =
     bindS (mapS (\<lambda>w. register_if own_caps ''can_register_workers'' w (registerWorker env ctx i sl own_caps w)) (workers m)) (\<lambda>ws.
     bindS (mapS (register_tool env ctx i sl own_caps) (tools m)) (\<lambda>ts.
     bindS (mapS (\<lambda>g. register_if own_caps ''can_register_triggers'' g (registerTrigger env ctx i sl own_caps g)) (triggers m)) (\<lambda>gs.
     doneS (List.map_filter (\<lambda>x. case x of Inl _ \<Rightarrow> None | Inr r \<Rightarrow> Some r) (ws @ ts @ gs),
            List.map_filter (\<lambda>x. case x of Inl e \<Rightarrow> Some e | Inr _ \<Rightarrow> None) (ws @ ts @ gs)))))"

definition unregister :: "request_context option \<Rightarrow> int \<Rightarrow> string \<Rightarrow> ('m, nat) ext" where
  "unregister ctx tm i =
     bindS (readS (byExtension ctx i)) (\<lambda>rows.
     bindS (eachS (\<lambda>r. case c_worker (contents r) of
              Some (c # cs) \<Rightarrow> catchS (remove_worker ctx tm (c # cs)) (\<lambda>_. doneS ())
            | _ \<Rightarrow> doneS ()) rows) (\<lambda>_.
     removeForExtension ctx i))"

section \<open>Contributed tools\<close>

record tool_parameter =
  p_type :: string
  p_description :: string
  p_required :: bool
  p_enum :: "json list option"

record tool_definition =
  t_contribution :: "contribution_data row"
  t_key :: string
  t_name :: string
  t_description :: string
  t_permission :: string
  t_parameters :: "(string \<times> tool_parameter) list"
  t_mutates :: json

definition PARAMETER_TYPES :: "string list" where
  "PARAMETER_TYPES = [''string'', ''number'', ''boolean'', ''array'', ''object'']"

text \<open>\<open>Object.entries\<close> of an object or an array.\<close>

definition entries_of :: "json \<Rightarrow> obj" where
  "entries_of v = (case v of JObj m \<Rightarrow> m | JArr vs \<Rightarrow> map (\<lambda>(i, x). (show_nat i, x)) (List.enumerate 0 vs) | _ \<Rightarrow> [])"

definition is_object :: "json \<Rightarrow> bool" where
  "is_object v \<longleftrightarrow> (case v of JObj m \<Rightarrow> True | JArr vs \<Rightarrow> True | _ \<Rightarrow> False)"

definition parameter_of :: "json list \<Rightarrow> string \<times> json \<Rightarrow> string \<times> tool_parameter" where
  "parameter_of required e =
     (case e of (n, v) \<Rightarrow>
        let shape = (case v of JObj m \<Rightarrow> m | _ \<Rightarrow> []);
            t = (case getp ''type'' shape of JStr t \<Rightarrow> t | _ \<Rightarrow> ''string'') in
        (n, \<lparr>p_type = (if t \<in> set PARAMETER_TYPES then t else ''string''),
             p_description = (case getp ''description'' shape of JStr d \<Rightarrow> d | _ \<Rightarrow> n),
             p_required = (JStr n \<in> set required \<or> getp ''required'' shape = JBool True),
             p_enum = (case getp ''enum'' shape of JArr vs \<Rightarrow> Some vs | _ \<Rightarrow> None)\<rparr>))"

definition parametersOf :: "obj \<Rightarrow> (string \<times> tool_parameter) list" where
  "parametersOf d =
     (let given = getp ''input'' d;
          m = (case given of JObj m \<Rightarrow> m | _ \<Rightarrow> []);
          properties = (if is_object (getp ''properties'' m) then getp ''properties'' m else given) in
      if \<not> is_object given then []
      else map (parameter_of (array_of (getp ''required'' m))) (entries_of properties))"

text \<open>\<open>resolveTool\<close>; the permission is the first one that the required capability implies.\<close>

definition resolveTool :: "request_context option \<Rightarrow> string \<Rightarrow> 'm platform \<Rightarrow> extension_error + tool_definition option" where
  "resolveTool ctx key s =
     (if \<not> has_dot key then Inr None
      else bindE (findByKey ctx TOOL key s) (\<lambda>found.
        case found of
          None \<Rightarrow> Inr None
        | Some r \<Rightarrow>
            if \<not> c_enabled (contents r) then Inr None
            else
              let d = c_definition (contents r);
                  implied = (if jtruthy (getp ''capability'' d) then permissionsFor (strings_in [getp ''capability'' d]) else []) in
              Inr (Some
                \<lparr>t_contribution = r, t_key = c_key (contents r), t_name = c_name (contents r),
                 t_description = (case c_description (contents r) of
                    Some t \<Rightarrow> t
                  | None \<Rightarrow> (case own_text ''description'' d of Some t \<Rightarrow> t | None \<Rightarrow> c_name (contents r))),
                 t_permission = (case implied of [] \<Rightarrow> ''extension:read'' | p # _ \<Rightarrow> p),
                 t_parameters = parametersOf d, t_mutates = coalesce (getp ''mutates'' d) (JBool False)\<rparr>)))"

section \<open>Reports\<close>

text \<open>\<open>active\<close>: the join looks at the extension's row, whatever its organization.\<close>

definition active :: "request_context option \<Rightarrow> contribution_kind \<Rightarrow> 'm platform
    \<Rightarrow> extension_error + contribution_data row list" where
  "active ctx kind s =
     in_repo (bindE (tenant ctx) (\<lambda>org. Inr (sort_by by_contribution_key (filter (satisfies_all
       (scope CONTRIBUTIONS org False [(''kind'', \<lambda>r. c_kind (contents r) = kind), (''enabled'', \<lambda>r. c_enabled (contents r)),
          (''extension'', \<lambda>r. list_ex (\<lambda>e. row_id e = c_extension (contents r) \<and> e_status (contents e) = ENABLED
             \<and> row_deleted e = None) (extensions s))])) (contributed s)))))"

definition list_contributions :: "request_context option \<Rightarrow> contribution_kind option \<Rightarrow> 'm platform
    \<Rightarrow> extension_error + contribution_data row list" where
  "list_contributions ctx kind s =
     (case kind of Some k \<Rightarrow> active ctx k s
      | None \<Rightarrow> in_repo (findMany CONTRIBUTIONS ctx [] no_options (contributed s)))"

record contribution_summary =
  m_workers :: nat
  m_tools :: nat
  m_triggers :: nat
  m_invocations :: nat
  m_failures :: nat
  m_capabilities :: "(string \<times> string \<times> capability_risk) list"

definition summary :: "request_context option \<Rightarrow> string \<Rightarrow> 'm platform \<Rightarrow> extension_error + contribution_summary" where
  "summary ctx i s =
     bindE (byExtension ctx i s) (\<lambda>rows.
       let count = (\<lambda>k. length (filter (\<lambda>r. c_kind (contents r) = k) rows));
           caps = dedup (concat (map (\<lambda>r. c_capabilities (contents r)) rows)) in
       Inr \<lparr>m_workers = count WORKER, m_tools = count TOOL, m_triggers = count TRIGGER,
            m_invocations = sum_list (map (\<lambda>r. c_invocations (contents r)) rows),
            m_failures = sum_list (map (\<lambda>r. c_failures (contents r)) rows),
            m_capabilities = map (\<lambda>d. (capId d, capability_def.title d, risk d)) (List.map_filter describe caps)\<rparr>)"

end
