(* ===== verification/ExtensionRuntime.thy ===== *)
theory ExtensionRuntime
  imports Contributions
begin

text \<open>
  The life of an extension, \<open>src/backend/src/platform/extension-runtime.service.ts\<close>: installation,
  approval, enabling and disabling, quarantine, removal, upgrades and their consent, rollback, delivery of
  events, invocation of contributions, and the reports.

  A handler is a computation over the state of \<open>Contributions\<close>; its clock is read once. The module of an
  extension comes from the bounded cache of the process or from the loader.
\<close>

section \<open>Recording a phase\<close>

definition LOADED_LIMIT :: int where "LOADED_LIMIT = 256"

definition user_of :: "request_context option \<Rightarrow> string option" where
  "user_of ctx = map_option userId ctx"

definition short :: "string \<Rightarrow> string" where
  "short m = take 500 m"

record phase_notes =
  n_from :: "extension_status option"
  n_to :: "extension_status option"
  n_version :: "string option"
  n_message :: "string option"

definition no_notes :: phase_notes where
  "no_notes = \<lparr>n_from = None, n_to = None, n_version = None, n_message = None\<rparr>"

text \<open>\<open>record\<close>: an event that cannot be written is logged and otherwise ignored.\<close>

definition record_event :: "'m extension_env \<Rightarrow> request_context option \<Rightarrow> extension_data row \<Rightarrow> extension_phase
    \<Rightarrow> lifecycle_outcome \<Rightarrow> phase_notes \<Rightarrow> ('m, unit) ext" where
  "record_event env ctx ext ph out notes s =
     (case create_row LIFECYCLE ctx (new_row env s
              \<lparr>l_extension = row_id ext, l_phase = ph, l_outcome = out,
               l_from = (case n_from notes of Some f \<Rightarrow> f | None \<Rightarrow> e_status (contents ext)), l_to = n_to notes,
               l_version = (case n_version notes of Some v \<Rightarrow> v | None \<Rightarrow> e_version (contents ext)),
               l_message = (case n_message notes of Some (c # cs) \<Rightarrow> Some (short (c # cs)) | _ \<Rightarrow> None),
               l_actor = user_of ctx\<rparr>) (lifecycle s) of
        (Inl e, t) \<Rightarrow> (Inr (), s)
      | (Inr r, t) \<Rightarrow> (Inr (), s\<lparr>lifecycle := t, next_id := Suc (next_id s)\<rparr>))"

definition transition :: "'m extension_env \<Rightarrow> request_context option \<Rightarrow> extension_data row \<Rightarrow> extension_phase
    \<Rightarrow> ('m, 'a) ext \<Rightarrow> ('m, 'a) ext" where
  "transition env ctx ext ph work =
     bindS (record_event env ctx ext ph STARTED no_notes) (\<lambda>_.
     catchS (bindS work (\<lambda>r. bindS (record_event env ctx ext ph SUCCEEDED no_notes) (\<lambda>_. doneS r)))
       (\<lambda>e. bindS (record_event env ctx ext ph lifecycle_outcome.FAILED (no_notes\<lparr>n_message := Some (error_message e)\<rparr>))
              (\<lambda>_. throwS e)))"

text \<open>With \<open>tolerateFailure\<close>.\<close>

definition tolerant :: "('m, unit) ext \<Rightarrow> ('m, unit) ext" where
  "tolerant m = catchS m (\<lambda>_. doneS ())"

section \<open>Running an extension's code\<close>

definition moduleFor :: "'m extension_env \<Rightarrow> int \<Rightarrow> extension_data row \<Rightarrow> ('m, 'm) ext" where
  "moduleFor env tm ext s =
     (case get (row_id ext) (loaded s) of
        (Some cached, m) \<Rightarrow> (Inr cached, s\<lparr>loaded := m\<rparr>)
      | (None, m) \<Rightarrow>
          (case load_module env tm (e_manifest (contents ext)) of
             Inl e \<Rightarrow> (Inl (Thrown e), s\<lparr>loaded := m\<rparr>)
           | Inr program \<Rightarrow> (Inr program, s\<lparr>loaded := set_entry (row_id ext) (Some program) m\<rparr>)))"

definition forget_module :: "string \<Rightarrow> ('m, unit) ext" where
  "forget_module i = changeS (\<lambda>s. s\<lparr>loaded := snd (delete i (loaded s))\<rparr>)"

text \<open>\<open>contextFor\<close> and \<open>bindingFor\<close>: what the code of an extension is handed.\<close>

definition contextFor :: "extension_data row \<Rightarrow> string list \<Rightarrow> string option \<Rightarrow> extension_context" where
  "contextFor ext caps contribution =
     \<lparr>x_id = row_id ext, x_slug = e_slug (contents ext), x_name = e_name (contents ext),
      x_version = e_version (contents ext), x_capabilities = caps, x_config = e_config (contents ext),
      x_limits = resolveLimits (asRecord (limits_value (e_limits (contents ext)))), x_contribution = contribution\<rparr>"

definition run_code :: "'m extension_env \<Rightarrow> extension_data row \<Rightarrow> 'm \<Rightarrow> hook \<Rightarrow> extension_context \<Rightarrow> ('m, json) ext" where
  "run_code env ext program h c s =
     (case call_hook env program h c (worker_rows s, keyspace s) of
        (r, ws, ks) \<Rightarrow>
          (case r of Inl e \<Rightarrow> Inl (Thrown e) | Inr v \<Rightarrow> Inr v,
           s\<lparr>worker_rows := ws, keyspace := ks,
             ran := ran s @ [\<lparr>run_extension = row_id ext, run_org = row_org ext, run_status = e_status (contents ext), run_hook = h, run_context = c\<rparr>]\<rparr>))"

text \<open>\<open>module.hook?.(context)\<close> under the extension's own grant.\<close>

definition run_optional :: "'m extension_env \<Rightarrow> int \<Rightarrow> extension_data row \<Rightarrow> hook \<Rightarrow> ('m, unit) ext" where
  "run_optional env tm ext h =
     bindS (moduleFor env tm ext) (\<lambda>program.
     if implements env program h
     then bindS (run_code env ext program h (contextFor ext (e_capabilities (contents ext)) None)) (\<lambda>_. doneS ())
     else doneS ())"

section \<open>Installation\<close>

text \<open>\<open>splitSecrets\<close>.\<close>

definition plain_values :: "manifest \<Rightarrow> obj \<Rightarrow> obj" where
  "plain_values m values = filter (\<lambda>(f, v). f \<notin> set (secretFields m)) values"

definition sealed_values :: "'m extension_env \<Rightarrow> manifest \<Rightarrow> obj \<Rightarrow> obj" where
  "sealed_values env m values =
     map (\<lambda>(f, v). (f, seal env (str_of (str (reading env)) v))) (filter (\<lambda>(f, v). f \<in> set (secretFields m)) values)"

definition initialize :: "'m extension_env \<Rightarrow> request_context option \<Rightarrow> int \<Rightarrow> extension_data row \<Rightarrow> ('m, unit) ext" where
  "initialize env ctx tm ext =
     catchS
       (bindS (transition env ctx ext INITIALIZE (run_optional env tm ext Initialize)) (\<lambda>_.
        bindS (update_extension ctx (row_id ext) (\<lambda>d. d\<lparr>e_initializedAt := Some tm, e_lastError := None\<rparr>)) (\<lambda>_.
        announce (ExtensionInitialized (row_id ext) (e_slug (contents ext))))))
       (\<lambda>e. bindS (update_extension ctx (row_id ext)
              (\<lambda>d. d\<lparr>e_status := extension_status.FAILED, e_lastError := Some (short (error_message e))\<rparr>)) (\<lambda>_. doneS ()))"

record install_input =
  given_manifest :: json
  given_config :: obj
  listingId :: "string option"
  publisherId :: "string option"
  signature :: "string option"
  signatureVerified :: bool
  dryRun :: bool

record install_result =
  installed :: "extension_data row option"
  install_grant :: capability_grant
  validation :: manifest_validation
  contributions :: "(nat \<times> (string \<times> string) list) option"
  consentRequired :: bool

definition thrown :: "string + 'a \<Rightarrow> extension_error + 'a" where
  "thrown x = (case x of Inl e \<Rightarrow> Inl (Thrown e) | Inr a \<Rightarrow> Inr a)"

definition validated :: "'m extension_env \<Rightarrow> string \<Rightarrow> json \<Rightarrow> extension_error + manifest_validation \<times> manifest" where
  "validated env complaint given =
     bindE (thrown (validate (reading env) given)) (\<lambda>v.
       case result_manifest v of
         None \<Rightarrow> Inl (Invalid complaint (errors v) (warnings v))
       | Some m \<Rightarrow> if ok v then Inr (v, m) else Inl (Invalid complaint (errors v) (warnings v)))"

definition context_of :: "request_context option \<Rightarrow> extension_error + request_context" where
  "context_of ctx = in_repo (require ctx)"

definition grant_to :: "'m extension_env \<Rightarrow> manifest \<Rightarrow> request_context \<Rightarrow> capability_grant" where
  "grant_to env m c = grant (lcmp (reading env)) (catalogue_version env) (capabilities m) (request_context.permissions c)"

definition extension_row :: "'m extension_env \<Rightarrow> int \<Rightarrow> request_context \<Rightarrow> install_input \<Rightarrow> manifest_validation \<Rightarrow> manifest
    \<Rightarrow> capability_grant \<Rightarrow> obj \<Rightarrow> extension_data" where
  "extension_row env tm c input v m g values =
     \<lparr>e_name = mname m, e_slug = slug m, e_version = version m,
      e_status = (if reviewRequired g then PENDING_REVIEW else INSTALLED), e_manifest = m, e_subscribes = subscribes m,
      e_description = mdescription m, e_author = author m, e_license = license m, e_homepage = homepage m,
      e_publisher = publisherId input, e_listing = listingId input, e_requested = capabilities m,
      e_capabilities = granted g, e_withheld = withheld g, e_capabilityVersion = catalogueVersion g,
      e_risk = grant_risk g, e_config = plain_values m values, e_secrets = sealed_values env m values,
      e_limits = limits m, e_engine = engine m, e_dependencies = dependencies m,
      e_digest = (if digest v = [] then digest_of (reading env) m else digest v), e_signature = signature input,
      e_signatureVerified = signatureVerified input, e_installedBy = Some (userId c), e_pendingVersion = None,
      e_lastError = None, e_initializedAt = None, e_lastRunAt = None, e_createdAt = tm\<rparr>"

text \<open>What follows the creation of the row.\<close>

definition complete_install :: "'m extension_env \<Rightarrow> request_context option \<Rightarrow> int \<Rightarrow> manifest_validation \<Rightarrow> manifest
    \<Rightarrow> capability_grant \<Rightarrow> extension_data row \<Rightarrow> ('m, install_result) ext" where
  "complete_install env ctx tm v m g ext =
     bindS (record_event env ctx ext INSTALL SUCCEEDED
              (no_notes\<lparr>n_version := Some (version m), n_to := Some (e_status (contents ext))\<rparr>)) (\<lambda>_.
     bindS (announce (ExtensionInstalled (row_id ext) (e_slug (contents ext)) (e_version (contents ext)))) (\<lambda>_.
     bindS (announce (ExtensionCapabilitiesGranted (row_id ext) (granted g) (grant_risk g))) (\<lambda>_.
     bindS (if withheld g \<noteq> [] then announce (ExtensionCapabilitiesWithheld (row_id ext) (withheld g)) else doneS ()) (\<lambda>_.
     bindS (transition env ctx ext REGISTER
              (register env ctx (row_id ext) (e_slug (contents ext)) m (granted g))) (\<lambda>(rows, skipped).
     bindS (if rows \<noteq> [] then announce (ContributionRegistered (row_id ext) (map (\<lambda>r. c_key (contents r)) rows))
            else doneS ()) (\<lambda>_.
     bindS (if reviewRequired g then doneS () else initialize env ctx tm ext) (\<lambda>_.
     bindS (readS (find_extension ctx (row_id ext))) (\<lambda>fresh.
     doneS \<lparr>installed = Some fresh, install_grant = g, validation = v, contributions = Some (length rows, skipped),
            consentRequired = reviewRequired g\<rparr>))))))))"

definition install :: "'m extension_env \<Rightarrow> request_context option \<Rightarrow> int \<Rightarrow> install_input \<Rightarrow> ('m, install_result) ext" where
  "install env ctx tm input =
     bindS (liftS (validated env ''The manifest is not valid'' (given_manifest input))) (\<lambda>(v, m).
     bindS (readS (findBySlug ctx (slug m))) (\<lambda>existing.
     bindS (case existing of
              Some r \<Rightarrow> if dryRun input then doneS ()
                        else throwS (Conflict (quoted (slug m) @ '' is already installed at version '' @ e_version (contents r)))
            | None \<Rightarrow> doneS ()) (\<lambda>_.
     bindS (liftS (context_of ctx)) (\<lambda>c.
     let g = grant_to env m c; check = validateConfig (reading env) m (given_config input) in
     if \<not> check_ok check then throwS (Invalid ''The supplied settings are not valid'' (check_errors check) [])
     else if dryRun input
     then doneS \<lparr>installed = None, install_grant = g, validation = v, contributions = None, consentRequired = reviewRequired g\<rparr>
     else bindS (create_extension env ctx (extension_row env tm c input v m g (check_values check)))
            (complete_install env ctx tm v m g)))))"

section \<open>Decisions and run state\<close>

definition status_name :: "extension_status \<Rightarrow> string" where
  "status_name st =
     (case st of INSTALLED \<Rightarrow> ''INSTALLED'' | ENABLED \<Rightarrow> ''ENABLED'' | DISABLED \<Rightarrow> ''DISABLED''
      | PENDING_REVIEW \<Rightarrow> ''PENDING_REVIEW'' | extension_status.FAILED \<Rightarrow> ''FAILED'' | QUARANTINED \<Rightarrow> ''QUARANTINED'')"

definition risk_lower :: "capability_risk \<Rightarrow> string" where
  "risk_lower r = (case r of LOW \<Rightarrow> ''low'' | MEDIUM \<Rightarrow> ''medium'' | HIGH \<Rightarrow> ''high'' | CRITICAL \<Rightarrow> ''critical'')"

definition approveCapabilities :: "'m extension_env \<Rightarrow> request_context option \<Rightarrow> int \<Rightarrow> string \<Rightarrow> ('m, extension_data row) ext" where
  "approveCapabilities env ctx tm i =
     bindS (readS (find_extension ctx i)) (\<lambda>ext.
     if e_status (contents ext) \<noteq> PENDING_REVIEW
     then throwS (BadRequest (quoted (e_slug (contents ext)) @ '' is '' @ status_name (e_status (contents ext)) @
            '', not awaiting a capability decision''))
     else bindS (update_extension ctx i (\<lambda>d. d\<lparr>e_status := INSTALLED\<rparr>)) (\<lambda>approved.
       bindS (record_event env ctx approved INSTALL SUCCEEDED
                (no_notes\<lparr>n_from := Some PENDING_REVIEW, n_to := Some INSTALLED\<rparr>)) (\<lambda>_.
       bindS (initialize env ctx tm approved) (\<lambda>_.
       readS (find_extension ctx i)))))"

definition unload :: "'m extension_env \<Rightarrow> string \<Rightarrow> ('m, unit) ext" where
  "unload env sl = liftS (case unload_fault env sl of None \<Rightarrow> Inr () | Some m \<Rightarrow> Inl (Thrown m))"

definition remove_extension :: "request_context option \<Rightarrow> int \<Rightarrow> string \<Rightarrow> ('m, unit) ext" where
  "remove_extension ctx tm i s =
     (case remove_row EXTENSIONS ctx tm i (extensions s) of (r, t) \<Rightarrow> (in_repo r, s\<lparr>extensions := t\<rparr>))"

definition uninstall :: "'m extension_env \<Rightarrow> request_context option \<Rightarrow> int \<Rightarrow> string \<Rightarrow> ('m, unit) ext" where
  "uninstall env ctx tm i =
     bindS (readS (find_extension ctx i)) (\<lambda>ext.
     bindS (tolerant (transition env ctx ext UNINSTALL (run_optional env tm ext Deactivate))) (\<lambda>_.
     bindS (unregister ctx tm i) (\<lambda>_.
     bindS (dropAll ctx i) (\<lambda>_.
     bindS (unload env (e_slug (contents ext))) (\<lambda>_.
     bindS (forget_module i) (\<lambda>_.
     bindS (remove_extension ctx tm i) (\<lambda>_.
     announce (ExtensionUninstalled i (e_slug (contents ext))))))))))"

definition rejectCapabilities :: "'m extension_env \<Rightarrow> request_context option \<Rightarrow> int \<Rightarrow> string \<Rightarrow> string \<Rightarrow> ('m, unit) ext" where
  "rejectCapabilities env ctx tm i why =
     bindS (readS (find_extension ctx i)) (\<lambda>ext.
     bindS (record_event env ctx ext INSTALL REFUSED (no_notes\<lparr>n_message := Some why\<rparr>)) (\<lambda>_.
     uninstall env ctx tm i))"

definition enable :: "'m extension_env \<Rightarrow> request_context option \<Rightarrow> int \<Rightarrow> string \<Rightarrow> ('m, extension_data row) ext" where
  "enable env ctx tm i =
     bindS (readS (find_extension ctx i)) (\<lambda>ext.
     if e_status (contents ext) = PENDING_REVIEW
     then throwS (BadRequest (quoted (e_slug (contents ext)) @ '' requests '' @ risk_lower (e_risk (contents ext)) @
            ''-risk capabilities and must be approved before it runs''))
     else if e_status (contents ext) = QUARANTINED
     then throwS (BadRequest (quoted (e_slug (contents ext)) @ '' is quarantined'' @
            (case e_lastError (contents ext) of Some (c # cs) \<Rightarrow> '': '' @ c # cs | _ \<Rightarrow> [])))
     else bindS (transition env ctx ext ENABLE (run_optional env tm ext Activate)) (\<lambda>_.
       bindS (update_extension ctx i (\<lambda>d. d\<lparr>e_status := ENABLED, e_lastError := None\<rparr>)) (\<lambda>enabled.
       bindS (setEnabled ctx i True) (\<lambda>_.
       bindS (announce (ExtensionEnabled i (e_slug (contents enabled)))) (\<lambda>_.
       doneS enabled)))))"

definition stop :: "'m extension_env \<Rightarrow> request_context option \<Rightarrow> int \<Rightarrow> string \<Rightarrow> extension_phase
    \<Rightarrow> (extension_data \<Rightarrow> extension_data) \<Rightarrow> (extension_data row \<Rightarrow> extension_event) \<Rightarrow> ('m, extension_data row) ext" where
  "stop env ctx tm i ph f e =
     bindS (readS (find_extension ctx i)) (\<lambda>ext.
     bindS (tolerant (transition env ctx ext ph (run_optional env tm ext Deactivate))) (\<lambda>_.
     bindS (update_extension ctx i f) (\<lambda>stopped.
     bindS (setEnabled ctx i False) (\<lambda>_.
     bindS (forget_module i) (\<lambda>_.
     bindS (announce (e stopped)) (\<lambda>_.
     doneS stopped))))))"

definition disable :: "'m extension_env \<Rightarrow> request_context option \<Rightarrow> int \<Rightarrow> string \<Rightarrow> ('m, extension_data row) ext" where
  "disable env ctx tm i =
     stop env ctx tm i DISABLE (\<lambda>d. d\<lparr>e_status := DISABLED\<rparr>) (\<lambda>r. ExtensionDisabled i (e_slug (contents r)))"

definition quarantine :: "'m extension_env \<Rightarrow> request_context option \<Rightarrow> int \<Rightarrow> string \<Rightarrow> string \<Rightarrow> ('m, extension_data row) ext" where
  "quarantine env ctx tm i why =
     stop env ctx tm i QUARANTINE (\<lambda>d. d\<lparr>e_status := QUARANTINED, e_lastError := Some (short why)\<rparr>)
       (\<lambda>r. ExtensionQuarantined i (e_slug (contents r)) why)"

section \<open>Upgrades\<close>

definition find_upgrade :: "request_context option \<Rightarrow> string \<Rightarrow> 'm platform \<Rightarrow> extension_error + upgrade_data row" where
  "find_upgrade ctx i s = in_repo (findByIdOrFail UPGRADES ctx i no_options (upgrades s))"

definition create_upgrade :: "'m extension_env \<Rightarrow> request_context option \<Rightarrow> upgrade_data \<Rightarrow> ('m, upgrade_data row) ext" where
  "create_upgrade env ctx d s =
     (case create_row UPGRADES ctx (new_row env s d) (upgrades s) of
        (Inl e, t) \<Rightarrow> (Inl (Repo e), s)
      | (Inr r, t) \<Rightarrow> (Inr r, s\<lparr>upgrades := t, next_id := Suc (next_id s)\<rparr>))"

definition update_upgrade :: "request_context option \<Rightarrow> string \<Rightarrow> (upgrade_data \<Rightarrow> upgrade_data) \<Rightarrow> ('m, upgrade_data row) ext" where
  "update_upgrade ctx i f s =
     (case update_row UPGRADES ctx i (\<lambda>r. r\<lparr>contents := f (contents r)\<rparr>) (upgrades s) of
        (r, t) \<Rightarrow> (in_repo r, s\<lparr>upgrades := t\<rparr>))"

text \<open>\<open>ORDER BY \<dots> DESC\<close> puts rows without the date first.\<close>

definition latest_applied :: "upgrade_data row \<Rightarrow> upgrade_data row \<Rightarrow> int" where
  "latest_applied r r' =
     (case (u_appliedAt (contents r), u_appliedAt (contents r')) of
        (None, None) \<Rightarrow> 0 | (None, Some _) \<Rightarrow> - 1 | (Some _, None) \<Rightarrow> 1 | (Some a, Some b) \<Rightarrow> ord3 b a)"

definition with_outcome :: "string \<Rightarrow> upgrade_outcome \<Rightarrow> upgrade_data conditions" where
  "with_outcome i out =
     [(''extensionId'', \<lambda>r. u_extension (contents r) = i), (''outcome'', \<lambda>r. u_outcome (contents r) = out)]"

definition first_of :: "'a row list \<Rightarrow> 'a row option" where
  "first_of rs = (case rs of [] \<Rightarrow> None | r # _ \<Rightarrow> Some r)"

definition lastApplied :: "request_context option \<Rightarrow> string \<Rightarrow> 'm platform \<Rightarrow> extension_error + upgrade_data row option" where
  "lastApplied ctx i s =
     in_repo (bindE (tenant ctx) (\<lambda>org. Inr (first_of (sort_by latest_applied
       (filter (satisfies_all (scope UPGRADES org False (with_outcome i APPLIED))) (upgrades s))))))"

definition latest_upgrade :: "upgrade_data row \<Rightarrow> upgrade_data row \<Rightarrow> int" where
  "latest_upgrade r r' = ord3 (u_createdAt (contents r')) (u_createdAt (contents r))"

definition pendingConsent :: "request_context option \<Rightarrow> string \<Rightarrow> 'm platform \<Rightarrow> extension_error + upgrade_data row option" where
  "pendingConsent ctx i s =
     in_repo (bindE (tenant ctx) (\<lambda>org. Inr (first_of (sort_by latest_upgrade
       (filter (satisfies_all (scope UPGRADES org False (with_outcome i AWAITING_CONSENT))) (upgrades s))))))"

text \<open>\<open>analyse\<close>, which only reads.\<close>

definition analyse :: "'m extension_env \<Rightarrow> request_context option \<Rightarrow> string \<Rightarrow> json \<Rightarrow> 'm platform
    \<Rightarrow> extension_error + upgrade_analysis \<times> capability_grant \<times> manifest" where
  "analyse env ctx i given s =
     bindE (find_extension ctx i s) (\<lambda>ext.
     bindE (validated env ''The candidate manifest is not valid'' given) (\<lambda>(v, m).
     bindE (thrown (analyseUpgrade (reading env)
              ((e_manifest (contents ext))\<lparr>version := e_version (contents ext), slug := e_slug (contents ext)\<rparr>) m)) (\<lambda>a.
     bindE (context_of ctx) (\<lambda>c. Inr (a, grant_to env m c, m)))))"

definition snapshot_of :: "extension_data \<Rightarrow> manifest \<Rightarrow> extension_snapshot" where
  "snapshot_of d candidate =
     \<lparr>s_name = e_name d, s_version = e_version d, s_manifest = e_manifest d, s_subscribes = e_subscribes d,
      s_requested = e_requested d, s_capabilities = e_capabilities d, s_withheld = e_withheld d,
      s_capabilityVersion = e_capabilityVersion d, s_risk = e_risk d, s_limits = e_limits d, s_engine = e_engine d,
      s_dependencies = e_dependencies d, s_config = e_config d, s_candidate = candidate\<rparr>"

definition firstBlocking :: "manifest_change list \<Rightarrow> string" where
  "firstBlocking cs =
     (case List.find (\<lambda>c. severity c = BLOCKING) cs of Some c \<Rightarrow> change_message c | None \<Rightarrow> ''Upgrade blocked'')"

definition upgraded :: "'m extension_env \<Rightarrow> manifest \<Rightarrow> capability_grant \<Rightarrow> extension_data \<Rightarrow> extension_data" where
  "upgraded env m g d =
     d\<lparr>e_name := mname m, e_version := version m, e_manifest := m, e_subscribes := subscribes m,
       e_requested := capabilities m, e_capabilities := granted g, e_withheld := withheld g,
       e_capabilityVersion := catalogueVersion g, e_risk := grant_risk g, e_limits := limits m, e_engine := engine m,
       e_dependencies := dependencies m, e_digest := digest_of (reading env) m, e_pendingVersion := None, e_lastError := None\<rparr>"

text \<open>The body of the \<open>try\<close>, and what is done with an error.\<close>

definition carry_out :: "'m extension_env \<Rightarrow> request_context option \<Rightarrow> int \<Rightarrow> extension_data row \<Rightarrow> string \<Rightarrow> manifest
    \<Rightarrow> upgrade_analysis \<Rightarrow> capability_grant \<Rightarrow> ('m, unit) ext" where
  "carry_out env ctx tm ext uid m a g =
     bindS (unregister ctx tm (row_id ext)) (\<lambda>_.
     bindS (update_extension ctx (row_id ext) (upgraded env m g)) (\<lambda>_.
     bindS (readS (find_extension ctx (row_id ext))) (\<lambda>updated.
     bindS (forget_module (row_id ext)) (\<lambda>_.
     bindS (register env ctx (row_id updated) (e_slug (contents updated)) m (granted g)) (\<lambda>_.
     bindS (eachS (\<lambda>st. transition env ctx updated MIGRATE
              (run_optional env tm updated (Migrate (from_version a) (to_version a) st))) (upgrade_migrations a)) (\<lambda>_.
     bindS (update_upgrade ctx uid (\<lambda>u. u\<lparr>u_outcome := APPLIED, u_appliedAt := Some tm\<rparr>)) (\<lambda>_.
     bindS (record_event env ctx updated UPDATE SUCCEEDED (no_notes\<lparr>n_version := Some (version m)\<rparr>)) (\<lambda>_.
     announce (ExtensionUpgraded (row_id ext) (from_version a) (to_version a) (breaking a))))))))))"

definition applyUpgrade :: "'m extension_env \<Rightarrow> request_context option \<Rightarrow> int \<Rightarrow> extension_data row \<Rightarrow> string \<Rightarrow> manifest
    \<Rightarrow> upgrade_analysis \<Rightarrow> capability_grant \<Rightarrow> ('m, unit) ext" where
  "applyUpgrade env ctx tm ext uid m a g =
     catchS (carry_out env ctx tm ext uid m a g) (\<lambda>e.
       bindS (update_upgrade ctx uid (\<lambda>u. u\<lparr>u_outcome := upgrade_outcome.FAILED, u_error := Some (short (error_message e))\<rparr>)) (\<lambda>_.
       bindS (update_extension ctx (row_id ext)
                (\<lambda>d. d\<lparr>e_status := extension_status.FAILED, e_lastError := Some (short (error_message e))\<rparr>)) (\<lambda>_.
       bindS (record_event env ctx ext UPDATE lifecycle_outcome.FAILED
                (no_notes\<lparr>n_version := Some (version m), n_message := Some (error_message e)\<rparr>)) (\<lambda>_.
       throwS e))))"

definition proposal :: "request_context option \<Rightarrow> int \<Rightarrow> extension_data row \<Rightarrow> bool \<Rightarrow> upgrade_analysis \<Rightarrow> manifest
    \<Rightarrow> upgrade_data" where
  "proposal ctx tm ext consent a m =
     \<lparr>u_extension = row_id ext, u_from = e_version (contents ext), u_to = version m, u_release = release a,
      u_outcome = (if blocked a then BLOCKED else if breaking a \<and> \<not> consent then AWAITING_CONSENT else PENDING),
      u_breaking = breaking a, u_blocked = blocked a, u_changes = changes a, u_added = addedCapabilities a,
      u_removed = removedCapabilities a, u_migrations = upgrade_migrations a, u_snapshot = snapshot_of (contents ext) m,
      u_consentedBy = (if breaking a \<and> consent then user_of ctx else None),
      u_consentedAt = (if breaking a \<and> consent then Some tm else None), u_appliedAt = None, u_rolledBackAt = None,
      u_error = None, u_createdAt = tm\<rparr>"

definition proposeUpgrade :: "'m extension_env \<Rightarrow> request_context option \<Rightarrow> int \<Rightarrow> string \<Rightarrow> json \<Rightarrow> bool
    \<Rightarrow> ('m, upgrade_data row \<times> bool \<times> upgrade_analysis) ext" where
  "proposeUpgrade env ctx tm i given consent =
     bindS (readS (find_extension ctx i)) (\<lambda>ext.
     bindS (readS (analyse env ctx i given)) (\<lambda>(a, g, m).
     bindS (create_upgrade env ctx (proposal ctx tm ext consent a m)) (\<lambda>u.
     if blocked a
     then bindS (record_event env ctx ext UPDATE REFUSED
                   (no_notes\<lparr>n_version := Some (version m), n_message := Some (firstBlocking (changes a))\<rparr>)) (\<lambda>_.
          bindS (announce (ExtensionUpgradeBlocked i (version m) (firstBlocking (changes a)))) (\<lambda>_.
          doneS (u, False, a)))
     else if breaking a \<and> \<not> consent
     then bindS (update_extension ctx i (\<lambda>d. d\<lparr>e_pendingVersion := Some (version m)\<rparr>)) (\<lambda>_.
          bindS (announce (ExtensionUpgradeProposed i (version m) True (addedCapabilities a))) (\<lambda>_.
          doneS (u, False, a)))
     else bindS (applyUpgrade env ctx tm ext (row_id u) m a g) (\<lambda>_. doneS (u, True, a)))))"

fun outcome_name :: "upgrade_outcome \<Rightarrow> string" where
  "outcome_name PENDING = ''PENDING''" | "outcome_name BLOCKED = ''BLOCKED''"
| "outcome_name AWAITING_CONSENT = ''AWAITING_CONSENT''" | "outcome_name APPLIED = ''APPLIED''"
| "outcome_name upgrade_outcome.FAILED = ''FAILED''" | "outcome_name ROLLED_BACK = ''ROLLED_BACK''"

definition consentToUpgrade :: "'m extension_env \<Rightarrow> request_context option \<Rightarrow> int \<Rightarrow> string \<Rightarrow> ('m, extension_data row) ext" where
  "consentToUpgrade env ctx tm uid =
     bindS (readS (find_upgrade ctx uid)) (\<lambda>u.
     if u_outcome (contents u) \<noteq> AWAITING_CONSENT
     then throwS (BadRequest (''This upgrade is '' @ outcome_name (u_outcome (contents u)) @ '', not awaiting consent''))
     else bindS (readS (find_extension ctx (u_extension (contents u)))) (\<lambda>ext.
       let m = s_candidate (u_snapshot (contents u)) in
       if version m \<noteq> u_to (contents u)
       then throwS (BadRequest ''The candidate manifest is no longer available; re-propose the upgrade'')
       else bindS (liftS (context_of ctx)) (\<lambda>c.
         bindS (update_upgrade ctx uid (\<lambda>u. u\<lparr>u_consentedBy := user_of ctx, u_consentedAt := Some tm\<rparr>)) (\<lambda>_.
         bindS (liftS (thrown (analyseUpgrade (reading env)
                         ((e_manifest (contents ext))\<lparr>version := e_version (contents ext)\<rparr>) m))) (\<lambda>a.
         bindS (applyUpgrade env ctx tm ext uid m a (grant_to env m c)) (\<lambda>_.
         readS (find_extension ctx (row_id ext))))))))"

text \<open>The row a rollback writes.\<close>

definition restored :: "'m extension_env \<Rightarrow> upgrade_data \<Rightarrow> extension_data \<Rightarrow> extension_data" where
  "restored env u d =
     (let sn = u_snapshot u in
      d\<lparr>e_name := s_name sn, e_version := u_from u, e_manifest := s_manifest sn, e_subscribes := s_subscribes sn,
        e_requested := s_requested sn, e_capabilities := s_capabilities sn, e_withheld := s_withheld sn,
        e_capabilityVersion := s_capabilityVersion sn, e_risk := s_risk sn, e_limits := s_limits sn,
        e_engine := s_engine sn, e_dependencies := s_dependencies sn,
        e_digest := digest_of (reading env) (s_manifest sn), e_pendingVersion := None, e_lastError := None\<rparr>)"

definition put_back :: "'m extension_env \<Rightarrow> request_context option \<Rightarrow> int \<Rightarrow> string \<Rightarrow> upgrade_data \<Rightarrow> ('m, unit) ext" where
  "put_back env ctx tm i u =
     bindS (unregister ctx tm i) (\<lambda>_.
     bindS (update_extension ctx i (restored env u)) (\<lambda>_.
     bindS (readS (find_extension ctx i)) (\<lambda>now_is.
     bindS (forget_module i) (\<lambda>_.
     bindS (register env ctx (row_id now_is) (e_slug (contents now_is)) (s_manifest (u_snapshot u))
              (e_capabilities (contents now_is))) (\<lambda>_.
     doneS ())))))"

definition rollback :: "'m extension_env \<Rightarrow> request_context option \<Rightarrow> int \<Rightarrow> string \<Rightarrow> ('m, extension_data row) ext" where
  "rollback env ctx tm i =
     bindS (readS (find_extension ctx i)) (\<lambda>ext.
     bindS (readS (lastApplied ctx i)) (\<lambda>found.
     case found of
       None \<Rightarrow> throwS (BadRequest (quoted (e_slug (contents ext)) @ '' has no applied upgrade to roll back''))
     | Some u \<Rightarrow>
         bindS (transition env ctx ext ROLLBACK (put_back env ctx tm i (contents u))) (\<lambda>_.
         bindS (update_upgrade ctx (row_id u) (\<lambda>v. v\<lparr>u_outcome := ROLLED_BACK, u_rolledBackAt := Some tm\<rparr>)) (\<lambda>_.
         bindS (announce (ExtensionRolledBack i (u_from (contents u)))) (\<lambda>_.
         readS (find_extension ctx i))))))"

section \<open>Execution\<close>

definition deliver :: "'m extension_env \<Rightarrow> request_context option \<Rightarrow> int \<Rightarrow> extension_data row \<Rightarrow> string \<Rightarrow> obj \<Rightarrow> ('m, unit) ext" where
  "deliver env ctx tm ext event payload =
     (if e_status (contents ext) \<noteq> ENABLED then doneS ()
      else catchS
        (bindS (moduleFor env tm ext) (\<lambda>program.
         if \<not> implements env program (OnEvent event payload) then doneS ()
         else bindS (run_code env ext program (OnEvent event payload)
                       (contextFor ext (e_capabilities (contents ext)) None)) (\<lambda>_.
              bindS (update_extension ctx (row_id ext) (\<lambda>d. d\<lparr>e_lastRunAt := Some tm\<rparr>)) (\<lambda>_. doneS ()))))
        (\<lambda>e. record_event env ctx ext RUN lifecycle_outcome.FAILED (no_notes\<lparr>n_message := Some (error_message e)\<rparr>)))"

text \<open>\<open>String(invocation.input.prompt ?? '')\<close>.\<close>

definition prompt_of :: "'m extension_env \<Rightarrow> obj \<Rightarrow> string" where
  "prompt_of env given = str_of (str (reading env)) (coalesce (getp ''prompt'' given) (JStr []))"

definition invokeContribution :: "'m extension_env \<Rightarrow> request_context option \<Rightarrow> int \<Rightarrow> contribution_data row \<Rightarrow> string \<Rightarrow> obj
    \<Rightarrow> ('m, json) ext" where
  "invokeContribution env ctx tm con key given =
     bindS (readS (find_extension ctx (c_extension (contents con)))) (\<lambda>ext.
     if e_status (contents ext) \<noteq> ENABLED
     then throwS (Thrown (quoted (e_slug (contents ext)) @ '' is not enabled''))
     else bindS (moduleFor env tm ext) (\<lambda>program.
       let h = (if c_kind (contents con) = WORKER then OnWorkerRun (c_key (contents con)) (prompt_of env given) given
                else OnToolCall key given) in
       if \<not> implements env program h
       then throwS (Thrown (quoted (c_key (contents con)) @
              (if c_kind (contents con) = WORKER then '' implements no worker handler'' else '' implements no tool handler'')))
       else run_code env ext program h (contextFor ext (c_capabilities (contents con)) (Some (row_id con)))))"

text \<open>\<open>execute\<close> of a tool that \<open>resolveTool\<close> returned.\<close>

definition execute_tool :: "'m extension_env \<Rightarrow> request_context option \<Rightarrow> int \<Rightarrow> tool_definition \<Rightarrow> obj \<Rightarrow> ('m, json) ext" where
  "execute_tool env ctx tm t given =
     catchS
       (bindS (invokeContribution env ctx tm (t_contribution t) (t_key t) given) (\<lambda>output.
        bindS (recordInvocation ctx tm (row_id (t_contribution t)) False) (\<lambda>_. doneS output)))
       (\<lambda>e. bindS (recordInvocation ctx tm (row_id (t_contribution t)) True) (\<lambda>_. throwS (Thrown (error_message e))))"

section \<open>The event bridge\<close>

text \<open>
  \<open>ExtensionEventBridge\<close> of \<open>extensions/extensions.module.ts\<close>: an event of an organization goes to its enabled
  subscribers in turn, in a context of the system.
\<close>

definition bridge_context :: "string \<Rightarrow> string \<Rightarrow> request_context" where
  "bridge_context org event =
     \<lparr>userId = ''system'', organizationId = org, roleKey = ''SYSTEM'', permissions = [''*''],
      requestId = ''extension-fanout-'' @ event, ip = None, userAgent = None\<rparr>"

definition findSubscribers :: "request_context option \<Rightarrow> string \<Rightarrow> 'm platform \<Rightarrow> extension_error + extension_data row list" where
  "findSubscribers ctx event s =
     in_repo (findMany EXTENSIONS ctx
       [(''status'', \<lambda>r. e_status (contents r) = ENABLED), (''subscribes'', \<lambda>r. event \<in> set (e_subscribes (contents r)))]
       no_options (extensions s))"

definition fan_out :: "'m extension_env \<Rightarrow> int \<Rightarrow> string \<Rightarrow> string \<Rightarrow> obj \<Rightarrow> ('m, unit) ext" where
  "fan_out env tm org event payload =
     (if starts_with ''extension.'' event then doneS ()
      else catchS
        (bindS (readS (findSubscribers (Some (bridge_context org event)) event)) (\<lambda>subscribers.
         eachS (\<lambda>ext. deliver env (Some (bridge_context org event)) tm ext event payload) subscribers))
        (\<lambda>e. doneS ()))"

section \<open>Reports\<close>

record grant_report =
  g_id :: string
  g_slug :: string
  g_name :: string
  g_version :: string
  g_status :: extension_status
  g_risk :: capability_risk
  g_granted :: "(string \<times> string \<times> string \<times> capability_risk) list"
  g_withheld :: "(string \<times> string list) list"
  g_requested :: "string list"
  g_permissions :: "string list"
  g_catalogueVersion :: string
  g_current :: bool

definition describeGrant :: "'m extension_env \<Rightarrow> request_context option \<Rightarrow> string \<Rightarrow> 'm platform \<Rightarrow> extension_error + grant_report" where
  "describeGrant env ctx i s =
     bindE (find_extension ctx i s) (\<lambda>ext.
       let d = contents ext in
       Inr \<lparr>g_id = row_id ext, g_slug = e_slug d, g_name = e_name d, g_version = e_version d, g_status = e_status d,
            g_risk = e_risk d,
            g_granted = map (\<lambda>c. (capId c, capability_def.title c, capability_def.description c, risk c))
              (List.map_filter describe (e_capabilities d)),
            g_withheld = e_withheld d, g_requested = e_requested d, g_permissions = permissionsFor (e_capabilities d),
            g_catalogueVersion = e_capabilityVersion d, g_current = (e_capabilityVersion d = catalogue_version env)\<rparr>)"

definition newest_extension :: "extension_data row \<Rightarrow> extension_data row \<Rightarrow> int" where
  "newest_extension r r' = ord3 (e_createdAt (contents r')) (e_createdAt (contents r))"

text \<open>\<open>list\<close> shows a selection of the columns, \<open>describe\<close> all but the secrets.\<close>

definition list_extensions :: "request_context option \<Rightarrow> 'm platform \<Rightarrow> extension_error + extension_data row list" where
  "list_extensions ctx s =
     in_repo (findMany EXTENSIONS ctx [] (no_options\<lparr>orderBy := Some newest_extension\<rparr>) (extensions s))"

definition describe_extension :: "'m extension_env \<Rightarrow> request_context option \<Rightarrow> string \<Rightarrow> 'm platform
    \<Rightarrow> extension_error + extension_data row \<times> grant_report \<times> contribution_summary \<times> upgrade_data row option" where
  "describe_extension env ctx i s =
     bindE (find_extension ctx i s) (\<lambda>ext.
     bindE (describeGrant env ctx i s) (\<lambda>g.
     bindE (summary ctx i s) (\<lambda>c.
     bindE (pendingConsent ctx i s) (\<lambda>p.
     Inr (ext\<lparr>contents := (contents ext)\<lparr>e_secrets := []\<rparr>\<rparr>, g, c, p)))))"

definition upgradeHistory :: "request_context option \<Rightarrow> string \<Rightarrow> nat \<Rightarrow> 'm platform \<Rightarrow> extension_error + upgrade_data row list" where
  "upgradeHistory ctx i n s =
     in_repo (findMany UPGRADES ctx [(''extensionId'', \<lambda>r. u_extension (contents r) = i)]
       (no_options\<lparr>take_at_most := Some n, orderBy := Some latest_upgrade\<rparr>) (upgrades s))"

section \<open>The operations\<close>

text \<open>An operation is called by a principal at a time.\<close>

datatype extension_op =
    Install install_input
  | Approve string | Reject string string
  | Enable string | Disable string | Quarantine string string | Uninstall string
  | Propose string json bool | Consent string | Rollback string
  | Deliver string string obj
  | CallTool string obj
  | Happened string string obj

definition ended :: "('m, 'a) ext \<Rightarrow> 'm platform \<Rightarrow> extension_error option \<times> 'm platform" where
  "ended m s = (case m s of (r, s1) \<Rightarrow> (case r of Inl e \<Rightarrow> Some e | Inr _ \<Rightarrow> None, s1))"

fun extension_step :: "'m extension_env \<Rightarrow> request_context option \<times> int \<times> extension_op \<Rightarrow> 'm platform
    \<Rightarrow> extension_error option \<times> 'm platform" where
  "extension_step env (ctx, tm, Install input) s = ended (install env ctx tm input) s"
| "extension_step env (ctx, tm, Approve i) s = ended (approveCapabilities env ctx tm i) s"
| "extension_step env (ctx, tm, Reject i why) s = ended (rejectCapabilities env ctx tm i why) s"
| "extension_step env (ctx, tm, Enable i) s = ended (enable env ctx tm i) s"
| "extension_step env (ctx, tm, Disable i) s = ended (disable env ctx tm i) s"
| "extension_step env (ctx, tm, Quarantine i why) s = ended (quarantine env ctx tm i why) s"
| "extension_step env (ctx, tm, Uninstall i) s = ended (uninstall env ctx tm i) s"
| "extension_step env (ctx, tm, Propose i given consent) s = ended (proposeUpgrade env ctx tm i given consent) s"
| "extension_step env (ctx, tm, Consent u) s = ended (consentToUpgrade env ctx tm u) s"
| "extension_step env (ctx, tm, Rollback i) s = ended (rollback env ctx tm i) s"
| "extension_step env (ctx, tm, Deliver i event payload) s =
     ended (bindS (readS (find_extension ctx i)) (\<lambda>ext. deliver env ctx tm ext event payload)) s"
| "extension_step env (ctx, tm, CallTool key given) s =
     ended (bindS (readS (resolveTool ctx key)) (\<lambda>found.
       case found of None \<Rightarrow> doneS Undef | Some t \<Rightarrow> execute_tool env ctx tm t given)) s"
| "extension_step env (ctx, tm, Happened org event payload) s = ended (fan_out env tm org event payload) s"

end
