(* ===== verification/ExtensionSafety.thy ===== *)
theory ExtensionSafety
  imports ExtensionRuntime
begin

text \<open>
  What the runtime of extensions guarantees over any sequence of operations, whatever the code of the
  extensions does. The first part follows the authority of the people of an organization through
  grants, snapshots of upgrades, contributions and the contexts that code runs under. The second follows
  the slugs of the table of extensions; \<open>table_leaves\<close> and \<open>members_\<dots>\<close> say which operations leave it alone.
\<close>

section \<open>A predicate of all rows\<close>

lemma all_update_many:
  assumes "list_all Q t" and "\<And>r. r \<in> set t \<Longrightarrow> satisfies_all w r \<Longrightarrow> Q r \<Longrightarrow> Q (f r)"
  shows "list_all Q (snd (update_many w f t))"
  using assms by (auto simp: update_many_def list_all_iff)

lemma all_delete_many: "list_all Q t \<Longrightarrow> list_all Q (snd (delete_many w t))"
  by (simp add: delete_many_def list_all_iff)

lemma all_update_row:
  assumes "list_all Q t"
    and "\<And>r. r \<in> set t \<Longrightarrow> row_id r = i \<Longrightarrow> tenant ctx = Inr (row_org r) \<Longrightarrow> Q r \<Longrightarrow> Q (f r)"
  shows "list_all Q (snd (update_row M ctx i f t))"
proof (cases "tenant ctx")
  case (Inr org)
  have "list_all Q (snd (update_many (scope M org False (by_id i)) f t))"
    by (rule all_update_many [OF assms(1)]) (use assms(2) Inr in \<open>auto simp: scope_by_id\<close>)
  with Inr show ?thesis by (auto simp: update_row_def split: prod.splits)
qed (use assms(1) in \<open>simp add: update_row_def\<close>)

lemma all_remove_row:
  assumes "list_all Q t" and "\<And>r. Q r \<Longrightarrow> Q (r\<lparr>row_deleted := Some tm\<rparr>)"
  shows "list_all Q (snd (remove_row M ctx tm i t))"
proof (cases "tenant ctx")
  case (Inr org)
  let ?w = "scope M org False (by_id i)"
  have "list_all Q (snd (if softDeletes M then update_many ?w (\<lambda>r. r\<lparr>row_deleted := Some tm\<rparr>) t else delete_many ?w t))"
    using all_update_many [OF assms(1), of ?w "\<lambda>r. r\<lparr>row_deleted := Some tm\<rparr>"] all_delete_many [OF assms(1), of ?w] assms(2)
    by simp
  with Inr show ?thesis by (auto simp: remove_row_def Let_def split: prod.splits if_splits)
qed (use assms(1) in \<open>simp add: remove_row_def\<close>)

lemma found_row:
  assumes "findByIdOrFail M ctx i no_options t = Inr r"
  shows "r \<in> set t \<and> row_id r = i \<and> tenant ctx = Inr (row_org r) \<and> (softDeletes M \<longrightarrow> row_deleted r = None)"
  using assms
  by (auto simp: findByIdOrFail_def findById_def bindE_eq_Inr find_first_def no_options_def find_Some_iff scope_by_id in_set_conv_nth
      split: option.splits)

lemma updated_row:
  assumes "update_row M ctx i f t = (Inr r, t')"
  shows "r \<in> set t' \<and> tenant ctx = Inr (row_org r) \<and> row_id r = i"
  using assms found_row [of M ctx i t' r] by (auto simp: update_row_def split: sum.splits prod.splits if_splits)

section \<open>What a read establishes\<close>

definition yields :: "('s \<Rightarrow> bool) \<Rightarrow> ('s, 'e, 'a) comp \<Rightarrow> ('a \<Rightarrow> bool) \<Rightarrow> bool" where
  "yields I m F \<longleftrightarrow> (\<forall>s a s1. I s \<longrightarrow> m s = (Inr a, s1) \<longrightarrow> F a)"

lemma keeps_with:
  assumes "keeps I m" and "yields I m F" and "\<And>a. F a \<Longrightarrow> keeps I (k a)"
  shows "keeps I (bindS m k)"
  unfolding keeps_def
proof (intro allI impI)
  fix s assume I: "I s"
  obtain r s1 where m: "m s = (r, s1)" by (cases "m s")
  then have s1: "I s1" using keepsD [OF assms(1) I] by blast
  show "I (snd (bindS m k s))"
  proof (cases r)
    case (Inl e)
    with m s1 show ?thesis by (simp add: bindS_def)
  next
    case (Inr a)
    then have "F a" using assms(2) m I by (auto simp: yields_def)
    from assms(3) [OF this] s1 have "I (snd (k a s1))" by (simp add: keeps_def)
    with m Inr show ?thesis by (simp add: bindS_def)
  qed
qed

lemma keeps_read_with:
  assumes "\<And>s a. I s \<Longrightarrow> f s = Inr a \<Longrightarrow> F a" and "\<And>a. F a \<Longrightarrow> keeps I (k a)"
  shows "keeps I (bindS (readS f) k)"
  by (rule keeps_with [where F = F]) (auto simp: yields_def comp_eval intro: assms keeps_basic)

lemma yields_read: "(\<And>s a. I s \<Longrightarrow> f s = Inr a \<Longrightarrow> F a) \<Longrightarrow> yields I (readS f) F"
  by (auto simp: yields_def comp_eval)

lemma keeps_lift [keeps_intros]: "keeps I (liftS x)"
  by (simp add: liftS_def keeps_basic)

lemma keeps_lift_with: "(\<And>a. x = Inr a \<Longrightarrow> keeps I (k a)) \<Longrightarrow> keeps I (bindS (liftS x) k)"
  unfolding liftS_def by (rule keeps_read_with [where F = "\<lambda>a. x = Inr a"]) auto

lemma keeps_transition [keeps_intros]:
  assumes "\<And>out notes. keeps I (record_event env ctx ext ph out notes)" and "keeps I work"
  shows "keeps I (transition env ctx ext ph work)"
  unfolding transition_def by (intro keeps_intros assms)

lemma keeps_tolerant [keeps_intros]: "keeps I m \<Longrightarrow> keeps I (tolerant m)"
  unfolding tolerant_def by (intro keeps_intros)

section \<open>Authority\<close>

text \<open>\<open>inside P caps\<close>: every capability is in the catalogue and draws on permissions of \<open>P\<close> only.\<close>

definition inside :: "string set \<Rightarrow> string list \<Rightarrow> bool" where
  "inside P caps \<longleftrightarrow> (\<forall>i \<in> set caps. \<exists>c \<in> set CAPABILITIES. capId c = i \<and> set (implies c) \<subseteq> P)"

definition row_inside :: "(string \<Rightarrow> string set) \<Rightarrow> ('a \<Rightarrow> string list) \<Rightarrow> 'a row \<Rightarrow> bool" where
  "row_inside P f r \<longleftrightarrow> inside (P (row_org r)) (f (contents r))"

definition snapshot_capabilities :: "upgrade_data \<Rightarrow> string list" where
  "snapshot_capabilities u = s_capabilities (u_snapshot u)"

text \<open>
  \<open>P org\<close> are the permissions of an organization's people. Nothing that is granted, kept for a
  rollback, contributed, or handed to code that ran goes beyond those of its organization.
\<close>

definition authority :: "(string \<Rightarrow> string set) \<Rightarrow> 'm platform \<Rightarrow> bool" where
  "authority P s \<longleftrightarrow>
     list_all (row_inside P e_capabilities) (extensions s)
     \<and> list_all (row_inside P c_capabilities) (contributed s)
     \<and> list_all (row_inside P snapshot_capabilities) (upgrades s)
     \<and> list_all (\<lambda>x. inside (P (run_org x)) (x_capabilities (run_context x))) (ran s)"

definition own_authority :: "(string \<Rightarrow> string set) \<Rightarrow> request_context option \<Rightarrow> ('a \<Rightarrow> string list) \<Rightarrow> 'a row \<Rightarrow> bool" where
  "own_authority P ctx f r \<longleftrightarrow> tenant ctx = Inr (row_org r) \<and> row_inside P f r"

lemma inside_attenuate: "inside P ids \<Longrightarrow> inside P (attenuate ids sub)"
  by (auto simp: inside_def attenuate_def)

lemma inside_grant:
  assumes "''*'' \<notin> set holder" and "set holder \<subseteq> P"
  shows "inside P (granted (grant cmp cv req holder))"
  using assms unfolding inside_def granted_grant by (auto simp: grantable_iff)

lemma row_inside_simps [simp]:
  "row_inside P f (r\<lparr>row_deleted := d\<rparr>) = row_inside P f r"
  by (simp add: row_inside_def)

lemma authority_same:
  "authority P s \<Longrightarrow> extensions s' = extensions s \<Longrightarrow> contributed s' = contributed s \<Longrightarrow> upgrades s' = upgrades s
    \<Longrightarrow> ran s' = ran s \<Longrightarrow> authority P s'"
  by (simp add: authority_def)

lemma authority_announce [keeps_intros]: "keeps (authority P) (announce e)"
  by (auto simp: announce_def authority_def intro: keeps_change)

lemma authority_record [keeps_intros]: "keeps (authority P) (record_event env ctx ext ph out notes)"
  by (auto simp: keeps_def record_event_def authority_def split: prod.split sum.split)

lemma authority_modules [keeps_intros]:
  "keeps (authority P) (moduleFor env tm ext)" "keeps (authority P) (forget_module i)"
  by (auto simp: keeps_def moduleFor_def forget_module_def comp_eval authority_def split: prod.split sum.split option.split)

lemma authority_run_code [keeps_intros]:
  "inside (P (row_org ext)) (x_capabilities c) \<Longrightarrow> keeps (authority P) (run_code env ext program h c)"
  by (auto simp: keeps_def run_code_def authority_def split: prod.split sum.split)

lemma contextFor_capabilities [simp]: "x_capabilities (contextFor ext caps con) = caps"
  by (simp add: contextFor_def)

lemma authority_run_optional [keeps_intros]:
  "own_authority P ctx e_capabilities ext \<Longrightarrow> keeps (authority P) (run_optional env tm ext h)"
  unfolding run_optional_def by (intro keeps_intros) (simp add: own_authority_def row_inside_def)

text \<open>A new table of rows within their organizations.\<close>

lemma authority_tables:
  "authority P s \<Longrightarrow> list_all (row_inside P e_capabilities) t \<Longrightarrow> authority P (s\<lparr>extensions := t\<rparr>)"
  "authority P s \<Longrightarrow> list_all (row_inside P c_capabilities) u \<Longrightarrow> authority P (s\<lparr>contributed := u\<rparr>)"
  "authority P s \<Longrightarrow> list_all (row_inside P snapshot_capabilities) v \<Longrightarrow> authority P (s\<lparr>upgrades := v\<rparr>)"
  by (simp_all add: authority_def)

lemma authority_ids [simp]:
  "authority P (s\<lparr>next_id := n\<rparr>) = authority P s" "authority P (s\<lparr>worker_rows := w\<rparr>) = authority P s"
  "authority P (s\<lparr>keyspace := k\<rparr>) = authority P s"
  by (simp_all add: authority_def)

lemma authority_rows:
  "authority P s \<Longrightarrow> list_all (row_inside P e_capabilities) (extensions s)"
  "authority P s \<Longrightarrow> list_all (row_inside P c_capabilities) (contributed s)"
  "authority P s \<Longrightarrow> list_all (row_inside P snapshot_capabilities) (upgrades s)"
  by (simp_all add: authority_def)

lemma authority_setEnabled [keeps_intros]: "keeps (authority P) (setEnabled ctx i b)"
  by (cases "tenant ctx")
    (auto simp: keeps_def setEnabled_def split_beta row_inside_def
      intro!: authority_tables(2) all_update_many dest: authority_rows(2))

lemma authority_removeForExtension [keeps_intros]: "keeps (authority P) (removeForExtension ctx i)"
  by (cases "tenant ctx")
    (auto simp: keeps_def removeForExtension_def split_beta intro!: authority_tables(2) all_delete_many dest: authority_rows(2))

lemma authority_recordInvocation [keeps_intros]: "keeps (authority P) (recordInvocation ctx tm i b)"
  by (cases "tenant ctx")
    (auto simp: keeps_def recordInvocation_def split_beta row_inside_def
      intro!: authority_tables(2) all_update_many dest: authority_rows(2))

lemma authority_workers [keeps_intros]:
  "keeps (authority P) (create_worker env ctx d)" "keeps (authority P) (remove_worker ctx tm i)" "keeps (authority P) (dropAll ctx i)"
  by (auto simp: keeps_def create_worker_def remove_worker_def dropAll_def authority_def split: prod.split sum.split)

lemma authority_update_contribution [keeps_intros]:
  assumes "\<And>org c. tenant ctx = Inr org \<Longrightarrow> inside (P org) (c_capabilities (f c))"
  shows "keeps (authority P) (update_contribution ctx i f)"
  by (auto simp: keeps_def update_contribution_def split_beta row_inside_def assms
      intro!: authority_tables(2) all_update_row dest: authority_rows(2))

lemma authority_create_contribution [keeps_intros]:
  assumes "\<And>org. tenant ctx = Inr org \<Longrightarrow> inside (P org) (c_capabilities d)"
  shows "keeps (authority P) (create_contribution env ctx d)"
  by (cases "tenant ctx")
    (auto simp: keeps_def create_contribution_def create_row_def new_row_def row_inside_def assms
      intro!: authority_tables(2) dest: authority_rows(2))

lemma authority_update_extension [keeps_intros]:
  assumes "\<And>org d. tenant ctx = Inr org \<Longrightarrow> inside (P org) (e_capabilities d) \<Longrightarrow> inside (P org) (e_capabilities (f d))"
  shows "keeps (authority P) (update_extension ctx i f)"
  by (auto simp: keeps_def update_extension_def split_beta row_inside_def assms
      intro!: authority_tables(1) all_update_row dest: authority_rows(1))

lemma authority_remove_extension [keeps_intros]: "keeps (authority P) (remove_extension ctx tm i)"
  by (auto simp: keeps_def remove_extension_def split_beta row_inside_def
      intro!: authority_tables(1) all_remove_row dest: authority_rows(1))

lemma authority_create_extension [keeps_intros]:
  assumes "\<And>org. tenant ctx = Inr org \<Longrightarrow> inside (P org) (e_capabilities d)"
  shows "keeps (authority P) (create_extension env ctx d)"
  by (cases "tenant ctx")
    (auto simp: keeps_def create_extension_def create_row_def new_row_def row_inside_def assms
      intro!: authority_tables(1) dest: authority_rows(1))

lemma authority_create_upgrade [keeps_intros]:
  assumes "\<And>org. tenant ctx = Inr org \<Longrightarrow> inside (P org) (snapshot_capabilities d)"
  shows "keeps (authority P) (create_upgrade env ctx d)"
  by (cases "tenant ctx")
    (auto simp: keeps_def create_upgrade_def create_row_def new_row_def row_inside_def assms
      intro!: authority_tables(3) dest: authority_rows(3))

lemma authority_update_upgrade [keeps_intros]:
  assumes "\<And>d. snapshot_capabilities (f d) = snapshot_capabilities d"
  shows "keeps (authority P) (update_upgrade ctx i f)"
  by (auto simp: keeps_def update_upgrade_def split_beta row_inside_def assms
      intro!: authority_tables(3) all_update_row dest: authority_rows(3))

section \<open>Every operation keeps the authority\<close>

lemma thrown_Inr [simp]: "thrown x = Inr a \<longleftrightarrow> x = Inr a"
  by (cases x) (simp_all add: thrown_def)

lemma in_repo_Inr [simp]: "in_repo x = Inr a \<longleftrightarrow> x = Inr a"
  by (cases x) (simp_all add: in_repo_def)

lemma found_extension:
  assumes "authority P s" and "find_extension ctx i s = Inr ext"
  shows "own_authority P ctx e_capabilities ext" "row_id ext = i"
  using assms found_row [of EXTENSIONS ctx i "extensions s" ext]
  by (auto simp: find_extension_def own_authority_def dest!: authority_rows(1) simp: list_all_iff)

lemma found_key:
  assumes "authority P s" and "findByKey ctx kind key s = Inr (Some con)"
  shows "own_authority P ctx c_capabilities con"
  using assms scope_confines(1)
  by (force simp: findByKey_def bindE_eq_Inr find_first_def find_Some_iff own_authority_def list_all_iff in_set_conv_nth
      dest!: authority_rows(2))

lemma updated_extension:
  assumes "authority P (snd (update_extension ctx i f s))" and "update_extension ctx i f s = (Inr r, s1)"
  shows "own_authority P ctx e_capabilities r"
  using assms updated_row [of EXTENSIONS ctx i "\<lambda>r. r\<lparr>contents := f (contents r)\<rparr>" "extensions s" r]
  by (cases "update_row EXTENSIONS ctx i (\<lambda>r. r\<lparr>contents := f (contents r)\<rparr>) (extensions s)")
    (auto simp: update_extension_def own_authority_def list_all_iff dest!: authority_rows(1))

lemma authority_find: "keeps (authority P) (readS (find_extension ctx i))"
  by (rule keeps_basic)

lemma keeps_find_with:
  "(\<And>ext. own_authority P ctx e_capabilities ext \<Longrightarrow> row_id ext = i \<Longrightarrow> keeps (authority P) (k ext))
    \<Longrightarrow> keeps (authority P) (bindS (readS (find_extension ctx i)) k)"
  by (rule keeps_read_with [where F = "\<lambda>ext. own_authority P ctx e_capabilities ext \<and> row_id ext = i"])
    (auto dest: found_extension)

lemma authority_upsert [keeps_intros]:
  assumes "\<And>org. tenant ctx = Inr org \<Longrightarrow> inside (P org) (c_capabilities d)"
  shows "keeps (authority P) (upsert env ctx d desc)"
proof -
  have "keeps (authority P) (case existing of
       Some r \<Rightarrow> update_contribution ctx (row_id r) (\<lambda>c. c\<lparr>c_extension := c_extension d, c_kind := c_kind d,
           c_key := c_key d, c_name := c_name d, c_description := words, c_definition := c_definition d,
           c_capabilities := c_capabilities d, c_enabled := True, c_worker := c_worker d, c_trigger := None\<rparr>)
     | None \<Rightarrow> create_contribution env ctx (d\<lparr>c_description := words\<rparr>))" for existing words
    by (cases existing) (auto intro!: keeps_intros simp: assms)
  then show ?thesis unfolding upsert_def by (intro keeps_intros)
qed

lemma contribution_of_capabilities [simp]: "c_capabilities (contribution_of i sl kind c caps w) = caps"
  by (simp add: contribution_of_def)

lemma authority_register_one [keeps_intros]:
  assumes "\<And>org. tenant ctx = Inr org \<Longrightarrow> inside (P org) caps"
  shows "keeps (authority P) (registerWorker env ctx i sl caps c)" "keeps (authority P) (registerTool env ctx i sl caps c)"
    "keeps (authority P) (registerTrigger env ctx i sl caps c)"
  unfolding registerWorker_def registerTool_def registerTrigger_def
  by (auto intro!: keeps_intros inside_attenuate assms split: prod.split)

lemma keeps_register_if [keeps_intros]: "keeps I m \<Longrightarrow> keeps I (register_if caps need c m)"
  unfolding register_if_def by (intro keeps_intros)

lemma authority_register [keeps_intros]:
  assumes "\<And>org. tenant ctx = Inr org \<Longrightarrow> inside (P org) caps"
  shows "keeps (authority P) (register env ctx i sl m caps)"
  unfolding register_def register_tool_def Let_def by (intro keeps_intros assms)

lemma authority_unregister [keeps_intros]: "keeps (authority P) (unregister ctx tm i)"
proof -
  have "keeps (authority P) (case c_worker (contents r) of
              Some (c # cs) \<Rightarrow> catchS (remove_worker ctx tm (c # cs)) (\<lambda>_. doneS ())
            | _ \<Rightarrow> doneS ())" for r :: "contribution_data row"
    by (auto intro!: keeps_intros split: option.split list.split)
  then show ?thesis unfolding unregister_def by (intro keeps_intros)
qed

lemma authority_initialize [keeps_intros]:
  "own_authority P ctx e_capabilities ext \<Longrightarrow> keeps (authority P) (initialize env ctx tm ext)"
  unfolding initialize_def by (intro keeps_intros authority_run_optional [of P ctx]) simp_all

lemma own_authority_inside: "own_authority P ctx f r \<Longrightarrow> tenant ctx = Inr org \<Longrightarrow> inside (P org) (f (contents r))"
  by (simp add: own_authority_def row_inside_def)

lemma authority_stop [keeps_intros]:
  assumes "\<And>d. e_capabilities (f d) = e_capabilities d"
  shows "keeps (authority P) (stop env ctx tm i ph f e)"
  unfolding stop_def
  by (intro keeps_find_with keeps_intros authority_run_optional [of P ctx]; (assumption | simp add: assms))

lemma authority_uninstall [keeps_intros]: "keeps (authority P) (uninstall env ctx tm i)"
  unfolding uninstall_def unload_def
  by (intro keeps_find_with keeps_intros authority_run_optional [of P ctx])

lemma authority_decisions [keeps_intros]:
  "keeps (authority P) (rejectCapabilities env ctx tm i why)" "keeps (authority P) (disable env ctx tm i)"
  "keeps (authority P) (quarantine env ctx tm i why)"
  unfolding rejectCapabilities_def disable_def quarantine_def by (auto intro!: keeps_intros)

lemma authority_enable [keeps_intros]: "keeps (authority P) (enable env ctx tm i)"
  unfolding enable_def by (intro keeps_find_with keeps_intros authority_run_optional [of P ctx]) simp_all

lemma keeps_update_extension_with:
  assumes "\<And>org d. tenant ctx = Inr org \<Longrightarrow> inside (P org) (e_capabilities d) \<Longrightarrow> inside (P org) (e_capabilities (f d))"
    and "\<And>r. own_authority P ctx e_capabilities r \<Longrightarrow> keeps (authority P) (k r)"
  shows "keeps (authority P) (bindS (update_extension ctx i f) k)"
proof (rule keeps_with [OF authority_update_extension [OF assms(1)] _ assms(2)])
  show "yields (authority P) (update_extension ctx i f) (own_authority P ctx e_capabilities)"
    unfolding yields_def
  proof (intro allI impI)
    fix s r s1 assume I: "authority P s" and u: "update_extension ctx i f s = (Inr r, s1)"
    have "authority P s1" by (rule keepsD [OF authority_update_extension [OF assms(1)] I u])
    with u show "own_authority P ctx e_capabilities r" using updated_extension [of P ctx i f s r s1] by simp
  qed
qed

lemma authority_approve [keeps_intros]: "keeps (authority P) (approveCapabilities env ctx tm i)"
  unfolding approveCapabilities_def
  by (intro keeps_find_with keeps_if keeps_update_extension_with keeps_bind authority_record authority_initialize keeps_basic) simp_all

lemma authority_carry_out [keeps_intros]:
  assumes "\<And>org. tenant ctx = Inr org \<Longrightarrow> inside (P org) (granted g)"
  shows "keeps (authority P) (carry_out env ctx tm ext uid m a g)"
  unfolding carry_out_def
  by (intro keeps_find_with keeps_intros authority_run_optional [of P ctx]) (simp_all add: assms upgraded_def snapshot_capabilities_def)

lemma authority_applyUpgrade [keeps_intros]:
  assumes "\<And>org. tenant ctx = Inr org \<Longrightarrow> inside (P org) (granted g)"
  shows "keeps (authority P) (applyUpgrade env ctx tm ext uid m a g)"
  unfolding applyUpgrade_def
  by (intro keeps_intros assms) (simp_all add: assms snapshot_capabilities_def)

text \<open>Who installs, proposes or consents holds permissions of the organization, and not the wildcard.\<close>

definition acts_within :: "(string \<Rightarrow> string set) \<Rightarrow> request_context option \<Rightarrow> bool" where
  "acts_within P ctx \<longleftrightarrow>
     (case ctx of None \<Rightarrow> True
      | Some c \<Rightarrow> ''*'' \<notin> set (request_context.permissions c) \<and> set (request_context.permissions c) \<subseteq> P (organizationId c))"

lemma grant_inside:
  assumes "acts_within P ctx" and "context_of ctx = Inr c" and "tenant ctx = Inr org"
  shows "inside (P org) (granted (grant_to env m c))"
proof -
  from assms have "ctx = Some c" "organizationId c = org"
    by (auto simp: context_of_def tenant_def require_def bindE_eq_Inr split: option.splits if_splits)
  with assms(1) show ?thesis unfolding grant_to_def by (auto simp: acts_within_def intro!: inside_grant)
qed

lemma created_extension:
  assumes "authority P s1" and "create_extension env ctx d s = (Inr r, s1)"
  shows "own_authority P ctx e_capabilities r"
  using assms by (auto simp: create_extension_def create_row_def own_authority_def dest!: authority_rows(1) split: sum.splits if_splits)

lemma keeps_option [keeps_intros]:
  "(x = None \<Longrightarrow> keeps I m) \<Longrightarrow> (\<And>a. x = Some a \<Longrightarrow> keeps I (n a)) \<Longrightarrow> keeps I (case x of None \<Rightarrow> m | Some a \<Rightarrow> n a)"
  by (cases x) simp_all

lemma keeps_pair [keeps_intros]: "(\<And>a b. keeps I (n a b)) \<Longrightarrow> keeps I (case x of (a, b) \<Rightarrow> n a b)"
  by (cases x) simp_all

lemma authority_install [keeps_intros]:
  assumes "acts_within P ctx"
  shows "keeps (authority P) (install env ctx tm input)"
proof -
  have complete: "keeps (authority P) (bindS (create_extension env ctx (extension_row env tm c input v m (grant_to env m c) vals))
      (complete_install env ctx tm v m (grant_to env m c)))" if c: "context_of ctx = Inr c" for c v m vals
  proof (rule keeps_with [where F = "own_authority P ctx e_capabilities"])
    let ?d = "extension_row env tm c input v m (grant_to env m c) vals"
    show create: "keeps (authority P) (create_extension env ctx ?d)"
      by (rule authority_create_extension) (simp add: extension_row_def grant_inside [OF assms c])
    show "yields (authority P) (create_extension env ctx ?d) (own_authority P ctx e_capabilities)"
      unfolding yields_def using keepsD [OF create] created_extension by blast
    show "keeps (authority P) (complete_install env ctx tm v m (grant_to env m c) ext)"
      if "own_authority P ctx e_capabilities ext" for ext
      unfolding complete_install_def
      by (auto intro!: keeps_intros authority_initialize [OF that] grant_inside [OF assms c] split: prod.split)
  qed
  show ?thesis unfolding install_def Let_def split_beta
    by (intro keeps_lift_with complete keeps_bind keeps_if keeps_option keeps_basic)
qed

lemma analyse_Inr:
  assumes "analyse env ctx i given s = Inr (a, g, m)"
  shows "\<exists>ext v c. find_extension ctx i s = Inr ext \<and> validated env ''The candidate manifest is not valid'' given = Inr (v, m)
    \<and> analyseUpgrade (reading env) ((e_manifest (contents ext))\<lparr>version := e_version (contents ext), slug := e_slug (contents ext)\<rparr>) m = Inr a
    \<and> context_of ctx = Inr c \<and> g = grant_to env m c"
  using assms by (fastforce simp: analyse_def bindE_eq_Inr)

lemma first_of_Some: "first_of rs = Some r \<Longrightarrow> r \<in> set rs"
  by (cases rs) (simp_all add: first_of_def)

lemma proposal_capabilities [simp]:
  "snapshot_capabilities (proposal ctx tm ext consent a m) = e_capabilities (contents ext)"
  by (simp add: proposal_def snapshot_capabilities_def snapshot_of_def)

lemma authority_propose [keeps_intros]:
  assumes "acts_within P ctx"
  shows "keeps (authority P) (proposeUpgrade env ctx tm i given consent)"
proof -
  have granted0: "inside (P org) (granted g)"
    if "analyse env ctx j given s = Inr (a, g, m)" "tenant ctx = Inr org" for j s a g m org
    using analyse_Inr [OF that(1)] that(2) grant_inside [OF assms] by blast
  have rest: "keeps (authority P) (case x of (a, g, m) \<Rightarrow> bindS (create_upgrade env ctx (proposal ctx tm ext consent a m))
      (\<lambda>u. if blocked a then k a m u else if breaking a \<and> \<not> consent then l a m u
           else bindS (applyUpgrade env ctx tm ext (row_id u) m a g) (\<lambda>_. doneS (u, True, a))))"
    if "own_authority P ctx e_capabilities ext" "\<forall>org. tenant ctx = Inr org \<longrightarrow> inside (P org) (granted (fst (snd x)))"
      "\<And>a m u. keeps (authority P) (k a m u)" "\<And>a m u. keeps (authority P) (l a m u)" for x ext k l
    using that by (auto intro!: keeps_intros dest: own_authority_inside split: prod.split)
  show ?thesis unfolding proposeUpgrade_def
    by (intro keeps_find_with keeps_read_with [where F = "\<lambda>x. \<forall>org. tenant ctx = Inr org \<longrightarrow> inside (P org) (granted (fst (snd x)))"]
        rest keeps_bind authority_record authority_announce authority_update_extension keeps_basic)
      (auto dest: granted0)
qed

lemma authority_consent [keeps_intros]:
  assumes "acts_within P ctx"
  shows "keeps (authority P) (consentToUpgrade env ctx tm uid)"
  unfolding consentToUpgrade_def Let_def
  by (intro keeps_find_with keeps_lift_with keeps_bind keeps_if keeps_basic authority_update_upgrade authority_applyUpgrade)
    (simp_all add: grant_inside [OF assms] snapshot_capabilities_def)

lemma found_applied:
  assumes "authority P s" and "lastApplied ctx i s = Inr (Some u)"
  shows "own_authority P ctx snapshot_capabilities u"
proof -
  from assms(2) obtain org where org: "tenant ctx = Inr org"
    and "first_of (sort_by latest_applied (filter (satisfies_all (scope UPGRADES org False (with_outcome i APPLIED))) (upgrades s))) = Some u"
    by (auto simp: lastApplied_def bindE_eq_Inr)
  from first_of_Some [OF this(2)]
  have "u \<in> set (upgrades s)" "satisfies_all (scope UPGRADES org False (with_outcome i APPLIED)) u" by auto
  with assms(1) org show ?thesis
    by (auto simp: own_authority_def list_all_iff dest!: authority_rows(3) scope_confines(1))
qed

lemma authority_rollback [keeps_intros]: "keeps (authority P) (rollback env ctx tm i)"
proof -
  have putting: "keeps (authority P) (put_back env ctx tm i (contents u))" if "own_authority P ctx snapshot_capabilities u" for u
    unfolding put_back_def
    by (intro keeps_find_with keeps_update_extension_with keeps_bind authority_unregister authority_modules authority_register
        keeps_basic)
      (auto simp: restored_def Let_def dest: own_authority_inside own_authority_inside [OF that]
        simp flip: snapshot_capabilities_def)
  show ?thesis unfolding rollback_def
    by (intro keeps_find_with keeps_read_with [where F = "\<lambda>x. \<forall>u. x = Some u \<longrightarrow> own_authority P ctx snapshot_capabilities u"]
        keeps_option keeps_bind keeps_basic keeps_transition authority_record authority_announce authority_update_upgrade putting)
      (auto dest: found_applied simp: snapshot_capabilities_def)
qed

lemma authority_deliver [keeps_intros]:
  "own_authority P ctx e_capabilities ext \<Longrightarrow> keeps (authority P) (deliver env ctx tm ext event payload)"
  unfolding deliver_def by (intro keeps_intros) (auto simp: own_authority_def row_inside_def)

lemma found_subscribers:
  assumes "authority P s" and "findSubscribers ctx event s = Inr rs" and "r \<in> set rs"
  shows "own_authority P ctx e_capabilities r"
proof -
  from assms(2) obtain org where org: "tenant ctx = Inr org" and "r \<in> set (extensions s)"
    and "satisfies_all (scope EXTENSIONS org False [(''status'', \<lambda>r. e_status (contents r) = ENABLED),
        (''subscribes'', \<lambda>r. event \<in> set (e_subscribes (contents r)))]) r"
    using assms(3) by (auto simp: findSubscribers_def findMany_def bindE_eq_Inr no_options_def select_rows_def)
  with assms(1) show ?thesis
    by (auto simp: own_authority_def list_all_iff dest!: authority_rows(1) scope_confines(1))
qed

lemma keeps_each_of: "(\<And>x. x \<in> set xs \<Longrightarrow> keeps I (f x)) \<Longrightarrow> keeps I (eachS f xs)"
  by (induction xs) (auto intro!: keeps_bind keeps_basic)

lemma authority_fan_out [keeps_intros]: "keeps (authority P) (fan_out env tm org event payload)"
proof -
  let ?ctx = "Some (bridge_context org event)"
  have "keeps (authority P) (bindS (readS (findSubscribers ?ctx event))
      (eachS (\<lambda>ext. deliver env ?ctx tm ext event payload)))"
    by (rule keeps_read_with [where F = "\<lambda>rs. \<forall>r \<in> set rs. own_authority P ?ctx e_capabilities r"])
      (auto intro!: keeps_each_of authority_deliver dest: found_subscribers)
  then show ?thesis unfolding fan_out_def by (intro keeps_if keeps_catch keeps_basic)
qed

lemma authority_execute_tool [keeps_intros]:
  assumes "own_authority P ctx c_capabilities (t_contribution t)"
  shows "keeps (authority P) (execute_tool env ctx tm t given)"
proof -
  have "inside (P (row_org ext)) (c_capabilities (contents (t_contribution t)))" if "own_authority P ctx e_capabilities ext" for ext
    using that assms by (auto simp: own_authority_def row_inside_def)
  then show ?thesis unfolding execute_tool_def invokeContribution_def Let_def
    by (intro keeps_find_with keeps_intros) auto
qed

lemma resolved_tool:
  assumes "authority P s" and "resolveTool ctx key s = Inr (Some t)"
  shows "own_authority P ctx c_capabilities (t_contribution t)"
proof -
  from assms(2) obtain found where found: "findByKey ctx TOOL key s = Inr found"
    by (auto simp: resolveTool_def bindE_eq_Inr split: if_splits)
  show ?thesis
  proof (cases found)
    case None
    with found assms(2) show ?thesis by (simp add: resolveTool_def split: if_splits)
  next
    case (Some r)
    with found assms(2) have "t_contribution t = r" by (auto simp: resolveTool_def Let_def split: if_splits)
    with found_key [OF assms(1) found [unfolded Some]] show ?thesis by simp
  qed
qed

text \<open>An operation that may grant.\<close>

fun granting :: "extension_op \<Rightarrow> bool" where
  "granting (Install input) = True" | "granting (Propose i given consent) = True" | "granting (Consent u) = True"
| "granting _ = False"

lemma snd_ended [simp]: "snd (ended m s) = snd (m s)"
  by (simp add: ended_def split: prod.split)

definition lawful_call :: "(string \<Rightarrow> string set) \<Rightarrow> request_context option \<times> int \<times> extension_op \<Rightarrow> bool" where
  "lawful_call P p = (case p of (ctx, tm, op) \<Rightarrow> granting op \<longrightarrow> acts_within P ctx)"

lemma authority_step:
  assumes "authority P s" and "lawful_call P p"
  shows "authority P (snd (extension_step env p s))"
proof -
  obtain ctx tm op where p: "p = (ctx, tm, op)" by (cases p)
  have "keeps (authority P) (bindS (readS (resolveTool ctx key)) (\<lambda>found.
       case found of None \<Rightarrow> doneS Undef | Some t \<Rightarrow> execute_tool env ctx tm t given))" for key given
    by (rule keeps_read_with [where F = "\<lambda>x. \<forall>t. x = Some t \<longrightarrow> own_authority P ctx c_capabilities (t_contribution t)"])
      (auto intro!: keeps_intros dest: resolved_tool)
  moreover have "keeps (authority P) (bindS (readS (find_extension ctx i)) (\<lambda>ext. deliver env ctx tm ext event payload))" for i event payload
    by (intro keeps_find_with keeps_intros)
  ultimately show ?thesis using assms
    by (cases op) (auto simp: p keeps_def lawful_call_def intro: keepsD [rotated] authority_install [unfolded keeps_def, rule_format]
        authority_propose [unfolded keeps_def, rule_format] authority_consent [unfolded keeps_def, rule_format]
        authority_decisions [unfolded keeps_def, rule_format] authority_approve [unfolded keeps_def, rule_format]
        authority_enable [unfolded keeps_def, rule_format] authority_uninstall [unfolded keeps_def, rule_format]
        authority_rollback [unfolded keeps_def, rule_format] authority_fan_out [unfolded keeps_def, rule_format])
qed

interpretation granted_authority: kept "authority P" "extension_step env" "lawful_call P"
  for P env
  by unfold_locales (rule authority_step)

definition no_extensions :: "'m platform" where
  "no_extensions = \<lparr>extensions = [], lifecycle = [], contributed = [], upgrades = [], worker_rows = [], keyspace = [],
     loaded = \<lparr>entries = [], weight = 0, evictions = 0, limit = LOADED_LIMIT, weigh = None, on_evict = []\<rparr>,
     next_id = 0, published = [], ran = []\<rparr>"

lemma authority_empty: "authority P no_extensions"
  by (simp add: authority_def no_extensions_def)

text \<open>C8: Code of an extension never exceeds the people of its organization. Take any sequence of installs,
  approvals, upgrades, consents, rollbacks, deliveries and calls, by any principals of any organizations,
  whatever the extensions' code does with the workers and keyspaces it can reach; suppose only that whoever
  installs, proposes or consents holds no wildcard and no permission outside \<open>P\<close> of the organization. Then
  every host method that the context of a run of extension code is authorized for is guarded by a
  capability all of whose permissions are in \<open>P\<close> of that extension's organization, and the same holds of
  what is granted to an installed extension and of what its contributions hold.\<close>

theorem extension_code_within_its_people:
  assumes "\<forall>p \<in> set ps. lawful_call P p" and "s = snd (run_ops (extension_step env) ps no_extensions)"
  shows "(\<forall>x \<in> set (ran s). \<forall>meth. authorize (x_capabilities (run_context x)) meth = None \<longrightarrow>
            (\<exists>c \<in> set CAPABILITIES. meth \<in> set (surface c) \<and> set (implies c) \<subseteq> P (run_org x)))
    \<and> (\<forall>r \<in> set (extensions s). inside (P (row_org r)) (e_capabilities (contents r)))
    \<and> (\<forall>r \<in> set (contributed s). inside (P (row_org r)) (c_capabilities (contents r)))"
proof -
  have "authority P s"
    unfolding assms(2) by (rule granted_authority.kept_run [OF authority_empty assms(1)])
  moreover have "\<exists>c \<in> set CAPABILITIES. meth \<in> set (surface c) \<and> set (implies c) \<subseteq> Q"
    if "inside Q ids" "authorize ids meth = None" for Q ids meth
    using that capId_inj unfolding inside_def authorize_None by metis
  ultimately show ?thesis by (auto simp: authority_def list_all_iff row_inside_def)
qed


section \<open>Slugs\<close>

text \<open>What an operation does to the table of extensions is what its updates of that table do.\<close>

lemma table_leaves [leaves_intros]:
  "leaves (\<lambda>s. F (extensions s)) (announce e)" "leaves (\<lambda>s. F (extensions s)) (record_event env ctx ext ph out notes)"
  "leaves (\<lambda>s. F (extensions s)) (moduleFor env tm ext)" "leaves (\<lambda>s. F (extensions s)) (forget_module i)"
  "leaves (\<lambda>s. F (extensions s)) (run_code env ext program h c)" "leaves (\<lambda>s. F (extensions s)) (setEnabled ctx i b)"
  "leaves (\<lambda>s. F (extensions s)) (removeForExtension ctx i)" "leaves (\<lambda>s. F (extensions s)) (recordInvocation ctx tm i b)"
  "leaves (\<lambda>s. F (extensions s)) (create_worker env ctx wd)" "leaves (\<lambda>s. F (extensions s)) (remove_worker ctx tm i)"
  "leaves (\<lambda>s. F (extensions s)) (dropAll ctx i)" "leaves (\<lambda>s. F (extensions s)) (update_contribution ctx i cf)"
  "leaves (\<lambda>s. F (extensions s)) (create_contribution env ctx cd)" "leaves (\<lambda>s. F (extensions s)) (create_upgrade env ctx ud)"
  "leaves (\<lambda>s. F (extensions s)) (update_upgrade ctx i uf)" "leaves (\<lambda>s. F (extensions s)) (liftS x)"
  by (auto simp: leaves_def announce_def record_event_def moduleFor_def forget_module_def run_code_def setEnabled_def
      removeForExtension_def recordInvocation_def create_worker_def remove_worker_def dropAll_def update_contribution_def
      create_contribution_def create_upgrade_def update_upgrade_def liftS_def comp_eval split: prod.split sum.split option.split)

lemma leaves_option [leaves_intros]:
  "leaves f m \<Longrightarrow> (\<And>a. leaves f (n a)) \<Longrightarrow> leaves f (case x of None \<Rightarrow> m | Some a \<Rightarrow> n a)"
  by (cases x) simp_all

lemma leaves_list_case [leaves_intros]:
  "leaves f m \<Longrightarrow> (\<And>a as. leaves f (n a as)) \<Longrightarrow> leaves f (case x of [] \<Rightarrow> m | a # as \<Rightarrow> n a as)"
  by (cases x) simp_all

lemma leaves_pair [leaves_intros]: "(\<And>a b. leaves f (n a b)) \<Longrightarrow> leaves f (case x of (a, b) \<Rightarrow> n a b)"
  by (cases x) simp_all

lemma leaves_transition [leaves_intros]:
  assumes "leaves (\<lambda>s. F (extensions s)) work"
  shows "leaves (\<lambda>s. F (extensions s)) (transition env ctx ext ph work)"
  unfolding transition_def by (intro leaves_intros assms)

lemma leaves_tolerant [leaves_intros]: "leaves f m \<Longrightarrow> leaves f (tolerant m)"
  unfolding tolerant_def by (intro leaves_intros)

lemma leaves_run_optional [leaves_intros]: "leaves (\<lambda>s. F (extensions s)) (run_optional env tm ext h)"
  unfolding run_optional_def by (intro leaves_intros)

lemma leaves_upsert [leaves_intros]: "leaves (\<lambda>s. F (extensions s)) (upsert env ctx d desc)"
  unfolding upsert_def by (intro leaves_intros)

lemma leaves_register_if [leaves_intros]: "leaves f m \<Longrightarrow> leaves f (register_if caps need c m)"
  unfolding register_if_def by (intro leaves_intros)

lemma leaves_register [leaves_intros]: "leaves (\<lambda>s. F (extensions s)) (register env ctx i sl m caps)"
  unfolding register_def register_tool_def registerWorker_def registerTool_def registerTrigger_def Let_def
  by (intro leaves_intros)

lemma leaves_unregister [leaves_intros]: "leaves (\<lambda>s. F (extensions s)) (unregister ctx tm i)"
  unfolding unregister_def by (intro leaves_intros)

lemma leaves_unload [leaves_intros]: "leaves (\<lambda>s. F (extensions s)) (unload env sl)"
  unfolding unload_def by (intro leaves_intros)

text \<open>Who is in the table of extensions, removed rows included.\<close>

definition identity :: "extension_data row \<Rightarrow> string \<times> string \<times> string" where
  "identity r = (row_id r, row_org r, e_slug (contents r))"

lemma identities_update_many:
  assumes "\<And>r. identity (f r) = identity r"
  shows "map identity (snd (update_many w f t)) = map identity t"
  using assms by (simp add: update_many_def)

lemma columns_update:
  assumes "\<And>r. F (r\<lparr>contents := f (contents r)\<rparr>) = F r"
  shows "leaves (\<lambda>s. map F (extensions s)) (update_extension ctx i f)"
  by (cases "tenant ctx") (simp_all add: leaves_def update_extension_def update_row_def update_many_def split_beta assms)

lemma identities_update [leaves_intros]:
  assumes "\<And>d. e_slug (f d) = e_slug d"
  shows "leaves (\<lambda>s. map identity (extensions s)) (update_extension ctx i f)"
  by (rule columns_update) (simp add: identity_def assms)

lemma identities_remove [leaves_intros]: "leaves (\<lambda>s. map identity (extensions s)) (remove_extension ctx tm i)"
  by (cases "tenant ctx")
    (simp_all add: leaves_def remove_extension_def remove_row_def split_beta EXTENSIONS_def Let_def identities_update_many identity_def)

abbreviation same_members :: "('m, 'a) ext \<Rightarrow> bool" where
  "same_members \<equiv> leaves (\<lambda>s. map identity (extensions s))"

lemma members_initialize [leaves_intros]: "same_members (initialize env ctx tm ext)"
  unfolding initialize_def by (intro leaves_intros) simp_all

lemma members_stop [leaves_intros]: "(\<And>d. e_slug (f d) = e_slug d) \<Longrightarrow> same_members (stop env ctx tm i ph f e)"
  unfolding stop_def by (intro leaves_intros) simp_all

lemma members_uninstall [leaves_intros]: "same_members (uninstall env ctx tm i)"
  unfolding uninstall_def by (intro leaves_intros)

lemma members_applyUpgrade [leaves_intros]: "same_members (applyUpgrade env ctx tm ext uid m a g)"
  unfolding applyUpgrade_def carry_out_def by (intro leaves_intros) (simp_all add: upgraded_def)

lemma members_decisions [leaves_intros]:
  "same_members (approveCapabilities env ctx tm i)" "same_members (rejectCapabilities env ctx tm i why)"
  "same_members (enable env ctx tm i)" "same_members (disable env ctx tm i)" "same_members (quarantine env ctx tm i why)"
  unfolding approveCapabilities_def rejectCapabilities_def enable_def disable_def quarantine_def
  by (intro leaves_intros; simp)+

lemma members_upgrades [leaves_intros]:
  "same_members (proposeUpgrade env ctx tm i given consent)" "same_members (consentToUpgrade env ctx tm uid)"
  "same_members (rollback env ctx tm i)"
  unfolding proposeUpgrade_def consentToUpgrade_def rollback_def put_back_def Let_def
  by (intro leaves_intros; simp add: restored_def Let_def)+

lemma members_execution [leaves_intros]:
  "same_members (deliver env ctx tm ext event payload)" "same_members (execute_tool env ctx tm t given)"
  unfolding deliver_def execute_tool_def invokeContribution_def Let_def
  by (intro leaves_intros; simp)+

lemma members_fan_out [leaves_intros]: "same_members (fan_out env tm org event payload)"
  unfolding fan_out_def by (intro leaves_intros)

lemma members_complete [leaves_intros]: "same_members (complete_install env ctx tm v m g ext)"
  unfolding complete_install_def by (intro leaves_intros)

lemma taken_identities: "slug_taken org sl t \<longleftrightarrow> (org, sl) \<in> set (map snd (map identity t))"
  by (force simp: slug_taken_def identity_def list_ex_iff)

lemma keeps_taken: "same_members m \<Longrightarrow> keeps (\<lambda>s. slug_taken org sl (extensions s)) m"
  unfolding taken_identities by (rule keeps_of_leaves)

lemma taken_create [keeps_intros]: "keeps (\<lambda>s. slug_taken org sl (extensions s)) (create_extension env ctx d)"
  by (auto simp: keeps_def create_extension_def create_row_def slug_taken_def split: sum.split)

lemma taken_install: "keeps (\<lambda>s. slug_taken org sl (extensions s)) (install env ctx tm input)"
proof -
  have "keeps (\<lambda>s. slug_taken org sl (extensions s)) (bindS (create_extension env ctx d) (complete_install env ctx tm v m g))"
    for d v m g by (intro keeps_bind taken_create keeps_taken [OF members_complete])
  note complete = this
  show ?thesis unfolding install_def Let_def split_beta
    by (intro keeps_lift_with complete keeps_bind [OF keeps_basic(3)] keeps_bind [OF keeps_option] keeps_if keeps_basic)
qed

lemma keeps_snd: "keeps I m \<Longrightarrow> I s \<Longrightarrow> I (snd (m s))"
  by (simp add: keeps_def)

lemma slug_step:
  fixes s :: "'m platform"
  assumes "slug_taken org sl (extensions s)"
  shows "slug_taken org sl (extensions (snd (extension_step env p s)))"
proof -
  obtain ctx tm op where p: "p = (ctx, tm, op)" by (cases p)
  have rest: "same_members (bindS (readS (resolveTool ctx key)) (\<lambda>found.
       case found of None \<Rightarrow> doneS Undef | Some t \<Rightarrow> execute_tool env ctx tm t given))"
    "same_members (bindS (readS (find_extension ctx i)) (\<lambda>ext. deliver env ctx tm ext event payload))"
    for key given i event payload by (intro leaves_intros)+
  note kept = keeps_snd [OF keeps_taken, OF _ assms] keeps_snd [OF taken_install assms]
  show ?thesis
    by (cases op) (simp_all add: p kept members_decisions members_upgrades members_uninstall members_fan_out rest)
qed

interpretation slug_registry: kept "\<lambda>s. slug_taken org sl (extensions s)" "extension_step env" "\<lambda>p. True"
  for org sl env
  by unfold_locales (rule slug_step)

section \<open>An example\<close>

definition quiet_env :: "nat extension_env" where
  "quiet_env = \<lparr>new_id = (\<lambda>n. replicate n CHR ''a''), load_module = (\<lambda>_ _. Inr 0), implements = (\<lambda>_ _. True),
     call_hook = (\<lambda>_ _ _ w. (Inr Undef, w)), unload_fault = (\<lambda>_. None), seal = JStr, unique_fault = (\<lambda>_. ''Unique constraint''),
     type_fault = (\<lambda>_. ''type''), catalogue_version = ''1'', reading = sample_env\<rparr>"

definition reader :: request_context where
  "reader = \<lparr>userId = ''u'', organizationId = ''o'', roleKey = ''VIEWER'', permissions = [''event:read''], requestId = ''r'',
     ip = None, userAgent = None\<rparr>"

definition mail_input :: install_input where
  "mail_input = \<lparr>given_manifest = sample_manifest, given_config = [], listingId = None, publisherId = None, signature = None,
     signatureVerified = False, dryRun = False\<rparr>"

lemma map_nth_eq: "map F xs = map F ys \<Longrightarrow> j < length ys \<Longrightarrow> length xs = length ys \<and> F (xs ! j) = F (ys ! j)"
  by (metis length_map nth_map)

lemma record_done [simp]: "fst (record_event env ctx ext ph out notes s) = Inr ()"
  by (auto simp: record_event_def split: prod.split sum.split)

lemma bind_lift: "bindS (liftS (Inr a)) k s = k a s"
  by (simp add: liftS_def bindS_def comp_eval)

lemma mail_validated:
  "\<exists>v. validated quiet_env complaint (given_manifest mail_input) = Inr (v, normalise sample_env sample_given)"
  using sample_errors
  by (simp add: validated_def thrown_def bindE_def validate_def mail_input_def sample_manifest_def asRecord_def Let_def quiet_env_def)

lemma mail_normal:
  "slug (normalise sample_env sample_given) = ''mail-sorter''" "config (normalise sample_env sample_given) = []"
proof -
  have parts: "or_empty (trimmed_text ''slug'' sample_given) = ''mail-sorter''" "record_or_empty (getp ''config'' sample_given) = []"
    by code_simp+
  show "slug (normalise sample_env sample_given) = ''mail-sorter''" "config (normalise sample_env sample_given) = []"
    by (simp_all add: normalise_def Let_def parts)
qed

lemma reader_tenant: "tenant (Some reader) = Inr ''o''" "context_of (Some reader) = Inr reader"
  by (simp_all add: tenant_def require_def reader_def context_of_def in_repo_def bindE_def)

lemma mail_installed:
  "slug_taken ''o'' ''mail-sorter'' (extensions (snd (install quiet_env (Some reader) 1 mail_input no_extensions)))"
proof -
  let ?m = "normalise sample_env sample_given"
  obtain v where v: "validated quiet_env ''The manifest is not valid'' (given_manifest mail_input) = Inr (v, ?m)"
    using mail_validated by blast
  let ?g = "grant_to quiet_env ?m reader" and ?check = "validateConfig (reading quiet_env) ?m (given_config mail_input)"
  let ?d = "extension_row quiet_env 1 reader mail_input v ?m ?g (check_values ?check)"
  have check: "check_ok ?check" by (simp add: validateConfig_def Let_def mail_normal mail_input_def)
  have none: "findBySlug (Some reader) sl no_extensions = Inr None" for sl
    by (simp add: findBySlug_def reader_tenant in_repo_def bindE_def find_first_def no_extensions_def)
  obtain r s1 where r: "create_extension quiet_env (Some reader) ?d no_extensions = (Inr r, s1)"
    "slug_taken ''o'' ''mail-sorter'' (extensions s1)"
    by (simp add: create_extension_def create_row_def reader_tenant slug_taken_def no_extensions_def new_row_def extension_row_def mail_normal)
  have real: "\<not> dryRun mail_input" by (simp add: mail_input_def)
  have "install quiet_env (Some reader) 1 mail_input no_extensions =
      bindS (create_extension quiet_env (Some reader) ?d) (complete_install quiet_env (Some reader) 1 v ?m ?g) no_extensions"
    unfolding install_def
    by (simp only: v reader_tenant bind_lift prod.case bind_readS_Inr [where f = "findBySlug (Some reader) (slug ?m)", OF none] option.case comp_simps Let_def check real
        not_True_eq_False not_False_eq_True if_True if_False)
  also have "\<dots> = complete_install quiet_env (Some reader) 1 v ?m ?g r s1" by (rule bindS_Inr) (rule r(1))
  finally have run: "install quiet_env (Some reader) 1 mail_input no_extensions = complete_install quiet_env (Some reader) 1 v ?m ?g r s1" .
  have "slug_taken ''o'' ''mail-sorter'' (extensions (snd (complete_install quiet_env (Some reader) 1 v ?m ?g r s1)))"
    by (rule keeps_snd [where I = "\<lambda>s. slug_taken ''o'' ''mail-sorter'' (extensions s)"])
      (rule keeps_taken [OF members_complete], rule r(2))
  then show ?thesis unfolding run .
qed

lemma extension_code_within_its_people_witness:
  "slug_taken ''o'' ''mail-sorter'' (extensions (snd (run_ops (extension_step quiet_env) [(Some reader, 1, Install mail_input)] no_extensions)))
   \<and> list_all (row_inside (\<lambda>_. {''event:read''}) e_capabilities)
       (extensions (snd (run_ops (extension_step quiet_env) [(Some reader, 1, Install mail_input)] no_extensions)))"
proof -
  let ?ps = "[(Some reader, 1::int, Install mail_input)]"
  have "\<forall>p \<in> set ?ps. lawful_call (\<lambda>_. {''event:read''}) p"
    by (simp add: lawful_call_def acts_within_def reader_def)
  from extension_code_within_its_people [OF this refl, of quiet_env] mail_installed show ?thesis
    by (simp add: list_all_iff row_inside_def split_beta)
qed

section \<open>A slug is installed once\<close>

text \<open>A slug of an organization is installed once and for all. When the table holds a row of the slug in the
  organization, removed or not, then after any further sequence of operations, uninstalling it
  included, every installation of a manifest of that slug there ends in an error and changes nothing: while
  the row is live it is a conflict, and once it is removed the unique index, which does not look at the
  mark of removal, refuses the new row.\<close>

theorem slug_installs_once:
  assumes "r \<in> set (extensions s0)" and "s = snd (run_ops (extension_step env) ps s0)" and "tenant ctx = Inr (row_org r)"
    and "validated env ''The manifest is not valid'' (given_manifest input) = Inr (v, m)" and "slug m = e_slug (contents r)"
    and "\<not> dryRun input"
  shows "\<exists>e. install env ctx tm input s = (Inl e, s)"
proof -
  have "slug_taken (row_org r) (e_slug (contents r)) (extensions s0)" using assms(1) by (auto simp: slug_taken_def list_ex_iff)
  then have taken: "slug_taken (row_org r) (slug m) (extensions s)"
    unfolding assms(2,5) by (rule slug_registry.kept_run) simp
  obtain found where found: "findBySlug ctx (slug m) s = Inr found"
    using assms(3) by (simp add: findBySlug_def in_repo_def bindE_def)
  obtain c where c: "context_of ctx = Inr c"
    using assms(3) by (auto simp: context_of_def tenant_def bindE_eq_Inr in_repo_def)
  have full: "create_extension env ctx (extension_row env tm c input v m g vals) s =
      (Inl (Database (unique_fault env (slug m))), s)" for g vals
    using taken assms(3) by (simp add: create_extension_def extension_row_def)
  show ?thesis
  proof (cases found)
    case None
    with found assms(4,6) c full show ?thesis
      by (simp add: install_def liftS_def bindS_def comp_eval Let_def)
  next
    case (Some r')
    with found assms(4,6) show ?thesis by (simp add: install_def liftS_def bindS_def comp_eval)
  qed
qed

definition mail_row :: "extension_data row" where
  "mail_row = \<lparr>row_id = ''1'', row_org = ''o'', row_deleted = None,
     contents = extension_row quiet_env 0 reader mail_input \<lparr>ok = True, errors = [], warnings = [], result_manifest = None, manifest_risk = LOW, digest = ''d''\<rparr>
       (normalise sample_env sample_given) (grant_to quiet_env (normalise sample_env sample_given) reader) []\<rparr>"

definition with_mail :: "nat platform" where
  "with_mail = no_extensions\<lparr>extensions := [mail_row]\<rparr>"

lemma slug_installs_once_witness:
  "\<exists>e. install quiet_env (Some reader) 9 mail_input
         (snd (run_ops (extension_step quiet_env) [(Some reader, 8, Uninstall ''1'')] with_mail))
       = (Inl e, snd (run_ops (extension_step quiet_env) [(Some reader, 8, Uninstall ''1'')] with_mail))"
proof -
  obtain v where v: "validated quiet_env ''The manifest is not valid'' (given_manifest mail_input) = Inr (v, normalise sample_env sample_given)"
    using mail_validated by blast
  show ?thesis
    by (rule slug_installs_once [OF _ refl _ v, of mail_row])
      (simp_all add: with_mail_def mail_row_def extension_row_def reader_tenant mail_normal, simp add: mail_input_def)
qed

end
