(* ===== verification/ExtensionEvents.thy ===== *)
theory ExtensionEvents
  imports ExtensionSafety "HOL-Library.Sublist"
begin

text \<open>
  The delivery of an event to the extensions that subscribed to it: what the fan-out of
  \<open>extensions/extensions.module.ts\<close> runs, and that no extension stands in the way of another.
\<close>

section \<open>Fan-out\<close>

text \<open>The run that the delivery of an event to an extension adds.\<close>

definition run_of_event :: "string \<Rightarrow> obj \<Rightarrow> extension_data row \<Rightarrow> code_run" where
  "run_of_event event payload r =
     \<lparr>run_extension = row_id r, run_org = row_org r, run_status = e_status (contents r), run_hook = OnEvent event payload,
      run_context = contextFor r (e_capabilities (contents r)) None\<rparr>"

definition loads :: "'m extension_env \<Rightarrow> int \<Rightarrow> extension_data row \<Rightarrow> bool" where
  "loads env tm r \<longleftrightarrow> (\<exists>p. load_module env tm (e_manifest (contents r)) = Inr p)"

definition subscribed :: "string \<Rightarrow> string \<Rightarrow> extension_data row \<Rightarrow> bool" where
  "subscribed org event r \<longleftrightarrow> row_org r = org \<and> row_deleted r = None \<and> e_status (contents r) = ENABLED
     \<and> event \<in> set (e_subscribes (contents r))"

lemma subscribers_listed:
  assumes "org \<noteq> []"
  shows "findSubscribers (Some (bridge_context org event)) event s = Inr (filter (subscribed org event) (extensions s))"
proof -
  have t: "tenant (Some (bridge_context org event)) = Inr org"
    using assms by (simp add: tenant_def require_def bridge_context_def bindE_def)
  have w: "satisfies_all (scope EXTENSIONS org False [(''status'', \<lambda>r. e_status (contents r) = ENABLED),
      (''subscribes'', \<lambda>r. event \<in> set (e_subscribes (contents r)))]) = subscribed org event"
    by (rule ext) (auto simp: scope_def Let_def put.simps satisfies_all_def subscribed_def EXTENSIONS_def)
  show ?thesis by (simp add: findSubscribers_def findMany_def t bindE_def in_repo_def select_rows_def no_options_def w)
qed

lemma module_ran: "moduleFor env tm ext s = (r, s1) \<Longrightarrow> ran s1 = ran s \<and> (loads env tm ext \<longrightarrow> (\<exists>p. r = Inr p))"
  by (auto simp: moduleFor_def loads_def split: prod.splits option.splits sum.splits)

lemma update_ran: "ran (snd (update_extension ctx i f s)) = ran s"
  by (auto simp: update_extension_def split: prod.split)

lemma record_ran [simp]: "ran (snd (record_event env ctx ext ph out notes s)) = ran s"
  by (auto simp: record_event_def split: prod.split sum.split)

lemma delivered:
  assumes "e_status (contents ext) = ENABLED" and "\<And>p. implements env p (OnEvent event payload)"
  shows "\<exists>b. fst (deliver env ctx tm ext event payload s) = Inr ()
    \<and> ran (snd (deliver env ctx tm ext event payload s)) = ran s @ (if b then [run_of_event event payload ext] else [])
    \<and> (loads env tm ext \<longrightarrow> b)"
proof -
  let ?h = "OnEvent event payload" and ?c = "contextFor ext (e_capabilities (contents ext)) None"
  obtain r s1 where m: "moduleFor env tm ext s = (r, s1)" by (cases "moduleFor env tm ext s")
  note ran1 = module_ran [OF m]
  show ?thesis
  proof (cases r)
    case (Inl e)
    then show ?thesis using assms(1) m ran1 by (intro exI [of _ False]) (simp add: deliver_def catchS_def bindS_def)
  next
    case (Inr p)
    obtain r2 s2 where c: "run_code env ext p ?h ?c s1 = (r2, s2)" by (cases "run_code env ext p ?h ?c s1")
    then have ran2: "ran s2 = ran s @ [run_of_event event payload ext]"
      using ran1 by (auto simp: run_code_def run_of_event_def split: prod.splits)
    obtain r3 s3 where u: "update_extension ctx (row_id ext) (\<lambda>d. d\<lparr>e_lastRunAt := Some tm\<rparr>) s2 = (r3, s3)"
      by (cases "update_extension ctx (row_id ext) (\<lambda>d. d\<lparr>e_lastRunAt := Some tm\<rparr>) s2")
    then have ran3: "ran s3 = ran s2" using update_ran [of ctx "row_id ext" "\<lambda>d. d\<lparr>e_lastRunAt := Some tm\<rparr>" s2] by simp
    show ?thesis using assms m Inr c u ran2 ran3
      by (intro exI [of _ True]; cases r2; cases r3) (simp_all add: deliver_def catchS_def bindS_def comp_eval)
  qed
qed

lemma all_delivered:
  assumes "\<forall>r \<in> set rs. e_status (contents r) = ENABLED" and "\<And>p. implements env p (OnEvent event payload)"
  shows "\<exists>served. fst (eachS (\<lambda>ext. deliver env ctx tm ext event payload) rs s) = Inr ()
    \<and> ran (snd (eachS (\<lambda>ext. deliver env ctx tm ext event payload) rs s)) = ran s @ map (run_of_event event payload) served
    \<and> subseq served rs \<and> subseq (filter (loads env tm) rs) served"
  using assms(1)
proof (induction rs arbitrary: s)
  case Nil
  then show ?case by (intro exI [of _ "[]"]) (simp add: comp_eval)
next
  case (Cons r rs)
  obtain x s1 where d: "deliver env ctx tm r event payload s = (x, s1)" by (cases "deliver env ctx tm r event payload s")
  with delivered [of r env event payload ctx tm s] Cons.prems assms(2) obtain b where
    b: "x = Inr ()" "ran s1 = ran s @ (if b then [run_of_event event payload r] else [])" "loads env tm r \<longrightarrow> b" by auto
  from Cons.IH [of s1] Cons.prems obtain served where
    rest: "fst (eachS (\<lambda>ext. deliver env ctx tm ext event payload) rs s1) = Inr ()"
    "ran (snd (eachS (\<lambda>ext. deliver env ctx tm ext event payload) rs s1)) = ran s1 @ map (run_of_event event payload) served"
    "subseq served rs" "subseq (filter (loads env tm) rs) served" by auto
  have run: "eachS (\<lambda>ext. deliver env ctx tm ext event payload) (r # rs) s = eachS (\<lambda>ext. deliver env ctx tm ext event payload) rs s1"
    using d b(1) by (simp add: bindS_def)
  show ?case unfolding run using b rest
    by (intro exI [of _ "if b then r # served else served"]) (auto intro: subseq_Cons')
qed


definition throwing_env :: "nat extension_env" where
  "throwing_env = quiet_env\<lparr>call_hook := \<lambda>_ _ _ w. (Inl ''no'', w)\<rparr>"

definition listener :: "string \<Rightarrow> extension_data row" where
  "listener i = mail_row\<lparr>row_id := i, contents := (contents mail_row)\<lparr>e_status := ENABLED, e_subscribes := [''mission.created'']\<rparr>\<rparr>"


end
