(* ===== verification/ExtensionUpgrades.thy ===== *)
theory ExtensionUpgrades
  imports ExtensionSafety
begin

text \<open>
  What may become of a deal, the version, manifest and grant that an operator agreed to: a proposal without
  consent writes it at most once, and then as the analysis of \<open>Manifest\<close> allows; operations that are no
  decision on it leave it alone.
\<close>

section \<open>The deal\<close>

text \<open>What an operator agreed to: the version, the manifest and the grant of an extension.\<close>

definition deal :: "extension_data row \<Rightarrow> string \<times> string \<times> string \<times> string \<times> manifest \<times> string list" where
  "deal r = (row_id r, row_org r, e_slug (contents r), e_version (contents r), e_manifest (contents r), e_capabilities (contents r))"

abbreviation same_deals :: "('m, 'a) ext \<Rightarrow> bool" where
  "same_deals \<equiv> leaves (\<lambda>s. map deal (extensions s))"

lemma deals_update [leaves_intros]:
  assumes "\<And>d. e_slug (f d) = e_slug d" and "\<And>d. e_version (f d) = e_version d"
    and "\<And>d. e_manifest (f d) = e_manifest d" and "\<And>d. e_capabilities (f d) = e_capabilities d"
  shows "same_deals (update_extension ctx i f)"
  by (rule columns_update) (simp add: deal_def assms)

text \<open>An upgrade writes the deal once, in the row of the extension, whatever else happens.\<close>

lemma upgrade_writes_once:
  "only_by (\<lambda>s. map deal (extensions s)) (update_extension ctx (row_id ext) (upgraded env m g)) (applyUpgrade env ctx tm ext uid m a g)"
  unfolding applyUpgrade_def carry_out_def
  by (intro only_by_catch only_by_after [OF leaves_unregister] only_by_before [OF only_by_self] leaves_intros) simp_all

lemma proposal_writes_once:
  fixes s :: "'m platform"
  assumes "map deal (extensions (snd (proposeUpgrade env ctx tm i given False s))) \<noteq> map deal (extensions s)"
  obtains ext a g m and s1 :: "'m platform" where "find_extension ctx i s = Inr ext" "analyse env ctx i given s = Inr (a, g, m)"
    "\<not> blocked a" "\<not> breaking a" "map deal (extensions s1) = map deal (extensions s)"
    "map deal (extensions (snd (proposeUpgrade env ctx tm i given False s)))
      = map deal (extensions (snd (update_extension ctx i (upgraded env m g) s1)))"
proof -
  let ?s' = "snd (proposeUpgrade env ctx tm i given False s)"
  obtain ext a g m where read: "find_extension ctx i s = Inr ext" "analyse env ctx i given s = Inr (a, g, m)"
    using assms by (cases "find_extension ctx i s"; cases "analyse env ctx i given s")
      (auto simp: proposeUpgrade_def bindS_def readS_def)
  let ?up = "create_upgrade env ctx (proposal ctx tm ext False a m)"
  let ?then = "\<lambda>u. if blocked a
     then bindS (record_event env ctx ext UPDATE REFUSED
                   (no_notes\<lparr>n_version := Some (version m), n_message := Some (firstBlocking (changes a))\<rparr>)) (\<lambda>_.
          bindS (announce (ExtensionUpgradeBlocked i (version m) (firstBlocking (changes a)))) (\<lambda>_.
          doneS (u, False, a)))
     else if breaking a \<and> \<not> False
     then bindS (update_extension ctx i (\<lambda>d. d\<lparr>e_pendingVersion := Some (version m)\<rparr>)) (\<lambda>_.
          bindS (announce (ExtensionUpgradeProposed i (version m) True (addedCapabilities a))) (\<lambda>_.
          doneS (u, False, a)))
     else bindS (applyUpgrade env ctx tm ext (row_id u) m a g) (\<lambda>_. doneS (u, True, a))"
  have s': "?s' = snd (bindS ?up ?then s)"
    by (simp add: proposeUpgrade_def bind_readS_Inr [of "find_extension ctx i" s, OF read(1)] bind_readS_Inr [of "analyse env ctx i given" s, OF read(2)])
  show ?thesis
  proof (cases "blocked a \<or> breaking a")
    case True
    then have "same_deals (?then u)" for u
      by (cases "blocked a") (simp_all, (intro leaves_intros; simp)+)
    then have "same_deals (bindS ?up ?then)" by (intro leaves_bind table_leaves)
    with assms s' show ?thesis by (simp add: leaves_def)
  next
    case False
    have "row_id ext = i" using read(1) found_row [of EXTENSIONS ctx i "extensions s" ext] by (simp add: find_extension_def)
    then have "only_by (\<lambda>s. map deal (extensions s)) (update_extension ctx i (upgraded env m g)) (?then u)" for u
      using False upgrade_writes_once [of ctx ext env m g tm "row_id u" a] by (auto intro: only_by_before leaves_intros)
    then have "only_by (\<lambda>s :: 'm platform. map deal (extensions s)) (update_extension ctx i (upgraded env m g)) (bindS ?up ?then)"
      by (intro only_by_after table_leaves)
    from spec [OF this [unfolded only_by_def], of s] have "map deal (extensions ?s') = map deal (extensions s) \<or> (\<exists>s1 :: 'm platform. map deal (extensions s1) = map deal (extensions s)
        \<and> map deal (extensions ?s') = map deal (extensions (snd (update_extension ctx i (upgraded env m g) s1))))"
      unfolding s' by blast
    with assms that [OF read] False show ?thesis by blast
  qed
qed

text \<open>The manifest that an upgrade is compared with.\<close>

definition installed_manifest :: "extension_data \<Rightarrow> manifest" where
  "installed_manifest d = (e_manifest d)\<lparr>version := e_version d, slug := e_slug d\<rparr>"

definition agreed :: "extension_data row \<Rightarrow> extension_data row \<Rightarrow> bool" where
  "agreed r r' \<longleftrightarrow>
     (let old = contents r; new = contents r' in
      row_id r' = row_id r \<and> row_org r' = row_org r \<and> e_slug new = e_slug old
      \<and> e_version new = version (e_manifest new) \<and> slug (e_manifest new) = e_slug old
      \<and> lt (e_version old) (e_version new) = Inr True \<and> isBreakingUpgrade (e_version old) (e_version new) \<noteq> Inr True
      \<and> same_deal (installed_manifest old) (e_manifest new)
      \<and> set (e_capabilities new) \<subseteq> set (capabilities (e_manifest old)))"

lemma update_changes:
  assumes "update_extension ctx i f s = (x, s1)" and "j < length (extensions s)"
  shows "length (extensions s1) = length (extensions s)
    \<and> (extensions s1 ! j = extensions s ! j
       \<or> row_id (extensions s ! j) = i \<and> tenant ctx = Inr (row_org (extensions s ! j))
         \<and> extensions s1 ! j = (extensions s ! j)\<lparr>contents := f (contents (extensions s ! j))\<rparr>)"
proof (cases "tenant ctx")
  case (Inl e)
  with assms show ?thesis by (auto simp: update_extension_def update_row_def)
next
  case (Inr org)
  with assms(1) have "extensions s1 = map (\<lambda>r. if satisfies_all (scope EXTENSIONS org False (by_id i)) r
      then r\<lparr>contents := f (contents r)\<rparr> else r) (extensions s)"
    by (auto simp: update_extension_def update_row_def update_many_def split_beta split: if_splits)
  with assms(2) Inr show ?thesis by (auto simp: scope_by_id)
qed

lemma deal_upgraded [simp]:
  "deal (r\<lparr>contents := upgraded env m g d\<rparr>) = (row_id r, row_org r, e_slug d, version m, m, granted g)"
  by (simp add: deal_def upgraded_def)



section \<open>Who may change a deal\<close>

fun decides :: "extension_op \<Rightarrow> bool" where
  "decides (Install input) = True" | "decides (Propose i given consent) = True" | "decides (Consent u) = True"
| "decides (Rollback i) = True" | "decides _ = False"

lemma deals_remove [leaves_intros]: "same_deals (remove_extension ctx tm i)"
  by (cases "tenant ctx")
    (simp_all add: leaves_def remove_extension_def remove_row_def split_beta EXTENSIONS_def Let_def update_many_def deal_def)

lemma deals_initialize [leaves_intros]: "same_deals (initialize env ctx tm ext)"
  unfolding initialize_def by (intro leaves_intros) simp_all

lemma deals_stop [leaves_intros]:
  assumes "\<And>d. e_slug (f d) = e_slug d" and "\<And>d. e_version (f d) = e_version d"
    and "\<And>d. e_manifest (f d) = e_manifest d" and "\<And>d. e_capabilities (f d) = e_capabilities d"
  shows "same_deals (stop env ctx tm i ph f e)"
  unfolding stop_def by (intro leaves_intros assms)

lemma deals_uninstall [leaves_intros]: "same_deals (uninstall env ctx tm i)"
  unfolding uninstall_def by (intro leaves_intros)

lemma deals_decisions [leaves_intros]:
  "same_deals (approveCapabilities env ctx tm i)" "same_deals (rejectCapabilities env ctx tm i why)"
  "same_deals (enable env ctx tm i)" "same_deals (disable env ctx tm i)" "same_deals (quarantine env ctx tm i why)"
  unfolding approveCapabilities_def rejectCapabilities_def enable_def disable_def quarantine_def
  by (intro leaves_intros; simp)+

lemma deals_execution [leaves_intros]:
  "same_deals (deliver env ctx tm ext event payload)" "same_deals (execute_tool env ctx tm t given)"
  unfolding deliver_def execute_tool_def invokeContribution_def Let_def
  by (intro leaves_intros; simp)+

lemma deals_fan_out [leaves_intros]: "same_deals (fan_out env tm org event payload)"
  unfolding fan_out_def by (intro leaves_intros)

lemma deals_step:
  assumes "\<not> decides (snd (snd p))"
  shows "map deal (extensions (snd (extension_step env p s))) = map deal (extensions s)"
proof -
  obtain ctx tm op where p: "p = (ctx, tm, op)" by (cases p)
  have rest: "same_deals (bindS (readS (resolveTool ctx key)) (\<lambda>found.
       case found of None \<Rightarrow> doneS Undef | Some t \<Rightarrow> execute_tool env ctx tm t given))"
    "same_deals (bindS (readS (find_extension ctx i)) (\<lambda>ext. deliver env ctx tm ext event payload))"
    for key given i event payload by (intro leaves_intros)+
  note same = deals_decisions deals_uninstall deals_fan_out rest
  from assms show ?thesis by (cases op) (simp_all add: p same [unfolded leaves_def, rule_format])
qed

interpretation deals: kept "\<lambda>s. map deal (extensions s) = ds" "extension_step env" "\<lambda>p. \<not> decides (snd (snd p))"
  for ds env
  by unfold_locales (simp add: deals_step)



end
