(* ===== verification/ExtensionLife.thy ===== *)
theory ExtensionLife
  imports ExtensionSafety
begin

text \<open>
  The status of an extension: which code runs in which status, the state machine that the operations
  of \<open>ExtensionRuntime\<close> implement, and which gates it keeps shut.
\<close>

section \<open>When code may run\<close>

text \<open>
  \<open>initialize\<close> runs in an installed extension, \<open>activate\<close> in one that neither awaits review nor is
  quarantined, and events, tools and workers only in an enabled one. Nothing constrains the farewell of
  \<open>deactivate\<close> and the migrations.
\<close>

fun may_run :: "hook \<Rightarrow> extension_status \<Rightarrow> bool" where
  "may_run Initialize st \<longleftrightarrow> st = INSTALLED"
| "may_run Activate st \<longleftrightarrow> st \<noteq> PENDING_REVIEW \<and> st \<noteq> QUARANTINED"
| "may_run Deactivate st \<longleftrightarrow> True"
| "may_run (Migrate v w step) st \<longleftrightarrow> True"
| "may_run (OnEvent e p) st \<longleftrightarrow> st = ENABLED"
| "may_run (OnToolCall k p) st \<longleftrightarrow> st = ENABLED"
| "may_run (OnWorkerRun k t p) st \<longleftrightarrow> st = ENABLED"

definition orderly :: "'m platform \<Rightarrow> bool" where
  "orderly s \<longleftrightarrow> list_all (\<lambda>x. may_run (run_hook x) (run_status x)) (ran s)"

lemma ran_leaves [leaves_intros]:
  "leaves ran (announce e)" "leaves ran (record_event env ctx ext ph out notes)"
  "leaves ran (moduleFor env tm ext)" "leaves ran (forget_module i)" "leaves ran (setEnabled ctx i b)"
  "leaves ran (removeForExtension ctx i)" "leaves ran (recordInvocation ctx tm i b)"
  "leaves ran (create_worker env ctx wd)" "leaves ran (remove_worker ctx tm i)" "leaves ran (dropAll ctx i)"
  "leaves ran (update_contribution ctx i cf)" "leaves ran (create_contribution env ctx cd)"
  "leaves ran (create_upgrade env ctx ud)" "leaves ran (update_upgrade ctx i uf)" "leaves ran (liftS x)"
  "leaves ran (update_extension ctx i ef)" "leaves ran (create_extension env ctx ed)" "leaves ran (remove_extension ctx tm i)"
  by (auto simp: leaves_def announce_def record_event_def moduleFor_def forget_module_def setEnabled_def
      removeForExtension_def recordInvocation_def create_worker_def remove_worker_def dropAll_def update_contribution_def
      create_contribution_def create_upgrade_def update_upgrade_def liftS_def update_extension_def create_extension_def
      remove_extension_def comp_eval split: prod.split sum.split option.split)

lemma ran_registration [leaves_intros]:
  "leaves ran (upsert env ctx cd desc)" "leaves ran (register env ctx i sl m caps)" "leaves ran (unregister ctx tm i)"
  "leaves ran (unload env sl)"
  unfolding upsert_def register_def register_if_def register_tool_def registerWorker_def registerTool_def registerTrigger_def
    unregister_def unload_def Let_def
  by (intro leaves_intros)+

lemma orderly_of_leaves: "leaves ran m \<Longrightarrow> keeps orderly m"
  unfolding orderly_def by (rule keeps_of_leaves)

lemmas orderly_steps [keeps_intros] = ran_leaves [THEN orderly_of_leaves] ran_registration [THEN orderly_of_leaves]

lemma orderly_run_code [keeps_intros]:
  "may_run h (e_status (contents ext)) \<Longrightarrow> keeps orderly (run_code env ext program h c)"
  by (auto simp: keeps_def run_code_def orderly_def split: prod.split)

lemma orderly_run_optional [keeps_intros]:
  "may_run h (e_status (contents ext)) \<Longrightarrow> keeps orderly (run_optional env tm ext h)"
  unfolding run_optional_def by (intro keeps_intros)

lemma orderly_initialize [keeps_intros]:
  "e_status (contents ext) = INSTALLED \<Longrightarrow> keeps orderly (initialize env ctx tm ext)"
  unfolding initialize_def by (intro keeps_intros) simp_all

lemma updated_contents:
  assumes "update_extension ctx i f s = (Inr r, s1)"
  shows "\<exists>d. contents r = f d"
proof -
  obtain x t where u: "update_row EXTENSIONS ctx i (\<lambda>r. r\<lparr>contents := f (contents r)\<rparr>) (extensions s) = (x, t)"
    by (cases "update_row EXTENSIONS ctx i (\<lambda>r. r\<lparr>contents := f (contents r)\<rparr>) (extensions s)")
  with assms have x: "x = Inr r" by (simp add: update_extension_def)
  from u x obtain org where org: "tenant ctx = Inr org"
    and t: "t = map (\<lambda>r. if satisfies_all (scope EXTENSIONS org False (by_id i)) r then r\<lparr>contents := f (contents r)\<rparr> else r) (extensions s)"
    and found: "findByIdOrFail EXTENSIONS ctx i no_options t = Inr r"
    by (auto simp: update_row_def update_many_def split: sum.splits prod.splits if_splits)
  have r: "r \<in> set t" "row_id r = i" "row_org r = org" "row_deleted r = None"
    using found_row [OF found] org by (simp_all add: EXTENSIONS_def)
  from r(1) obtain r0 where r0: "r = (if satisfies_all (scope EXTENSIONS org False (by_id i)) r0
      then r0\<lparr>contents := f (contents r0)\<rparr> else r0)" unfolding t set_map by blast
  with r(2-) have "r = r0\<lparr>contents := f (contents r0)\<rparr>" by (auto simp: scope_by_id split: if_splits)
  then show ?thesis by auto
qed

lemma orderly_approve [keeps_intros]: "keeps orderly (approveCapabilities env ctx tm i)"
proof -
  have "keeps orderly (bindS (update_extension ctx i (\<lambda>d. d\<lparr>e_status := INSTALLED\<rparr>)) (\<lambda>approved.
       bindS (record_event env ctx approved INSTALL SUCCEEDED (no_notes\<lparr>n_from := Some PENDING_REVIEW, n_to := Some INSTALLED\<rparr>)) (\<lambda>_.
       bindS (initialize env ctx tm approved) (\<lambda>_. readS (find_extension ctx i)))))"
    by (rule keeps_with [where F = "\<lambda>r. e_status (contents r) = INSTALLED"])
      (auto intro!: keeps_intros simp: yields_def dest: updated_contents)
  note go = this
  show ?thesis unfolding approveCapabilities_def by (intro keeps_bind [OF keeps_basic(3)] keeps_if go keeps_basic)
qed

lemma orderly_install [keeps_intros]: "keeps orderly (install env ctx tm input)"
proof -
  have "keeps orderly (bindS (create_extension env ctx (extension_row env tm c input v m g vals)) (complete_install env ctx tm v m g))"
    for c v m g vals
  proof (rule keeps_with [where F = "\<lambda>r. \<not> reviewRequired g \<longrightarrow> e_status (contents r) = INSTALLED"])
    show "yields orderly (create_extension env ctx (extension_row env tm c input v m g vals))
        (\<lambda>r. \<not> reviewRequired g \<longrightarrow> e_status (contents r) = INSTALLED)"
      by (auto simp: yields_def create_extension_def create_row_def new_row_def extension_row_def split: sum.splits if_splits)
  qed (auto intro!: keeps_intros simp: complete_install_def split: prod.split)
  note complete = this
  show ?thesis unfolding install_def Let_def split_beta
    by (intro keeps_lift_with complete keeps_bind [OF keeps_basic(3)] keeps_bind [OF keeps_option] keeps_if keeps_basic)
qed

lemma orderly_enable [keeps_intros]: "keeps orderly (enable env ctx tm i)"
  unfolding enable_def by (intro keeps_intros) simp_all

lemma orderly_stop [keeps_intros]: "keeps orderly (stop env ctx tm i ph f e)"
  unfolding stop_def by (intro keeps_intros) simp_all

lemma orderly_uninstall [keeps_intros]: "keeps orderly (uninstall env ctx tm i)"
  unfolding uninstall_def by (intro keeps_intros) simp_all

lemma orderly_decisions [keeps_intros]:
  "keeps orderly (rejectCapabilities env ctx tm i why)" "keeps orderly (disable env ctx tm i)"
  "keeps orderly (quarantine env ctx tm i why)"
  unfolding rejectCapabilities_def disable_def quarantine_def by (intro keeps_intros)+

lemma orderly_applyUpgrade [keeps_intros]: "keeps orderly (applyUpgrade env ctx tm ext uid m a g)"
  unfolding applyUpgrade_def carry_out_def by (intro keeps_intros) simp_all

lemma orderly_upgrades [keeps_intros]:
  "keeps orderly (proposeUpgrade env ctx tm i given consent)" "keeps orderly (consentToUpgrade env ctx tm uid)"
  "keeps orderly (rollback env ctx tm i)"
  unfolding proposeUpgrade_def consentToUpgrade_def rollback_def put_back_def Let_def
  by (intro keeps_intros)+

lemma orderly_execution [keeps_intros]:
  "keeps orderly (deliver env ctx tm ext event payload)" "keeps orderly (execute_tool env ctx tm t given)"
  unfolding deliver_def execute_tool_def invokeContribution_def Let_def
  by (intro keeps_intros; simp)+

lemma orderly_fan_out [keeps_intros]: "keeps orderly (fan_out env tm org event payload)"
  unfolding fan_out_def by (intro keeps_intros)

lemma orderly_step: "orderly s \<Longrightarrow> orderly (snd (extension_step env p s))"
proof -
  assume "orderly s"
  obtain ctx tm op where p: "p = (ctx, tm, op)" by (cases p)
  have rest: "keeps orderly (bindS (readS (resolveTool ctx key)) (\<lambda>found.
       case found of None \<Rightarrow> doneS Undef | Some t \<Rightarrow> execute_tool env ctx tm t given))"
    "keeps orderly (bindS (readS (find_extension ctx i)) (\<lambda>ext. deliver env ctx tm ext event payload))"
    for key given i event payload by (intro keeps_intros)+
  note kept = orderly_install orderly_approve orderly_enable orderly_decisions orderly_uninstall orderly_upgrades orderly_fan_out rest
  show ?thesis by (cases op) (simp_all add: p kept [THEN keeps_snd] \<open>orderly s\<close>)
qed

interpretation orderly_runs: kept orderly "extension_step env" "\<lambda>p. True"
  for env
  by unfold_locales (rule orderly_step)

text \<open>C9: Code of an extension runs only when the state of the extension permits it. Whatever sequence of operations is
  executed from an empty platform, by whomever and with whatever code: every run of an \<open>initialize\<close> had
  read the extension as INSTALLED, every \<open>activate\<close> as neither awaiting review nor quarantined, and every
  event handler, tool call and worker run as ENABLED.\<close>

theorem code_runs_only_when_permitted:
  "list_all (\<lambda>x. may_run (run_hook x) (run_status x)) (ran (snd (run_ops (extension_step env) ps no_extensions)))"
proof -
  have "orderly no_extensions" by (simp add: orderly_def no_extensions_def)
  then have "orderly (snd (run_ops (extension_step env) ps no_extensions))" by (rule orderly_runs.kept_run) simp
  then show ?thesis by (simp add: orderly_def)
qed

section \<open>Status\<close>

text \<open>\<open>moved ids T r r'\<close>: the row kept its identity and, unless it is one of \<open>ids\<close> and now has a status of \<open>T\<close>, its status.\<close>

definition moved :: "string set \<Rightarrow> extension_status set \<Rightarrow> extension_data row \<Rightarrow> extension_data row \<Rightarrow> bool" where
  "moved ids T r r' \<longleftrightarrow> identity r' = identity r
     \<and> (e_status (contents r') = e_status (contents r) \<or> row_id r \<in> ids \<and> e_status (contents r') \<in> T)"

abbreviation moves :: "extension_data table \<Rightarrow> string set \<Rightarrow> extension_status set \<Rightarrow> ('m, 'a) ext \<Rightarrow> bool" where
  "moves t0 ids T \<equiv> keeps (\<lambda>s. list_all2 (moved ids T) t0 (extensions s))"

lemmas table_keeps = table_leaves [THEN keeps_of_leaves] leaves_register [THEN keeps_of_leaves]
  leaves_unregister [THEN keeps_of_leaves] leaves_unload [THEN keeps_of_leaves] leaves_run_optional [THEN keeps_of_leaves]

lemmas moves_table [keeps_intros] = table_keeps [where F = id and P = "list_all2 (moved ids T) t0", unfolded id_apply] for ids T t0

lemma moved_update_many:
  assumes "list_all2 (moved ids T) t0 t"
    and "\<And>r0 r. moved ids T r0 r \<Longrightarrow> satisfies_all w r \<Longrightarrow> moved ids T r0 (f r)"
  shows "list_all2 (moved ids T) t0 (snd (update_many w f t))"
  using assms by (auto simp: update_many_def list_all2_conv_all_nth)

lemma moves_update [keeps_intros]:
  assumes "\<And>d. e_slug (f d) = e_slug d" and "\<And>d. e_status (f d) = e_status d \<or> i \<in> ids \<and> e_status (f d) \<in> T"
  shows "moves t0 ids T (update_extension ctx i f)"
proof -
  have "moved ids T r0 (r\<lparr>contents := f (contents r)\<rparr>)" if "moved ids T r0 r" "row_id r = i" for r0 r
    using that assms(1) assms(2) [of "contents r"] by (auto simp: moved_def identity_def)
  note step = this
  show ?thesis
    by (cases "tenant ctx")
      (auto simp: keeps_def update_extension_def update_row_def split_beta scope_by_id intro!: moved_update_many step)
qed

lemma moves_remove [keeps_intros]: "moves t0 ids T (remove_extension ctx tm i)"
  by (cases "tenant ctx")
    (auto simp: keeps_def remove_extension_def remove_row_def split_beta Let_def EXTENSIONS_def moved_def identity_def
      intro!: moved_update_many)

lemma moves_initialize [keeps_intros]:
  "row_id ext \<in> ids \<Longrightarrow> extension_status.FAILED \<in> T \<Longrightarrow> moves t0 ids T (initialize env ctx tm ext)"
  unfolding initialize_def by (intro keeps_intros) simp_all

lemma moves_stop [keeps_intros]:
  assumes "\<And>d. e_slug (f d) = e_slug d" and "\<And>d. i \<in> ids \<and> e_status (f d) \<in> T"
  shows "moves t0 ids T (stop env ctx tm i ph f e)"
  unfolding stop_def by (intro keeps_intros) (simp_all add: assms)

lemma moves_uninstall [keeps_intros]: "moves t0 ids T (uninstall env ctx tm i)"
  unfolding uninstall_def by (intro keeps_intros)

lemma moves_applyUpgrade [keeps_intros]:
  "row_id ext \<in> ids \<Longrightarrow> extension_status.FAILED \<in> T \<Longrightarrow> moves t0 ids T (applyUpgrade env ctx tm ext uid m a g)"
  unfolding applyUpgrade_def carry_out_def by (intro keeps_intros) (simp_all add: upgraded_def)

lemma moves_rollback [keeps_intros]: "moves t0 ids T (rollback env ctx tm i)"
  unfolding rollback_def put_back_def by (intro keeps_intros) (simp_all add: restored_def Let_def)

lemma moves_execution [keeps_intros]:
  "moves t0 ids T (deliver env ctx tm ext event payload)" "moves t0 ids T (execute_tool env ctx tm t given)"
  unfolding deliver_def execute_tool_def invokeContribution_def Let_def
  by (intro keeps_intros; simp)+

lemma moves_fan_out [keeps_intros]: "moves t0 ids T (fan_out env tm org event payload)"
  unfolding fan_out_def by (intro keeps_intros)

lemma found_id: "find_extension ctx i s = Inr ext \<Longrightarrow> row_id ext = i"
  using found_row [of EXTENSIONS ctx i "extensions s" ext] by (simp add: find_extension_def)

lemma updated_id: "update_extension ctx i f s = (Inr r, s1) \<Longrightarrow> row_id r = i"
  using updated_row [of EXTENSIONS ctx i "\<lambda>r. r\<lparr>contents := f (contents r)\<rparr>" "extensions s" r]
  by (cases "update_row EXTENSIONS ctx i (\<lambda>r. r\<lparr>contents := f (contents r)\<rparr>) (extensions s)") (simp add: update_extension_def)

lemma moves_approve: "moves t0 {i} {INSTALLED, extension_status.FAILED} (approveCapabilities env ctx tm i)"
proof -
  let ?I = "\<lambda>s. list_all2 (moved {i} {INSTALLED, extension_status.FAILED}) t0 (extensions s)"
  have "keeps ?I (bindS (update_extension ctx i (\<lambda>d. d\<lparr>e_status := INSTALLED\<rparr>)) (\<lambda>approved.
       bindS (record_event env ctx approved INSTALL SUCCEEDED (no_notes\<lparr>n_from := Some PENDING_REVIEW, n_to := Some INSTALLED\<rparr>)) (\<lambda>_.
       bindS (initialize env ctx tm approved) (\<lambda>_. readS (find_extension ctx i)))))"
    by (rule keeps_with [where F = "\<lambda>r. row_id r = i"]) (auto intro!: keeps_intros simp: yields_def dest: updated_id)
  note go = this
  show ?thesis unfolding approveCapabilities_def by (intro keeps_bind [OF keeps_basic(3)] keeps_if go keeps_basic)
qed

lemma moves_enable: "moves t0 {i} {ENABLED} (enable env ctx tm i)"
  unfolding enable_def by (intro keeps_intros) simp_all

lemma moves_stopped:
  "moves t0 {i} {DISABLED} (disable env ctx tm i)" "moves t0 {i} {QUARANTINED} (quarantine env ctx tm i why)"
  unfolding disable_def quarantine_def by (intro keeps_intros; simp)+

lemma moves_reject: "moves t0 {} {} (rejectCapabilities env ctx tm i why)"
  unfolding rejectCapabilities_def by (intro keeps_intros)

lemma moves_propose: "moves t0 {i} {extension_status.FAILED} (proposeUpgrade env ctx tm i given consent)"
  unfolding proposeUpgrade_def
  by (intro keeps_read_with [where F = "\<lambda>ext. row_id ext = i"] found_id keeps_intros) simp_all

lemma moves_consent:
  assumes "find_upgrade ctx uid s = Inr u"
  shows "list_all2 (moved {u_extension (contents u)} {extension_status.FAILED}) (extensions s)
    (extensions (snd (consentToUpgrade env ctx tm uid s)))"
proof -
  let ?i = "u_extension (contents u)"
  let ?then = "\<lambda>u. if u_outcome (contents u) \<noteq> AWAITING_CONSENT
     then throwS (BadRequest (''This upgrade is '' @ outcome_name (u_outcome (contents u)) @ '', not awaiting consent''))
     else bindS (readS (find_extension ctx (u_extension (contents u)))) (\<lambda>ext.
       let m = s_candidate (u_snapshot (contents u)) in
       if version m \<noteq> u_to (contents u)
       then throwS (BadRequest ''The candidate manifest is no longer available; re-propose the upgrade'')
       else bindS (liftS (context_of ctx)) (\<lambda>c.
         bindS (update_upgrade ctx uid (\<lambda>u. u\<lparr>u_consentedBy := user_of ctx, u_consentedAt := Some tm\<rparr>)) (\<lambda>_.
         bindS (liftS (thrown (analyseUpgrade (reading env)
                         ((e_manifest (contents ext))\<lparr>version := e_version (contents ext)\<rparr>) m))) (\<lambda>a.
         bindS (applyUpgrade env ctx tm ext uid m a (grant_to env m c)) (\<lambda>_.
         readS (find_extension ctx (row_id ext)))))))"
  have "consentToUpgrade env ctx tm uid s = ?then u s"
    by (simp add: consentToUpgrade_def bind_readS_Inr [of "find_upgrade ctx uid" s, OF assms])
  moreover have "moves (extensions s) {?i} {extension_status.FAILED} (?then u)"
    unfolding Let_def
    by (intro keeps_if keeps_basic keeps_read_with [where F = "\<lambda>ext. row_id ext = ?i"] found_id keeps_bind moves_table
        moves_applyUpgrade) simp_all
  ultimately show ?thesis by (simp add: keeps_def list_all2_refl moved_def)
qed

section \<open>The state machine\<close>

inductive status_edge :: "extension_op \<Rightarrow> extension_status \<Rightarrow> extension_status \<Rightarrow> bool" where
  approved: "status_edge (Approve i) PENDING_REVIEW INSTALLED"
| initialize_fails: "status_edge (Approve i) PENDING_REVIEW extension_status.FAILED"
| enabled: "st \<noteq> PENDING_REVIEW \<Longrightarrow> st \<noteq> QUARANTINED \<Longrightarrow> status_edge (Enable i) st ENABLED"
| disabled: "status_edge (Disable i) st DISABLED"
| quarantined: "status_edge (Quarantine i why) st QUARANTINED"
| upgrade_fails: "status_edge (Propose i given consent) st extension_status.FAILED"
| consent_fails: "status_edge (Consent u) st extension_status.FAILED"

code_pred status_edge .

inductive_simps status_edge_to [simp]:
  "status_edge (Install input) st st'" "status_edge (Approve i) st st'" "status_edge (Reject i why) st st'"
  "status_edge (Enable i) st st'" "status_edge (Disable i) st st'" "status_edge (Quarantine i why) st st'"
  "status_edge (Uninstall i) st st'" "status_edge (Propose i given consent) st st'" "status_edge (Consent u) st st'"
  "status_edge (Rollback i) st st'" "status_edge (Deliver i e pl) st st'" "status_edge (CallTool k pl) st st'"
  "status_edge (Happened org e pl) st st'"

text \<open>The extension that an operation addresses.\<close>

definition addressed :: "request_context option \<Rightarrow> extension_op \<Rightarrow> 'm platform \<Rightarrow> string set" where
  "addressed ctx op s =
     (case op of
        Approve i \<Rightarrow> {i} | Enable i \<Rightarrow> {i} | Disable i \<Rightarrow> {i} | Quarantine i why \<Rightarrow> {i} | Propose i given consent \<Rightarrow> {i}
      | Consent u \<Rightarrow> (case find_upgrade ctx u s of Inl e \<Rightarrow> {} | Inr r \<Rightarrow> {u_extension (contents r)})
      | _ \<Rightarrow> {})"

definition lawful_move :: "extension_op \<Rightarrow> string set \<Rightarrow> extension_data row \<Rightarrow> extension_data row \<Rightarrow> bool" where
  "lawful_move op ids r r' \<longleftrightarrow> identity r' = identity r
     \<and> (e_status (contents r') = e_status (contents r)
        \<or> row_id r \<in> ids \<and> status_edge op (e_status (contents r)) (e_status (contents r')))"

lemma moves_all: "moves (extensions s) ids T m \<Longrightarrow> list_all2 (moved ids T) (extensions s) (extensions (snd (m s)))"
  by (simp add: keeps_def list_all2_refl moved_def)

lemma lawful_moves:
  assumes "list_all2 (moved ids T) t t'" and "\<And>r st'. r \<in> set t \<Longrightarrow> row_id r \<in> ids \<Longrightarrow> st' \<in> T \<Longrightarrow> status_edge op (e_status (contents r)) st'"
  shows "list_all2 (lawful_move op ids) t t'"
  using assms by (auto simp: list_all2_conv_all_nth moved_def lawful_move_def)

lemma lawful_still: "moves (extensions s) {} {} m \<Longrightarrow> list_all2 (lawful_move op {}) (extensions s) (extensions (snd (m s)))"
  by (rule lawful_moves [OF moves_all]) simp_all

lemma lawful_same: "list_all2 (lawful_move op ids) t t"
  by (simp add: list_all2_refl lawful_move_def)

lemma found_status:
  assumes "distinct (map row_id (extensions s))" and "find_extension ctx i s = Inr ext" and "r \<in> set (extensions s)" and "row_id r = i"
  shows "r = ext"
proof -
  have "ext \<in> set (extensions s)" "row_id ext = i"
    using assms(2) found_row [of EXTENSIONS ctx i "extensions s" ext] by (simp_all add: find_extension_def)
  with assms(1,3,4) show ?thesis by (simp add: distinct_map inj_on_def)
qed

lemma approve_lawful:
  assumes "distinct (map row_id (extensions s))"
  shows "list_all2 (lawful_move (Approve i) {i}) (extensions s) (extensions (snd (approveCapabilities env ctx tm i s)))"
proof (cases "\<exists>ext. find_extension ctx i s = Inr ext \<and> e_status (contents ext) = PENDING_REVIEW")
  case True
  then show ?thesis
    by (intro lawful_moves [OF moves_all [OF moves_approve]]) (auto dest: found_status [OF assms])
next
  case False
  then have "snd (approveCapabilities env ctx tm i s) = s"
    by (cases "find_extension ctx i s") (auto simp: approveCapabilities_def bindS_def comp_eval)
  then show ?thesis by (simp add: lawful_same)
qed

lemma enable_lawful:
  assumes "distinct (map row_id (extensions s))"
  shows "list_all2 (lawful_move (Enable i) {i}) (extensions s) (extensions (snd (enable env ctx tm i s)))"
proof (cases "\<exists>ext. find_extension ctx i s = Inr ext \<and> e_status (contents ext) \<noteq> PENDING_REVIEW \<and> e_status (contents ext) \<noteq> QUARANTINED")
  case True
  then show ?thesis
    by (intro lawful_moves [OF moves_all [OF moves_enable]]) (auto dest: found_status [OF assms])
next
  case False
  then have "snd (enable env ctx tm i s) = s"
    by (cases "find_extension ctx i s") (auto simp: enable_def bindS_def comp_eval)
  then show ?thesis by (simp add: lawful_same)
qed

lemma consent_lawful:
  "list_all2 (lawful_move (Consent u) (addressed ctx (Consent u) s)) (extensions s) (extensions (snd (consentToUpgrade env ctx tm u s)))"
proof (cases "find_upgrade ctx u s")
  case (Inl e)
  then have "snd (consentToUpgrade env ctx tm u s) = s" by (simp add: consentToUpgrade_def bindS_def comp_eval)
  then show ?thesis by (simp add: lawful_same)
next
  case (Inr r)
  show ?thesis unfolding addressed_def using Inr by (auto intro: lawful_moves [OF moves_consent [OF Inr]])
qed

fun installs :: "extension_op \<Rightarrow> bool" where
  "installs (Install input) = True" | "installs _ = False"

lemma status_step:
  assumes "distinct (map row_id (extensions s))" and "\<not> installs op"
  shows "list_all2 (lawful_move op (addressed ctx op s)) (extensions s) (extensions (snd (extension_step env (ctx, tm, op) s)))"
proof -
  have call: "moves t0 {} {} (bindS (readS (resolveTool ctx key)) (\<lambda>found.
       case found of None \<Rightarrow> doneS Undef | Some t \<Rightarrow> execute_tool env ctx tm t given))"
    "moves t0 {} {} (bindS (readS (find_extension ctx i)) (\<lambda>ext. deliver env ctx tm ext event payload))"
    for key given i event payload t0 by (intro keeps_intros)+
  show ?thesis
  proof (cases op)
    case (Approve i)
    then show ?thesis using approve_lawful [OF assms(1)] by (simp add: addressed_def)
  next
    case (Enable i)
    then show ?thesis using enable_lawful [OF assms(1)] by (simp add: addressed_def)
  next
    case (Consent u)
    then show ?thesis using consent_lawful by simp
  next
    case (Disable i)
    then show ?thesis by (simp add: addressed_def) (rule lawful_moves [OF moves_all [OF moves_stopped(1)]], simp)
  next
    case (Quarantine i why)
    then show ?thesis by (simp add: addressed_def) (rule lawful_moves [OF moves_all [OF moves_stopped(2)]], simp)
  next
    case (Propose i given consent)
    then show ?thesis by (simp add: addressed_def) (rule lawful_moves [OF moves_all [OF moves_propose]], simp)
  qed (use assms(2) in \<open>auto simp: addressed_def intro!: lawful_still moves_reject moves_uninstall moves_rollback moves_fan_out call\<close>)
qed

text \<open>The machine alone: rows with their identity and status, of which an operation may move one along an edge.\<close>

definition status_of :: "extension_data row \<Rightarrow> (string \<times> string \<times> string) \<times> extension_status" where
  "status_of r = (identity r, e_status (contents r))"

definition machine_step :: "request_context option \<times> int \<times> extension_op
    \<Rightarrow> ((string \<times> string \<times> string) \<times> extension_status) list \<Rightarrow> extension_error option
    \<Rightarrow> ((string \<times> string \<times> string) \<times> extension_status) list \<Rightarrow> bool" where
  "machine_step p a e a' \<longleftrightarrow>
     map fst a' = map fst a
     \<and> (\<exists>i. list_all2 (\<lambda>(x, st) (x', st'). st' = st \<or> fst x = i \<and> status_edge (snd (snd p)) st st') a a')"

definition shows_statuses :: "'m platform \<Rightarrow> ((string \<times> string \<times> string) \<times> extension_status) list \<Rightarrow> bool" where
  "shows_statuses s a \<longleftrightarrow> distinct (map row_id (extensions s)) \<and> a = map status_of (extensions s)"

lemma ids_of_identities: "map identity t' = map identity t \<Longrightarrow> map row_id t' = map row_id t"
proof -
  assume "map identity t' = map identity t"
  then have "map (fst \<circ> identity) t' = map (fst \<circ> identity) t" unfolding list.map_comp [symmetric] by simp
  then show ?thesis by (simp add: comp_def identity_def)
qed

lemma addressed_one: "\<exists>i. addressed ctx op s \<subseteq> {i}"
  by (cases op) (auto simp: addressed_def split: sum.split)

interpretation statuses: simulation shows_statuses "extension_step env" machine_step "\<lambda>p. \<not> installs (snd (snd p))"
  for env
proof unfold_locales
  fix s :: "'a platform" and a and p :: "request_context option \<times> int \<times> extension_op"
  assume a: "shows_statuses s a" and p: "\<not> installs (snd (snd p))"
  obtain ctx tm op where op: "p = (ctx, tm, op)" by (cases p)
  let ?s' = "snd (extension_step env p s)"
  have d: "distinct (map row_id (extensions s))" using a by (simp add: shows_statuses_def)
  have step: "list_all2 (lawful_move op (addressed ctx op s)) (extensions s) (extensions ?s')"
    using status_step [OF d, of op ctx env tm] p by (simp add: op)
  then have same: "map identity (extensions ?s') = map identity (extensions s)"
    by (auto simp: list_all2_conv_all_nth lawful_move_def intro: nth_equalityI)
  obtain i where i: "addressed ctx op s \<subseteq> {i}" using addressed_one by blast
  have "list_all2 (\<lambda>(x, st) (x', st'). st' = st \<or> fst x = i \<and> status_edge op st st')
      (map status_of (extensions s)) (map status_of (extensions ?s'))"
    using step i by (auto simp: list_all2_conv_all_nth lawful_move_def status_of_def identity_def)
  with a same d ids_of_identities [OF same] show "\<exists>a'. machine_step p a (fst (extension_step env p s)) a' \<and> shows_statuses ?s' a'"
    by (auto simp: shows_statuses_def machine_step_def op status_of_def comp_def)
qed

text \<open>C10: The runtime implements the state machine of an extension's status. Started with rows of distinct ids, any sequence
  of operations other than installations is, on the identities and statuses of the rows, a run of the
  machine: no row appears or goes, and each operation moves at most the extension it names, along an edge of
  its own: approval takes one that awaits review to INSTALLED or, when its code fails, to FAILED; enabling takes one
  that neither awaits review nor is quarantined to ENABLED; disabling and quarantine take any to theirs, and an
  upgrade that fails takes any to FAILED.\<close>

theorem statuses_follow_the_machine:
  assumes "distinct (map row_id (extensions s))" and "\<forall>p \<in> set ps. \<not> installs (snd (snd p))"
  shows "spec_run machine_step ps (map status_of (extensions s)) (fst (run_ops (extension_step env) ps s))
    (map status_of (extensions (snd (run_ops (extension_step env) ps s))))"
proof -
  have "shows_statuses s (map status_of (extensions s))" using assms(1) by (simp add: shows_statuses_def)
  from statuses.run_simulates [OF this assms(2), of env] show ?thesis by (auto simp: shows_statuses_def)
qed

section \<open>Gates\<close>

text \<open>The operations that may take an extension out of a status.\<close>

fun opens :: "extension_status \<Rightarrow> extension_op \<Rightarrow> bool" where
  "opens st (Approve i) \<longleftrightarrow> st = PENDING_REVIEW"
| "opens st (Enable i) \<longleftrightarrow> st \<noteq> PENDING_REVIEW \<and> st \<noteq> QUARANTINED"
| "opens st (Disable i) \<longleftrightarrow> True" | "opens st (Quarantine i why) \<longleftrightarrow> st \<noteq> QUARANTINED"
| "opens st (Propose i given consent) \<longleftrightarrow> True" | "opens st (Consent u) \<longleftrightarrow> True"
| "opens st (Install input) \<longleftrightarrow> True" | "opens st op \<longleftrightarrow> False"

lemma edge_opens: "status_edge op st st' \<Longrightarrow> st' \<noteq> st \<Longrightarrow> opens st op"
  by (cases op) auto

lemma machine_stays:
  assumes "spec_run machine_step ps a rs a'" and "j < length a" and "snd (a ! j) = st"
    and "\<forall>p \<in> set ps. \<not> opens st (snd (snd p))"
  shows "length a' = length a \<and> fst (a' ! j) = fst (a ! j) \<and> snd (a' ! j) = st"
  using assms
proof (induction rule: spec_run.induct)
  case (step p a r a1 ps rs a')
  then obtain i where m: "map fst a1 = map fst a"
    and l: "list_all2 (\<lambda>(x, st) (x', st'). st' = st \<or> fst x = i \<and> status_edge (snd (snd p)) st st') a a1"
    by (auto simp: machine_step_def)
  have "length a1 = length a" "fst (a1 ! j) = fst (a ! j)"
    using map_nth_eq [OF m step.prems(1)] by simp_all
  moreover have "snd (a1 ! j) = st"
    using list_all2_nthD [OF l step.prems(1)] step.prems(2,3) edge_opens [of "snd (snd p)" st]
    by (auto split: prod.splits)
  ultimately show ?case using step.IH step.prems by simp
qed simp

text \<open>A gate stays shut until one of the decisions that open it. An extension that is quarantined, one that awaits
  review, or one that is in any other status, is still the same extension in that status after any sequence of
  operations none of which may take an extension out of it: for quarantine those are disabling and upgrades,
  for a pending review approval, disabling, quarantine and upgrades. Enabling is not among them, and nor
  are removal, rollback, events and calls, whatever code they run.\<close>

theorem gates_stay_shut:
  assumes "distinct (map row_id (extensions s))" and "\<forall>p \<in> set ps. \<not> opens (e_status (contents (extensions s ! j))) (snd (snd p))"
    and "s' = snd (run_ops (extension_step env) ps s)" and "j < length (extensions s)"
  shows "length (extensions s') = length (extensions s) \<and> identity (extensions s' ! j) = identity (extensions s ! j)
    \<and> e_status (contents (extensions s' ! j)) = e_status (contents (extensions s ! j))"
proof -
  have still: "\<forall>p \<in> set ps. \<not> installs (snd (snd p))"
  proof
    fix p assume "p \<in> set ps"
    with assms(2) show "\<not> installs (snd (snd p))" by (cases "snd (snd p)") force+
  qed
  have "shows_statuses s (map status_of (extensions s))" using assms(1) by (simp add: shows_statuses_def)
  from statuses.run_simulates [OF this still, of env] obtain rs where
    "spec_run machine_step ps (map status_of (extensions s)) rs (map status_of (extensions s'))"
    by (auto simp: shows_statuses_def assms(3))
  from machine_stays [OF this, of j] assms(2,4) show ?thesis by (auto simp: status_of_def)
qed

definition held_mail :: "nat platform" where
  "held_mail = no_extensions\<lparr>extensions := [mail_row\<lparr>contents := (contents mail_row)\<lparr>e_status := QUARANTINED\<rparr>\<rparr>]\<rparr>"

lemma held_extensions: "extensions held_mail = [mail_row\<lparr>contents := (contents mail_row)\<lparr>e_status := QUARANTINED\<rparr>\<rparr>]"
  by (simp add: held_mail_def)

lemma gates_stay_shut_witness:
  "e_status (contents (extensions (snd (run_ops (extension_step quiet_env)
      [(Some reader, 2, Enable ''1''), (Some reader, 3, Happened ''o'' ''mission.created'' [])] held_mail)) ! 0)) = QUARANTINED"
  using gates_stay_shut [of held_mail "[(Some reader, 2, Enable ''1''), (Some reader, 3, Happened ''o'' ''mission.created'' [])]" 0,
      OF _ _ refl, of quiet_env]
  unfolding held_extensions by simp

lemma statuses_follow_the_machine_witness:
  "spec_run machine_step [(Some reader, 2, Disable ''1''), (Some reader, 3, Enable ''1'')]
     [((''1'', ''o'', ''mail-sorter''), QUARANTINED)]
     (fst (run_ops (extension_step quiet_env) [(Some reader, 2, Disable ''1''), (Some reader, 3, Enable ''1'')] held_mail))
     (map status_of (extensions (snd (run_ops (extension_step quiet_env)
        [(Some reader, 2, Disable ''1''), (Some reader, 3, Enable ''1'')] held_mail))))"
proof -
  let ?ps = "[(Some reader, 2, Disable ''1''), (Some reader, 3, Enable ''1'')]"
  have start: "map status_of (extensions held_mail) = [((''1'', ''o'', ''mail-sorter''), QUARANTINED)]"
    unfolding held_extensions by (simp add: status_of_def identity_def mail_row_def extension_row_def mail_normal)
  show ?thesis
    using statuses_follow_the_machine [of held_mail ?ps quiet_env, unfolded start] by (simp add: held_extensions del: run_ops.simps)
qed

section \<open>What disabling does to a gate\<close>

lemma find_updated: "List.find Q xs = Some x \<Longrightarrow> (\<And>y. Q (g y) = Q y) \<Longrightarrow> List.find Q (map (\<lambda>y. if Q y then g y else y) xs) = Some (g x)"
  by (induction xs) (auto split: if_splits)

lemma found_again:
  assumes "find_extension ctx i s = Inr ext"
  shows "\<exists>r s1. update_extension ctx i f s = (Inr r, s1) \<and> contents r = f (contents ext) \<and> find_extension ctx i s1 = Inr r"
proof -
  obtain org where org: "tenant ctx = Inr org" using found_row [of EXTENSIONS ctx i "extensions s" ext] assms
    by (auto simp: find_extension_def)
  let ?w = "scope EXTENSIONS org False (by_id i)" and ?g = "\<lambda>r :: extension_data row. r\<lparr>contents := f (contents r)\<rparr>"
  have w: "satisfies_all ?w (?g r) = satisfies_all ?w r" for r by (simp add: scope_by_id)
  have "List.find (satisfies_all ?w) (extensions s) = Some ext"
    using assms org by (auto simp: find_extension_def findByIdOrFail_def findById_def bindE_eq_Inr find_first_def no_options_def
        split: option.splits)
  then have found: "List.find (satisfies_all ?w) (map (\<lambda>r. if satisfies_all ?w r then ?g r else r) (extensions s)) = Some (?g ext)"
    by (rule find_updated) (simp add: w)
  have some: "filter (satisfies_all ?w) (extensions s) \<noteq> []"
    using \<open>List.find (satisfies_all ?w) (extensions s) = Some ext\<close> by (auto simp: find_Some_iff filter_empty_conv)
  show ?thesis
    using some found org
    by (simp add: update_extension_def update_row_def update_many_def find_extension_def findByIdOrFail_def findById_def bindE_def
        find_first_def no_options_def in_repo_def)
qed

lemma tolerant_done: "fst (tolerant m s) = Inr ()"
  by (cases "m s"; cases "fst (m s)") (simp_all add: tolerant_def catchS_def doneS_def)

lemma transition_done:
  assumes "work (snd (record_event env ctx ext ph STARTED no_notes s)) = (Inr (), s1)"
  shows "\<exists>s2. transition env ctx ext ph work s = (Inr (), s2)"
proof -
  obtain r1 s0 where 1: "record_event env ctx ext ph STARTED no_notes s = (r1, s0)" by (cases "record_event env ctx ext ph STARTED no_notes s")
  obtain r2 s2 where 2: "record_event env ctx ext ph SUCCEEDED no_notes s1 = (r2, s2)" by (cases "record_event env ctx ext ph SUCCEEDED no_notes s1")
  have "r1 = Inr ()" "r2 = Inr ()" using record_done [of env ctx ext ph STARTED no_notes s] record_done [of env ctx ext ph SUCCEEDED no_notes s1] 1 2
    by simp_all
  with assms 1 2 show ?thesis by (simp add: transition_def bindS_def catchS_def doneS_def)
qed

lemma code_done:
  assumes "\<And>t m. \<exists>p. load_module env t m = Inr p" and "\<And>p c w. \<exists>v w'. call_hook env p h c w = (Inr v, w')"
  shows "\<exists>s1. run_optional env tm ext h s = (Inr (), s1)"
proof -
  obtain p s1 where m: "moduleFor env tm ext s = (Inr p, s1)"
    using assms(1) [of tm "e_manifest (contents ext)"]
    by (cases "get (row_id ext) (loaded s)"; cases "fst (get (row_id ext) (loaded s))") (auto simp: moduleFor_def)
  obtain v s2 where c: "run_code env ext p h (contextFor ext (e_capabilities (contents ext)) None) s1 = (Inr v, s2)"
    using assms(2) [of p "contextFor ext (e_capabilities (contents ext)) None" "(worker_rows s1, keyspace s1)"]
    by (auto simp: run_code_def)
  from m c show ?thesis by (cases "implements env p h") (simp_all add: run_optional_def bindS_def doneS_def)
qed

text \<open>Whatever the gate, disabling succeeds and enabling after it too, when the code itself does not fail.\<close>

theorem disabling_opens_every_gate:
  assumes "find_extension ctx i s = Inr ext" and "\<And>t m. \<exists>p. load_module env t m = Inr p"
    and "\<And>p c w. \<exists>v w'. call_hook env p Activate c w = (Inr v, w')"
  shows "\<exists>r s2. enable env ctx tm' i (snd (disable env ctx tm i s)) = (Inr r, s2) \<and> e_status (contents r) = ENABLED"
proof -
  obtain org where org: "tenant ctx = Inr org" using found_row [of EXTENSIONS ctx i "extensions s" ext] assms(1)
    by (auto simp: find_extension_def)
  have here: "find_extension ctx i s1 = find_extension ctx i s0" if "extensions s1 = extensions s0" for s0 s1 :: "'a platform"
    using that by (simp add: find_extension_def)
  have switched: "\<exists>n. setEnabled ctx i b s0 = (Inr n, snd (setEnabled ctx i b s0))" for b and s0 :: "'a platform"
    using org by (simp add: setEnabled_def split_beta)
  let ?farewell = "tolerant (transition env ctx ext DISABLE (run_optional env tm ext Deactivate))"
  obtain s1 where s1: "?farewell s = (Inr (), s1)" using tolerant_done [of _ s] by (metis prod.collapse)
  have "leaves (\<lambda>s. id (extensions s)) ?farewell" by (intro leaves_intros)
  from here [of s1 s] leavesD [OF this s1] have "find_extension ctx i s1 = Inr ext" unfolding id_apply assms(1) by blast
  from found_again [OF this, of "\<lambda>d. d\<lparr>e_status := DISABLED\<rparr>"] obtain r s2 where
    s2: "update_extension ctx i (\<lambda>d. d\<lparr>e_status := DISABLED\<rparr>) s1 = (Inr r, s2)" "e_status (contents r) = DISABLED"
    "find_extension ctx i s2 = Inr r" by auto
  obtain n s3 where s3: "setEnabled ctx i False s2 = (Inr n, s3)" using switched by blast
  have "snd (disable env ctx tm i s) = snd (bindS (forget_module i) (\<lambda>_. bindS (announce (ExtensionDisabled i (e_slug (contents r)))) (\<lambda>_. doneS r)) s3)"
    unfolding disable_def stop_def
    by (subst bind_readS_Inr [of "find_extension ctx i" s, OF assms(1)], subst bindS_Inr [of ?farewell s "()" s1, OF s1],
        subst bindS_Inr [of "update_extension ctx i (\<lambda>d. d\<lparr>e_status := DISABLED\<rparr>)" s1 r s2, OF s2(1)], subst bindS_Inr [of "setEnabled ctx i False" s2 n s3, OF s3], rule refl)
  then have "extensions (snd (disable env ctx tm i s)) = extensions s2"
    using leavesD [OF table_leaves(6) [where F = id] s3] by (simp add: forget_module_def announce_def comp_simps)
  from here [OF this] have again: "find_extension ctx i (snd (disable env ctx tm i s)) = Inr r" unfolding s2(3) .
  obtain s4 where s4: "run_optional env tm' r Activate (snd (record_event env ctx r ENABLE STARTED no_notes (snd (disable env ctx tm i s)))) = (Inr (), s4)"
    using code_done [of env Activate tm' r] assms(2,3) by blast
  from transition_done [of "run_optional env tm' r Activate", OF this] obtain s5 where
    s5: "transition env ctx r ENABLE (run_optional env tm' r Activate) (snd (disable env ctx tm i s)) = (Inr (), s5)" by blast
  have "leaves (\<lambda>s. id (extensions s)) (transition env ctx r ENABLE (run_optional env tm' r Activate))" by (intro leaves_intros)
  from here [of s5 "snd (disable env ctx tm i s)"] leavesD [OF this s5] have "find_extension ctx i s5 = Inr r" unfolding id_apply again by blast
  from found_again [OF this, of "\<lambda>d. d\<lparr>e_status := ENABLED, e_lastError := None\<rparr>"] obtain r' s6 where
    s6: "update_extension ctx i (\<lambda>d. d\<lparr>e_status := ENABLED, e_lastError := None\<rparr>) s5 = (Inr r', s6)" "e_status (contents r') = ENABLED" by auto
  obtain k s7 where s7: "setEnabled ctx i True s6 = (Inr k, s7)" using switched by blast
  have open_now: "e_status (contents r) \<noteq> PENDING_REVIEW" "e_status (contents r) \<noteq> QUARANTINED" by (simp_all add: s2(2))
  have "enable env ctx tm' i (snd (disable env ctx tm i s)) =
      bindS (announce (ExtensionEnabled i (e_slug (contents r')))) (\<lambda>_. doneS r') s7"
    unfolding enable_def
    by (subst bind_readS_Inr [of "find_extension ctx i" "snd (disable env ctx tm i s)" r, OF again], subst if_not_P [OF open_now(1)], subst if_not_P [OF open_now(2)],
        subst bindS_Inr [of "transition env ctx r ENABLE (run_optional env tm' r Activate)" "snd (disable env ctx tm i s)" "()" s5, OF s5], subst bindS_Inr [of "update_extension ctx i (\<lambda>d. d\<lparr>e_status := ENABLED, e_lastError := None\<rparr>)" s5 r' s6, OF s6(1)],
        subst bindS_Inr [of "setEnabled ctx i True" s6 k s7, OF s7], rule refl)
  with s6(2) show ?thesis by (simp add: announce_def comp_simps)
qed

end
