(* ===== verification/Sandbox.thy ===== *)
theory Sandbox
  imports Contributions OutboundHttp
begin

text \<open>
  The sandbox, \<open>src/backend/src/platform/sandbox.service.ts\<close>: the one place where code of an extension reaches
  the platform. A call is checked against the grant, counted, dispatched and recorded. The private
  keyspace of extensions and outbound HTTP are modelled to the end; what the handlers ask of missions, knowledge, workers,
  events, storage, analytics, notifications and credentials is a call with the arguments they put together,
  answered by a parameter.

  A handler that overruns its time is reported as such while its work goes on; the model lets the work finish.
  The duration of a call is left out of its record. A counter of the cache is used within one window,
  before it expires.
\<close>

section \<open>State\<close>

datatype sandbox_decision = ALLOWED | DENIED | FAILED | THROTTLED

record host_call =
  h_extension :: string
  h_method :: string
  h_capability :: "string option"
  h_decision :: sandbox_decision
  h_reason :: "string option"
  h_arguments :: obj
  h_contribution :: "string option"
  h_createdAt :: int

record sandbox_binding =
  b_extension :: string
  b_slug :: string
  b_version :: string
  b_capabilities :: "string list"
  b_limits :: sandbox_limits
  b_dryRun :: bool
  b_contribution :: "string option"

record local_counter =
  lc_count :: int
  lc_resetAt :: int

record 'w sandbox =
  sb_keyspace :: "keyspace_data table"
  sb_contributed :: "contribution_data table"
  sb_calls :: "host_call table"
  sb_shared :: "string \<Rightarrow> int"
  sb_local :: "(string, local_counter) bounded_map"
  sb_next :: nat
  sb_wire :: "sent list"
  sb_services :: 'w

text \<open>What the handlers ask of the services behind them.\<close>

datatype service_call =
    DescribeOrganization string
  | FindMission string | FindMissions obj | CreateMission obj | StartMission string | PlanMission string
  | SearchKnowledge string number | FindKnowledge string | CreateKnowledge obj | UpdateKnowledge string obj
  | FindWorkers obj | CreateWorker obj | UpdateWorker string obj | RemoveWorker string
  | FindEvents "string option" number
  | Download string | Upload string string string string | ListStored string
  | AnalyticsOverview | Notify obj
  | CredentialsNamed string | AllCredentials | TouchCredential json

text \<open>What a call throws: a denial, an exceeded limit, another error.\<close>

datatype host_error = Denied string string | Limit string string | Plain string

fun host_message :: "host_error \<Rightarrow> string" where
  "host_message (Denied meth m) = m"
| "host_message (Limit l m) = m"
| "host_message (Plain m) = m"

text \<open>
  \<open>serve\<close> is the services, \<open>cache_up\<close> whether the shared cache answers at a time, \<open>overruns\<close> whether a
  method does at a time, \<open>json_text\<close> is \<open>JSON.stringify\<close>, \<open>utf8_bytes\<close> the length of a text in UTF-8,
  \<open>secret_of\<close> the decryption of a credential, \<open>base64\<close> an encoding, \<open>null_refused\<close> what the database client
  says against a null in a column that must not be, \<open>double_key\<close> what the database says against a
  second row of a unique index, \<open>net\<close> the network as the client meets it at a time.
\<close>

record 'w sandbox_env =
  sb_new_id :: "nat \<Rightarrow> string"
  cache_up :: "int \<Rightarrow> bool"
  overruns :: "int \<Rightarrow> string \<Rightarrow> bool"
  serve :: "service_call \<Rightarrow> request_context option \<Rightarrow> 'w \<Rightarrow> (string + json) \<times> 'w"
  as_text :: "json \<Rightarrow> string"
  json_text :: "json \<Rightarrow> string"
  utf8_bytes :: "string \<Rightarrow> int"
  secret_of :: "json \<Rightarrow> string + string"
  base64 :: "string \<Rightarrow> string"
  null_refused :: string
  double_key :: string
  net :: "int \<Rightarrow> env"

type_synonym ('w, 'a) host = "('w sandbox, host_error, 'a) comp"

definition HOST_CALLS :: model where "HOST_CALLS = \<lparr>modelName = ''extensionHostCall'', softDeletes = False\<rparr>"

definition MAX_RESPONSE_BYTES :: int where "MAX_RESPONSE_BYTES = 256 * 1024"
definition MAX_PREVIEW_CHARS :: nat where "MAX_PREVIEW_CHARS = 1000"
definition LOCAL_COUNTER_LIMIT :: int where "LOCAL_COUNTER_LIMIT = 5000"

definition in_host :: "repo_error + 'a \<Rightarrow> host_error + 'a" where
  "in_host x = (case x of Inl (Missing m) \<Rightarrow> Inl (Plain m) | Inl (Unusable m) \<Rightarrow> Inl (Plain m) | Inr a \<Rightarrow> Inr a)"

definition ask :: "'w sandbox_env \<Rightarrow> request_context option \<Rightarrow> service_call \<Rightarrow> ('w, json) host" where
  "ask env ctx c s =
     (case serve env c ctx (sb_services s) of
        (r, w) \<Rightarrow> (case r of Inl e \<Rightarrow> Inl (Plain e) | Inr v \<Rightarrow> Inr v, s\<lparr>sb_services := w\<rparr>))"

section \<open>The private keyspace\<close>

text \<open>\<open>ExtensionStateRepository\<close>.\<close>

definition entry_of :: "string \<Rightarrow> string \<Rightarrow> keyspace_data conditions" where
  "entry_of ext key = [(''extensionId'', \<lambda>r. y_extension (contents r) = ext), (''key'', \<lambda>r. y_key (contents r) = key)]"

definition get_state :: "request_context option \<Rightarrow> string \<Rightarrow> string \<Rightarrow> 'w sandbox \<Rightarrow> host_error + keyspace_data row option" where
  "get_state ctx ext key s =
     in_host (bindE (tenant ctx) (\<lambda>org. Inr (find_first (scope KEYSPACE org False (entry_of ext key)) (sb_keyspace s))))"

definition by_state_key :: "keyspace_data row \<Rightarrow> keyspace_data row \<Rightarrow> int" where
  "by_state_key r r' = ord3 (y_key (contents r)) (y_key (contents r'))"

definition state_keys :: "request_context option \<Rightarrow> string \<Rightarrow> string \<Rightarrow> 'w sandbox \<Rightarrow> host_error + keyspace_data row list" where
  "state_keys ctx ext prefix s =
     in_host (findMany KEYSPACE ctx
       ((''extensionId'', \<lambda>r. y_extension (contents r) = ext) #
        (if prefix = [] then [] else [(''key'', \<lambda>r. starts_with prefix (y_key (contents r)))]))
       (no_options\<lparr>orderBy := Some by_state_key\<rparr>) (sb_keyspace s))"

definition usage :: "request_context option \<Rightarrow> string \<Rightarrow> 'w sandbox \<Rightarrow> host_error + int \<times> int" where
  "usage ctx ext s =
     in_host (bindE (tenant ctx) (\<lambda>org.
       let rows = filter (satisfies_all (scope KEYSPACE org False [(''extensionId'', \<lambda>r. y_extension (contents r) = ext)]))
                    (sb_keyspace s) in
       Inr (sum_list (map (\<lambda>r. y_bytes (contents r)) rows), int (length rows))))"

definition create_entry :: "'w sandbox_env \<Rightarrow> request_context option \<Rightarrow> keyspace_data \<Rightarrow> ('w, unit) host" where
  "create_entry env ctx d s =
     (if list_ex (\<lambda>r. y_extension (contents r) = y_extension d \<and> y_key (contents r) = y_key d) (sb_keyspace s)
      then (Inl (Plain (double_key env)), s)
      else (case create_row KEYSPACE ctx \<lparr>row_id = sb_new_id env (sb_next s), row_org = [], row_deleted = None, contents = d\<rparr>
                   (sb_keyspace s) of
              (r, t) \<Rightarrow> (in_host (bindE r (\<lambda>_. Inr ())), s\<lparr>sb_keyspace := t, sb_next := Suc (sb_next s)\<rparr>)))"

definition update_entry :: "request_context option \<Rightarrow> string \<Rightarrow> json \<Rightarrow> int \<Rightarrow> ('w, unit) host" where
  "update_entry ctx i value bytes s =
     (case update_row KEYSPACE ctx i (\<lambda>r. r\<lparr>contents := (contents r)\<lparr>y_value := value, y_bytes := bytes\<rparr>\<rparr>) (sb_keyspace s) of
        (r, t) \<Rightarrow> (in_host (bindE r (\<lambda>_. Inr ())), s\<lparr>sb_keyspace := t\<rparr>))"

definition put_state :: "'w sandbox_env \<Rightarrow> request_context option \<Rightarrow> string \<Rightarrow> string \<Rightarrow> json \<Rightarrow> int \<Rightarrow> ('w, unit) host" where
  "put_state env ctx ext key value bytes =
     bindS (readS (get_state ctx ext key)) (\<lambda>existing.
     if value = Null then throwS (Plain (null_refused env))
     else case existing of
            Some r \<Rightarrow> update_entry ctx (row_id r) (json_column value) bytes
          | None \<Rightarrow> create_entry env ctx \<lparr>y_extension = ext, y_key = key, y_value = json_column value, y_bytes = bytes\<rparr>)"

definition drop_state :: "request_context option \<Rightarrow> string \<Rightarrow> string \<Rightarrow> ('w, bool) host" where
  "drop_state ctx ext key s =
     (case tenant ctx of
        Inl e \<Rightarrow> (in_host (Inl e), s)
      | Inr org \<Rightarrow>
          (case delete_many (scope KEYSPACE org False (entry_of ext key)) (sb_keyspace s) of
             (n, t) \<Rightarrow> (Inr (n > 0), s\<lparr>sb_keyspace := t\<rparr>)))"

section \<open>Arguments\<close>

definition text_arg :: "obj \<Rightarrow> string \<Rightarrow> string \<Rightarrow> string" where
  "text_arg args name fallback = (case getp name args of JStr t \<Rightarrow> t | _ \<Rightarrow> fallback)"

definition num_arg :: "'w sandbox_env \<Rightarrow> obj \<Rightarrow> string \<Rightarrow> rat \<Rightarrow> rat" where
  "num_arg env args name fallback = (case WorkflowData.to_num (as_text env) (getp name args) of Fin x \<Rightarrow> x | _ \<Rightarrow> fallback)"

definition required :: "obj \<Rightarrow> string \<Rightarrow> host_error + string" where
  "required args name =
     (if text_arg args name [] = [] then Inl (Plain (quoted name @ '' is required'')) else Inr (text_arg args name []))"

definition liftH :: "host_error + 'a \<Rightarrow> ('w, 'a) host" where
  "liftH x = readS (\<lambda>_. x)"

definition list_arg :: "obj \<Rightarrow> string \<Rightarrow> json" where
  "list_arg args name = (case getp name args of JArr vs \<Rightarrow> JArr vs | _ \<Rightarrow> JArr [])"

text \<open>The page of a listing.\<close>

definition page_of :: "'w sandbox_env \<Rightarrow> obj \<Rightarrow> obj" where
  "page_of env args =
     [(''page'', JNum (Fin 1)), (''limit'', JNum (Fin (min (num_arg env args ''limit'' 25) 100))), (''skip'', JNum (Fin 0)),
      (''sortBy'', JStr ''createdAt''), (''sortOrder'', JStr ''desc'')]"

definition guardWrite :: "sandbox_binding \<Rightarrow> ('w, json) host \<Rightarrow> ('w, json) host" where
  "guardWrite b m =
     (if b_dryRun b then doneS (JObj [(''dryRun'', JBool True), (''skipped'', JBool True)]) else m)"

definition with_text :: "obj \<Rightarrow> string \<Rightarrow> (string \<Rightarrow> ('w, json) host) \<Rightarrow> ('w, json) host" where
  "with_text args name k = bindS (liftH (required args name)) k"

section \<open>Handlers of the keyspace\<close>

definition get_handler :: "request_context option \<Rightarrow> sandbox_binding \<Rightarrow> obj \<Rightarrow> ('w, json) host" where
  "get_handler ctx b args =
     with_text args ''key'' (\<lambda>key.
     bindS (readS (get_state ctx (b_extension b) key)) (\<lambda>row.
     doneS (case row of Some r \<Rightarrow> y_value (contents r) | None \<Rightarrow> Null)))"

definition bytes_of :: "keyspace_data row option \<Rightarrow> int" where
  "bytes_of row = (case row of Some r \<Rightarrow> y_bytes (contents r) | None \<Rightarrow> 0)"

definition set_handler :: "'w sandbox_env \<Rightarrow> request_context option \<Rightarrow> sandbox_binding \<Rightarrow> obj \<Rightarrow> ('w, json) host" where
  "set_handler env ctx b args =
     with_text args ''key'' (\<lambda>key.
     let value = coalesce (getp ''value'' args) Null;
         bytes = utf8_bytes env (json_text env value) in
     bindS (readS (usage ctx (b_extension b))) (\<lambda>(used, count).
     bindS (readS (get_state ctx (b_extension b) key)) (\<lambda>existing.
     if used - bytes_of existing + bytes > storageBytes (b_limits b)
     then throwS (Limit ''storageBytes'' (''Storing '' @ quoted key @ '' would exceed the '' @
            show_int (storageBytes (b_limits b)) @ '' byte limit''))
     else if count + (if existing = None then 1 else 0) > storageKeys (b_limits b)
     then throwS (Limit ''storageKeys'' (''Storing '' @ quoted key @ '' would exceed the '' @
            show_int (storageKeys (b_limits b)) @ '' key limit''))
     else if b_dryRun b then doneS (JObj [(''stored'', JBool False), (''dryRun'', JBool True)])
     else bindS (put_state env ctx (b_extension b) key value bytes) (\<lambda>_.
          doneS (JObj [(''stored'', JBool True)])))))"

definition delete_handler :: "request_context option \<Rightarrow> sandbox_binding \<Rightarrow> obj \<Rightarrow> ('w, json) host" where
  "delete_handler ctx b args =
     (if b_dryRun b then doneS (JBool False)
      else with_text args ''key'' (\<lambda>key.
           bindS (drop_state ctx (b_extension b) key) (\<lambda>gone. doneS (JBool gone))))"

definition keys_handler :: "request_context option \<Rightarrow> sandbox_binding \<Rightarrow> obj \<Rightarrow> ('w, json) host" where
  "keys_handler ctx b args =
     bindS (readS (state_keys ctx (b_extension b) (if jtruthy (getp ''prefix'' args) then text_arg args ''prefix'' [] else [])))
       (\<lambda>rows. doneS (JArr (map (\<lambda>r. JStr (y_key (contents r))) rows)))"

section \<open>Outbound HTTP\<close>

text \<open>\<open>Object.entries(args.headers ?? {})\<close>.\<close>

definition given_headers :: "obj \<Rightarrow> obj" where
  "given_headers args =
     (case getp ''headers'' args of
        JObj m \<Rightarrow> m
      | JArr vs \<Rightarrow> map (\<lambda>(i, x). (show_nat i, x)) (List.enumerate 0 vs)
      | JStr t \<Rightarrow> map (\<lambda>(i, x). (show_nat i, JStr [x])) (List.enumerate 0 t)
      | _ \<Rightarrow> [])"

fun add_headers :: "(json \<Rightarrow> string) \<Rightarrow> bool \<Rightarrow> obj \<Rightarrow> headers \<Rightarrow> headers" where
  "add_headers text cred [] hs = hs"
| "add_headers text cred ((n, v) # rest) hs =
     (let lower = map ascii_lower n in
      if lower = ''host'' \<or> lower = ''user-agent'' \<or> (cred \<and> lower = ''authorization'')
      then add_headers text cred rest hs
      else add_headers text cred rest (put lower (js_string text v) hs))"

definition own_headers_of :: "'w sandbox_env \<Rightarrow> sandbox_binding \<Rightarrow> bool \<Rightarrow> obj \<Rightarrow> headers" where
  "own_headers_of env b cred args =
     add_headers (as_text env) cred (given_headers args)
       [(''user-agent'', ''PRISM-X-Extension/'' @ b_slug b @ ''@'' @ b_version b)]"

definition authorization_of :: "json \<Rightarrow> string \<Rightarrow> string" where
  "authorization_of credential secret =
     (case credential of
        JObj c \<Rightarrow> (if map ascii_upper (text_arg c ''type'' []) = ''BASIC'' then ''Basic '' else ''Bearer '') @ secret
      | _ \<Rightarrow> ''Bearer '' @ secret)"

definition outbound_for :: "sandbox_binding \<Rightarrow> obj \<Rightarrow> string \<Rightarrow> headers \<Rightarrow> outbound_request" where
  "outbound_for b args target_url hs =
     (let meth = (case getp ''method'' args of JStr t \<Rightarrow> map ascii_upper t | _ \<Rightarrow> ''GET'') in
      \<lparr>rq_url = target_url, rq_method = Some meth, rq_headers = Some hs,
       rq_body = (if meth = ''GET'' \<or> meth = ''HEAD'' then None else (case getp ''body'' args of JStr t \<Rightarrow> Some t | _ \<Rightarrow> None)),
       timeoutMs = Some (sandbox_limits.timeoutMs (b_limits b)), maxRedirects = Some 0,
       maxResponseBytes = Some MAX_RESPONSE_BYTES, policy = default_policy\<rparr>)"

definition blocked_text :: "egress_error \<Rightarrow> string" where
  "blocked_text e = ''Refused to reach '' @ quoted (fst e) @ '': '' @ snd e"

definition failure_text :: "failure \<Rightarrow> string" where
  "failure_text f = (case f of Blocked e \<Rightarrow> blocked_text e | failure.Thrown m \<Rightarrow> m)"

definition response_json :: "outbound_response \<Rightarrow> json" where
  "response_json r =
     JObj [(''status'', JNum (Fin (of_int (rs_status r)))),
           (''headers'', JObj (foldl (\<lambda>m (n, v). if map ascii_lower n \<noteq> ''set-cookie'' then put (map ascii_lower n) (JStr v) m else m)
              [] (rs_headers r))),
           (''body'', JStr (rs_body r))]"

definition send_out :: "'w sandbox_env \<Rightarrow> int \<Rightarrow> outbound_request \<Rightarrow> ('w, json) host" where
  "send_out env tm rq s =
     (case OutboundHttp.request (net env tm) rq of
        (out, st) \<Rightarrow>
          (case out of Answered r \<Rightarrow> Inr (response_json r) | outcome.Failed f \<Rightarrow> Inl (Plain (failure_text f)),
           s\<lparr>sb_wire := sb_wire s @ trace st\<rparr>))"

text \<open>The headers of a request, with the credential injected last.\<close>

definition egress_headers :: "'w sandbox_env \<Rightarrow> request_context option \<Rightarrow> sandbox_binding \<Rightarrow> obj \<Rightarrow> json option
    \<Rightarrow> ('w, headers) host" where
  "egress_headers env ctx b args credential =
     (case credential of
        None \<Rightarrow> doneS (own_headers_of env b False args)
      | Some c \<Rightarrow>
          bindS (liftH (case secret_of env c of Inl e \<Rightarrow> Inl (Plain e) | Inr t \<Rightarrow> Inr t)) (\<lambda>secret.
          bindS (ask env ctx (TouchCredential (case c of JObj m \<Rightarrow> getp ''id'' m | _ \<Rightarrow> Undef))) (\<lambda>_.
          doneS (put ''authorization'' (authorization_of c secret) (own_headers_of env b True args)))))"

definition egress :: "'w sandbox_env \<Rightarrow> request_context option \<Rightarrow> int \<Rightarrow> sandbox_binding \<Rightarrow> obj \<Rightarrow> json option \<Rightarrow> ('w, json) host" where
  "egress env ctx tm b args credential =
     bindS (liftH (case validateUrl (parse_url (net env tm)) (text_arg args ''url'' []) default_policy of
               Inl e \<Rightarrow> Inl (Plain (blocked_text e)) | Inr v \<Rightarrow> Inr v)) (\<lambda>v.
     bindS (egress_headers env ctx b args credential) (\<lambda>hs.
     if b_dryRun b then doneS (JObj [(''status'', JNum (Fin 0)), (''headers'', JObj []), (''body'', JStr [])])
     else send_out env tm (outbound_for b args (href (uv_url v)) hs)))"

definition fetch_as :: "'w sandbox_env \<Rightarrow> request_context option \<Rightarrow> int \<Rightarrow> sandbox_binding \<Rightarrow> obj \<Rightarrow> ('w, json) host" where
  "fetch_as env ctx tm b args =
     with_text args ''credential'' (\<lambda>name.
     bindS (ask env ctx (CredentialsNamed name)) (\<lambda>found.
     case found of
       JArr (c # cs) \<Rightarrow> egress env ctx tm b args (Some c)
     | _ \<Rightarrow> throwS (Plain (''No stored credential named '' @ quoted name))))"

section \<open>The handlers\<close>

definition picked :: "string list \<Rightarrow> json \<Rightarrow> json" where
  "picked names v = (case v of JObj m \<Rightarrow> JObj (map (\<lambda>n. (n, getp n m)) names) | _ \<Rightarrow> JObj (map (\<lambda>n. (n, Undef)) names))"

definition describe_org :: "'w sandbox_env \<Rightarrow> request_context option \<Rightarrow> ('w, json) host" where
  "describe_org env ctx =
     bindS (liftH (in_host (require ctx))) (\<lambda>c.
     bindS (ask env ctx (DescribeOrganization (organizationId c))) (\<lambda>org.
     if \<not> jtruthy org then throwS (Plain ''The organization is no longer available'')
     else doneS (picked [''id'', ''name'', ''plan''] org)))"

definition list_triggers :: "request_context option \<Rightarrow> sandbox_binding \<Rightarrow> ('w, json) host" where
  "list_triggers ctx b =
     bindS (readS (\<lambda>s. in_host (findMany CONTRIBUTIONS ctx
         [(''extensionId'', \<lambda>r. c_extension (contents r) = b_extension b), (''kind'', \<lambda>r. c_kind (contents r) = TRIGGER)]
         (no_options\<lparr>orderBy := Some by_contribution_key\<rparr>) (sb_contributed s)))) (\<lambda>rows.
     doneS (JArr (map (\<lambda>r. JObj [(''key'', JStr (c_key (contents r))), (''name'', JStr (c_name (contents r))),
                                 (''enabled'', JBool (c_enabled (contents r)))]) rows)))"

definition list_credentials :: "'w sandbox_env \<Rightarrow> request_context option \<Rightarrow> ('w, json) host" where
  "list_credentials env ctx =
     bindS (ask env ctx AllCredentials) (\<lambda>found.
     doneS (JArr (map (\<lambda>c. case c of
         JObj m \<Rightarrow> JObj [(''name'', getp ''name'' m), (''kind'', getp ''type'' m)]
       | _ \<Rightarrow> JObj [(''name'', Undef), (''kind'', Undef)]) (array_of found))))"

definition downloaded :: "'w sandbox_env \<Rightarrow> obj \<Rightarrow> json \<Rightarrow> json" where
  "downloaded env args v =
     (let content = (case v of JStr t \<Rightarrow> t | _ \<Rightarrow> []) in
      JObj [(''key'', getp ''key'' args), (''content'', JStr (base64 env content)), (''bytes'', JNum (Fin (of_nat (length content))))])"

definition limit_arg :: "'w sandbox_env \<Rightarrow> obj \<Rightarrow> rat \<Rightarrow> rat \<Rightarrow> number" where
  "limit_arg env args usual most = Fin (min (num_arg env args ''limit'' usual) most)"

definition handlers :: "'w sandbox_env \<Rightarrow> request_context option \<Rightarrow> int \<Rightarrow> sandbox_binding \<Rightarrow> obj
    \<Rightarrow> (string \<times> ('w, json) host) list" where
  "handlers env ctx tm b args =
    [(''org.describe'', describe_org env ctx),
     (''missions.get'', with_text args ''id'' (\<lambda>i. ask env ctx (FindMission i))),
     (''missions.list'', ask env ctx (FindMissions (page_of env args @
        (if jtruthy (getp ''status'' args) then [(''status'', getp ''status'' args)] else [])))),
     (''missions.create'', guardWrite b (with_text args ''title'' (\<lambda>title. ask env ctx (CreateMission
        [(''title'', JStr title), (''objective'', JStr (text_arg args ''objective'' title)), (''tasks'', list_arg args ''tasks'')])))),
     (''missions.start'', guardWrite b (with_text args ''id'' (\<lambda>i. ask env ctx (StartMission i)))),
     (''missions.plan'', guardWrite b (with_text args ''id'' (\<lambda>i. ask env ctx (PlanMission i)))),
     (''knowledge.search'', with_text args ''query'' (\<lambda>q. ask env ctx (SearchKnowledge q (limit_arg env args 10 50)))),
     (''knowledge.get'', with_text args ''id'' (\<lambda>i. ask env ctx (FindKnowledge i))),
     (''knowledge.store'', guardWrite b (with_text args ''title'' (\<lambda>title. with_text args ''content'' (\<lambda>content.
        ask env ctx (CreateKnowledge [(''title'', JStr title), (''content'', JStr content), (''tags'', list_arg args ''tags'')]))))),
     (''knowledge.update'', guardWrite b (with_text args ''id'' (\<lambda>i. ask env ctx (UpdateKnowledge i
        ((if getp ''content'' args \<noteq> Undef then [(''content'', JStr (text_arg args ''content'' []))] else []) @
         (case getp ''tags'' args of JArr vs \<Rightarrow> [(''tags'', JArr vs)] | _ \<Rightarrow> [])))))),
     (''workers.list'', ask env ctx (FindWorkers (page_of env args))),
     (''workers.create'', guardWrite b (ask env ctx (CreateWorker args))),
     (''workers.update'', guardWrite b (ask env ctx (UpdateWorker (js_string (as_text env) (getp ''id'' args)) (del ''id'' args)))),
     (''workers.delete'', guardWrite b (with_text args ''id'' (\<lambda>i. bindS (ask env ctx (RemoveWorker i)) (\<lambda>_.
        doneS (JObj [(''deleted'', JBool True)]))))),
     (''workers.register'', throwS (Plain ''Worker types are contributed through the manifest, not registered at runtime'')),
     (''workers.unregister'', throwS (Plain ''Contributed worker types are removed by uninstalling the extension'')),
     (''tools.register'', throwS (Plain ''Tools are contributed through the manifest, not registered at runtime'')),
     (''tools.unregister'', throwS (Plain ''Contributed tools are removed by uninstalling the extension'')),
     (''triggers.register'', throwS (Plain ''Triggers are contributed through the manifest, not registered at runtime'')),
     (''triggers.unregister'', throwS (Plain ''Contributed triggers are removed by uninstalling the extension'')),
     (''triggers.list'', list_triggers ctx b),
     (''events.recent'', ask env ctx (FindEvents
        (if jtruthy (getp ''name'' args) then Some (text_arg args ''name'' []) else None) (limit_arg env args 25 100))),
     (''events.subscribe'', doneS (JObj [(''subscribed'', list_arg args ''names'')])),
     (''state.get'', get_handler ctx b args), (''state.set'', set_handler env ctx b args),
     (''state.delete'', delete_handler ctx b args), (''state.keys'', keys_handler ctx b args),
     (''storage.get'', with_text args ''key'' (\<lambda>k. bindS (ask env ctx (Download k)) (\<lambda>v. doneS (downloaded env args v)))),
     (''storage.put'', guardWrite b (with_text args ''content'' (\<lambda>content. with_text args ''key'' (\<lambda>k.
        ask env ctx (Upload k content (text_arg args ''contentType'' ''application/octet-stream'') (''extensions/'' @ b_slug b)))))),
     (''storage.list'', ask env ctx (ListStored (text_arg args ''prefix'' ''uploads''))),
     (''analytics.summary'', ask env ctx AnalyticsOverview),
     (''notify.send'', guardWrite b (with_text args ''title'' (\<lambda>title. ask env ctx (Notify
        ([(''category'', JStr (''extension.'' @ b_slug b)), (''subject'', JStr title), (''body'', JStr (text_arg args ''body'' [])),
          (''severity'', JStr (text_arg args ''severity'' ''INFO''))] @
         (if jtruthy (getp ''channel'' args) then [(''channels'', JArr [JStr (text_arg args ''channel'' [])])] else []) @
         [(''metadata'', JObj [(''extensionId'', JStr (b_extension b)), (''slug'', JStr (b_slug b))])]))))),
     (''http.fetch'', egress env ctx tm b args None),
     (''http.fetchAs'', fetch_as env ctx tm b args),
     (''credentials.list'', list_credentials env ctx)]"

text \<open>The check at boot: the guarded surface and the handlers are the same set.\<close>

definition surface_problems :: "string list \<Rightarrow> string list \<times> string list" where
  "surface_problems implemented =
     (filter (\<lambda>m. m \<notin> set guardedSurface) implemented, filter (\<lambda>m. m \<notin> set implemented) guardedSurface)"

section \<open>The record of a call\<close>

fun mentions :: "string \<Rightarrow> string \<Rightarrow> bool" where
  "mentions p [] = (p = [])"
| "mentions p (c # s) = (starts_with p (c # s) \<or> mentions p s)"

definition sensitive :: "string \<Rightarrow> bool" where
  "sensitive name \<longleftrightarrow> list_ex (\<lambda>p. mentions p (map ascii_lower name))
     [''secret'', ''token'', ''password'', ''authorization'', ''apikey'', ''api_key'', ''credential'']"

text \<open>The mark U+2026 of a text that was cut.\<close>

abbreviation ellipsis :: string where "ellipsis \<equiv> ''...''"

definition header_marks :: "obj \<Rightarrow> obj" where
  "header_marks hs = map (\<lambda>(n, v). (n, JStr (if sensitive n then ''[redacted]'' else ''[present]''))) hs"

definition preview_value :: "'w sandbox_env \<Rightarrow> string \<Rightarrow> json \<Rightarrow> json" where
  "preview_value env key v =
     (if sensitive key then JStr ''[redacted]''
      else if key = ''headers'' \<and> is_object v then JObj (header_marks (entries_of v))
      else let t = json_text env v in
        if length t > MAX_PREVIEW_CHARS then JStr (take MAX_PREVIEW_CHARS t @ ellipsis) else v)"

definition preview :: "'w sandbox_env \<Rightarrow> obj \<Rightarrow> obj" where
  "preview env args = map (\<lambda>(k, v). (k, preview_value env k v)) args"

definition record_call :: "'w sandbox_env \<Rightarrow> request_context option \<Rightarrow> int \<Rightarrow> sandbox_binding \<Rightarrow> string \<Rightarrow> sandbox_decision
    \<Rightarrow> string option \<Rightarrow> obj \<Rightarrow> 'w sandbox \<Rightarrow> 'w sandbox" where
  "record_call env ctx tm b meth d reason args s =
     (case create_row HOST_CALLS ctx
             \<lparr>row_id = sb_new_id env (sb_next s), row_org = [], row_deleted = None,
              contents = \<lparr>h_extension = b_extension b, h_method = meth, h_capability = map_option capId (capabilityForSurface meth),
                h_decision = d, h_reason = (case reason of Some (c # cs) \<Rightarrow> Some (take 500 (c # cs)) | _ \<Rightarrow> None),
                h_arguments = preview env args, h_contribution = b_contribution b, h_createdAt = tm\<rparr>\<rparr> (sb_calls s) of
        (Inl e, t) \<Rightarrow> s
      | (Inr r, t) \<Rightarrow> s\<lparr>sb_calls := t, sb_next := Suc (sb_next s)\<rparr>)"

section \<open>Counting\<close>

definition window_key :: "string \<Rightarrow> int \<Rightarrow> string" where
  "window_key key tm = ''sandbox:rate:'' @ key @ '':'' @ show_int (tm div 60000)"

text \<open>The local counter is an object: incrementing it does not move it in the map.\<close>

definition consume_locally :: "int \<Rightarrow> string \<Rightarrow> int \<Rightarrow> 'w sandbox \<Rightarrow> bool \<times> 'w sandbox" where
  "consume_locally tm key most s =
     (case get key (sb_local s) of
        (Some e, m) \<Rightarrow>
          if lc_resetAt e \<le> tm
          then (1 \<le> most, s\<lparr>sb_local := set_entry key (Some \<lparr>lc_count = 1, lc_resetAt = tm + 60000\<rparr>) m\<rparr>)
          else (lc_count e + 1 \<le> most, s\<lparr>sb_local := m\<lparr>entries := put key (Some (e\<lparr>lc_count := lc_count e + 1\<rparr>)) (entries m)\<rparr>\<rparr>)
      | (None, m) \<Rightarrow> (1 \<le> most, s\<lparr>sb_local := set_entry key (Some \<lparr>lc_count = 1, lc_resetAt = tm + 60000\<rparr>) m\<rparr>))"

definition consume :: "'w sandbox_env \<Rightarrow> int \<Rightarrow> string \<Rightarrow> int \<Rightarrow> 'w sandbox \<Rightarrow> bool \<times> 'w sandbox" where
  "consume env tm key most s =
     (if cache_up env tm
      then let k = window_key key tm; used = sb_shared s k + 1 in (used \<le> most, s\<lparr>sb_shared := (sb_shared s)(k := used)\<rparr>)
      else consume_locally tm key most s)"

section \<open>A call\<close>

definition in_time :: "'w sandbox_env \<Rightarrow> int \<Rightarrow> sandbox_binding \<Rightarrow> string \<Rightarrow> ('w, json) host \<Rightarrow> ('w, json) host" where
  "in_time env tm b meth m s =
     (case m s of
        (r, s1) \<Rightarrow>
          if overruns env tm meth
          then (Inl (Limit ''timeoutMs'' (quoted meth @ '' exceeded '' @ show_int (sandbox_limits.timeoutMs (b_limits b)) @ ''ms'')), s1)
          else (r, s1))"

definition decision_of :: "host_error \<Rightarrow> sandbox_decision" where
  "decision_of e = (case e of Limit l m \<Rightarrow> THROTTLED | _ \<Rightarrow> FAILED)"

definition over_limit :: "int \<Rightarrow> string \<Rightarrow> string" where
  "over_limit most what = ''Over the '' @ show_int most @ ''/minute '' @ what @ '' limit''"

definition throttled :: "'w sandbox_env \<Rightarrow> request_context option \<Rightarrow> int \<Rightarrow> sandbox_binding \<Rightarrow> string \<Rightarrow> obj \<Rightarrow> string \<Rightarrow> string
    \<Rightarrow> ('w, json) host" where
  "throttled env ctx tm b meth args l m s = (Inl (Limit l m), record_call env ctx tm b meth THROTTLED (Some m) args s)"

definition denied :: "'w sandbox_env \<Rightarrow> request_context option \<Rightarrow> int \<Rightarrow> sandbox_binding \<Rightarrow> string \<Rightarrow> obj \<Rightarrow> string
    \<Rightarrow> ('w, json) host" where
  "denied env ctx tm b meth args m s = (Inl (Denied meth m), record_call env ctx tm b meth DENIED (Some m) args s)"

definition dispatch :: "'w sandbox_env \<Rightarrow> request_context option \<Rightarrow> int \<Rightarrow> sandbox_binding \<Rightarrow> string \<Rightarrow> obj \<Rightarrow> ('w, json) host" where
  "dispatch env ctx tm b meth args s =
     (case map_of (handlers env ctx tm b args) meth of
        None \<Rightarrow> denied env ctx tm b meth args (quoted meth @ '' is not implemented by this platform'') s
      | Some m \<Rightarrow>
          (case in_time env tm b meth m s of
             (Inl e, s1) \<Rightarrow> (Inl e, record_call env ctx tm b meth (decision_of e) (Some (host_message e)) args s1)
           | (Inr v, s1) \<Rightarrow> (Inr v, record_call env ctx tm b meth ALLOWED None args s1)))"

definition invoke :: "'w sandbox_env \<Rightarrow> request_context option \<Rightarrow> int \<Rightarrow> sandbox_binding \<Rightarrow> string \<Rightarrow> obj \<Rightarrow> ('w, json) host" where
  "invoke env ctx tm b meth args s =
     (case authorize (b_capabilities b) meth of
        Some denial \<Rightarrow> denied env ctx tm b meth args denial s
      | None \<Rightarrow>
          (case consume env tm (b_extension b @ '':all'') (callsPerMinute (b_limits b)) s of
             (False, s1) \<Rightarrow> throttled env ctx tm b meth args ''callsPerMinute'' (over_limit (callsPerMinute (b_limits b)) ''host call'') s1
           | (True, s1) \<Rightarrow>
               if \<not> starts_with ''http.'' meth then dispatch env ctx tm b meth args s1
               else (case consume env tm (b_extension b @ '':http'') (httpRequestsPerMinute (b_limits b)) s1 of
                       (False, s2) \<Rightarrow> throttled env ctx tm b meth args ''httpRequestsPerMinute''
                                        (over_limit (httpRequestsPerMinute (b_limits b)) ''outbound request'') s2
                     | (True, s2) \<Rightarrow> dispatch env ctx tm b meth args s2)))"

end
