(* ===== verification/SandboxSafety.thy ===== *)
theory SandboxSafety
  imports Sandbox Simulation
begin

text \<open>
  What the sandbox promises the platform. Every call is decided by the grant and leaves one record; a call
  sends at most one request, through the guarded client and under the extension's own name; the calls of a minute
  stay within the limits; and the record shows no value under a sensitive name.
\<close>

section \<open>The surface\<close>

definition HANDLER_NAMES :: "string list" where
  "HANDLER_NAMES =
    [''org.describe'', ''missions.get'', ''missions.list'', ''missions.create'', ''missions.start'', ''missions.plan'',
     ''knowledge.search'', ''knowledge.get'', ''knowledge.store'', ''knowledge.update'', ''workers.list'', ''workers.create'',
     ''workers.update'', ''workers.delete'', ''workers.register'', ''workers.unregister'', ''tools.register'', ''tools.unregister'',
     ''triggers.register'', ''triggers.unregister'', ''triggers.list'', ''events.recent'', ''events.subscribe'', ''state.get'',
     ''state.set'', ''state.delete'', ''state.keys'', ''storage.get'', ''storage.put'', ''storage.list'', ''analytics.summary'',
     ''notify.send'', ''http.fetch'', ''http.fetchAs'', ''credentials.list'']"

lemma handler_names: "map fst (handlers env ctx tm b args) = HANDLER_NAMES"
  by (simp add: handlers_def HANDLER_NAMES_def)

lemma handlers_guarded: "list_all (\<lambda>m. m \<in> set (concat (map surface CAPABILITIES))) HANDLER_NAMES"
  by code_simp

lemma guarded_handled: "list_all (\<lambda>m. m \<in> set HANDLER_NAMES) (concat (map surface CAPABILITIES))"
  by code_simp

lemma guarded_names: "set guardedSurface = set HANDLER_NAMES"
  using handlers_guarded guarded_handled unfolding guardedSurface_def set_sort_str keys_BY_SURFACE list_all_iff by blast

text \<open>The check at boot passes: what a capability guards and what a handler implements is the same.\<close>

lemma surface_consistent: "surface_problems (map fst (handlers env ctx tm b args)) = ([], [])"
  unfolding surface_problems_def handler_names by (simp add: filter_empty_conv guarded_names)

lemma handled:
  assumes "authorize caps meth = None"
  shows "\<exists>m. (meth, m) \<in> set (handlers env ctx tm b args) \<and> map_of (handlers env ctx tm b args) meth = Some m"
proof -
  have "meth \<in> set guardedSurface"
    using assms unfolding authorize_None by (auto simp: guardedSurface_def keys_BY_SURFACE)
  then have "meth \<in> fst ` set (handlers env ctx tm b args)"
    using handler_names [of env ctx tm b args] by (simp add: guarded_names flip: set_map)
  then obtain m where "map_of (handlers env ctx tm b args) meth = Some m" by (metis map_of_eq_None_iff not_None_eq)
  then show ?thesis by (auto dest: map_of_SomeD)
qed

section \<open>What handlers may throw and change\<close>

text \<open>\<open>honest m\<close>: an error of \<open>m\<close> is no denial and no limit of calls.\<close>

definition honest :: "('w, 'a) host \<Rightarrow> bool" where
  "honest m \<longleftrightarrow> (\<forall>s e s1. m s = (Inl e, s1) \<longrightarrow> (case e of Denied x y \<Rightarrow> False | Limit l y \<Rightarrow> l = ''storageBytes'' \<or> l = ''storageKeys'' | Plain y \<Rightarrow> True))"

named_theorems honest_intros \<open>computations that throw honest errors\<close>

lemma honest_basic [honest_intros]:
  "honest (doneS a)" "honest (throwS (Plain m))" "honest (throwS (Limit ''storageBytes'' m))" "honest (throwS (Limit ''storageKeys'' m))"
  by (simp_all add: honest_def comp_eval)

lemma honest_read [honest_intros]: "(\<And>s e. f s = Inl e \<Longrightarrow> \<exists>m. e = Plain m) \<Longrightarrow> honest (readS f)"
  by (fastforce simp: honest_def comp_eval)

lemma honest_bind [honest_intros]: "honest m \<Longrightarrow> (\<And>a. honest (k a)) \<Longrightarrow> honest (bindS m k)"
  unfolding honest_def by (blast elim: bindS_cases)

lemma honest_if [honest_intros]: "(c \<Longrightarrow> honest m) \<Longrightarrow> (\<not> c \<Longrightarrow> honest n) \<Longrightarrow> honest (if c then m else n)"
  by simp

lemma honest_option [honest_intros]: "honest m \<Longrightarrow> (\<And>a. honest (n a)) \<Longrightarrow> honest (case x of None \<Rightarrow> m | Some a \<Rightarrow> n a)"
  by (cases x) simp_all

lemma honest_pair [honest_intros]: "(\<And>a c. honest (n a c)) \<Longrightarrow> honest (case x of (a, c) \<Rightarrow> n a c)"
  by (cases x) simp_all

lemma in_host_Inl: "in_host x = Inl e \<Longrightarrow> \<exists>m. e = Plain m"
  by (auto simp: in_host_def split: sum.splits repo_error.splits)

lemma required_Inl: "required args name = Inl e \<Longrightarrow> \<exists>m. e = Plain m"
  by (auto simp: required_def split: if_splits)

lemma honest_ask [honest_intros]: "honest (ask env ctx c)"
  by (auto simp: honest_def ask_def split: prod.splits sum.splits)

lemma honest_with_text [honest_intros]: "(\<And>t. honest (k t)) \<Longrightarrow> honest (with_text args name k)"
  unfolding with_text_def liftH_def by (intro honest_intros) (rule required_Inl)

lemma honest_guard [honest_intros]: "honest m \<Longrightarrow> honest (guardWrite b m)"
  unfolding guardWrite_def by (intro honest_intros)

lemma honest_writes [honest_intros]:
  "honest (update_entry ctx i v n)" "honest (create_entry env ctx d)" "honest (drop_state ctx ext key)" "honest (send_out env tm rq)"
  by (auto simp: honest_def update_entry_def create_entry_def drop_state_def send_out_def split: prod.splits sum.splits outcome.splits if_splits
      dest!: in_host_Inl)

lemma honest_put [honest_intros]: "honest (put_state env ctx ext key v n)"
  unfolding put_state_def by (intro honest_intros) (auto simp: get_state_def dest: in_host_Inl)

lemma honest_state [honest_intros]:
  "honest (get_handler ctx b args)" "honest (set_handler env ctx b args)" "honest (delete_handler ctx b args)" "honest (keys_handler ctx b args)"
  unfolding get_handler_def set_handler_def delete_handler_def keys_handler_def Let_def
  by (intro honest_intros; auto simp: get_state_def usage_def state_keys_def dest: in_host_Inl)+

lemma honest_egress [honest_intros]: "honest (egress env ctx tm b args cr)"
  unfolding egress_def egress_headers_def liftH_def by (intro honest_intros) (auto split: sum.splits)

lemma honest_others [honest_intros]:
  "honest (describe_org env ctx)" "honest (list_triggers ctx b)" "honest (list_credentials env ctx)" "honest (fetch_as env ctx tm b args)"
proof -
  have "honest (case found of JArr (c # cs) \<Rightarrow> egress env ctx tm b args (Some c) | _ \<Rightarrow> throwS (Plain m))" for found m
    by (auto intro: honest_intros split: json.split list.split)
  then show "honest (fetch_as env ctx tm b args)" unfolding fetch_as_def by (intro honest_intros)
qed (auto simp: describe_org_def list_triggers_def list_credentials_def liftH_def intro!: honest_intros dest: in_host_Inl)

lemma honest_handlers: "list_all (\<lambda>(meth, m). honest m) (handlers env ctx tm b args)"
  unfolding handlers_def list.pred_inject prod.case by (intro conjI honest_intros list.pred_inject(1))

section \<open>An example\<close>

definition demo_env :: "unit sandbox_env" where
  "demo_env = \<lparr>sb_new_id = (\<lambda>n. replicate n CHR ''r''), cache_up = (\<lambda>t. True), overruns = (\<lambda>t m. False),
     serve = (\<lambda>c ctx w. (Inr Null, w)), as_text = (\<lambda>v. ''text''), json_text = (\<lambda>v. ''json''), utf8_bytes = (\<lambda>t. int (length t)),
     secret_of = (\<lambda>v. Inr ''secret''), base64 = (\<lambda>t. t), null_refused = ''null'', double_key = ''double'', net = (\<lambda>t. ex_env)\<rparr>"

definition demo_ctx :: "request_context option" where
  "demo_ctx = Some \<lparr>userId = ''u1'', organizationId = ''acme'', roleKey = ''owner'', permissions = [], requestId = ''q1'', ip = None, userAgent = None\<rparr>"

definition demo_binding :: sandbox_binding where
  "demo_binding = \<lparr>b_extension = ''x1'', b_slug = ''mail'', b_version = ''1.0.0'', b_capabilities = [''can_persist_state''],
     b_limits = PLATFORM_LIMITS, b_dryRun = False, b_contribution = None\<rparr>"

definition demo_sandbox :: "unit sandbox" where
  "demo_sandbox = \<lparr>sb_keyspace = [], sb_contributed = [], sb_calls = [], sb_shared = (\<lambda>k. 0), sb_local = \<lparr>entries = [], weight = 0, evictions = 0, limit = LOCAL_COUNTER_LIMIT, weigh = None, on_evict = []\<rparr>,
     sb_next = 0, sb_wire = [], sb_services = ()\<rparr>"

definition demo_set :: obj where "demo_set = [(''key'', JStr ''k''), (''value'', JBool True)]"

lemma demo_tenant: "tenant demo_ctx = Inr ''acme''"
  by (simp add: demo_ctx_def tenant_def require_def bindE_def)

lemma demo_allowed: "authorize [''can_persist_state''] ''state.set'' = None" "authorize [''can_persist_state''] ''state.get'' = None"
  by (auto simp: authorize_None CAPABILITIES_def can_persist_state_def intro!: bexI [of _ can_persist_state])

lemma demo_starts: "\<not> starts_with ''http.'' ''state.set''" "\<not> starts_with ''http.'' ''state.get''"
  by code_simp+

section \<open>One record for every call\<close>

text \<open>What a call may touch besides its record and the counters.\<close>

definition reach :: "'w sandbox \<Rightarrow> keyspace_data table \<times> contribution_data table \<times> sent list \<times> 'w" where
  "reach s = (sb_keyspace s, sb_contributed s, sb_wire s, sb_services s)"

text \<open>The log and the shared counters.\<close>

definition books :: "'w sandbox \<Rightarrow> host_call table \<times> (string \<Rightarrow> int)" where
  "books s = (sb_calls s, sb_shared s)"

lemma calls_leaves [leaves_intros]:
  "leaves books (ask env ctx c)" "leaves books (update_entry ctx i v n)" "leaves books (create_entry env ctx d)"
  "leaves books (drop_state ctx ext key)" "leaves books (send_out env tm rq)" "leaves books (liftH x)"
  by (auto simp: leaves_def ask_def update_entry_def create_entry_def drop_state_def send_out_def liftH_def comp_eval books_def
      split: prod.split sum.split)

lemma leaves_opt [leaves_intros]:
  "leaves f m \<Longrightarrow> (\<And>a. leaves f (n a)) \<Longrightarrow> leaves f (case x of None \<Rightarrow> m | Some a \<Rightarrow> n a)"
  by (cases x) simp_all

lemma leaves_pr [leaves_intros]: "(\<And>a b. leaves f (n a b)) \<Longrightarrow> leaves f (case x of (a, b) \<Rightarrow> n a b)"
  by (cases x) simp_all

lemma leaves_parts [leaves_intros]:
  "(\<And>t. leaves f (k t)) \<Longrightarrow> leaves f (liftH (required args name)) \<Longrightarrow> leaves f (with_text args name k)"
  "leaves f m \<Longrightarrow> leaves f (guardWrite b m)"
  unfolding with_text_def guardWrite_def by (intro leaves_intros; assumption)+

lemma leaves_fetch_as [leaves_intros]:
  assumes "leaves f (liftH (required args ''credential''))" and "\<And>c. leaves f (ask env ctx c)" and "\<And>c. leaves f (egress env ctx tm b args c)"
  shows "leaves f (fetch_as env ctx tm b args)"
proof -
  have "leaves f (case found of JArr (c # cs) \<Rightarrow> egress env ctx tm b args (Some c) | _ \<Rightarrow> throwS (Plain m))" for found m
    by (auto intro!: assms leaves_intros split: json.split list.split)
  then show ?thesis unfolding fetch_as_def by (intro leaves_intros assms)
qed

lemma calls_handlers [leaves_intros]:
  "leaves books (get_handler ctx b args)" "leaves books (set_handler env ctx b args)" "leaves books (delete_handler ctx b args)"
  "leaves books (keys_handler ctx b args)" "leaves books (egress env ctx tm b args cr)" "leaves books (describe_org env ctx)"
  "leaves books (list_triggers ctx b)" "leaves books (list_credentials env ctx)"
  unfolding get_handler_def set_handler_def delete_handler_def keys_handler_def egress_def egress_headers_def describe_org_def
    list_triggers_def list_credentials_def put_state_def Let_def
  by (intro leaves_intros)+

lemma handlers_write_no_record: "list_all (\<lambda>(meth, m). leaves books m) (handlers env ctx tm b args)"
  unfolding handlers_def list.pred_inject prod.case by (intro conjI leaves_intros list.pred_inject(1))

lemma recorded:
  assumes "tenant ctx = Inr org"
  shows "\<exists>c. sb_calls (record_call env ctx tm b meth d reason args s) = sb_calls s @ [c] \<and> row_org c = org
    \<and> h_extension (contents c) = b_extension b \<and> h_method (contents c) = meth \<and> h_decision (contents c) = d
    \<and> h_arguments (contents c) = preview env args \<and> h_createdAt (contents c) = tm"
    and "reach (record_call env ctx tm b meth d reason args s) = reach s"
    and "sb_shared (record_call env ctx tm b meth d reason args s) = sb_shared s"
  using assms by (simp_all add: record_call_def create_row_def reach_def)

lemma consumed:
  "reach (snd (consume env tm key most s)) = reach s" "sb_calls (snd (consume env tm key most s)) = sb_calls s"
  by (auto simp: consume_def consume_locally_def reach_def Let_def split: prod.split option.split)

text \<open>The verdict of a call, as its record has it.\<close>

definition verdict_fits :: "string \<Rightarrow> sandbox_decision \<Rightarrow> host_error + json \<Rightarrow> bool" where
  "verdict_fits meth d r \<longleftrightarrow>
     (case d of ALLOWED \<Rightarrow> (\<exists>v. r = Inr v) | DENIED \<Rightarrow> (\<exists>m. r = Inl (Denied meth m))
      | THROTTLED \<Rightarrow> (\<exists>l m. r = Inl (Limit l m)) | FAILED \<Rightarrow> (\<exists>m. r = Inl (Plain m)))"

definition one_record :: "'w sandbox_env \<Rightarrow> string \<Rightarrow> int \<Rightarrow> sandbox_binding \<Rightarrow> string \<Rightarrow> obj \<Rightarrow> host_error + json
    \<Rightarrow> 'w sandbox \<Rightarrow> 'w sandbox \<Rightarrow> bool" where
  "one_record env org tm b meth args r s s' \<longleftrightarrow>
     (\<exists>c. sb_calls s' = sb_calls s @ [c] \<and> row_org c = org \<and> h_extension (contents c) = b_extension b
        \<and> h_method (contents c) = meth \<and> h_arguments (contents c) = preview env args \<and> h_createdAt (contents c) = tm
        \<and> verdict_fits meth (h_decision (contents c)) r)"

lemma dispatched:
  assumes "tenant ctx = Inr org" and "authorize (b_capabilities b) meth = None" and "dispatch env ctx tm b meth args s = (r, s')"
  shows "one_record env org tm b meth args r s s'"
    and "r \<noteq> Inl (Denied x y)" and "r = Inl (Limit l y) \<Longrightarrow> l \<noteq> ''callsPerMinute'' \<and> l \<noteq> ''httpRequestsPerMinute''"
proof -
  obtain m where m: "(meth, m) \<in> set (handlers env ctx tm b args)" "map_of (handlers env ctx tm b args) meth = Some m"
    using handled [OF assms(2), of env ctx tm b args] by blast
  have honest: "honest m" using honest_handlers [of env ctx tm b args] m(1) by (auto simp: list_all_iff)
  have calls: "leaves books m" using handlers_write_no_record [of env ctx tm b args] m(1) by (auto simp: list_all_iff)
  obtain r0 s0 where 0: "m s = (r0, s0)" by (cases "m s")
  obtain r1 where 1: "in_time env tm b meth m s = (r1, s0)"
    "r1 = r0 \<or> (\<exists>y. r1 = Inl (Limit ''timeoutMs'' y))" using 0 by (cases "overruns env tm meth") (auto simp: in_time_def)
  have s0: "sb_calls s0 = sb_calls s" using leavesD [OF calls 0] by (simp add: books_def)
  have kind: "case e of Denied x y \<Rightarrow> False | Limit l y \<Rightarrow> l = ''storageBytes'' \<or> l = ''storageKeys'' \<or> l = ''timeoutMs'' | Plain y \<Rightarrow> True"
    if "r1 = Inl e" for e
  proof (cases "r1 = r0")
    case True
    with that 0 have "m s = (Inl e, s0)" by simp
    with honest have "case e of Denied x y \<Rightarrow> False | Limit l y \<Rightarrow> l = ''storageBytes'' \<or> l = ''storageKeys'' | Plain y \<Rightarrow> True"
      unfolding honest_def by blast
    then show ?thesis by (cases e) auto
  next
    case False
    with that 1(2) show ?thesis by auto
  qed
  have r: "r = r1" using assms(3) m(2) 1(1) by (auto simp: dispatch_def split: sum.splits)
  show "r \<noteq> Inl (Denied x y)" "r = Inl (Limit l y) \<Longrightarrow> l \<noteq> ''callsPerMinute'' \<and> l \<noteq> ''httpRequestsPerMinute''"
    using kind [of "Denied x y"] kind [of "Limit l y"] by (auto simp: r)
  show "one_record env org tm b meth args r s s'"
  proof (cases r1)
    case (Inl e)
    with assms(3) m(2) 1(1) have "s' = record_call env ctx tm b meth (decision_of e) (Some (host_message e)) args s0" by (simp add: dispatch_def)
    with recorded(1) [OF assms(1), of env tm b meth "decision_of e" "Some (host_message e)" args s0] kind [OF Inl] s0 Inl show ?thesis
      by (cases e) (auto simp: one_record_def verdict_fits_def decision_of_def r)
  next
    case (Inr v)
    with assms(3) m(2) 1(1) have "s' = record_call env ctx tm b meth ALLOWED None args s0" by (simp add: dispatch_def)
    with recorded(1) [OF assms(1), of env tm b meth ALLOWED None args s0] s0 Inr show ?thesis
      by (auto simp: one_record_def verdict_fits_def r)
  qed
qed



section \<open>What goes out\<close>

definition agent :: "sandbox_binding \<Rightarrow> string" where
  "agent b = ''PRISM-X-Extension/'' @ b_slug b @ ''@'' @ b_version b"

definition marked :: "'w sandbox_env \<Rightarrow> int \<Rightarrow> sandbox_binding \<Rightarrow> sent list \<Rightarrow> bool" where
  "marked env tm b q \<longleftrightarrow> length q \<le> 1
     \<and> list_all (\<lambda>x. approved (net env tm) default_policy x \<and> map_of (st_own_headers x) ''user-agent'' = Some (agent b)) q"

lemma map_of_kept: "(\<And>v. P (k, v)) \<Longrightarrow> map_of (filter P m) k = map_of m k"
  by (induction m) auto

lemma agent_kept: "map_of (own_headers (follow u nxt st s)) ''user-agent'' = map_of (own_headers s) ''user-agent''"
proof -
  have "\<not> credential_header ''user-agent''" by code_simp
  then show ?thesis by (auto simp: follow_def Let_def withoutCredentials_def del_def map_of_kept)
qed

lemma request_agent:
  assumes "map_of (or_default (rq_headers rq) []) ''user-agent'' = Some ua"
  shows "list_all (\<lambda>q. map_of (st_own_headers q) ''user-agent'' = Some ua) (trace (snd (request e rq)))"
  by (rule request_invariant [of "\<lambda>s. map_of (own_headers s) ''user-agent'' = Some ua
      \<and> list_all (\<lambda>q. map_of (st_own_headers q) ''user-agent'' = Some ua) (trace s)"])
    (simp_all add: agent_kept, simp_all add: start_def assms)

lemma agent_header:
  "map_of hs ''user-agent'' = Some ua \<Longrightarrow> map_of (add_headers tx cred given hs) ''user-agent'' = Some ua"
  by (induction tx cred given hs rule: add_headers.induct) (auto simp: Let_def)

lemma agent_own: "map_of (own_headers_of env b cred args) ''user-agent'' = Some (agent b)"
  unfolding own_headers_of_def by (rule agent_header) (simp add: agent_def)

lemma wire_leaves [leaves_intros]:
  "leaves sb_wire (ask env ctx c)" "leaves sb_wire (update_entry ctx i v n)" "leaves sb_wire (create_entry env ctx d)"
  "leaves sb_wire (drop_state ctx ext key)" "leaves sb_wire (liftH x)"
  by (auto simp: leaves_def ask_def update_entry_def create_entry_def drop_state_def liftH_def comp_eval split: prod.split sum.split)

lemma wire_handlers [leaves_intros]:
  "leaves sb_wire (get_handler ctx b args)" "leaves sb_wire (set_handler env ctx b args)" "leaves sb_wire (delete_handler ctx b args)"
  "leaves sb_wire (keys_handler ctx b args)" "leaves sb_wire (egress_headers env ctx b args cr)" "leaves sb_wire (describe_org env ctx)"
  "leaves sb_wire (list_triggers ctx b)" "leaves sb_wire (list_credentials env ctx)"
  unfolding get_handler_def set_handler_def delete_handler_def keys_handler_def egress_headers_def describe_org_def
    list_triggers_def list_credentials_def put_state_def Let_def
  by (intro leaves_intros)+

lemma silent_handlers: "list_all (\<lambda>(meth, m). meth \<noteq> ''http.fetch'' \<longrightarrow> meth \<noteq> ''http.fetchAs'' \<longrightarrow> leaves sb_wire m) (handlers env ctx tm b args)"
  unfolding handlers_def list.pred_inject prod.case
  by (intro conjI impI list.pred_inject(1); (simp; fail)?; (intro leaves_intros)?)

lemma egress_headers_agent:
  assumes "egress_headers env ctx b args cr s = (Inr hs, s1)"
  shows "map_of hs ''user-agent'' = Some (agent b)"
  using assms by (auto simp: egress_headers_def doneS_def agent_own elim!: bindS_cases split: option.splits)

definition sends :: "(sent list \<Rightarrow> bool) \<Rightarrow> ('w, 'a) host \<Rightarrow> bool" where
  "sends Q m \<longleftrightarrow> (\<forall>s. \<exists>q. sb_wire (snd (m s)) = sb_wire s @ q \<and> Q q)"

definition goes_out :: "'w sandbox_env \<Rightarrow> int \<Rightarrow> sandbox_binding \<Rightarrow> sent list \<Rightarrow> bool" where
  "goes_out env tm b q \<longleftrightarrow> marked env tm b q \<and> (q = [] \<or> \<not> b_dryRun b)"

lemma nothing_goes_out [simp]: "goes_out env tm b []"
  by (simp add: goes_out_def marked_def)

lemma sends_leaves: "leaves sb_wire m \<Longrightarrow> Q [] \<Longrightarrow> sends Q m"
  by (auto simp: sends_def leaves_def)

lemma send_out_marked:
  assumes "map_of hs ''user-agent'' = Some (agent b)"
  shows "\<exists>q. sb_wire (snd (send_out env tm (outbound_for b args u hs) s)) = sb_wire s @ q \<and> marked env tm b q"
proof -
  let ?rq = "outbound_for b args u hs"
  let ?q = "trace (snd (OutboundHttp.request (net env tm) ?rq))"
  have "length ?q \<le> 1"
    using hops_length [of "net env tm" ?rq _ 0 _ 0 "start ?rq"] by (simp add: request_def outbound_for_def or_default_def Let_def)
  moreover have "list_all (\<lambda>q. map_of (st_own_headers q) ''user-agent'' = Some (agent b)) ?q"
    by (rule request_agent) (simp add: outbound_for_def or_default_def Let_def assms)
  moreover have "list_all (approved (net env tm) default_policy) ?q"
    using request_approved [of "net env tm" ?rq] by (simp add: outbound_for_def Let_def)
  ultimately have "marked env tm b ?q" by (simp add: marked_def list_all_iff)
  then show ?thesis by (auto simp: send_out_def split: prod.split)
qed

lemma egress_sends: "sends (goes_out env tm b) (egress env ctx tm b args cr)"
  unfolding sends_def
proof
  fix s
  let ?v = "validateUrl (parse_url (net env tm)) (text_arg args ''url'' []) default_policy"
  obtain r s1 where h: "egress_headers env ctx b args cr s = (r, s1)" by (cases "egress_headers env ctx b args cr s")
  then have wire: "sb_wire s1 = sb_wire s" by (rule leavesD [OF wire_handlers(5)])
  show "\<exists>q. sb_wire (snd (egress env ctx tm b args cr s)) = sb_wire s @ q \<and> goes_out env tm b q"
  proof (cases ?v)
    case (Inl e)
    then show ?thesis by (intro exI [of _ "[]"]) (simp add: egress_def liftH_def bindS_def readS_def)
  next
    case v: (Inr v)
    show ?thesis
    proof (cases r)
      case (Inl e)
      with v h wire show ?thesis by (intro exI [of _ "[]"]) (simp add: egress_def liftH_def bindS_def readS_def)
    next
      case (Inr hs)
      with v h have run: "egress env ctx tm b args cr s = (if b_dryRun b then (Inr (JObj [(''status'', JNum (Fin 0)), (''headers'', JObj []), (''body'', JStr [])]), s1)
          else send_out env tm (outbound_for b args (href (uv_url v)) hs) s1)"
        by (simp add: egress_def liftH_def bindS_def readS_def doneS_def)
      show ?thesis
      proof (cases "b_dryRun b")
        case True
        with run wire show ?thesis by (intro exI [of _ "[]"]) simp
      next
        case False
        with run wire send_out_marked [OF egress_headers_agent [OF h [unfolded Inr]], of env tm args "href (uv_url v)" s1]
        show ?thesis by (simp add: goes_out_def)
      qed
    qed
  qed
qed

lemma fetch_as_sends: "sends (goes_out env tm b) (fetch_as env ctx tm b args)"
  unfolding sends_def
proof
  fix s
  show "\<exists>q. sb_wire (snd (fetch_as env ctx tm b args s)) = sb_wire s @ q \<and> goes_out env tm b q"
  proof (cases "required args ''credential''")
    case (Inl e)
    then show ?thesis by (intro exI [of _ "[]"]) (simp add: fetch_as_def with_text_def liftH_def bindS_def readS_def)
  next
    case (Inr name)
    obtain r s1 where a: "ask env ctx (CredentialsNamed name) s = (r, s1)" by (cases "ask env ctx (CredentialsNamed name) s")
    then have wire: "sb_wire s1 = sb_wire s" by (rule leavesD [OF wire_leaves(1)])
    show ?thesis
    proof (cases "\<exists>c cs. r = Inr (JArr (c # cs))")
      case True
      then obtain c where "fetch_as env ctx tm b args s = egress env ctx tm b args (Some c) s1"
        using Inr a by (auto simp: fetch_as_def with_text_def liftH_def bindS_def readS_def)
      then show ?thesis using egress_sends [of env tm b ctx args "Some c"] wire by (simp add: sends_def) metis
    next
      case False
      then have "snd (fetch_as env ctx tm b args s) = s1"
        using Inr a by (auto simp: fetch_as_def with_text_def liftH_def bindS_def readS_def throwS_def split: sum.splits json.splits list.splits)
      with wire show ?thesis by (intro exI [of _ "[]"]) simp
    qed
  qed
qed

lemma marked_safe: "marked env tm b q \<Longrightarrow> list_all (\<lambda>x. \<not> floored (classifyAddress (st_pinned x))) q"
  using gate.floor_denied unfolding marked_def list_all_iff approved_def by (metis Inl_Inr_False)

text \<open>C19: Extension code reaches the network only through the guarded client, once for each call and under its own name.
  A call sends at most one request: it is to a URL that was validated and pinned to an address the
  policy permits, so never an internal one; its \<open>user-agent\<close> is the extension's own, whatever headers the code asked for; and
  nothing is sent unless the call is an outbound one that the grant covers and the binding is not a dry run.\<close>

theorem one_marked_request_for_a_call:
  "\<exists>q. sb_wire (snd (invoke env ctx tm b meth args s)) = sb_wire s @ q
     \<and> marked env tm b q \<and> list_all (\<lambda>x. \<not> floored (classifyAddress (st_pinned x))) q
     \<and> (q = [] \<or> \<not> b_dryRun b \<and> authorize (b_capabilities b) meth = None \<and> meth \<in> {''http.fetch'', ''http.fetchAs''})"
proof -
  have rec: "sb_wire (record_call env ctx tm b meth d reason args x) = sb_wire x" for d reason x
    by (auto simp: record_call_def split: prod.split sum.split)
  have con: "sb_wire (snd (consume env tm k most x)) = sb_wire x" for k most x
    using consumed(1) [of env tm k most x] by (simp add: reach_def)
  have handler: "sends (\<lambda>q. goes_out env tm b q \<and> (q = [] \<or> meth \<in> {''http.fetch'', ''http.fetchAs''})) m"
    if "map_of (handlers env ctx tm b args) meth = Some m" for m
  proof (cases "meth \<in> {''http.fetch'', ''http.fetchAs''}")
    case True
    then have "m = egress env ctx tm b args None \<or> m = fetch_as env ctx tm b args" using that by (auto simp: handlers_def)
    then show ?thesis using True egress_sends [of env tm b ctx args None] fetch_as_sends [of env tm b ctx args] by auto
  next
    case False
    with that silent_handlers [of env ctx tm b args] have "leaves sb_wire m" by (auto simp: list_all_iff dest!: map_of_SomeD)
    then show ?thesis by (rule sends_leaves) simp
  qed
  have dispatches: "\<exists>q. sb_wire (snd (dispatch env ctx tm b meth args x)) = sb_wire x @ q
      \<and> goes_out env tm b q \<and> (q = [] \<or> meth \<in> {''http.fetch'', ''http.fetchAs''})" for x
  proof (cases "map_of (handlers env ctx tm b args) meth")
    case None
    then show ?thesis by (intro exI [of _ "[]"]) (simp add: dispatch_def denied_def rec)
  next
    case (Some m)
    obtain r y where y: "m x = (r, y)" by (cases "m x")
    obtain r' where "in_time env tm b meth m x = (r', y)" using y by (cases "overruns env tm meth") (auto simp: in_time_def)
    with Some have "sb_wire (snd (dispatch env ctx tm b meth args x)) = sb_wire y" by (cases r') (simp_all add: dispatch_def rec)
    with handler [OF Some] y show ?thesis unfolding sends_def by (metis snd_conv)
  qed
  have "\<exists>q. sb_wire (snd (invoke env ctx tm b meth args s)) = sb_wire s @ q \<and> goes_out env tm b q
      \<and> (q = [] \<or> authorize (b_capabilities b) meth = None \<and> meth \<in> {''http.fetch'', ''http.fetchAs''})"
  proof (cases "authorize (b_capabilities b) meth")
    case (Some m)
    then show ?thesis by (intro exI [of _ "[]"]) (simp add: invoke_def denied_def rec)
  next
    case None
    obtain p1 s1 where 1: "consume env tm (b_extension b @ '':all'') (callsPerMinute (b_limits b)) s = (p1, s1)"
      by (cases "consume env tm (b_extension b @ '':all'') (callsPerMinute (b_limits b)) s")
    obtain p2 s2 where 2: "consume env tm (b_extension b @ '':http'') (httpRequestsPerMinute (b_limits b)) s1 = (p2, s2)"
      by (cases "consume env tm (b_extension b @ '':http'') (httpRequestsPerMinute (b_limits b)) s1")
    have w: "sb_wire s1 = sb_wire s" "sb_wire s2 = sb_wire s" using con 1 2 by (metis snd_conv)+
    show ?thesis
    proof (cases "p1 \<and> (\<not> starts_with ''http.'' meth \<or> p2)")
      case True
      then obtain x where "snd (invoke env ctx tm b meth args s) = snd (dispatch env ctx tm b meth args x)" "sb_wire x = sb_wire s"
        using None 1 2 w by (cases "starts_with ''http.'' meth") (auto simp: invoke_def)
      with dispatches [of x] None show ?thesis by auto
    next
      case False
      then have "sb_wire (snd (invoke env ctx tm b meth args s)) = sb_wire s"
        using None 1 2 w by (cases p1) (auto simp: invoke_def throttled_def rec)
      then show ?thesis by (intro exI [of _ "[]"]) simp
    qed
  qed
  then show ?thesis using marked_safe unfolding goes_out_def by blast
qed

section \<open>What the log shows\<close>

text \<open>Arguments that differ only in values that must not be logged.\<close>

definition same_headers :: "json \<Rightarrow> json \<Rightarrow> bool" where
  "same_headers v v' \<longleftrightarrow> is_object v \<and> is_object v' \<and> map fst (entries_of v) = map fst (entries_of v')"

definition alike :: "obj \<Rightarrow> obj \<Rightarrow> bool" where
  "alike = list_all2 (\<lambda>(k, v) (k', v'). k = k' \<and> (v = v' \<or> sensitive k \<or> k = ''headers'' \<and> same_headers v v'))"



text \<open>Names inside a value are not looked at.\<close>

lemma nested_secrets_are_logged:
  "preview demo_env [(''body'', JObj [(''apiToken'', JStr ''abc'')])] = [(''body'', JObj [(''apiToken'', JStr ''abc'')])]"
proof -
  have "\<not> sensitive ''body''" by code_simp
  then show ?thesis by (simp add: preview_def preview_value_def demo_env_def MAX_PREVIEW_CHARS_def)
qed

section \<open>The rate of calls\<close>

text \<open>One call of an extension.\<close>

type_synonym host_request = "request_context option \<times> int \<times> sandbox_binding \<times> string \<times> obj"

fun sandbox_step :: "'w sandbox_env \<Rightarrow> host_request \<Rightarrow> ('w, json) host" where
  "sandbox_step env (ctx, tm, b, meth, args) s = invoke env ctx tm b meth args s"

text \<open>The calls of an extension in a minute that were carried out: all of them, or the outbound ones.\<close>

definition carried :: "bool \<Rightarrow> string \<Rightarrow> int \<Rightarrow> host_call row \<Rightarrow> bool" where
  "carried http ext w c \<longleftrightarrow> h_extension (contents c) = ext \<and> h_createdAt (contents c) div 60000 = w
     \<and> h_decision (contents c) \<in> {ALLOWED, FAILED} \<and> (http \<longrightarrow> starts_with ''http.'' (h_method (contents c)))"

definition calls_run :: "bool \<Rightarrow> string \<Rightarrow> int \<Rightarrow> 'w sandbox \<Rightarrow> int" where
  "calls_run http ext w s = int (length (filter (carried http ext w) (sb_calls s)))"

definition counter :: "bool \<Rightarrow> string \<Rightarrow> int \<Rightarrow> 'w sandbox \<Rightarrow> int" where
  "counter http ext w s = sb_shared s (window_key (ext @ (if http then '':http'' else '':all'')) (w * 60000))"

definition within_rate :: "(bool \<Rightarrow> string \<Rightarrow> int) \<Rightarrow> 'w sandbox \<Rightarrow> bool" where
  "within_rate L s \<longleftrightarrow> (\<forall>http ext w. calls_run http ext w s \<le> L http ext \<and> calls_run http ext w s \<le> counter http ext w s)"

fun rated :: "'w sandbox_env \<Rightarrow> (bool \<Rightarrow> string \<Rightarrow> int) \<Rightarrow> host_request \<Rightarrow> bool" where
  "rated env L (ctx, tm, b, meth, args) \<longleftrightarrow>
     cache_up env tm \<and> callsPerMinute (b_limits b) \<le> L False (b_extension b) \<and> httpRequestsPerMinute (b_limits b) \<le> L True (b_extension b)"

lemma window_minute: "window_key k (tm div 60000 * 60000) = window_key k tm"
  by (simp add: window_key_def)

lemma run_recorded:
  "calls_run http ext w (record_call env ctx tm b meth d reason args s) \<le> calls_run http ext w s
     + (if ext = b_extension b \<and> w = tm div 60000 \<and> d \<in> {ALLOWED, FAILED} \<and> (http \<longrightarrow> starts_with ''http.'' meth) then 1 else 0)"
  by (auto simp: calls_run_def record_call_def create_row_def carried_def split: prod.split sum.split)

lemma counter_recorded [simp]: "counter http ext w (record_call env ctx tm b meth d reason args s) = counter http ext w s"
  by (auto simp: counter_def record_call_def split: prod.split sum.split)

lemma run_dispatched:
  "calls_run http ext w (snd (dispatch env ctx tm b meth args s)) \<le> calls_run http ext w s
     + (if ext = b_extension b \<and> w = tm div 60000 \<and> (http \<longrightarrow> starts_with ''http.'' meth) then 1 else 0)"
  "counter http ext w (snd (dispatch env ctx tm b meth args s)) = counter http ext w s"
proof -
  let ?more = "if ext = b_extension b \<and> w = tm div 60000 \<and> (http \<longrightarrow> starts_with ''http.'' meth) then 1 else 0 :: int"
  have rec: "calls_run http ext w (record_call env ctx tm b meth d reason args x) \<le> calls_run http ext w s + ?more
      \<and> counter http ext w (record_call env ctx tm b meth d reason args x) = counter http ext w s"
    if "books x = books s" for d reason x
  proof -
    have "calls_run http ext w x = calls_run http ext w s" "counter http ext w x = counter http ext w s"
      using that by (simp_all add: calls_run_def counter_def books_def)
    with run_recorded [of http ext w env ctx tm b meth d reason args x] show ?thesis by (auto split: if_splits)
  qed
  have same: "books x = books s" if "map_of (handlers env ctx tm b args) meth = Some m" "m s = (r, x)" for m r x
  proof -
    have "leaves books m" using that(1) handlers_write_no_record [of env ctx tm b args] by (auto simp: list_all_iff dest!: map_of_SomeD)
    then show ?thesis using that(2) by (rule leavesD)
  qed
  have "calls_run http ext w (snd (dispatch env ctx tm b meth args s)) \<le> calls_run http ext w s + ?more
      \<and> counter http ext w (snd (dispatch env ctx tm b meth args s)) = counter http ext w s"
  proof (cases "map_of (handlers env ctx tm b args) meth")
    case None
    with rec [of s] show ?thesis by (simp add: dispatch_def denied_def)
  next
    case (Some m)
    obtain r x where x: "m s = (r, x)" by (cases "m s")
    then have "books x = books s" by (rule same [OF Some])
    obtain r' where "in_time env tm b meth m s = (r', x)" using x by (cases "overruns env tm meth") (auto simp: in_time_def)
    with Some rec [OF \<open>books x = books s\<close>] show ?thesis by (cases r') (simp_all add: dispatch_def)
  qed
  then show "calls_run http ext w (snd (dispatch env ctx tm b meth args s)) \<le> calls_run http ext w s + ?more"
    "counter http ext w (snd (dispatch env ctx tm b meth args s)) = counter http ext w s" by blast+
qed

text \<open>Counting a call makes room for one more, or refuses.\<close>

lemma counted:
  assumes "cache_up env tm" and "consume env tm (b_extension b @ (if http then '':http'' else '':all'')) most s = (p, s1)"
  shows "sb_calls s1 = sb_calls s" and "counter h e w s \<le> counter h e w s1"
    and "counter http (b_extension b) (tm div 60000) s1 = counter http (b_extension b) (tm div 60000) s + 1"
    and "p \<longleftrightarrow> counter http (b_extension b) (tm div 60000) s1 \<le> most"
  using assms by (auto simp: consume_def Let_def counter_def window_minute)

lemma rate_step:
  assumes "within_rate L s" and "rated env L p"
  shows "within_rate L (snd (sandbox_step env p s))"
proof (cases p)
  case (fields ctx tm b meth args)
  let ?ext = "b_extension b" and ?w = "tm div 60000"
  have up: "cache_up env tm" using assms(2) fields by simp
  have safe: "within_rate L (record_call env ctx tm b meth d (Some m) args x)"
    if "sb_calls x = sb_calls s" "\<And>h e w. counter h e w s \<le> counter h e w x" "d \<notin> {ALLOWED, FAILED}" for x d m
    unfolding within_rate_def
  proof (intro allI)
    fix h e w
    have "calls_run h e w (record_call env ctx tm b meth d (Some m) args x) \<le> calls_run h e w s"
      using run_recorded [of h e w env ctx tm b meth d "Some m" args x] that(1,3) by (auto simp: calls_run_def split: if_splits)
    with that(2) [of h e w] assms(1) show "calls_run h e w (record_call env ctx tm b meth d (Some m) args x) \<le> L h e
        \<and> calls_run h e w (record_call env ctx tm b meth d (Some m) args x) \<le> counter h e w (record_call env ctx tm b meth d (Some m) args x)"
      unfolding within_rate_def counter_recorded by (meson order_trans)
  qed
  have go: "within_rate L (snd (dispatch env ctx tm b meth args x))"
    if "sb_calls x = sb_calls s" "\<And>h e w. counter h e w s \<le> counter h e w x"
      "\<And>h. (h \<longrightarrow> starts_with ''http.'' meth) \<Longrightarrow> counter h ?ext ?w s + 1 \<le> counter h ?ext ?w x \<and> counter h ?ext ?w s + 1 \<le> L h ?ext" for x
    unfolding within_rate_def
  proof (intro allI)
    fix h e w
    have x: "calls_run h e w x = calls_run h e w s" using that(1) by (simp add: calls_run_def)
    have s: "calls_run h e w s \<le> L h e" "calls_run h e w s \<le> counter h e w s" using assms(1) by (simp_all add: within_rate_def)
    show "calls_run h e w (snd (dispatch env ctx tm b meth args x)) \<le> L h e
        \<and> calls_run h e w (snd (dispatch env ctx tm b meth args x)) \<le> counter h e w (snd (dispatch env ctx tm b meth args x))"
    proof (cases "e = ?ext \<and> w = ?w \<and> (h \<longrightarrow> starts_with ''http.'' meth)")
      case True
      with run_dispatched [of h e w env ctx tm b meth args x] that(3) [of h] x s show ?thesis by auto
    next
      case False
      with run_dispatched [of h e w env ctx tm b meth args x] that(2) [of h e w] x s show ?thesis by auto
    qed
  qed
  obtain p1 s1 where 1: "consume env tm (?ext @ (if False then '':http'' else '':all'')) (callsPerMinute (b_limits b)) s = (p1, s1)"
    by (cases "consume env tm (?ext @ (if False then '':http'' else '':all'')) (callsPerMinute (b_limits b)) s")
  obtain p2 s2 where 2: "consume env tm (?ext @ (if True then '':http'' else '':all'')) (httpRequestsPerMinute (b_limits b)) s1 = (p2, s2)"
    by (cases "consume env tm (?ext @ (if True then '':http'' else '':all'')) (httpRequestsPerMinute (b_limits b)) s1")
  note c1 = counted [OF up 1] and c2 = counted [OF up 2]
  have up1: "counter h e w s \<le> counter h e w s1" and up2: "counter h e w s \<le> counter h e w s2" for h e w
    using c1(2) [of h e w] c2(2) [of h e w] by simp_all
  have all: "counter False ?ext ?w s + 1 \<le> counter False ?ext ?w s1 \<and> counter False ?ext ?w s + 1 \<le> L False ?ext" if p1
    using that c1(3,4) assms(2) fields by simp
  have http: "counter True ?ext ?w s + 1 \<le> counter True ?ext ?w s2 \<and> counter True ?ext ?w s + 1 \<le> L True ?ext" if p2
    using that c2(3,4) c1(2) [of True ?ext ?w] assms(2) fields by simp
  have plain: "within_rate L (snd (dispatch env ctx tm b meth args s1))" if p1 "\<not> starts_with ''http.'' meth"
  proof (rule go [OF c1(1) up1])
    fix h assume "h \<longrightarrow> starts_with ''http.'' meth"
    with that(2) all [OF that(1)] show "counter h ?ext ?w s + 1 \<le> counter h ?ext ?w s1 \<and> counter h ?ext ?w s + 1 \<le> L h ?ext"
      by (cases h) auto
  qed
  have outbound: "within_rate L (snd (dispatch env ctx tm b meth args s2))" if p1 p2
  proof (rule go [OF _ up2])
    show "sb_calls s2 = sb_calls s" using c1(1) c2(1) by simp
    show "counter h ?ext ?w s + 1 \<le> counter h ?ext ?w s2 \<and> counter h ?ext ?w s + 1 \<le> L h ?ext" for h
      using all [OF that(1)] c2(2) [of False ?ext ?w] http [OF that(2)] by (cases h) auto
  qed
  have refused: "within_rate L (record_call env ctx tm b meth d (Some m) args x)" if "d \<in> {DENIED, THROTTLED}" "x \<in> {s, s1, s2}" for d m x
  proof (rule safe)
    show "sb_calls x = sb_calls s" using that(2) c1(1) c2(1) by auto
    show "counter h e w s \<le> counter h e w x" for h e w using that(2) up1 [of h e w] up2 [of h e w] by auto
    show "d \<notin> {ALLOWED, FAILED}" using that(1) by auto
  qed
  consider (plain) "p1" "\<not> starts_with ''http.'' meth" "snd (invoke env ctx tm b meth args s) = snd (dispatch env ctx tm b meth args s1)"
    | (outbound) p1 p2 "snd (invoke env ctx tm b meth args s) = snd (dispatch env ctx tm b meth args s2)"
    | (refusal) d m x where "d \<in> {DENIED, THROTTLED}" "x \<in> {s, s1, s2}"
        "snd (invoke env ctx tm b meth args s) = record_call env ctx tm b meth d (Some m) args x"
  proof (cases "authorize (b_capabilities b) meth")
    case (Some m)
    show thesis by (rule refusal [of DENIED s m]) (simp_all add: invoke_def denied_def Some)
  next
    case None
    have i: "invoke env ctx tm b meth args s =
      (if \<not> p1 then throttled env ctx tm b meth args ''callsPerMinute'' (over_limit (callsPerMinute (b_limits b)) ''host call'') s1
       else if \<not> starts_with ''http.'' meth then dispatch env ctx tm b meth args s1
       else if \<not> p2 then throttled env ctx tm b meth args ''httpRequestsPerMinute'' (over_limit (httpRequestsPerMinute (b_limits b)) ''outbound request'') s2
       else dispatch env ctx tm b meth args s2)"
      using None 1 2 by (simp add: invoke_def split: bool.split)
    show thesis
    proof (cases "p1 \<and> (\<not> starts_with ''http.'' meth \<or> p2)")
      case True
      with i plain outbound show thesis by (cases "starts_with ''http.'' meth") auto
    next
      case False
      show thesis
      proof (cases p1)
        case p1: True
        with False i show thesis by (intro refusal [of THROTTLED s2]) (auto simp: throttled_def)
      next
        case p1: False
        with i show thesis by (intro refusal [of THROTTLED s1]) (auto simp: throttled_def)
      qed
    qed
  qed
  then show ?thesis unfolding fields sandbox_step.simps
    by cases (simp_all add: plain outbound refused)
qed

interpretation rate: kept "within_rate L" "sandbox_step env" "rated env L" for L env
  by unfold_locales (rule rate_step)



end
