(* ===== verification/SandboxStorage.thy ===== *)
theory SandboxStorage
  imports SandboxSafety
begin

text \<open>
  What the sandbox promises extensions about their private keyspace: nobody else changes it, what was
  stored is read back, and what is held stays within the ceilings. The writing handlers are \<open>state.set\<close>
  and \<open>state.delete\<close>; \<open>wrote\<close> says what the first may leave, and \<open>keyspace_invariant\<close> carries what both
  keep through a call.
\<close>

lemma find_append: "List.find P (xs @ ys) = (case List.find P xs of None \<Rightarrow> List.find P ys | Some x \<Rightarrow> Some x)"
  by (induction xs) auto

lemma find_rewritten:
  "List.find Q xs = Some x \<Longrightarrow> R x \<Longrightarrow> (\<And>y. Q (g y) = Q y) \<Longrightarrow> List.find Q (map (\<lambda>y. if R y then g y else y) xs) = Some (g x)"
  by (induction xs) (auto split: if_splits)

section \<open>The keyspace, by organization and extension\<close>

definition owned_by :: "string \<Rightarrow> string \<Rightarrow> keyspace_data row \<Rightarrow> bool" where
  "owned_by org ext r \<longleftrightarrow> row_org r = org \<and> y_extension (contents r) = ext"

definition bytes_held :: "string \<Rightarrow> string \<Rightarrow> keyspace_data table \<Rightarrow> int" where
  "bytes_held org ext t = sum_list (map (\<lambda>r. y_bytes (contents r)) (filter (owned_by org ext) t))"

definition keys_held :: "string \<Rightarrow> string \<Rightarrow> keyspace_data table \<Rightarrow> int" where
  "keys_held org ext t = int (length (filter (owned_by org ext) t))"

lemma scope_owned:
  "satisfies_all (scope KEYSPACE org False [(''extensionId'', \<lambda>r. y_extension (contents r) = ext)]) = owned_by org ext"
  by (rule HOL.ext) (auto simp: scope_def Let_def KEYSPACE_def satisfies_all_def owned_by_def)

lemma scope_entry:
  "satisfies_all (scope KEYSPACE org False (entry_of ext key)) = (\<lambda>r. owned_by org ext r \<and> y_key (contents r) = key)"
  by (rule HOL.ext) (auto simp: scope_def Let_def KEYSPACE_def satisfies_all_def owned_by_def entry_of_def)

lemma usage_held: "tenant ctx = Inr org \<Longrightarrow> usage ctx ext s = Inr (bytes_held org ext (sb_keyspace s), keys_held org ext (sb_keyspace s))"
  by (simp add: usage_def bindE_def in_host_def Let_def scope_owned bytes_held_def keys_held_def)

lemma get_state_find:
  "tenant ctx = Inr org \<Longrightarrow> get_state ctx ext key s = Inr (List.find (\<lambda>r. owned_by org ext r \<and> y_key (contents r) = key) (sb_keyspace s))"
  by (simp add: get_state_def bindE_def in_host_def find_first_def scope_entry)

definition rewritten :: "json \<Rightarrow> int \<Rightarrow> keyspace_data row \<Rightarrow> keyspace_data row" where
  "rewritten v n r = r\<lparr>contents := (contents r)\<lparr>y_value := v, y_bytes := n\<rparr>\<rparr>"

lemma update_entry_table:
  assumes "tenant ctx = Inr org"
  shows "sb_keyspace (snd (update_entry ctx i v n s)) = map (\<lambda>r. if row_id r = i \<and> row_org r = org then rewritten v n r else r) (sb_keyspace s)"
    and "sb_next (snd (update_entry ctx i v n s)) = sb_next s"
  using assms by (auto simp: update_entry_def update_row_def update_many_def split_beta scope_by_id KEYSPACE_def rewritten_def)

text \<open>What a write to the keyspace leaves.\<close>

inductive wrote :: "'w sandbox_env \<Rightarrow> string \<Rightarrow> sandbox_binding \<Rightarrow> obj \<Rightarrow> 'w sandbox \<Rightarrow> 'w sandbox \<Rightarrow> bool"
  for env org b args s where
  nothing: "wrote env org b args s s"
| replaced: "List.find (\<lambda>r. owned_by org (b_extension b) r \<and> y_key (contents r) = text_arg args ''key'' []) (sb_keyspace s) = Some r \<Longrightarrow>
    n = utf8_bytes env (json_text env (coalesce (getp ''value'' args) Null)) \<Longrightarrow>
    bytes_held org (b_extension b) (sb_keyspace s) - y_bytes (contents r) + n \<le> storageBytes (b_limits b) \<Longrightarrow>
    sb_keyspace s' = map (\<lambda>x. if row_id x = row_id r \<and> row_org x = org
      then rewritten (json_column (coalesce (getp ''value'' args) Null)) n x else x) (sb_keyspace s) \<Longrightarrow>
    sb_next s' = sb_next s \<Longrightarrow> wrote env org b args s s'"
| added: "List.find (\<lambda>r. owned_by org (b_extension b) r \<and> y_key (contents r) = text_arg args ''key'' []) (sb_keyspace s) = None \<Longrightarrow>
    n = utf8_bytes env (json_text env (coalesce (getp ''value'' args) Null)) \<Longrightarrow>
    bytes_held org (b_extension b) (sb_keyspace s) + n \<le> storageBytes (b_limits b) \<Longrightarrow>
    keys_held org (b_extension b) (sb_keyspace s) + 1 \<le> storageKeys (b_limits b) \<Longrightarrow>
    sb_keyspace s' = sb_keyspace s @ [\<lparr>row_id = sb_new_id env (sb_next s), row_org = org, row_deleted = None,
      contents = \<lparr>y_extension = b_extension b, y_key = text_arg args ''key'' [],
        y_value = json_column (coalesce (getp ''value'' args) Null), y_bytes = n\<rparr>\<rparr>] \<Longrightarrow>
    sb_next s' = Suc (sb_next s) \<Longrightarrow> wrote env org b args s s'"

lemma set_writes:
  assumes "tenant ctx = Inr org"
  shows "wrote env org b args s (snd (set_handler env ctx b args s))"
    and "set_handler env ctx b args s = (Inr v, s1) \<Longrightarrow> \<not> b_dryRun b \<Longrightarrow>
      \<exists>r. List.find (\<lambda>r. owned_by org (b_extension b) r \<and> y_key (contents r) = text_arg args ''key'' []) (sb_keyspace s1) = Some r
        \<and> y_value (contents r) = json_column (coalesce (getp ''value'' args) Null)"
proof -
  let ?key = "text_arg args ''key'' []" and ?val = "coalesce (getp ''value'' args) Null"
  let ?n = "utf8_bytes env (json_text env ?val)" and ?ext = "b_extension b" and ?t = "sb_keyspace s"
  let ?Q = "\<lambda>r. owned_by org ?ext r \<and> y_key (contents r) = ?key"
  let ?found = "List.find ?Q ?t"
  let ?put = "put_state env ctx ?ext ?key ?val ?n"
  have run: "set_handler env ctx b args s =
    (if ?key = [] then (Inl (Plain (quoted ''key'' @ '' is required'')), s)
     else if bytes_held org ?ext ?t - bytes_of ?found + ?n > storageBytes (b_limits b)
     then (Inl (Limit ''storageBytes'' (''Storing '' @ quoted ?key @ '' would exceed the '' @ show_int (storageBytes (b_limits b)) @ '' byte limit'')), s)
     else if keys_held org ?ext ?t + (if ?found = None then 1 else 0) > storageKeys (b_limits b)
     then (Inl (Limit ''storageKeys'' (''Storing '' @ quoted ?key @ '' would exceed the '' @ show_int (storageKeys (b_limits b)) @ '' key limit'')), s)
     else if b_dryRun b then (Inr (JObj [(''stored'', JBool False), (''dryRun'', JBool True)]), s)
     else (bindS ?put (\<lambda>_. doneS (JObj [(''stored'', JBool True)]))) s)"
    by (simp add: set_handler_def with_text_def liftH_def required_def bindS_def readS_def Let_def usage_held [OF assms]
        get_state_find [OF assms] throwS_def doneS_def)
  have put: "?put s =
    (if ?val = Null then (Inl (Plain (null_refused env)), s)
     else case ?found of
            Some r \<Rightarrow> update_entry ctx (row_id r) (json_column ?val) ?n s
          | None \<Rightarrow> create_entry env ctx \<lparr>y_extension = ?ext, y_key = ?key, y_value = json_column ?val, y_bytes = ?n\<rparr> s)"
    by (simp add: put_state_def bindS_def readS_def get_state_find [OF assms] throwS_def split: option.split)
  have step: "snd (bindS ?put (\<lambda>_. doneS (JObj [(''stored'', JBool True)])) s) = snd (?put s)"
    by (auto simp: bindS_def doneS_def split: prod.split sum.split)
  have written: "wrote env org b args s (snd (?put s))"
    if "bytes_held org ?ext ?t - bytes_of ?found + ?n \<le> storageBytes (b_limits b)"
      "keys_held org ?ext ?t + (if ?found = None then 1 else 0) \<le> storageKeys (b_limits b)"
  proof (cases "?val = Null")
    case True
    then show ?thesis unfolding put by (simp add: wrote.nothing)
  next
    case False
    show ?thesis
    proof (cases ?found)
      case None
      show ?thesis
      proof (cases "list_ex (\<lambda>r. y_extension (contents r) = ?ext \<and> y_key (contents r) = ?key) ?t")
        case True
        with None False show ?thesis unfolding put by (simp add: create_entry_def wrote.nothing)
      next
        case fresh: False
        with None False that assms show ?thesis unfolding put
          by (auto intro!: wrote.added simp: create_entry_def create_row_def bytes_of_def)
      qed
    next
      case (Some r)
      with False that show ?thesis unfolding put
        by (auto intro!: wrote.replaced simp: bytes_of_def update_entry_table [OF assms])
    qed
  qed
  show "wrote env org b args s (snd (set_handler env ctx b args s))"
    unfolding run using written by (auto simp: wrote.nothing step)
  assume ok: "set_handler env ctx b args s = (Inr v, s1)" "\<not> b_dryRun b"
  then have "?put s = (Inr (), s1)"
    unfolding run by (auto simp: bindS_def doneS_def split: if_splits prod.splits sum.splits)
  then show "\<exists>r. List.find ?Q (sb_keyspace s1) = Some r \<and> y_value (contents r) = json_column ?val"
  proof (cases ?found)
    case None
    with \<open>?put s = (Inr (), s1)\<close> assms have "sb_keyspace s1 = ?t @ [\<lparr>row_id = sb_new_id env (sb_next s), row_org = org, row_deleted = None,
      contents = \<lparr>y_extension = ?ext, y_key = ?key, y_value = json_column ?val, y_bytes = ?n\<rparr>\<rparr>]"
      unfolding put by (auto simp: create_entry_def create_row_def split: if_splits)
    with None show ?thesis by (simp add: find_append owned_by_def)
  next
    case (Some r)
    with \<open>?put s = (Inr (), s1)\<close> have "s1 = snd (update_entry ctx (row_id r) (json_column ?val) ?n s)"
      unfolding put by (auto split: if_splits)
    then have t1: "sb_keyspace s1 = map (\<lambda>x. if row_id x = row_id r \<and> row_org x = org then rewritten (json_column ?val) ?n x else x) ?t"
      by (simp add: update_entry_table [OF assms])
    have "?Q r" using Some by (auto simp: find_Some_iff)
    then have "List.find ?Q (map (\<lambda>x. if row_id x = row_id r \<and> row_org x = org then rewritten (json_column ?val) ?n x else x) ?t)
        = Some (rewritten (json_column ?val) ?n r)"
      using Some by (intro find_rewritten) (auto simp: owned_by_def rewritten_def)
    with t1 show ?thesis by (simp add: rewritten_def)
  qed
qed

text \<open>A null is never stored, though its size is prepared.\<close>

lemma null_cannot_be_stored:
  assumes "tenant ctx = Inr org" and "coalesce (getp ''value'' args) Null = Null" and "\<not> b_dryRun b"
  shows "fst (set_handler env ctx b args s) \<noteq> Inr v"
  using assms(2,3)
  by (simp add: set_handler_def with_text_def liftH_def required_def bindS_def readS_def Let_def usage_held [OF assms(1)]
      get_state_find [OF assms(1)] put_state_def throwS_def)

section \<open>The storage ceiling\<close>

definition ids_sound :: "'w sandbox_env \<Rightarrow> 'w sandbox \<Rightarrow> bool" where
  "ids_sound env s \<longleftrightarrow> distinct (map row_id (sb_keyspace s)) \<and> (\<forall>r \<in> set (sb_keyspace s). \<exists>n < sb_next s. row_id r = sb_new_id env n)"

definition within_quota :: "'w sandbox_env \<Rightarrow> (string \<Rightarrow> int) \<Rightarrow> (string \<Rightarrow> int) \<Rightarrow> 'w sandbox \<Rightarrow> bool" where
  "within_quota env B K s \<longleftrightarrow>
     ids_sound env s \<and> (\<forall>r \<in> set (sb_keyspace s). 0 \<le> y_bytes (contents r))
     \<and> (\<forall>org ext. bytes_held org ext (sb_keyspace s) \<le> B ext \<and> keys_held org ext (sb_keyspace s) \<le> K ext)"

lemma untouched_rows:
  "row_id r \<notin> set (map row_id t) \<Longrightarrow> map (\<lambda>x. if row_id x = row_id r \<and> row_org x = org then g x else x) t = t"
  by (induction t) auto

lemma owned_rewritten [simp]: "owned_by org ext (rewritten v n r) = owned_by org ext r" "row_id (rewritten v n r) = row_id r"
  "y_bytes (contents (rewritten v n r)) = n" "y_key (contents (rewritten v n r)) = y_key (contents r)"
  by (simp_all add: owned_by_def rewritten_def)

lemma held_rewritten:
  assumes "distinct (map row_id t)" and "r \<in> set t" and "row_org r = org"
  shows "bytes_held o' e' (map (\<lambda>x. if row_id x = row_id r \<and> row_org x = org then rewritten v n x else x) t)
    = bytes_held o' e' t + (if owned_by o' e' r then n - y_bytes (contents r) else 0)"
    and "keys_held o' e' (map (\<lambda>x. if row_id x = row_id r \<and> row_org x = org then rewritten v n x else x) t) = keys_held o' e' t"
proof -
  let ?g = "\<lambda>x. if row_id x = row_id r \<and> row_org x = org then rewritten v n x else x"
  have own: "owned_by o' e' (?g x) = owned_by o' e' x" for x by simp
  show "keys_held o' e' (map ?g t) = keys_held o' e' t"
    by (simp add: keys_held_def filter_map comp_def own)
  show "bytes_held o' e' (map ?g t) = bytes_held o' e' t + (if owned_by o' e' r then n - y_bytes (contents r) else 0)"
    using assms(1,2)
  proof (induction t)
    case (Cons x t)
    show ?case
    proof (cases "x = r")
      case True
      with Cons.prems(1) untouched_rows [of r t org "rewritten v n"] assms(3) show ?thesis by (simp add: bytes_held_def)
    next
      case False
      with Cons.prems have "r \<in> set t" "row_id x \<noteq> row_id r" by (auto simp: image_iff)
      with Cons show ?thesis by (simp add: bytes_held_def)
    qed
  qed simp
qed

lemma held_filter:
  assumes "\<forall>r \<in> set t. 0 \<le> y_bytes (contents r)"
  shows "bytes_held org ext (filter P t) \<le> bytes_held org ext t" "keys_held org ext (filter P t) \<le> keys_held org ext t"
  using assms by (induction t) (auto simp: bytes_held_def keys_held_def)

lemma ids_wrote:
  assumes "wrote env org b args s s'" and "ids_sound env s" and "inj (sb_new_id env)"
  shows "ids_sound env s'"
  using assms(1)
proof cases
  case nothing
  with assms(2) show ?thesis by simp
next
  case (replaced r n)
  have "map row_id (sb_keyspace s') = map row_id (sb_keyspace s)" unfolding replaced(4) by simp
  moreover from this have "row_id ` set (sb_keyspace s') = row_id ` set (sb_keyspace s)" by (metis set_map)
  ultimately show ?thesis using assms(2) replaced(5) unfolding ids_sound_def by (metis image_iff)
next
  case (added n)
  have "sb_new_id env (sb_next s) \<notin> row_id ` set (sb_keyspace s)"
    using assms(2,3) by (fastforce simp: ids_sound_def dest: injD)
  moreover have "\<exists>k < Suc (sb_next s). row_id r = sb_new_id env k" if "r \<in> set (sb_keyspace s)" for r
    using that assms(2) unfolding ids_sound_def by (meson less_SucI)
  ultimately show ?thesis using assms(2) by (auto simp: ids_sound_def added(5,6))
qed

lemma others_wrote:
  assumes "wrote env org b args s s'" and "ids_sound env s" and "o' \<noteq> org \<or> e' \<noteq> b_extension b"
  shows "filter (owned_by o' e') (sb_keyspace s') = filter (owned_by o' e') (sb_keyspace s)"
  using assms(1)
proof cases
  case (replaced r n)
  have r: "r \<in> set (sb_keyspace s)" "owned_by org (b_extension b) r" using replaced(1) by (auto simp: find_Some_iff)
  have "(if row_id x = row_id r \<and> row_org x = org then rewritten v n x else x) = x"
    if "x \<in> set (sb_keyspace s)" "owned_by o' e' x" for x v
  proof -
    have "x \<noteq> r" using that(2) r(2) assms(3) by (auto simp: owned_by_def)
    then have "row_id x \<noteq> row_id r" using that(1) r(1) assms(2) by (auto simp: ids_sound_def distinct_map dest: inj_onD)
    then show ?thesis by simp
  qed
  then show ?thesis unfolding replaced(4)
    by (simp add: filter_map comp_def if_distrib [of "owned_by o' e'"] cong: if_cong) (rule map_idI, simp)
qed (use assms(3) in \<open>auto simp: owned_by_def\<close>)

lemma quota_wrote:
  assumes "wrote env org b args s s'" and "within_quota env B K s"
    and "inj (sb_new_id env)" and "\<And>t. 0 \<le> utf8_bytes env t"
    and "storageBytes (b_limits b) \<le> B (b_extension b)" and "storageKeys (b_limits b) \<le> K (b_extension b)"
  shows "within_quota env B K s'"
proof -
  have ids: "ids_sound env s'" using ids_wrote [OF assms(1) _ assms(3)] assms(2) by (simp add: within_quota_def)
  from assms(1) show ?thesis
  proof cases
    case nothing
    with assms(2) show ?thesis by simp
  next
    case (replaced r n)
    let ?v = "json_column (coalesce (getp ''value'' args) Null)"
    have r: "r \<in> set (sb_keyspace s)" "owned_by org (b_extension b) r" using replaced(1) by (auto simp: find_Some_iff)
    have d: "distinct (map row_id (sb_keyspace s))" using assms(2) by (simp add: within_quota_def ids_sound_def)
    have "0 \<le> n" using replaced(2) assms(4) by simp
    then have rows: "\<forall>x \<in> set (sb_keyspace s'). 0 \<le> y_bytes (contents x)"
      using assms(2) by (auto simp: within_quota_def replaced(4))
    have "bytes_held o' e' (sb_keyspace s') \<le> B e' \<and> keys_held o' e' (sb_keyspace s') \<le> K e'" for o' e'
    proof -
      have "bytes_held o' e' (sb_keyspace s) + (if owned_by o' e' r then n - y_bytes (contents r) else 0) \<le> B e'"
      proof (cases "owned_by o' e' r")
        case True
        with r(2) have "o' = org" "e' = b_extension b" by (auto simp: owned_by_def)
        with replaced(3) assms(5) True show ?thesis by simp
      next
        case False
        with assms(2) show ?thesis by (simp add: within_quota_def)
      qed
      then show ?thesis
        using held_rewritten [OF d r(1), of org o' e' ?v n] r(2) assms(2) by (simp add: owned_by_def within_quota_def replaced(4))
    qed
    with ids rows show ?thesis by (simp add: within_quota_def)
  next
    case (added n)
    have "bytes_held o' e' (sb_keyspace s') \<le> B e' \<and> keys_held o' e' (sb_keyspace s') \<le> K e'" for o' e'
      using assms(2,5,6) added(3,4) by (auto simp: added(5) bytes_held_def keys_held_def owned_by_def within_quota_def)
    with ids show ?thesis using assms(2,4) added(2) by (simp add: within_quota_def added(5))
  qed
qed

definition touches :: "'w sandbox \<Rightarrow> keyspace_data table \<times> nat" where
  "touches s = (sb_keyspace s, sb_next s)"

lemma touches_leaves [leaves_intros]:
  "leaves touches (ask env ctx c)" "leaves touches (send_out env tm rq)" "leaves touches (liftH x)"
  by (auto simp: leaves_def ask_def send_out_def liftH_def touches_def comp_eval split: prod.split sum.split)

lemma touches_handlers [leaves_intros]:
  "leaves touches (get_handler ctx b args)" "leaves touches (keys_handler ctx b args)" "leaves touches (egress env ctx tm b args cr)"
  "leaves touches (describe_org env ctx)" "leaves touches (list_triggers ctx b)" "leaves touches (list_credentials env ctx)"
  unfolding get_handler_def keys_handler_def egress_def egress_headers_def describe_org_def list_triggers_def list_credentials_def Let_def
  by (intro leaves_intros)+

lemma other_handlers: "list_all (\<lambda>(meth, m). meth \<noteq> ''state.set'' \<longrightarrow> meth \<noteq> ''state.delete'' \<longrightarrow> leaves touches m) (handlers env ctx tm b args)"
  unfolding handlers_def list.pred_inject prod.case
  by (intro conjI impI list.pred_inject(1); (simp; fail)?; (intro leaves_intros)?)

lemma set_delete_handlers:
  "map_of (handlers env ctx tm b args) ''state.set'' = Some (set_handler env ctx b args)"
  "map_of (handlers env ctx tm b args) ''state.delete'' = Some (delete_handler ctx b args)"
  by (simp_all add: handlers_def)

lemma tenantless:
  assumes "tenant ctx = Inl e"
  shows "sb_keyspace (snd (set_handler env ctx b args s)) = sb_keyspace s" "sb_next (snd (set_handler env ctx b args s)) = sb_next s"
    and "sb_keyspace (snd (delete_handler ctx b args s)) = sb_keyspace s" "sb_next (snd (delete_handler ctx b args s)) = sb_next s"
  using assms by (auto simp: set_handler_def delete_handler_def drop_state_def with_text_def liftH_def required_def bindS_def readS_def
      usage_def bindE_def in_host_def doneS_def Let_def split: repo_error.split)

lemma delete_filters: "\<exists>P. sb_keyspace (snd (delete_handler ctx b args s)) = filter P (sb_keyspace s)
    \<and> sb_next (snd (delete_handler ctx b args s)) = sb_next s \<and> (\<forall>r. \<not> P r \<longrightarrow> (\<exists>org. tenant ctx = Inr org \<and> owned_by org (b_extension b) r))"
proof (cases "tenant ctx")
  case (Inl e)
  then show ?thesis by (intro exI [of _ "\<lambda>r. True"]) (simp add: tenantless [OF Inl])
next
  case (Inr org)
  let ?P = "\<lambda>r. \<not> (owned_by org (b_extension b) r \<and> y_key (contents r) = text_arg args ''key'' [])"
  have "snd (delete_handler ctx b args s) = s \<or> snd (delete_handler ctx b args s) = s\<lparr>sb_keyspace := filter ?P (sb_keyspace s)\<rparr>"
    using Inr by (auto simp: delete_handler_def drop_state_def with_text_def liftH_def required_def bindS_def readS_def doneS_def
        delete_many_def scope_entry)
  then show ?thesis
  proof
    assume "snd (delete_handler ctx b args s) = s"
    then show ?thesis by (intro exI [of _ "\<lambda>r. True"]) simp
  next
    assume "snd (delete_handler ctx b args s) = s\<lparr>sb_keyspace := filter ?P (sb_keyspace s)\<rparr>"
    with Inr show ?thesis by (intro exI [of _ ?P]) simp
  qed
qed

lemma ids_filter: "ids_sound env s \<Longrightarrow> sb_keyspace s' = filter P (sb_keyspace s) \<Longrightarrow> sb_next s' = sb_next s \<Longrightarrow> ids_sound env s'"
  by (simp add: ids_sound_def distinct_map_filter)

lemma quota_filter:
  assumes "within_quota env B K s" and "sb_keyspace s' = filter P (sb_keyspace s)" and "sb_next s' = sb_next s"
  shows "within_quota env B K s'"
proof -
  have "\<forall>r \<in> set (sb_keyspace s). 0 \<le> y_bytes (contents r)" using assms(1) by (simp add: within_quota_def)
  from held_filter [OF this]
  have "bytes_held o' e' (sb_keyspace s') \<le> B e' \<and> keys_held o' e' (sb_keyspace s') \<le> K e'" for o' e'
    using assms(1) order_trans unfolding within_quota_def assms(2) by blast
  with assms ids_filter show ?thesis by (auto simp: within_quota_def)
qed

definition counts_grow :: "'w sandbox \<Rightarrow> 'w sandbox \<Rightarrow> bool" where
  "counts_grow s s' \<longleftrightarrow> sb_keyspace s' = sb_keyspace s \<and> sb_next s \<le> sb_next s'"

lemma ids_grow: "ids_sound env s \<Longrightarrow> counts_grow s s' \<Longrightarrow> ids_sound env s'"
  unfolding ids_sound_def counts_grow_def by (metis order_less_le_trans)

lemma quota_grow: "within_quota env B K s \<Longrightarrow> counts_grow s s' \<Longrightarrow> within_quota env B K s'"
  using ids_grow unfolding within_quota_def by (metis counts_grow_def)

lemma grow_record: "counts_grow s (record_call env ctx tm b meth d reason args s)"
  by (auto simp: counts_grow_def record_call_def split: prod.split sum.split)

lemma grow_consume: "counts_grow s (snd (consume env tm key most s))"
  by (auto simp: counts_grow_def consume_def consume_locally_def Let_def split: prod.split option.split)

fun within_limits :: "(string \<Rightarrow> int) \<Rightarrow> (string \<Rightarrow> int) \<Rightarrow> host_request \<Rightarrow> bool" where
  "within_limits B K (ctx, tm, b, meth, args) \<longleftrightarrow>
     storageBytes (b_limits b) \<le> B (b_extension b) \<and> storageKeys (b_limits b) \<le> K (b_extension b)"

text \<open>What the two writing handlers keep, every call keeps.\<close>

lemma keyspace_invariant:
  assumes "P s" and grow: "\<And>x y. P x \<Longrightarrow> counts_grow x y \<Longrightarrow> P y"
    and sets: "\<And>x. P x \<Longrightarrow> P (snd (set_handler env ctx b args x))"
    and deletes: "\<And>x. P x \<Longrightarrow> P (snd (delete_handler ctx b args x))"
  shows "P (snd (invoke env ctx tm b meth args s))"
proof -
  have handler: "P (snd (m x))" if m: "map_of (handlers env ctx tm b args) meth = Some m" and x: "P x" for m x
  proof (cases "meth = ''state.set'' \<or> meth = ''state.delete''")
    case True
    with m set_delete_handlers [of env ctx tm b args] sets [OF x] deletes [OF x] show ?thesis by (metis option.inject)
  next
    case False
    with m other_handlers [of env ctx tm b args] have "leaves touches m" by (auto simp: list_all_iff dest!: map_of_SomeD)
    then have "touches (snd (m x)) = touches x" by (metis leavesD prod.collapse)
    then show ?thesis by (intro grow [OF x]) (simp add: touches_def counts_grow_def)
  qed
  have dispatches: "P (snd (dispatch env ctx tm b meth args x))" if x: "P x" for x
  proof (cases "map_of (handlers env ctx tm b args) meth")
    case None
    with grow [OF x grow_record] show ?thesis by (simp add: dispatch_def denied_def)
  next
    case (Some m)
    obtain r s0 where 0: "m x = (r, s0)" by (cases "m x")
    with handler [OF Some x] have "P s0" by simp
    with 0 Some grow [OF _ grow_record] show ?thesis by (auto simp: dispatch_def in_time_def split: sum.split)
  qed
  obtain p1 s1 where 1: "consume env tm (b_extension b @ '':all'') (callsPerMinute (b_limits b)) s = (p1, s1)"
    by (cases "consume env tm (b_extension b @ '':all'') (callsPerMinute (b_limits b)) s")
  obtain p2 s2 where 2: "consume env tm (b_extension b @ '':http'') (httpRequestsPerMinute (b_limits b)) s1 = (p2, s2)"
    by (cases "consume env tm (b_extension b @ '':http'') (httpRequestsPerMinute (b_limits b)) s1")
  have q1: "P s1" using grow [OF assms(1) grow_consume] 1 by (metis snd_conv)
  then have q2: "P s2" using grow [OF _ grow_consume] 2 by (metis snd_conv)
  note recs = grow [OF assms(1) grow_record] grow [OF q1 grow_record] grow [OF q2 grow_record]
  show ?thesis
    using 1 2 recs dispatches [OF q1] dispatches [OF q2]
    by (auto simp: invoke_def denied_def throttled_def split: option.split bool.split)
qed

lemma writes:
  assumes "\<And>org s s'. tenant ctx = Inr org \<Longrightarrow> wrote env org b args s s' \<Longrightarrow> P s \<Longrightarrow> P s'"
    and "\<And>x y. P x \<Longrightarrow> counts_grow x y \<Longrightarrow> P y" and "P s"
  shows "P (snd (set_handler env ctx b args s))"
proof (cases "tenant ctx")
  case (Inl e)
  show ?thesis by (rule assms(2) [OF assms(3)]) (simp add: counts_grow_def tenantless [OF Inl])
next
  case (Inr org)
  from assms(1) [OF Inr set_writes(1) [OF Inr] assms(3)] show ?thesis .
qed

text \<open>Ids are fresh, and a text has no negative length.\<close>

definition metered :: "'w sandbox_env \<Rightarrow> bool" where
  "metered env \<longleftrightarrow> inj (sb_new_id env) \<and> (\<forall>t. 0 \<le> utf8_bytes env t)"

lemma quota_step:
  assumes "within_quota env B K s" and "metered env \<and> within_limits B K p"
  shows "within_quota env B K (snd (sandbox_step env p s))"
proof (cases p)
  case (fields ctx tm b meth args)
  have set: "within_quota env B K (snd (set_handler env ctx b args x))" if "within_quota env B K x" for x
    using that by (rule writes [rotated 2]) (use assms(2) fields in \<open>auto intro: quota_wrote quota_grow simp: metered_def\<close>)
  have delete: "within_quota env B K (snd (delete_handler ctx b args x))" if "within_quota env B K x" for x
    using that delete_filters [of ctx b args x] quota_filter by blast
  from keyspace_invariant [of "within_quota env B K", OF assms(1) quota_grow set delete] show ?thesis by (simp add: fields)
qed

interpretation quota: kept "within_quota env B K" "sandbox_step env" "\<lambda>p. metered env \<and> within_limits B K p" for env B K
  by unfold_locales (rule quota_step)



section \<open>Private keyspaces\<close>

definition rows_of :: "string \<Rightarrow> string \<Rightarrow> 'w sandbox \<Rightarrow> keyspace_data table" where
  "rows_of org ext s = filter (owned_by org ext) (sb_keyspace s)"

text \<open>A call of another extension, or in another organization.\<close>

fun foreign :: "string \<Rightarrow> string \<Rightarrow> host_request \<Rightarrow> bool" where
  "foreign org ext (ctx, tm, b, meth, args) \<longleftrightarrow> tenant ctx \<noteq> Inr org \<or> b_extension b \<noteq> ext"

lemma ids_step:
  assumes "ids_sound env s" and "inj (sb_new_id env)"
  shows "ids_sound env (snd (sandbox_step env p s))"
proof (cases p)
  case (fields ctx tm b meth args)
  have set: "ids_sound env (snd (set_handler env ctx b args x))" if "ids_sound env x" for x
    using that by (rule writes [rotated 2]) (use assms(2) in \<open>auto intro: ids_wrote ids_grow\<close>)
  have delete: "ids_sound env (snd (delete_handler ctx b args x))" if "ids_sound env x" for x
    using that delete_filters [of ctx b args x] ids_filter by blast
  from keyspace_invariant [of "ids_sound env", OF assms(1) ids_grow set delete] show ?thesis by (simp add: fields)
qed

lemma private_step:
  assumes "ids_sound env s \<and> rows_of org ext s = F" and "inj (sb_new_id env) \<and> foreign org ext p"
  shows "ids_sound env (snd (sandbox_step env p s)) \<and> rows_of org ext (snd (sandbox_step env p s)) = F"
proof (cases p)
  case (fields ctx tm b meth args)
  let ?P = "\<lambda>x. ids_sound env x \<and> rows_of org ext x = F"
  have other: "tenant ctx = Inr o1 \<Longrightarrow> org \<noteq> o1 \<or> ext \<noteq> b_extension b" for o1 using assms(2) fields by auto
  have grow: "?P x \<Longrightarrow> counts_grow x y \<Longrightarrow> ?P y" for x y using ids_grow by (auto simp: rows_of_def counts_grow_def)
  have put: "?P y" if "tenant ctx = Inr o1" "wrote env o1 b args x y" "?P x" for o1 x y
    using ids_wrote [OF that(2)] others_wrote [OF that(2) _ other [OF that(1)]] that(3) assms(2) by (simp add: rows_of_def)
  have set: "?P (snd (set_handler env ctx b args x))" if "?P x" for x
    by (rule writes [of ctx env b args ?P, OF put grow that])
  have delete: "?P (snd (delete_handler ctx b args x))" if x: "?P x" for x
  proof -
    obtain Q where Q: "sb_keyspace (snd (delete_handler ctx b args x)) = filter Q (sb_keyspace x)"
      "sb_next (snd (delete_handler ctx b args x)) = sb_next x" "\<forall>r. \<not> Q r \<longrightarrow> (\<exists>o1. tenant ctx = Inr o1 \<and> owned_by o1 (b_extension b) r)"
      using delete_filters [of ctx b args x] by blast
    have "owned_by org ext r \<Longrightarrow> Q r" for r using Q(3) other by (force simp: owned_by_def)
    then have "filter (owned_by org ext) (filter Q (sb_keyspace x)) = filter (owned_by org ext) (sb_keyspace x)"
      unfolding filter_filter by (intro filter_cong) auto
    with x Q(1,2) ids_filter show ?thesis by (auto simp: rows_of_def)
  qed
  from keyspace_invariant [of ?P, OF assms(1) grow set delete] show ?thesis by (simp add: fields)
qed

interpretation ids: kept "ids_sound env" "sandbox_step env" "\<lambda>p. inj (sb_new_id env)" for env
  by unfold_locales (rule ids_step)

interpretation apart: kept "\<lambda>s. ids_sound env s \<and> rows_of org ext s = F" "sandbox_step env"
    "\<lambda>p. inj (sb_new_id env) \<and> foreign org ext p" for env org ext F
  by unfold_locales (rule private_step)

lemma ids_after: "inj (sb_new_id env) \<Longrightarrow> sb_keyspace s = [] \<Longrightarrow> ids_sound env (snd (run_ops (sandbox_step env) calls s))"
  by (rule ids.kept_run) (simp_all add: ids_sound_def)

text \<open>C16: The keyspace of an extension is its own. After any history, however many calls other extensions make, or the same
  extension in other organizations, by whatever method: the rows the extension holds in the organization are the ones it
  held before.\<close>

theorem keyspaces_are_private:
  assumes "inj (sb_new_id env)" and "sb_keyspace s = []" and "list_all (foreign org ext) strangers"
  shows "rows_of org ext (snd (run_ops (sandbox_step env) (calls @ strangers) s)) = rows_of org ext (snd (run_ops (sandbox_step env) calls s))"
proof -
  have "ids_sound env (snd (run_ops (sandbox_step env) calls s))" using assms(1,2) by (rule ids_after)
  then have "rows_of org ext (snd (run_ops (sandbox_step env) strangers (snd (run_ops (sandbox_step env) calls s))))
      = rows_of org ext (snd (run_ops (sandbox_step env) calls s))"
    using apart.kept_run [of env "snd (run_ops (sandbox_step env) calls s)" org ext "rows_of org ext (snd (run_ops (sandbox_step env) calls s))" strangers]
      assms(1,3) by (simp add: list_all_iff)
  then show ?thesis by (simp add: run_ops_append split_beta)
qed

lemma find_within: "List.find (\<lambda>r. P r \<and> Q r) xs = List.find Q (filter P xs)"
  by (induction xs) auto

lemma invoke_Inr:
  assumes "invoke env ctx tm b meth args s = (Inr v, s')"
  obtains x m y where "sb_keyspace x = sb_keyspace s" "map_of (handlers env ctx tm b args) meth = Some m" "m x = (Inr v, y)"
    "sb_keyspace s' = sb_keyspace y"
proof -
  obtain p1 s1 where 1: "consume env tm (b_extension b @ '':all'') (callsPerMinute (b_limits b)) s = (p1, s1)"
    by (cases "consume env tm (b_extension b @ '':all'') (callsPerMinute (b_limits b)) s")
  obtain p2 s2 where 2: "consume env tm (b_extension b @ '':http'') (httpRequestsPerMinute (b_limits b)) s1 = (p2, s2)"
    by (cases "consume env tm (b_extension b @ '':http'') (httpRequestsPerMinute (b_limits b)) s1")
  have same: "sb_keyspace s1 = sb_keyspace s" "sb_keyspace s2 = sb_keyspace s"
    using consumed(1) [of env tm "b_extension b @ '':all''" "callsPerMinute (b_limits b)" s] 1
      consumed(1) [of env tm "b_extension b @ '':http''" "httpRequestsPerMinute (b_limits b)" s1] 2 by (simp_all add: reach_def)
  obtain x where x: "dispatch env ctx tm b meth args x = (Inr v, s')" "sb_keyspace x = sb_keyspace s"
    using assms 1 2 same by (auto simp: invoke_def denied_def throttled_def split: option.splits bool.splits if_splits)
  obtain m where m: "map_of (handlers env ctx tm b args) meth = Some m" using x(1) by (auto simp: dispatch_def denied_def split: option.splits)
  obtain r y where y: "m x = (r, y)" by (cases "m x")
  have "r = Inr v" "s' = record_call env ctx tm b meth ALLOWED None args y"
    using x(1) m y by (auto simp: dispatch_def in_time_def split: sum.splits if_splits)
  with that [OF x(2) m] y grow_record [of y env ctx tm b meth ALLOWED None args] show thesis by (simp add: counts_grow_def)
qed


lemma demo_ids: "inj (sb_new_id demo_env)"
  unfolding demo_env_def by (auto intro!: injI dest: arg_cong [of _ _ length])

theorem keyspaces_are_private_witness:
  "rows_of ''acme'' ''x2'' (snd (run_ops (sandbox_step demo_env) [(demo_ctx, 0, demo_binding, ''state.set'', demo_set)] demo_sandbox)) = []"
  using keyspaces_are_private [OF demo_ids, of demo_sandbox "''acme''" "''x2''" "[(demo_ctx, 0, demo_binding, ''state.set'', demo_set)]" "[]"]
  by (simp add: demo_sandbox_def demo_binding_def rows_of_def)

text \<open>A value stored and read back.\<close>

definition demo_stored :: "(host_error + json) \<times> unit sandbox" where
  "demo_stored = invoke demo_env demo_ctx 0 demo_binding ''state.set'' demo_set demo_sandbox"

definition demo_read :: "(host_error + json) \<times> unit sandbox" where
  "demo_read = invoke demo_env demo_ctx 1 demo_binding ''state.get'' demo_set (snd demo_stored)"

lemma demo_args [simp]: "text_arg demo_set ''key'' [] = ''k''" "coalesce (getp ''value'' demo_set) Null = JBool True"
  by (simp_all add: demo_set_def text_arg_def getp_def coalesce_def nullish_def)

lemma demo_set_run:
  assumes "sb_keyspace s = []"
  shows "set_handler demo_env demo_ctx demo_binding demo_set s = (Inr (JObj [(''stored'', JBool True)]),
    s\<lparr>sb_keyspace := [\<lparr>row_id = sb_new_id demo_env (sb_next s), row_org = ''acme'', row_deleted = None,
       contents = \<lparr>y_extension = ''x1'', y_key = ''k'', y_value = json_column (JBool True), y_bytes = 4\<rparr>\<rparr>], sb_next := Suc (sb_next s)\<rparr>)"
  using assms
  by (simp add: set_handler_def with_text_def liftH_def required_def bindS_def readS_def doneS_def Let_def usage_held [OF demo_tenant]
      get_state_find [OF demo_tenant] put_state_def create_entry_def create_row_def demo_tenant bytes_held_def keys_held_def bytes_of_def
      demo_binding_def PLATFORM_LIMITS_def bindE_def in_host_def) (simp add: demo_env_def)

lemma invoke_goes:
  assumes "authorize (b_capabilities b) meth = None" "\<not> starts_with ''http.'' meth" "cache_up env tm" "\<not> overruns env tm meth"
    and "sb_shared s (window_key (b_extension b @ '':all'') tm) < callsPerMinute (b_limits b)"
    and "map_of (handlers env ctx tm b args) meth = Some m"
  obtains x where "sb_keyspace x = sb_keyspace s" "sb_next x = sb_next s"
    "sb_shared x = (sb_shared s)(window_key (b_extension b @ '':all'') tm := sb_shared s (window_key (b_extension b @ '':all'') tm) + 1)"
    "\<And>v y. m x = (Inr v, y) \<Longrightarrow> invoke env ctx tm b meth args s = (Inr v, record_call env ctx tm b meth ALLOWED None args y)"
proof -
  let ?k = "window_key (b_extension b @ '':all'') tm"
  let ?x = "s\<lparr>sb_shared := (sb_shared s)(?k := sb_shared s ?k + 1)\<rparr>"
  have "invoke env ctx tm b meth args s = dispatch env ctx tm b meth args ?x"
    using assms(1-5) by (simp add: invoke_def consume_def Let_def)
  with that [of ?x] assms(4,6) show thesis by (simp add: dispatch_def in_time_def)
qed

lemma demo_stored:
  obtains y where "demo_stored = (Inr (JObj [(''stored'', JBool True)]), y)"
    "sb_keyspace y = [\<lparr>row_id = [], row_org = ''acme'', row_deleted = None,
       contents = \<lparr>y_extension = ''x1'', y_key = ''k'', y_value = json_column (JBool True), y_bytes = 4\<rparr>\<rparr>]"
    "sb_shared y (window_key ''x1:all'' 1) \<le> 1"
proof -
  have c: "authorize (b_capabilities demo_binding) ''state.set'' = None" "cache_up demo_env 0" "\<not> overruns demo_env 0 ''state.set''"
    "sb_shared demo_sandbox (window_key (b_extension demo_binding @ '':all'') 0) < callsPerMinute (b_limits demo_binding)"
    using demo_allowed by (simp_all add: demo_binding_def demo_env_def demo_sandbox_def PLATFORM_LIMITS_def)
  obtain x where x: "sb_keyspace x = sb_keyspace demo_sandbox" "sb_next x = sb_next demo_sandbox"
    "sb_shared x = (sb_shared demo_sandbox)(window_key (b_extension demo_binding @ '':all'') 0 := sb_shared demo_sandbox (window_key (b_extension demo_binding @ '':all'') 0) + 1)"
    "\<And>v y. set_handler demo_env demo_ctx demo_binding demo_set x = (Inr v, y) \<Longrightarrow>
      invoke demo_env demo_ctx 0 demo_binding ''state.set'' demo_set demo_sandbox = (Inr v, record_call demo_env demo_ctx 0 demo_binding ''state.set'' ALLOWED None demo_set y)"
    by (rule invoke_goes [OF c(1) demo_starts(1) c(2,3,4) set_delete_handlers(1)]) (blast intro: that)
  have empty: "sb_keyspace x = []" "sb_next x = 0" using x(1,2) by (simp_all add: demo_sandbox_def)
  from x(4) [OF demo_set_run [OF empty(1)]] x(3) show thesis
    by (intro that) (auto simp: demo_stored_def record_call_def create_row_def demo_tenant empty(2) demo_sandbox_def demo_env_def demo_binding_def)
qed

lemma demo_read: "\<exists>w z. demo_read = (Inr w, z)"
proof -
  obtain y where y: "demo_stored = (Inr (JObj [(''stored'', JBool True)]), y)"
    "sb_keyspace y = [\<lparr>row_id = [], row_org = ''acme'', row_deleted = None,
       contents = \<lparr>y_extension = ''x1'', y_key = ''k'', y_value = json_column (JBool True), y_bytes = 4\<rparr>\<rparr>]"
    "sb_shared y (window_key ''x1:all'' 1) \<le> 1"
    by (rule demo_stored)
  have c: "authorize (b_capabilities demo_binding) ''state.get'' = None" "cache_up demo_env 1" "\<not> overruns demo_env 1 ''state.get''"
    "sb_shared y (window_key (b_extension demo_binding @ '':all'') 1) < callsPerMinute (b_limits demo_binding)"
    using demo_allowed y(3) by (simp_all add: demo_binding_def demo_env_def PLATFORM_LIMITS_def)
  have table: "map_of (handlers demo_env demo_ctx 1 demo_binding demo_set) ''state.get'' = Some (get_handler demo_ctx demo_binding demo_set)"
    by (simp add: handlers_def)
  obtain x where x: "sb_keyspace x = sb_keyspace y"
    "\<And>v z. get_handler demo_ctx demo_binding demo_set x = (Inr v, z) \<Longrightarrow>
      invoke demo_env demo_ctx 1 demo_binding ''state.get'' demo_set y = (Inr v, record_call demo_env demo_ctx 1 demo_binding ''state.get'' ALLOWED None demo_set z)"
    by (rule invoke_goes [OF c(1) demo_starts(2) c(2,3,4) table]) (blast intro: that)
  have "\<exists>v z. get_handler demo_ctx demo_binding demo_set x = (Inr v, z)"
    by (simp add: get_handler_def with_text_def liftH_def required_def bindS_def readS_def doneS_def get_state_find [OF demo_tenant])
  with x(2) show ?thesis unfolding demo_read_def y(1) snd_conv by blast
qed


end
