(* ===== verification/Spec2Isabelle.thy ===== *)
theory Spec2Isabelle
  imports SemVer Capabilities Constitution OutboundHttp WorkflowRuns BoundedMap MemorySync AppendBuffer EvolutionEngine ExtensionEvents ExtensionUpgrades ExtensionLife SandboxStorage
begin

text \<open>
  A verification library for the backend of PRISM-X (\<open>src/backend/src\<close>), a multi-tenant automation
  platform: extensions with declared capabilities, workflows that call adapters and wait for people,
  nodes that share memory, and an engine that changes the configuration of workers and workflows
  under laws of its own. Modelled is the logic that decides what may happen and what is written;
  the HTTP surface, the vendor calls and the database engine are not.

  \<^bold>\<open>Conventions.\<close> Code that may throw returns a sum, \<open>Inl\<close> the thrown error. Code that changes
  state takes it and returns it; \<open>StateError\<close> has the sequencing of handlers that do both, with an
  error keeping what was written before it. A loop of the sources is a recursive function with a
  termination proof; where the code has a bound of its own (200 steps and 100 iterations of a
  workflow, 5 parallel children, the redirect limit of a request, batches of 200 entries and 10
  batches of a recovery) the model has the same number, and no fuel is used. A database table is the
  list of its rows, ids being unique in it. An operation runs to its end before the next one starts,
  except where a theory says which steps interleave (\<open>WorkflowRuns\<close>, \<open>AppendBuffer\<close>), and reads the
  clock once. Code that is not in the repository is a parameter: the URL parser, the name resolver,
  \<open>node:http\<close>, SHA-256, the printing of numbers, the collation, the supply of new ids, what the
  database objects to in an update, adapters and decisions. Where a property relies on one, the
  documented behaviour is a named hypothesis: new ids differ (\<open>inj\<close> of the id supply), a serialised
  URL parses back to itself (\<open>parses_back\<close>), the cursors of a node belong to the organization that
  pulls (\<open>own_cursors\<close>).

  \<^bold>\<open>Foundations.\<close>
  \<^item> \<open>Prelude\<close>: strings, insertion-ordered objects, three-way comparison (locale \<open>comparator\<close>,
    interpreted by every order the sources sort with), stable sorting, errors.
  \<^item> \<open>JsNum\<close>, \<open>JsValue\<close>: numbers as doubles, their text, JSON values with \<open>undefined\<close>.
  \<^item> \<open>Simulation\<close>: sequences of operations; the locales \<open>kept\<close> (an invariant every operation keeps)
    and \<open>simulation\<close> (every operation answers as an abstract specification allows).
  \<^item> \<open>StateError\<close>: state with errors; what a handler leaves alone and what it keeps.

  \<^bold>\<open>Extensions and versions.\<close>
  \<^item> \<open>SemVer\<close> (\<open>platform/semver.ts\<close>): parsing, precedence, ranges. Precedence is a total preorder given
    by a sort key; a caret range is an interval.
  \<^item> \<open>Permissions\<close> (\<open>auth/permissions.ts\<close>, \<open>auth/guards/permissions.guard.ts\<close>): the catalogue, the
    role bundles, the guard.
  \<^item> \<open>Capabilities\<close> (\<open>platform/capabilities.ts\<close>): the catalogue, grants, the check of a host call.
    No grant, and nothing attenuated from one, exceeds the permissions of who installed it.
  \<^item> \<open>Manifest\<close> (\<open>platform/manifest.ts\<close>): validation, limits, the signed digest, the analysis of an
    upgrade, settings. A validated manifest is sound.
  \<^item> \<open>Contributions\<close> (\<open>platform/contribution.service.ts\<close>, \<open>database/repositories/platform.repositories.ts\<close>):
    the tables of installed extensions, registration of workers, tools and triggers, the resolution of
    contributed tools. Extension code is a parameter, a function of the hook, its context and the
    tables it can reach; every run of it is logged in the state with the grant it ran under.
  \<^item> \<open>ExtensionRuntime\<close> (\<open>platform/extension-runtime.service.ts\<close>, the bridge of
    \<open>extensions/extensions.module.ts\<close>): installation, decisions, upgrades, rollback, removal, delivery,
    calls, over the tables of \<open>Contributions\<close>, the grants of \<open>Capabilities\<close>, the analysis of \<open>Manifest\<close> and
    the module cache of \<open>BoundedMap\<close>; \<open>extension_step\<close> is one operation by one principal.
  \<^item> \<open>ExtensionSafety\<close>: no extension exceeds the people of its organization; a slug is installed once.
    \<open>ExtensionLife\<close>: which code runs in which status, the state machine of the status and its gates.
    \<open>ExtensionUpgrades\<close>: an upgrade without consent keeps the deal. \<open>ExtensionEvents\<close>: every subscriber
    hears an event.
  \<^item> \<open>Sandbox\<close> (\<open>platform/sandbox.service.ts\<close>): the calls of extension code to the platform, \<open>invoke\<close>, on
    one state of keyspace, log, counters and requests sent; the handlers are a table, \<open>authorize\<close> of
    \<open>Capabilities\<close> decides, \<open>OutboundHttp\<close> sends. \<open>SandboxSafety\<close>: every call is checked and recorded, within its
    rate, and at most one marked request goes out. \<open>SandboxStorage\<close>: private keyspaces, their quota, what is read back.

  \<^bold>\<open>Outbound requests.\<close>
  \<^item> \<open>EgressGuard\<close> (\<open>shared/http/egress-guard.ts\<close>): classification of addresses as 32-bit words and
    bytes, policies, URL checks. The table lookup is proved equal to intervals.
  \<^item> \<open>EgressPolicies\<close> (\<open>shared/http/egress-policies.ts\<close>): the policies of an installation, the boot check.
  \<^item> \<open>OutboundHttp\<close> (\<open>shared/http/outbound-http.service.ts\<close>): the redirect loop. Every connection goes
    to an address the guard approved, credentials stay on their origin, the loop ends.

  \<^bold>\<open>Workflows.\<close>
  \<^item> \<open>WorkflowData\<close> (\<open>integrations/connectors/http-connector.ts\<close>,
    \<open>workflows/execution/execution-adapter.contract.ts\<close>): templates, paths, conditions, columns.
  \<^item> \<open>WorkflowEngine\<close> (\<open>workflows/workflow-engine.service.ts\<close>): the interpreter of a definition.
  \<^item> \<open>WorkflowRuns\<close> (same file): start, resume, cancel, retry and the outcome writes as interleaved
    calls, with an invariant over everything they can reach.

  \<^bold>\<open>Tenancy, storage and shared memory.\<close>
  \<^item> \<open>Repository\<close> (\<open>database/repositories/base.repository.ts\<close>, \<open>shared/context/request-context.ts\<close>):
    the scope of every query. Reads and writes are confined to the tenant of the request.
  \<^item> \<open>BoundedMap\<close> (\<open>shared/bounded-map.ts\<close>): refines an abstract least-recently-used cache.
  \<^item> \<open>AppendBuffer\<close> (\<open>database/append-buffer.ts\<close>): no row is lost uncounted, and the buffer can drain.
  \<^item> \<open>VectorClock\<close>, \<open>MemorySync\<close> (\<open>distributed/memory-sync.service.ts\<close>,
    \<open>database/repositories/distributed.repositories.ts\<close>): shards, clocks, conflicts, the log nodes pull
    from, recovery. Built on \<open>Repository\<close>.

  \<^bold>\<open>Evolution.\<close>
  \<^item> \<open>Constitution\<close> (\<open>evolution/constitution.ts\<close>): the nine laws and the review of an intent.
  \<^item> \<open>EvolutionPolicy\<close> (\<open>evolution/policy.service.ts\<close>): the limits an organization sets itself.
  \<^item> \<open>Versions\<close> (\<open>evolution/version.service.ts\<close> and its repository): the history of what evolves, with
    one active version and gapless numbers in each lineage, and nothing ever rewritten.
  \<^item> \<open>Deployments\<close> (\<open>evolution/deployment.service.ts\<close> and the evolution repositories): approval, review,
    deployment, refusal, rollback, monitoring, the sweep, over the tables of \<open>Versions\<close> and of evolution.
  \<^item> \<open>DeploymentSafety\<close>: only admitted changes are written, a refusal writes records only.
    \<open>Rollback\<close>: a rollback restores what its deployment overwrote. \<open>EvolutionEngine\<close>: all operations
    in any order; deployment records and version histories under them.

  \<^bold>\<open>Interfaces.\<close> \<open>comparator\<close> is interpreted by the orders of \<open>SemVer\<close>, \<open>VectorClock\<close>, \<open>MemorySync\<close>,
  \<open>Versions\<close>; \<open>causality\<close> by the vector clocks; \<open>simulation\<close> by \<open>BoundedMap\<close> and \<open>ExtensionLife\<close>; \<open>kept\<close> by \<open>BoundedMap\<close>,
  \<open>Repository\<close>, \<open>MemorySync\<close>, \<open>AppendBuffer\<close>, \<open>Versions\<close>, \<open>EvolutionEngine\<close> and the theories of extensions. The properties use the facts of
  these interpretations.

  \<^bold>\<open>Not modelled.\<close> The controllers, modules and DTOs (routing of the framework), the Prisma
  client and SQL, the vendor adapters and connectors, authentication (argon2, JWT, a remote
  identity provider), node transports, the worker threads that run extensions, backup and metrics,
  the statistics of learning and of experiments (square roots and logarithms on doubles), and the
  browser front end. Within the modelled parts: logging, the delivery of events to others than extensions, the
  services behind the handlers of the sandbox (the code of an extension in \<open>ExtensionRuntime\<close> is not tied to
  \<open>Sandbox\<close>: there it may do anything to workers and its keyspace), the PATCH of an extension's row outside the runtime,
  transactions that fail half way, the interleaving of two operations of one component other than
  those named above, and the children of a parallel step in any order but that of the list. The
  table of workflows is fixed while runs are driven.
\<close>

end
